(* ===== verification/Pio_Prelude.thy ===== *)
theory Pio_Prelude
  imports "HOL-Library.Word"
begin

text \<open>
  Shared vocabulary of the development: the C integer types of the sources, the collections of
  rewrite rules the component theories add to, and the generic facts about words, masks and
  folds that more than one component needs.  Nothing in this theory is specific to the PIO block.
\<close>

unbundle bit_operations_syntax

section \<open>C integer types\<close>

type_synonym u8 = "8 word"
type_synonym u16 = "16 word"
type_synonym u32 = "32 word"
type_synonym u64 = "64 word"

named_theorems frame \<open>what an operation leaves unchanged, as rewrite rules on the observers\<close>
named_theorems store_simps \<open>reading back what an operation wrote\<close>
named_theorems wf_intros \<open>operations that keep a well-formedness invariant\<close>

section \<open>Single bits and masks\<close>

text \<open>The one-bit mask \<open>(uint64_t)1U << n\<close>, used by every pin access of the sources.\<close>

definition bit64 :: "nat \<Rightarrow> u64" where
  "bit64 n = push_bit n 1"

lemma bit_bit64 [simp]: "bit (bit64 n) k \<longleftrightarrow> k = n \<and> n < 64"
  by (auto simp: bit64_def bit_simps)

lemma word_bit_lt: "bit (w :: 'a::len word) k \<Longrightarrow> k < LENGTH('a)"
  by (rule bit_imp_le_length)

lemma bit_not_word: "bit (NOT (w :: 'a::len word)) k \<longleftrightarrow> k < LENGTH('a) \<and> \<not> bit w k"
  by (auto simp: bit_not_iff_eq)

lemmas word_bits = bit_and_iff bit_or_iff bit_xor_iff bit_not_word

lemma and_bit64: "w AND bit64 n = (if bit w n then bit64 n else 0)"
  by (rule bit_word_eqI) (auto simp: word_bits)

lemma bit64_nonzero: "n < 64 \<Longrightarrow> bit64 n \<noteq> 0"
  by (metis bit_0_eq bit_bit64 bot_apply bot_bool_def)

lemma and_bit64_nonzero: "n < 64 \<Longrightarrow> (w AND bit64 n \<noteq> 0) \<longleftrightarrow> bit w n"
  by (simp add: and_bit64 bit64_nonzero)

lemma and_bit64_zero: "n < 64 \<Longrightarrow> (w AND bit64 n = 0) \<longleftrightarrow> \<not> bit w n"
  using and_bit64_nonzero by blast

text \<open>The masked merge \<open>(a & ~m) | (b & m)\<close>: bit by bit, \<open>b\<close> where \<open>m\<close> is set and \<open>a\<close> elsewhere.\<close>

definition merge :: "u64 \<Rightarrow> u64 \<Rightarrow> u64 \<Rightarrow> u64" where
  "merge m b a = (a AND NOT m) OR (b AND m)"

lemma bit_merge [simp]: "bit (merge m b a) k = (if bit m k then bit b k else bit a k)"
  by (auto simp: merge_def word_bits dest: word_bit_lt)

lemma merge_zero [simp]: "merge 0 b a = a"
  by (rule bit_word_eqI) simp

lemma merge_idem [simp]: "merge m b (merge m b a) = merge m b a"
  by (rule bit_word_eqI) simp

text \<open>Folding masked merges over a list of drivers: the last driver that claims a bit decides it.\<close>

lemma bit_fold_merge:
  "bit (fold (\<lambda>c acc. merge (m c) (v c) acc) cs a) k =
     (case List.find (\<lambda>c. bit (m c) k) (rev cs) of None \<Rightarrow> bit a k | Some c \<Rightarrow> bit (v c) k)"
proof (induction cs rule: rev_induct)
  case Nil
  then show ?case by simp
next
  case (snoc c cs)
  then show ?case by (simp split: option.split)
qed

section \<open>Small unsigned numbers\<close>

lemma unat_and_3: "unat (w AND 3 :: u8) < 4"
proof -
  have "w AND 3 \<le> (3 :: u8)" by (rule word_and_le1)
  then show ?thesis by (simp add: word_le_nat_alt)
qed

lemma and_3_cases: "(w AND 3 :: u8) \<in> {0, 1, 2, 3}"
proof -
  have "unat (w AND 3) \<in> {0, 1, 2, 3}" using unat_and_3 [of w] by auto
  then show ?thesis by (auto simp: word_unat_eq_iff)
qed

lemma word_and_mask_le: "w AND m \<le> (m :: 'a::len word)"
  by (rule word_and_le1)

lemma unat_word_of_nat_mod:
  "0 < m \<Longrightarrow> m \<le> 2 ^ LENGTH('a) \<Longrightarrow> unat (word_of_nat (n mod m) :: 'a::len word) = n mod m"
  by (simp add: unsigned_of_nat take_bit_nat_eq_self order_less_le_trans [OF mod_less_divisor])

lemma unat_succ_less: "(a :: 'a::len word) < b \<Longrightarrow> unat (a + 1) = unat a + 1"
proof -
  assume "a < b"
  then have "Suc (unat a) < 2 ^ LENGTH('a)"
    using unsigned_less [where 'a = nat, of b] unfolding word_less_nat_alt by linarith
  then show ?thesis by (simp add: unat_word_ariths)
qed

text \<open>Slots of a ring: two offsets below the ring size that land on one slot are equal.\<close>

lemma ring_slot_inject:
  fixes a i n m :: nat
  assumes "(a + i) mod m = (a + n) mod m" "i < m" "n < m"
  shows "i = n"
proof -
  have "(int a + int i) mod int m = (int a + int n) mod int m"
    using assms(1) by (metis of_nat_add of_nat_mod)
  then have "(int a + int i - int a) mod int m = (int a + int n - int a) mod int m"
    by (metis mod_diff_left_eq)
  then show ?thesis using assms(2,3) by simp
qed

lemma upt_split: "k < n \<Longrightarrow> [0..<n] = [0..<k] @ k # [Suc k..<n]"
proof -
  assume "k < n"
  then obtain d where "n = k + Suc d" using less_iff_Suc_add by auto
  then show ?thesis
    using upt_add_eq_append [of 0 k "Suc d"] by (simp add: upt_conv_Cons del: upt_Suc)
qed

lemma unat_pred_pos: "(a :: 'a::len word) \<noteq> 0 \<Longrightarrow> unat (a - 1) = unat a - 1"
  by (simp add: unat_minus_one)

lemma u8_mod_eq: "w mod 32 = word_of_nat (unat w mod 32)" for w :: u8
  by (simp add: word_arith_nat_mod)

lemma u8_mod_less: "w mod 32 < (32 :: u8)"
  by (simp add: word_mod_less_divisor)

end
