(* ===== verification/Pio_Config.thy ===== *)
theory Pio_Config
  imports Pio_Prelude
begin

text \<open>
  Compile-time configuration (\<open>lib/config/pio_sim_config.h\<close> and the size macros of
  \<open>lib/include/pio_sim.h\<close>).  The macro \<open>PIO_SIM_PIO_VERSION\<close> is the argument \<open>v\<close> that every
  version-dependent definition of the development takes, so both builds of the library are
  modelled at once: \<open>RP2040\<close> is version 0 and \<open>RP2350\<close> version 1.
\<close>

datatype pio_version = RP2040 | RP2350

section \<open>Feature gates\<close>

abbreviation (input) PIO_SIM_HAS_RXFIFO_MOV :: "pio_version \<Rightarrow> bool" where
  "PIO_SIM_HAS_RXFIFO_MOV v \<equiv> v = RP2350"
abbreviation (input) PIO_SIM_HAS_IRQ_STATUS :: "pio_version \<Rightarrow> bool" where
  "PIO_SIM_HAS_IRQ_STATUS v \<equiv> v = RP2350"
abbreviation (input) PIO_SIM_HAS_WAIT_JMPPIN :: "pio_version \<Rightarrow> bool" where
  "PIO_SIM_HAS_WAIT_JMPPIN v \<equiv> v = RP2350"
abbreviation (input) PIO_SIM_HAS_IRQ_PREVNEXT :: "pio_version \<Rightarrow> bool" where
  "PIO_SIM_HAS_IRQ_PREVNEXT v \<equiv> v = RP2350"
abbreviation (input) PIO_SIM_HAS_GPIO_BASE :: "pio_version \<Rightarrow> bool" where
  "PIO_SIM_HAS_GPIO_BASE v \<equiv> v = RP2350"
abbreviation (input) PIO_SIM_HAS_MOV_PINDIRS :: "pio_version \<Rightarrow> bool" where
  "PIO_SIM_HAS_MOV_PINDIRS v \<equiv> v = RP2350"
abbreviation (input) PIO_SIM_HAS_IN_PIN_COUNT :: "pio_version \<Rightarrow> bool" where
  "PIO_SIM_HAS_IN_PIN_COUNT v \<equiv> v = RP2350"
abbreviation (input) PIO_SIM_HAS_INTR_IRQ8 :: "pio_version \<Rightarrow> bool" where
  "PIO_SIM_HAS_INTR_IRQ8 v \<equiv> v = RP2350"
abbreviation (input) PIO_SIM_HAS_PAD_ISO :: "pio_version \<Rightarrow> bool" where
  "PIO_SIM_HAS_PAD_ISO v \<equiv> v = RP2350"

section \<open>Sizes\<close>

definition PIO_SIM_NUM_PINS :: "pio_version \<Rightarrow> nat" where
  "PIO_SIM_NUM_PINS v = (if PIO_SIM_HAS_GPIO_BASE v then 48 else 32)"

definition PIO_SIM_NUM_PIO :: "pio_version \<Rightarrow> nat" where
  "PIO_SIM_NUM_PIO v = (case v of RP2350 \<Rightarrow> 3 | RP2040 \<Rightarrow> 2)"

definition PIO_SIM_DMA_NUM_CHANNELS :: "pio_version \<Rightarrow> nat" where
  "PIO_SIM_DMA_NUM_CHANNELS v = (case v of RP2350 \<Rightarrow> 16 | RP2040 \<Rightarrow> 12)"

definition PIO_SIM_DMA_NUM_IRQS :: "pio_version \<Rightarrow> nat" where
  "PIO_SIM_DMA_NUM_IRQS v = (case v of RP2350 \<Rightarrow> 4 | RP2040 \<Rightarrow> 2)"

abbreviation (input) PIO_SIM_NUM_SM :: nat where "PIO_SIM_NUM_SM \<equiv> 4"
abbreviation (input) PIO_SIM_INSN_COUNT :: nat where "PIO_SIM_INSN_COUNT \<equiv> 32"
abbreviation (input) PIO_SIM_FIFO_DEPTH :: u8 where "PIO_SIM_FIFO_DEPTH \<equiv> 4"
abbreviation (input) PIO_SIM_FIFO_MAX :: u8 where "PIO_SIM_FIFO_MAX \<equiv> 8"
abbreviation (input) PIO_SIM_DMA_NUM_TIMERS :: nat where "PIO_SIM_DMA_NUM_TIMERS \<equiv> 4"

lemma num_pins_bounds: "0 < PIO_SIM_NUM_PINS v" "PIO_SIM_NUM_PINS v \<le> 48"
  by (simp_all add: PIO_SIM_NUM_PINS_def)

lemma mod_num_pins_less: "n mod PIO_SIM_NUM_PINS v < 64"
proof -
  have "n mod PIO_SIM_NUM_PINS v < PIO_SIM_NUM_PINS v"
    using num_pins_bounds(1) by (rule mod_less_divisor)
  then show ?thesis using num_pins_bounds(2) [of v] by linarith
qed

end
