(* ===== verification/Pio_Pads.thy ===== *)
theory Pio_Pads
  imports Pio_Config
begin

text \<open>
  The pad set (\<open>pio_pads_t\<close> of \<open>lib/include/pio_sim.h\<close>) and the pure functions on it of
  \<open>lib/src/pio_sim.c\<close>: the chip-side drive after the function mux and overrides, the resolved
  wire level, the input view, the bus keeper and the reset defaults.  \<open>pio_pads_resolve\<close>, which
  also reads the state machines of the owning blocks, is in \<open>Pio_Store\<close>.  The lemmas restate each
  64-pin mask computation pin by pin.
\<close>

section \<open>State\<close>

text \<open>
  One bit per physical pin in every \<open>u64\<close> field.  \<open>in_sync[2]\<close> is the pair of fields
  \<open>p_in_sync0\<close>, \<open>p_in_sync1\<close>; the per-pin and per-owner arrays are functions on indices; the owner
  pointers are block numbers of the store.  The isolation fields exist in the \<open>RP2350\<close> build only
  and are read only there.
\<close>

record pio_pads_t =
  p_pin_levels :: u64
  p_pin_dirs :: u64
  p_in_sync0 :: u64
  p_in_sync1 :: u64
  p_ext_drive :: u64
  p_ext_levels :: u64
  p_pad_ie :: u64
  p_pad_od :: u64
  p_pad_pue :: u64
  p_pad_pde :: u64
  p_keep_state :: u64
  p_pad_iso :: u64
  p_iso_levels :: u64
  p_iso_oe :: u64
  p_pad_cfg :: "nat \<Rightarrow> u8"
  p_funcsel :: "nat \<Rightarrow> u8"
  p_pio_func_mask :: "nat \<Rightarrow> u64"
  p_periph_sel_mask :: u64
  p_periph_oe :: u64
  p_periph_level :: u64
  p_outover_inv :: u64
  p_outover_low :: u64
  p_outover_high :: u64
  p_oeover_inv :: u64
  p_oeover_low :: u64
  p_oeover_high :: u64
  p_inover_inv :: u64
  p_inover_low :: u64
  p_inover_high :: u64
  p_sync_bypass :: u64
  p_owners :: "nat \<Rightarrow> nat"
  p_owner_count :: u8

text \<open>The all-zero pad set, as \<open>memset\<close> leaves it.\<close>

definition pads_zero :: pio_pads_t where
  "pads_zero = \<lparr>p_pin_levels = 0, p_pin_dirs = 0, p_in_sync0 = 0, p_in_sync1 = 0,
     p_ext_drive = 0, p_ext_levels = 0, p_pad_ie = 0, p_pad_od = 0, p_pad_pue = 0, p_pad_pde = 0,
     p_keep_state = 0, p_pad_iso = 0, p_iso_levels = 0, p_iso_oe = 0, p_pad_cfg = (\<lambda>_. 0),
     p_funcsel = (\<lambda>_. 0), p_pio_func_mask = (\<lambda>_. 0), p_periph_sel_mask = 0, p_periph_oe = 0,
     p_periph_level = 0, p_outover_inv = 0, p_outover_low = 0, p_outover_high = 0,
     p_oeover_inv = 0, p_oeover_low = 0, p_oeover_high = 0, p_inover_inv = 0, p_inover_low = 0,
     p_inover_high = 0, p_sync_bypass = 0, p_owners = (\<lambda>_. 0), p_owner_count = 0\<rparr>"

section \<open>Operations\<close>

text \<open>\<open>pio_pads_chip_drive\<close> returns the pair of its two out-parameters, output enable and level.\<close>

definition pio_pads_chip_drive :: "pio_version \<Rightarrow> pio_pads_t \<Rightarrow> u64 \<times> u64" where
  "pio_pads_chip_drive v p =
     (let pio_oe = p_pin_dirs p;
          per_oe = p_periph_oe p AND p_periph_sel_mask p AND NOT pio_oe;
          oe = pio_oe OR per_oe;
          lvl = (p_pin_levels p AND pio_oe) OR (p_periph_level p AND per_oe);
          lvl = ((lvl XOR p_outover_inv p) OR p_outover_high p) AND NOT (p_outover_low p);
          oe = ((oe XOR p_oeover_inv p) OR p_oeover_high p) AND NOT (p_oeover_low p);
          oe = oe AND NOT (p_pad_od p)
      in if PIO_SIM_HAS_PAD_ISO v
         then ((oe AND NOT (p_pad_iso p)) OR (p_iso_oe p AND p_pad_iso p),
               (lvl AND NOT (p_pad_iso p)) OR (p_iso_levels p AND p_pad_iso p))
         else (oe, lvl))"

definition pads_live :: "pio_version \<Rightarrow> pio_pads_t \<Rightarrow> u64" where
  "pads_live v p =
     (let (oe, lvl) = pio_pads_chip_drive v p;
          ext = p_ext_drive p AND NOT oe;
          undriven = NOT oe AND NOT ext;
          keeper = p_pad_pue p AND p_pad_pde p AND undriven;
          pull_up = p_pad_pue p AND NOT (p_pad_pde p) AND undriven
      in (lvl AND oe) OR (p_ext_levels p AND ext) OR pull_up OR (p_keep_state p AND keeper))"

definition pads_input_view :: "pio_version \<Rightarrow> pio_pads_t \<Rightarrow> u64" where
  "pads_input_view v p =
     (let w = pads_live v p AND p_pad_ie p;
          w = (if PIO_SIM_HAS_PAD_ISO v then w AND NOT (p_pad_iso p) else w)
      in ((w XOR p_inover_inv p) OR p_inover_high p) AND NOT (p_inover_low p))"

definition pads_update_keeper :: "pio_version \<Rightarrow> pio_pads_t \<Rightarrow> pio_pads_t" where
  "pads_update_keeper v p =
     (let (oe, lvl) = pio_pads_chip_drive v p;
          driven = oe OR p_ext_drive p;
          level = (lvl AND oe) OR (p_ext_levels p AND p_ext_drive p AND NOT oe)
      in p\<lparr>p_keep_state := (p_keep_state p AND NOT driven) OR (level AND driven)\<rparr>)"

text \<open>
  \<open>pio_pads_init_defaults\<close> writes \<open>0xFF\<close> (\<open>LEGACY_ANY_PIO\<close>) into every entry of \<open>funcsel\<close> and the
  all-ones mask into every entry of \<open>pio_func_mask\<close>.
\<close>

definition pio_pads_init_defaults :: "pio_version \<Rightarrow> pio_pads_t \<Rightarrow> pio_pads_t" where
  "pio_pads_init_defaults v p =
     p\<lparr>p_pad_ie := NOT 0,
       p_funcsel := (\<lambda>i. if i < PIO_SIM_NUM_PINS v then 0xFF else p_funcsel p i),
       p_pio_func_mask := (\<lambda>i. if i < PIO_SIM_NUM_PIO v then NOT 0 else p_pio_func_mask p i),
       p_periph_sel_mask := 0\<rparr>"

text \<open>Clocking the two-stage input synchroniser, with the keeper, once per system tick.\<close>

definition pads_clock :: "pio_version \<Rightarrow> pio_pads_t \<Rightarrow> pio_pads_t" where
  "pads_clock v p =
     (let p = pads_update_keeper v p;
          p = p\<lparr>p_in_sync1 := p_in_sync0 p\<rparr>
      in p\<lparr>p_in_sync0 := pads_input_view v p\<rparr>)"

section \<open>Pin by pin\<close>

text \<open>The override stage shared by OUTOVER, OEOVER and INOVER: low beats high, which beats invert.\<close>

definition override_pin :: "bool \<Rightarrow> bool \<Rightarrow> bool \<Rightarrow> bool \<Rightarrow> bool" where
  "override_pin neg low high b = (if low then False else if high then True else b \<noteq> neg)"

lemma bit_override:
  "bit (((w XOR neg) OR high) AND NOT low) k =
     (k < 64 \<and> override_pin (bit neg k) (bit low k) (bit high k) (bit w k))" for w :: u64
  by (auto simp: word_bits override_pin_def dest: word_bit_lt)

text \<open>What the chip asks of pin \<open>k\<close> before the pad stage, then after it.\<close>

definition mux_oe :: "pio_pads_t \<Rightarrow> nat \<Rightarrow> bool" where
  "mux_oe p k \<longleftrightarrow> bit (p_pin_dirs p) k \<or> (bit (p_periph_oe p) k \<and> bit (p_periph_sel_mask p) k)"

definition mux_level :: "pio_pads_t \<Rightarrow> nat \<Rightarrow> bool" where
  "mux_level p k \<longleftrightarrow>
     (if bit (p_pin_dirs p) k then bit (p_pin_levels p) k
      else bit (p_periph_oe p) k \<and> bit (p_periph_sel_mask p) k \<and> bit (p_periph_level p) k)"

definition chip_oe :: "pio_version \<Rightarrow> pio_pads_t \<Rightarrow> nat \<Rightarrow> bool" where
  "chip_oe v p k \<longleftrightarrow>
     (if PIO_SIM_HAS_PAD_ISO v \<and> bit (p_pad_iso p) k then bit (p_iso_oe p) k
      else k < 64 \<and> \<not> bit (p_pad_od p) k \<and>
        override_pin (bit (p_oeover_inv p) k) (bit (p_oeover_low p) k) (bit (p_oeover_high p) k)
          (mux_oe p k))"

definition chip_level :: "pio_version \<Rightarrow> pio_pads_t \<Rightarrow> nat \<Rightarrow> bool" where
  "chip_level v p k \<longleftrightarrow>
     (if PIO_SIM_HAS_PAD_ISO v \<and> bit (p_pad_iso p) k then bit (p_iso_levels p) k
      else k < 64 \<and>
        override_pin (bit (p_outover_inv p) k) (bit (p_outover_low p) k) (bit (p_outover_high p) k)
          (mux_level p k))"

lemma chip_drive_oe: "bit (fst (pio_pads_chip_drive v p)) k = chip_oe v p k"
proof -
  let ?oe = "p_pin_dirs p OR (p_periph_oe p AND p_periph_sel_mask p AND NOT (p_pin_dirs p))"
  have "bit ?oe k = mux_oe p k"
    by (auto simp: mux_oe_def word_bits dest: word_bit_lt)
  then have "bit (((?oe XOR p_oeover_inv p) OR p_oeover_high p) AND NOT (p_oeover_low p)) k =
      (k < 64 \<and> override_pin (bit (p_oeover_inv p) k) (bit (p_oeover_low p) k)
        (bit (p_oeover_high p) k) (mux_oe p k))"
    by (simp only: bit_override)
  then show ?thesis
    by (auto simp: pio_pads_chip_drive_def chip_oe_def Let_def word_bits(1,2,4)
        simp del: word_bits(3) dest: word_bit_lt)
qed

lemma chip_drive_level: "bit (snd (pio_pads_chip_drive v p)) k = chip_level v p k"
proof -
  let ?per = "p_periph_oe p AND p_periph_sel_mask p AND NOT (p_pin_dirs p)"
  let ?lvl = "(p_pin_levels p AND p_pin_dirs p) OR (p_periph_level p AND ?per)"
  have "bit ?lvl k = mux_level p k"
    by (auto simp: mux_level_def word_bits dest: word_bit_lt)
  then have "bit (((?lvl XOR p_outover_inv p) OR p_outover_high p) AND NOT (p_outover_low p)) k =
      (k < 64 \<and> override_pin (bit (p_outover_inv p) k) (bit (p_outover_low p) k)
        (bit (p_outover_high p) k) (mux_level p k))"
    by (simp only: bit_override)
  then show ?thesis
    by (auto simp: pio_pads_chip_drive_def chip_level_def Let_def word_bits(1,2,4)
        simp del: word_bits(3) dest: word_bit_lt)
qed

lemma chip_oe_less: "chip_oe v p k \<Longrightarrow> k < 64"
  by (auto simp: chip_oe_def split: if_splits dest: word_bit_lt)

text \<open>
  The level of a wire, by driver: the chip, else an external driver, else the pulls (both pulls
  together are the bus keeper), else the floating pin reads low.
\<close>

definition wire_level :: "pio_version \<Rightarrow> pio_pads_t \<Rightarrow> nat \<Rightarrow> bool" where
  "wire_level v p k \<longleftrightarrow>
     (if chip_oe v p k then chip_level v p k
      else if bit (p_ext_drive p) k then bit (p_ext_levels p) k
      else bit (p_pad_pue p) k \<and> (bit (p_pad_pde p) k \<longrightarrow> bit (p_keep_state p) k))"

lemma pads_live_bit: "bit (pads_live v p) k = wire_level v p k"
  by (auto simp: pads_live_def wire_level_def split_beta Let_def word_bits chip_drive_oe
      chip_drive_level dest: word_bit_lt)

lemma input_view_bit:
  "bit (pads_input_view v p) k \<longleftrightarrow>
     k < 64 \<and> override_pin (bit (p_inover_inv p) k) (bit (p_inover_low p) k) (bit (p_inover_high p) k)
       (wire_level v p k \<and> bit (p_pad_ie p) k \<and> \<not> (PIO_SIM_HAS_PAD_ISO v \<and> bit (p_pad_iso p) k))"
proof -
  let ?w = "if PIO_SIM_HAS_PAD_ISO v then pads_live v p AND p_pad_ie p AND NOT (p_pad_iso p)
    else pads_live v p AND p_pad_ie p"
  have "bit ?w k \<longleftrightarrow> wire_level v p k \<and> bit (p_pad_ie p) k \<and>
      \<not> (PIO_SIM_HAS_PAD_ISO v \<and> bit (p_pad_iso p) k)"
    by (auto simp: word_bits pads_live_bit dest: word_bit_lt)
  moreover have "pads_input_view v p =
      ((?w XOR p_inover_inv p) OR p_inover_high p) AND NOT (p_inover_low p)"
    by (simp add: pads_input_view_def Let_def ac_simps)
  ultimately show ?thesis by (simp only: bit_override)
qed

lemma keeper_bit:
  "bit (p_keep_state (pads_update_keeper v p)) k =
     (if chip_oe v p k \<or> bit (p_ext_drive p) k then wire_level v p k else bit (p_keep_state p) k)"
  by (auto simp: pads_update_keeper_def wire_level_def split_beta Let_def word_bits chip_drive_oe
      chip_drive_level dest: word_bit_lt chip_oe_less)

text \<open>Only the keeper latch and the two synchroniser stages change when the pads are clocked.\<close>

lemma chip_drive_sync [simp]:
  "pio_pads_chip_drive v (p\<lparr>p_in_sync0 := a\<rparr>) = pio_pads_chip_drive v p"
  "pio_pads_chip_drive v (p\<lparr>p_in_sync1 := b\<rparr>) = pio_pads_chip_drive v p"
  "pio_pads_chip_drive v (p\<lparr>p_keep_state := c\<rparr>) = pio_pads_chip_drive v p"
  by (cases v; simp add: pio_pads_chip_drive_def)+

lemma input_view_sync [simp]:
  "pads_input_view v (p\<lparr>p_in_sync1 := b\<rparr>) = pads_input_view v p"
  by (cases v; simp add: pads_input_view_def pads_live_def)

lemma update_keeper_eq:
  "pads_update_keeper v p = p\<lparr>p_keep_state := p_keep_state (pads_update_keeper v p)\<rparr>"
  by (simp add: pads_update_keeper_def split_beta Let_def)

lemma pads_clock_eq:
  "pads_clock v p = p\<lparr>p_keep_state := p_keep_state (pads_update_keeper v p),
     p_in_sync1 := p_in_sync0 p, p_in_sync0 := pads_input_view v (pads_update_keeper v p)\<rparr>"
proof -
  obtain c where c: "pads_update_keeper v p = p\<lparr>p_keep_state := c\<rparr>"
    using update_keeper_eq by blast
  show ?thesis by (simp add: pads_clock_def Let_def c)
qed

lemma chip_drive_clock [frame]:
  "pio_pads_chip_drive v (pads_clock v p) = pio_pads_chip_drive v p"
  by (simp add: pads_clock_eq)

lemma pads_clock_sync [frame]:
  "p_in_sync1 (pads_clock v p) = p_in_sync0 p"
  "p_in_sync0 (pads_clock v p) = pads_input_view v (pads_update_keeper v p)"
  by (simp_all add: pads_clock_eq)

end
