(* ===== verification/Pio_Fifo.thy ===== *)
theory Pio_Fifo
  imports Pio_Config
begin

text \<open>
  The circular FIFO of \<open>lib/src/pio_sim.c\<close> (\<open>pio_fifo_t\<close> of \<open>lib/include/pio_sim.h\<close> with
  \<open>fifo_clear\<close>, \<open>fifo_push\<close>, \<open>fifo_pop\<close>).  The interface its clients rely on is the locale
  \<open>bounded_queue\<close>; the interpretation \<open>ring\<close> shows that the ring buffer implements it, by
  refinement to the list of queued words.
\<close>

section \<open>The ring buffer\<close>

text \<open>
  The C array \<open>buf[8]\<close> is a function on indices; \<open>fifo_wf\<close> below bounds every index used.
  \<open>fifo_push\<close> returns the new FIFO and its \<open>bool\<close> result; \<open>fifo_pop\<close> the new FIFO and the word,
  \<open>None\<close> being the \<open>false\<close> return that leaves \<open>*v\<close> untouched.
\<close>

record pio_fifo_t =
  f_buf :: "nat \<Rightarrow> u32"
  f_head :: u8
  f_tail :: u8
  f_count :: u8
  f_cap :: u8

definition fifo_clear :: "pio_fifo_t \<Rightarrow> pio_fifo_t" where
  "fifo_clear f = f\<lparr>f_head := 0, f_tail := 0, f_count := 0\<rparr>"

definition fifo_push :: "pio_fifo_t \<Rightarrow> u32 \<Rightarrow> pio_fifo_t \<times> bool" where
  "fifo_push f w =
     (if f_cap f \<le> f_count f then (f, False)
      else (f\<lparr>f_buf := (f_buf f)(unat (f_head f) := w),
              f_head := word_of_nat ((unat (f_head f) + 1) mod unat PIO_SIM_FIFO_MAX),
              f_count := f_count f + 1\<rparr>, True))"

definition fifo_pop :: "pio_fifo_t \<Rightarrow> pio_fifo_t \<times> u32 option" where
  "fifo_pop f =
     (if f_count f = 0 then (f, None)
      else (f\<lparr>f_tail := word_of_nat ((unat (f_tail f) + 1) mod unat PIO_SIM_FIFO_MAX),
              f_count := f_count f - 1\<rparr>, Some (f_buf f (unat (f_tail f)))))"

section \<open>Invariant and abstraction\<close>

definition fifo_wf :: "pio_fifo_t \<Rightarrow> bool" where
  "fifo_wf f \<longleftrightarrow>
     f_cap f \<le> 8 \<and> f_count f \<le> f_cap f \<and> f_tail f < 8 \<and>
     unat (f_head f) = (unat (f_tail f) + unat (f_count f)) mod 8"

definition fifo_words :: "pio_fifo_t \<Rightarrow> u32 list" where
  "fifo_words f = map (\<lambda>i. f_buf f ((unat (f_tail f) + i) mod 8)) [0..<unat (f_count f)]"

lemma length_fifo_words [simp]: "length (fifo_words f) = unat (f_count f)"
  by (simp add: fifo_words_def)

lemma fifo_wf_head: "fifo_wf f \<Longrightarrow> f_head f < 8"
  by (simp add: fifo_wf_def word_less_nat_alt)

lemma fifo_words_Nil [simp]: "fifo_words f = [] \<longleftrightarrow> f_count f = 0"
  by (simp add: fifo_words_def unat_eq_0)

lemma fifo_words_Cons_count: "fifo_words f = a # as \<Longrightarrow> f_count f \<noteq> 0"
  using fifo_words_Nil [of f] by simp

section \<open>The interface\<close>

locale bounded_queue =
  fixes push :: "'q \<Rightarrow> 'a \<Rightarrow> 'q \<times> bool"
    and pop :: "'q \<Rightarrow> 'q \<times> 'a option"
    and clear :: "'q \<Rightarrow> 'q"
    and capacity :: "'q \<Rightarrow> nat"
    and contents :: "'q \<Rightarrow> 'a list"
    and inv :: "'q \<Rightarrow> bool"
  assumes contents_bounded: "inv q \<Longrightarrow> length (contents q) \<le> capacity q"
    and push_full: "inv q \<Longrightarrow> length (contents q) = capacity q \<Longrightarrow> push q a = (q, False)"
    and push_result: "inv q \<Longrightarrow> length (contents q) < capacity q \<Longrightarrow> snd (push q a)"
    and push_contents:
      "inv q \<Longrightarrow> length (contents q) < capacity q \<Longrightarrow> contents (fst (push q a)) = contents q @ [a]"
    and push_inv: "inv q \<Longrightarrow> inv (fst (push q a))"
    and push_capacity: "capacity (fst (push q a)) = capacity q"
    and pop_empty: "contents q = [] \<Longrightarrow> pop q = (q, None)"
    and pop_result: "inv q \<Longrightarrow> contents q = a # as \<Longrightarrow> snd (pop q) = Some a"
    and pop_contents: "inv q \<Longrightarrow> contents q = a # as \<Longrightarrow> contents (fst (pop q)) = as"
    and pop_inv: "inv q \<Longrightarrow> inv (fst (pop q))"
    and pop_capacity: "capacity (fst (pop q)) = capacity q"
    and clear_contents: "contents (clear q) = []"
    and clear_inv: "inv q \<Longrightarrow> inv (clear q)"
    and clear_capacity: "capacity (clear q) = capacity q"
begin

lemma push_all_contents:
  "inv q \<Longrightarrow> length (contents q) + length as \<le> capacity q \<Longrightarrow>
   contents (fold (\<lambda>a q. fst (push q a)) as q) = contents q @ as \<and>
   inv (fold (\<lambda>a q. fst (push q a)) as q) \<and>
   capacity (fold (\<lambda>a q. fst (push q a)) as q) = capacity q"
proof (induction as arbitrary: q)
  case Nil
  then show ?case by simp
next
  case (Cons a as)
  then have c: "contents (fst (push q a)) = contents q @ [a]"
    by (simp add: push_contents)
  moreover have "inv (fst (push q a))" using Cons.prems(1) by (rule push_inv)
  ultimately show ?case
    using Cons.IH [of "fst (push q a)"] Cons.prems(2) by (simp add: push_capacity)
qed

lemma pop_cases:
  assumes "inv q"
  obtains (empty) "contents q = []" "pop q = (q, None)"
    | (next_word) a as where "contents q = a # as" "snd (pop q) = Some a"
        "contents (fst (pop q)) = as" "inv (fst (pop q))"
  using assms by (cases "contents q") (auto intro: pop_empty pop_result pop_contents pop_inv)

end

text \<open>Popping as often as asked, in order; a client that drains the queue.\<close>

fun pop_many :: "('q \<Rightarrow> 'q \<times> 'a option) \<Rightarrow> nat \<Rightarrow> 'q \<Rightarrow> 'q \<times> 'a option list" where
  "pop_many pop 0 q = (q, [])"
| "pop_many pop (Suc n) q =
     (let (q', a) = pop q; (q'', as) = pop_many pop n q' in (q'', a # as))"

context bounded_queue
begin

lemma pop_many_contents:
  "inv q \<Longrightarrow> n \<le> length (contents q) \<Longrightarrow>
   snd (pop_many pop n q) = map Some (take n (contents q)) \<and>
   contents (fst (pop_many pop n q)) = drop n (contents q)"
proof (induction n arbitrary: q)
  case 0
  then show ?case by simp
next
  case (Suc n)
  then obtain a as where c: "contents q = a # as" by (cases "contents q") auto
  have "pop q = (fst (pop q), Some a)"
    using pop_result [OF Suc.prems(1) c] by (metis prod.collapse)
  moreover have "contents (fst (pop q)) = as"
    using Suc.prems(1) c by (rule pop_contents)
  ultimately show ?case
    using Suc.IH [of "fst (pop q)"] Suc.prems c pop_inv [OF Suc.prems(1)]
    by (auto simp: split_beta Let_def) (metis snd_conv fst_conv)+
qed

lemma in_order_no_loss:
  assumes "inv q" "contents q = []" "length as \<le> capacity q"
  shows "snd (pop_many pop (length as) (fold (\<lambda>a q. fst (push q a)) as q)) = map Some as"
  using push_all_contents [OF assms(1), of as] assms(2,3)
    pop_many_contents [of "fold (\<lambda>a q. fst (push q a)) as q" "length as"] by simp

end

section \<open>The ring buffer implements the interface\<close>

lemma fifo_push_full: "f_cap f \<le> f_count f \<Longrightarrow> fifo_push f w = (f, False)"
  by (simp add: fifo_push_def)

lemma fifo_push_room:
  assumes "fifo_wf f" "f_count f < f_cap f"
  shows "fifo_words (fst (fifo_push f w)) = fifo_words f @ [w]"
    and "fifo_wf (fst (fifo_push f w))"
proof -
  have n: "unat (f_count f + 1) = unat (f_count f) + 1"
    using assms(2) by (rule unat_succ_less)
  have less8: "unat (f_count f) < 8"
    using assms by (simp add: fifo_wf_def word_less_nat_alt word_le_nat_alt)
  have h: "unat (f_head f) = (unat (f_tail f) + unat (f_count f)) mod 8"
    using assms(1) by (simp add: fifo_wf_def)
  have other: "(unat (f_tail f) + i) mod 8 \<noteq> unat (f_head f)" if "i < unat (f_count f)" for i
  proof
    assume "(unat (f_tail f) + i) mod 8 = unat (f_head f)"
    then have eq: "(unat (f_tail f) + i) mod 8 = (unat (f_tail f) + unat (f_count f)) mod 8"
      using h by simp
    have "i = unat (f_count f)"
      using that less8 by (intro ring_slot_inject [OF eq]) simp_all
    then show False using that by simp
  qed
  show "fifo_words (fst (fifo_push f w)) = fifo_words f @ [w]"
    using assms(2) other h by (auto simp: fifo_push_def fifo_words_def n)
  show "fifo_wf (fst (fifo_push f w))"
    using assms h less8
    by (auto simp: fifo_push_def fifo_wf_def n unat_word_of_nat_mod word_le_nat_alt
        word_less_nat_alt mod_simps)
qed

lemma fifo_pop_words:
  assumes "fifo_wf f" "f_count f \<noteq> 0"
  shows "fifo_words f = f_buf f (unat (f_tail f)) # fifo_words (fst (fifo_pop f))"
    and "fifo_wf (fst (fifo_pop f))"
proof -
  have n: "unat (f_count f - 1) = unat (f_count f) - 1"
    using assms(2) by (rule unat_pred_pos)
  have pos: "0 < unat (f_count f)"
    using assms(2) by (simp add: unat_gt_0)
  have t: "unat (f_tail f) < 8"
    using assms(1) by (simp add: fifo_wf_def word_less_nat_alt)
  have upt: "[0..<unat (f_count f)] = 0 # map Suc [0..<unat (f_count f) - 1]"
    using pos by (metis Suc_pred' map_Suc_upt upt_conv_Cons)
  have shift: "(unat (f_tail f) + Suc i) mod 8 = ((unat (f_tail f) + 1) mod 8 + i) mod 8" for i
    by (simp add: mod_simps)
  show "fifo_words f = f_buf f (unat (f_tail f)) # fifo_words (fst (fifo_pop f))"
    using assms(2) t shift
    by (simp add: fifo_pop_def fifo_words_def n upt unat_word_of_nat_mod o_def)
  have "((unat (f_tail f) + 1) mod 8 + (unat (f_count f) - 1)) mod 8 =
      (unat (f_tail f) + unat (f_count f)) mod 8"
    using pos by (metis Nat.add_diff_assoc Suc_leI add.assoc le_add_diff_inverse mod_add_left_eq One_nat_def)
  then show "fifo_wf (fst (fifo_pop f))"
    using assms pos
    by (auto simp: fifo_pop_def fifo_wf_def n unat_word_of_nat_mod word_le_nat_alt
        word_less_nat_alt)
qed

lemma fifo_clear_wf: "fifo_wf f \<Longrightarrow> fifo_wf (fifo_clear f)"
  by (simp add: fifo_clear_def fifo_wf_def)

interpretation ring: bounded_queue fifo_push fifo_pop fifo_clear
  "\<lambda>f. unat (f_cap f)" fifo_words fifo_wf
proof (unfold_locales, goal_cases)
  case (1 q)
  then show ?case by (simp add: fifo_wf_def word_le_nat_alt)
next
  case (2 q a)
  then show ?case by (simp add: fifo_push_def word_le_nat_alt)
next
  case (3 q a)
  then show ?case by (simp add: fifo_push_def word_le_nat_alt)
next
  case (4 q a)
  then show ?case by (simp add: fifo_push_room word_less_nat_alt)
next
  case (5 q a)
  then show ?case by (cases "f_count q < f_cap q") (auto simp: fifo_push_room fifo_push_full)
next
  case (6 q a)
  show ?case by (simp add: fifo_push_def)
next
  case (7 q)
  then show ?case by (simp add: fifo_pop_def)
next
  case (8 q a as)
  then have "f_count q \<noteq> 0" by (auto dest: fifo_words_Cons_count)
  with 8 show ?case using fifo_pop_words(1) [of q] by (simp add: fifo_pop_def)
next
  case (9 q a as)
  then have "f_count q \<noteq> 0" by (auto dest: fifo_words_Cons_count)
  with 9 show ?case using fifo_pop_words(1) [of q] by simp
next
  case (10 q)
  then show ?case by (cases "f_count q = 0") (auto simp: fifo_pop_words, simp add: fifo_pop_def)
next
  case (11 q)
  show ?case by (simp add: fifo_pop_def)
next
  case (12 q)
  show ?case by (simp add: fifo_clear_def fifo_words_def)
next
  case (13 q)
  then show ?case by (rule fifo_clear_wf)
next
  case (14 q)
  show ?case by (simp add: fifo_clear_def)
qed

section \<open>Properties\<close>

text \<open>
  Words pushed into an empty FIFO, as many as its capacity allows, are popped in the order they
  were pushed, none lost and none duplicated, wherever in the ring the read index starts.
\<close>

lemma fifo_in_order:
  assumes "fifo_wf f" "fifo_words f = []" "length ws \<le> unat (f_cap f)"
  shows "snd (pop_many fifo_pop (length ws) (fold (\<lambda>w f. fst (fifo_push f w)) ws f)) = map Some ws"
  using assms by (rule ring.in_order_no_loss)

text \<open>
  C4: The ring buffer refines a bounded list: a push appends when there is room and is refused
  otherwise, a pop takes the oldest word and fails only on the empty FIFO, and both keep the ring
  well formed.
\<close>

theorem fifo_refines_list:
  assumes "fifo_wf f"
  shows "fifo_wf (fst (fifo_push f w)) \<and> fifo_wf (fst (fifo_pop f)) \<and>
    snd (fifo_push f w) = (length (fifo_words f) < unat (f_cap f)) \<and>
    fifo_words (fst (fifo_push f w)) =
      (if length (fifo_words f) < unat (f_cap f) then fifo_words f @ [w] else fifo_words f) \<and>
    fifo_words (fst (fifo_pop f)) = tl (fifo_words f) \<and>
    snd (fifo_pop f) = (case fifo_words f of [] \<Rightarrow> None | a # _ \<Rightarrow> Some a)"
proof -
  have "snd (fifo_push f w) = (length (fifo_words f) < unat (f_cap f)) \<and>
    fifo_words (fst (fifo_push f w)) =
      (if length (fifo_words f) < unat (f_cap f) then fifo_words f @ [w] else fifo_words f)"
    using assms ring.push_contents [OF assms, of w] ring.push_full [OF assms, of w]
      ring.push_result [OF assms, of w] ring.contents_bounded [OF assms] by (auto simp: le_less)
  moreover have "fifo_words (fst (fifo_pop f)) = tl (fifo_words f) \<and>
    snd (fifo_pop f) = (case fifo_words f of [] \<Rightarrow> None | a # _ \<Rightarrow> Some a)"
    using assms by (rule ring.pop_cases) (simp_all del: fifo_words_Nil)
  ultimately show ?thesis
    using ring.push_inv [OF assms, of w] ring.pop_inv [OF assms] by blast
qed

theorem fifo_refines_list_witness:
  "fifo_words (fst (fifo_push \<lparr>f_buf = (\<lambda>i. of_nat i), f_head = 2, f_tail = 6, f_count = 4, f_cap = 8\<rparr> 9))
     = [6, 7, 0, 1, 9]"
  using fifo_refines_list [of "\<lparr>f_buf = (\<lambda>i. of_nat i), f_head = 2, f_tail = 6, f_count = 4, f_cap = 8\<rparr>" 9]
  by (simp add: fifo_wf_def fifo_words_def upt_rec)

end
