(* ===== verification/Pio_Sm.thy ===== *)
theory Pio_Sm
  imports Pio_Fifo
begin

text \<open>
  One state machine: \<open>pio_sm_t\<close> and \<open>pio_sm_config\<close> of \<open>lib/include/pio_sim.h\<close>, the configuration
  mutators, the FIFO join, the reset and the shift-register helpers of \<open>lib/src/pio_sim.c\<close>, as
  functions on the state machine alone.  The invariant \<open>sm_wf\<close> bounds every field the code uses as
  an index, a shift amount or a FIFO level.
\<close>

section \<open>Enumerations\<close>

datatype pio_shift_dir_t = PIO_SHIFT_LEFT | PIO_SHIFT_RIGHT

text \<open>\<open>pio_fifo_join_t\<close> and \<open>pio_status_sel_t\<close> are stored in \<open>uint8_t\<close> fields.\<close>

abbreviation (input) PIO_FIFO_JOIN_NONE :: u8 where "PIO_FIFO_JOIN_NONE \<equiv> 0"
abbreviation (input) PIO_FIFO_JOIN_TX :: u8 where "PIO_FIFO_JOIN_TX \<equiv> 1"
abbreviation (input) PIO_FIFO_JOIN_RX :: u8 where "PIO_FIFO_JOIN_RX \<equiv> 2"
abbreviation (input) PIO_FIFO_JOIN_RX_PUT :: u8 where "PIO_FIFO_JOIN_RX_PUT \<equiv> 3"
abbreviation (input) PIO_FIFO_JOIN_RX_GET :: u8 where "PIO_FIFO_JOIN_RX_GET \<equiv> 4"
abbreviation (input) PIO_FIFO_JOIN_RX_PUTGET :: u8 where "PIO_FIFO_JOIN_RX_PUTGET \<equiv> 5"

abbreviation (input) PIO_STATUS_TX_LEVEL :: u8 where "PIO_STATUS_TX_LEVEL \<equiv> 0"
abbreviation (input) PIO_STATUS_RX_LEVEL :: u8 where "PIO_STATUS_RX_LEVEL \<equiv> 1"
abbreviation (input) PIO_STATUS_IRQ_SET :: u8 where "PIO_STATUS_IRQ_SET \<equiv> 2"
abbreviation (input) PIO_STATUS_IRQ_SET_PREV :: u8 where "PIO_STATUS_IRQ_SET_PREV \<equiv> 3"
abbreviation (input) PIO_STATUS_IRQ_SET_NEXT :: u8 where "PIO_STATUS_IRQ_SET_NEXT \<equiv> 4"

abbreviation (input) PIO_FDEBUG_TXSTALL :: u8 where "PIO_FDEBUG_TXSTALL \<equiv> 1"
abbreviation (input) PIO_FDEBUG_TXOVER :: u8 where "PIO_FDEBUG_TXOVER \<equiv> 2"
abbreviation (input) PIO_FDEBUG_RXUNDER :: u8 where "PIO_FDEBUG_RXUNDER \<equiv> 4"
abbreviation (input) PIO_FDEBUG_RXSTALL :: u8 where "PIO_FDEBUG_RXSTALL \<equiv> 8"

section \<open>State\<close>

record pio_sm_t =
  sm_enabled :: bool
  sm_pc :: u8
  sm_wrap_bottom :: u8
  sm_wrap_top :: u8
  sm_x :: u32
  sm_y :: u32
  sm_osr :: u32
  sm_isr :: u32
  sm_osr_count :: u8
  sm_isr_count :: u8
  sm_out_dir :: pio_shift_dir_t
  sm_in_dir :: pio_shift_dir_t
  sm_autopull :: bool
  sm_autopush :: bool
  sm_pull_thresh :: u8
  sm_push_thresh :: u8
  sm_out_base :: u8
  sm_out_count :: u8
  sm_set_base :: u8
  sm_set_count :: u8
  sm_in_base :: u8
  sm_in_count :: u8
  sm_sideset_base :: u8
  sm_jmp_pin :: u8
  sm_sideset_total_bits :: u8
  sm_sideset_opt :: bool
  sm_sideset_pindirs :: bool
  sm_out_pin_val :: u64
  sm_out_pin_oe :: u64
  sm_wrote_this_cycle :: u64
  sm_dir_driven :: u64
  sm_out_sticky :: bool
  sm_out_inline_en :: bool
  sm_out_en_sel :: u8
  sm_status_sel :: u8
  sm_status_n :: u8
  sm_status_override :: bool
  sm_status_value :: u32
  sm_clkdiv_int :: u16
  sm_clkdiv_frac :: u8
  sm_clk_accum :: u32
  sm_delay :: u8
  sm_stalled :: bool
  sm_exec_pending :: bool
  sm_exec_insn :: u16
  sm_fdebug :: u8
  sm_tx :: pio_fifo_t
  sm_rx :: pio_fifo_t
  sm_fifo_join :: u8

record pio_sm_config =
  c_out_base :: u8
  c_out_count :: u8
  c_set_base :: u8
  c_set_count :: u8
  c_in_base :: u8
  c_in_count :: u8
  c_sideset_base :: u8
  c_sideset_total_bits :: u8
  c_sideset_opt :: bool
  c_sideset_pindirs :: bool
  c_jmp_pin :: u8
  c_out_dir :: pio_shift_dir_t
  c_in_dir :: pio_shift_dir_t
  c_autopull :: bool
  c_autopush :: bool
  c_pull_thresh :: u8
  c_push_thresh :: u8
  c_clkdiv_int :: u16
  c_clkdiv_frac :: u8
  c_wrap_bottom :: u8
  c_wrap_top :: u8
  c_fifo_join :: u8
  c_status_sel :: u8
  c_status_n :: u8
  c_out_sticky :: bool
  c_out_inline_en :: bool
  c_out_en_sel :: u8

definition fifo_zero :: pio_fifo_t where
  "fifo_zero = \<lparr>f_buf = (\<lambda>_. 0), f_head = 0, f_tail = 0, f_count = 0, f_cap = 0\<rparr>"

definition sm_zero :: pio_sm_t where
  "sm_zero = \<lparr>sm_enabled = False, sm_pc = 0, sm_wrap_bottom = 0, sm_wrap_top = 0, sm_x = 0,
     sm_y = 0, sm_osr = 0, sm_isr = 0, sm_osr_count = 0, sm_isr_count = 0,
     sm_out_dir = PIO_SHIFT_LEFT, sm_in_dir = PIO_SHIFT_LEFT, sm_autopull = False,
     sm_autopush = False, sm_pull_thresh = 0, sm_push_thresh = 0, sm_out_base = 0,
     sm_out_count = 0, sm_set_base = 0, sm_set_count = 0, sm_in_base = 0, sm_in_count = 0,
     sm_sideset_base = 0, sm_jmp_pin = 0, sm_sideset_total_bits = 0, sm_sideset_opt = False,
     sm_sideset_pindirs = False, sm_out_pin_val = 0, sm_out_pin_oe = 0, sm_wrote_this_cycle = 0,
     sm_dir_driven = 0, sm_out_sticky = False, sm_out_inline_en = False, sm_out_en_sel = 0,
     sm_status_sel = 0, sm_status_n = 0, sm_status_override = False, sm_status_value = 0,
     sm_clkdiv_int = 0, sm_clkdiv_frac = 0, sm_clk_accum = 0, sm_delay = 0, sm_stalled = False,
     sm_exec_pending = False, sm_exec_insn = 0, sm_fdebug = 0, sm_tx = fifo_zero,
     sm_rx = fifo_zero, sm_fifo_join = 0\<rparr>"

section \<open>Bit helpers\<close>

definition mask_n :: "u8 \<Rightarrow> u32" where
  "mask_n n = (if 32 \<le> n then 0xFFFFFFFF else push_bit (unat n) 1 - 1)"

definition pio_reverse32 :: "u32 \<Rightarrow> u32" where
  "pio_reverse32 v_in =
     (let v = v_in;
          v = push_bit 1 (v AND 0x55555555) OR (drop_bit 1 v AND 0x55555555);
          v = push_bit 2 (v AND 0x33333333) OR (drop_bit 2 v AND 0x33333333);
          v = push_bit 4 (v AND 0x0F0F0F0F) OR (drop_bit 4 v AND 0x0F0F0F0F);
          v = push_bit 8 (v AND 0x00FF00FF) OR (drop_bit 8 v AND 0x00FF00FF)
      in push_bit 16 v OR drop_bit 16 v)"

section \<open>Reset\<close>

definition sm_reset_exec :: "pio_sm_t \<Rightarrow> pio_sm_t" where
  "sm_reset_exec s = s\<lparr>sm_pc := sm_wrap_bottom s, sm_x := 0, sm_y := 0, sm_osr := 0, sm_isr := 0,
     sm_osr_count := 32, sm_isr_count := 0, sm_delay := 0, sm_stalled := False,
     sm_exec_pending := False, sm_exec_insn := 0, sm_clk_accum := 0,
     sm_tx := fifo_clear (sm_tx s), sm_rx := fifo_clear (sm_rx s)\<rparr>"

text \<open>The body of the loop of \<open>pio_sim_init\<close> on one zeroed state machine.\<close>

definition sm_init_defaults :: "pio_sm_t \<Rightarrow> pio_sm_t" where
  "sm_init_defaults s = sm_reset_exec
     (s\<lparr>sm_enabled := False, sm_wrap_bottom := 0, sm_wrap_top := 31,
        sm_out_dir := PIO_SHIFT_LEFT, sm_in_dir := PIO_SHIFT_LEFT, sm_pull_thresh := 32,
        sm_push_thresh := 32, sm_in_count := 32, sm_clkdiv_int := 1, sm_clkdiv_frac := 0,
        sm_sideset_total_bits := 0, sm_jmp_pin := 0,
        sm_tx := (sm_tx s)\<lparr>f_cap := PIO_SIM_FIFO_DEPTH\<rparr>,
        sm_rx := (sm_rx s)\<lparr>f_cap := PIO_SIM_FIFO_DEPTH\<rparr>\<rparr>)"

section \<open>Configuration values\<close>

definition clamp_pin_count :: "u8 \<Rightarrow> u8" where
  "clamp_pin_count count = (if 32 < count then 32 else count)"

definition clamp_thresh :: "u8 \<Rightarrow> u8" where
  "clamp_thresh threshold = (if threshold = 0 \<or> 32 < threshold then 32 else threshold)"

definition config_zero :: pio_sm_config where
  "config_zero = \<lparr>c_out_base = 0, c_out_count = 0, c_set_base = 0, c_set_count = 0, c_in_base = 0,
     c_in_count = 0, c_sideset_base = 0, c_sideset_total_bits = 0, c_sideset_opt = False,
     c_sideset_pindirs = False, c_jmp_pin = 0, c_out_dir = PIO_SHIFT_LEFT,
     c_in_dir = PIO_SHIFT_LEFT, c_autopull = False, c_autopush = False, c_pull_thresh = 0,
     c_push_thresh = 0, c_clkdiv_int = 0, c_clkdiv_frac = 0, c_wrap_bottom = 0, c_wrap_top = 0,
     c_fifo_join = 0, c_status_sel = 0, c_status_n = 0, c_out_sticky = False,
     c_out_inline_en = False, c_out_en_sel = 0\<rparr>"

definition pio_get_default_sm_config :: pio_sm_config where
  "pio_get_default_sm_config = config_zero\<lparr>c_wrap_bottom := 0, c_wrap_top := 31,
     c_out_dir := PIO_SHIFT_LEFT, c_in_dir := PIO_SHIFT_LEFT, c_pull_thresh := 32,
     c_push_thresh := 32, c_in_count := 32, c_clkdiv_int := 1,
     c_status_sel := PIO_STATUS_TX_LEVEL\<rparr>"

definition sm_config_set_out_pins :: "u8 \<Rightarrow> u8 \<Rightarrow> pio_sm_config \<Rightarrow> pio_sm_config" where
  "sm_config_set_out_pins out_base out_count c =
     c\<lparr>c_out_base := out_base, c_out_count := clamp_pin_count out_count\<rparr>"

definition sm_config_set_out_pin_base :: "u8 \<Rightarrow> pio_sm_config \<Rightarrow> pio_sm_config" where
  "sm_config_set_out_pin_base out_base c = c\<lparr>c_out_base := out_base\<rparr>"

definition sm_config_set_out_pin_count :: "u8 \<Rightarrow> pio_sm_config \<Rightarrow> pio_sm_config" where
  "sm_config_set_out_pin_count out_count c = c\<lparr>c_out_count := clamp_pin_count out_count\<rparr>"

definition sm_config_set_set_pins :: "u8 \<Rightarrow> u8 \<Rightarrow> pio_sm_config \<Rightarrow> pio_sm_config" where
  "sm_config_set_set_pins set_base set_count c =
     c\<lparr>c_set_base := set_base, c_set_count := clamp_pin_count set_count\<rparr>"

definition sm_config_set_set_pin_base :: "u8 \<Rightarrow> pio_sm_config \<Rightarrow> pio_sm_config" where
  "sm_config_set_set_pin_base set_base c = c\<lparr>c_set_base := set_base\<rparr>"

definition sm_config_set_set_pin_count :: "u8 \<Rightarrow> pio_sm_config \<Rightarrow> pio_sm_config" where
  "sm_config_set_set_pin_count set_count c = c\<lparr>c_set_count := clamp_pin_count set_count\<rparr>"

definition sm_config_set_in_pins :: "u8 \<Rightarrow> pio_sm_config \<Rightarrow> pio_sm_config" where
  "sm_config_set_in_pins in_base c = c\<lparr>c_in_base := in_base\<rparr>"

definition sm_config_set_in_pin_base :: "u8 \<Rightarrow> pio_sm_config \<Rightarrow> pio_sm_config" where
  "sm_config_set_in_pin_base in_base c = c\<lparr>c_in_base := in_base\<rparr>"

text \<open>Exists in the \<open>RP2350\<close> build only (\<open>PIO_SIM_HAS_IN_PIN_COUNT\<close>).\<close>

definition sm_config_set_in_pin_count :: "u8 \<Rightarrow> pio_sm_config \<Rightarrow> pio_sm_config" where
  "sm_config_set_in_pin_count in_count c =
     c\<lparr>c_in_count := (if in_count = 0 \<or> 32 < in_count then 32 else in_count)\<rparr>"

definition sm_config_set_sideset_pins :: "u8 \<Rightarrow> pio_sm_config \<Rightarrow> pio_sm_config" where
  "sm_config_set_sideset_pins sideset_base c = c\<lparr>c_sideset_base := sideset_base\<rparr>"

definition sm_config_set_sideset :: "u8 \<Rightarrow> bool \<Rightarrow> bool \<Rightarrow> pio_sm_config \<Rightarrow> pio_sm_config" where
  "sm_config_set_sideset bit_count optional pindirs c =
     c\<lparr>c_sideset_total_bits := bit_count, c_sideset_opt := optional, c_sideset_pindirs := pindirs\<rparr>"

definition sm_config_set_wrap :: "u8 \<Rightarrow> u8 \<Rightarrow> pio_sm_config \<Rightarrow> pio_sm_config" where
  "sm_config_set_wrap wrap_target wrap c =
     c\<lparr>c_wrap_bottom := wrap_target mod 32, c_wrap_top := wrap mod 32\<rparr>"

definition sm_config_set_clkdiv_int_frac :: "u16 \<Rightarrow> u8 \<Rightarrow> pio_sm_config \<Rightarrow> pio_sm_config" where
  "sm_config_set_clkdiv_int_frac div_int div_frac c =
     c\<lparr>c_clkdiv_int := div_int, c_clkdiv_frac := div_frac\<rparr>"

definition sm_config_set_out_shift ::
  "bool \<Rightarrow> bool \<Rightarrow> u8 \<Rightarrow> pio_sm_config \<Rightarrow> pio_sm_config" where
  "sm_config_set_out_shift shift_right autopull pull_threshold c =
     c\<lparr>c_out_dir := (if shift_right then PIO_SHIFT_RIGHT else PIO_SHIFT_LEFT),
       c_autopull := autopull, c_pull_thresh := clamp_thresh pull_threshold\<rparr>"

definition sm_config_set_in_shift ::
  "bool \<Rightarrow> bool \<Rightarrow> u8 \<Rightarrow> pio_sm_config \<Rightarrow> pio_sm_config" where
  "sm_config_set_in_shift shift_right autopush push_threshold c =
     c\<lparr>c_in_dir := (if shift_right then PIO_SHIFT_RIGHT else PIO_SHIFT_LEFT),
       c_autopush := autopush, c_push_thresh := clamp_thresh push_threshold\<rparr>"

definition sm_config_set_fifo_join :: "u8 \<Rightarrow> pio_sm_config \<Rightarrow> pio_sm_config" where
  "sm_config_set_fifo_join join c = c\<lparr>c_fifo_join := join\<rparr>"

definition sm_config_set_mov_status :: "u8 \<Rightarrow> u8 \<Rightarrow> pio_sm_config \<Rightarrow> pio_sm_config" where
  "sm_config_set_mov_status status_sel status_n c =
     c\<lparr>c_status_sel := status_sel, c_status_n := status_n\<rparr>"

definition sm_config_set_jmp_pin :: "u8 \<Rightarrow> pio_sm_config \<Rightarrow> pio_sm_config" where
  "sm_config_set_jmp_pin pin c = c\<lparr>c_jmp_pin := pin\<rparr>"

definition sm_config_set_out_special ::
  "bool \<Rightarrow> bool \<Rightarrow> u8 \<Rightarrow> pio_sm_config \<Rightarrow> pio_sm_config" where
  "sm_config_set_out_special sticky has_enable_pin enable_bit_index c =
     c\<lparr>c_out_sticky := sticky, c_out_inline_en := has_enable_pin,
       c_out_en_sel := enable_bit_index AND 0x1F\<rparr>"

section \<open>Applying a configuration\<close>

text \<open>The \<open>switch\<close> of \<open>apply_fifo_join\<close>: TX capacity, RX capacity and stored mode of each case.\<close>

definition fifo_join_switch :: "pio_version \<Rightarrow> u8 \<Rightarrow> u8 \<times> u8 \<times> u8" where
  "fifo_join_switch v join =
     (if join = PIO_FIFO_JOIN_TX then (PIO_SIM_FIFO_MAX, 0, join)
      else if join = PIO_FIFO_JOIN_RX then (0, PIO_SIM_FIFO_MAX, join)
      else if join = PIO_FIFO_JOIN_RX_PUT \<or> join = PIO_FIFO_JOIN_RX_GET \<or>
              join = PIO_FIFO_JOIN_RX_PUTGET then
        (if PIO_SIM_HAS_RXFIFO_MOV v then (PIO_SIM_FIFO_DEPTH, PIO_SIM_FIFO_DEPTH, join)
         else (PIO_SIM_FIFO_DEPTH, PIO_SIM_FIFO_DEPTH, PIO_FIFO_JOIN_NONE))
      else (PIO_SIM_FIFO_DEPTH, PIO_SIM_FIFO_DEPTH, join))"

definition apply_fifo_join :: "pio_version \<Rightarrow> u8 \<Rightarrow> pio_sm_t \<Rightarrow> pio_sm_t" where
  "apply_fifo_join v join s =
     (let old_join = sm_fifo_join s;
          (tx_cap, rx_cap, new_join) = fifo_join_switch v join;
          s = s\<lparr>sm_fifo_join := new_join, sm_tx := (sm_tx s)\<lparr>f_cap := tx_cap\<rparr>,
                sm_rx := (sm_rx s)\<lparr>f_cap := rx_cap\<rparr>\<rparr>
      in if sm_fifo_join s \<noteq> old_join
         then s\<lparr>sm_tx := fifo_clear (sm_tx s), sm_rx := fifo_clear (sm_rx s)\<rparr> else s)"

text \<open>\<open>pio_sim_sm_set_config\<close> on the selected state machine.\<close>

definition sm_set_config :: "pio_version \<Rightarrow> pio_sm_config \<Rightarrow> pio_sm_t \<Rightarrow> pio_sm_t" where
  "sm_set_config v c s = apply_fifo_join v (c_fifo_join c)
     (s\<lparr>sm_wrap_bottom := c_wrap_bottom c, sm_wrap_top := c_wrap_top c,
        sm_out_base := c_out_base c, sm_out_count := c_out_count c,
        sm_set_base := c_set_base c, sm_set_count := c_set_count c,
        sm_in_base := c_in_base c, sm_in_count := c_in_count c,
        sm_sideset_base := c_sideset_base c, sm_sideset_total_bits := c_sideset_total_bits c,
        sm_sideset_opt := c_sideset_opt c, sm_sideset_pindirs := c_sideset_pindirs c,
        sm_jmp_pin := c_jmp_pin c, sm_out_dir := c_out_dir c, sm_in_dir := c_in_dir c,
        sm_autopull := c_autopull c, sm_autopush := c_autopush c,
        sm_pull_thresh := c_pull_thresh c, sm_push_thresh := c_push_thresh c,
        sm_clkdiv_int := c_clkdiv_int c, sm_clkdiv_frac := c_clkdiv_frac c,
        sm_status_sel := c_status_sel c, sm_status_n := c_status_n c,
        sm_status_override := False, sm_out_sticky := c_out_sticky c,
        sm_out_inline_en := c_out_inline_en c, sm_out_en_sel := c_out_en_sel c\<rparr>)"

text \<open>\<open>pio_sim_sm_init\<close> on the selected state machine.\<close>

definition sm_init :: "pio_version \<Rightarrow> u8 \<Rightarrow> pio_sm_config \<Rightarrow> pio_sm_t \<Rightarrow> pio_sm_t" where
  "sm_init v initial_pc c s =
     (let s = sm_set_config v c s
      in s\<lparr>sm_tx := fifo_clear (sm_tx s), sm_rx := fifo_clear (sm_rx s),
           sm_x := 0, sm_y := 0, sm_osr := 0, sm_isr := 0, sm_osr_count := 32,
           sm_isr_count := 0, sm_delay := 0, sm_stalled := False, sm_exec_pending := False,
           sm_exec_insn := 0, sm_clk_accum := 0, sm_enabled := False,
           sm_pc := initial_pc mod 32\<rparr>)"

section \<open>Shift registers\<close>

definition osr_refill :: "pio_sm_t \<Rightarrow> pio_sm_t \<times> bool" where
  "osr_refill s =
     (case fifo_pop (sm_tx s) of
        (tx, None) \<Rightarrow> (s\<lparr>sm_tx := tx\<rparr>, False)
      | (tx, Some w) \<Rightarrow> (s\<lparr>sm_tx := tx, sm_osr := w, sm_osr_count := 0\<rparr>, True))"

definition isr_drain :: "pio_sm_t \<Rightarrow> pio_sm_t \<times> bool" where
  "isr_drain s =
     (case fifo_push (sm_rx s) (sm_isr s) of
        (rx, False) \<Rightarrow> (s\<lparr>sm_rx := rx\<rparr>, False)
      | (rx, True) \<Rightarrow> (s\<lparr>sm_rx := rx, sm_isr := 0, sm_isr_count := 0\<rparr>, True))"

definition rx_fifo_is_register_file :: "pio_version \<Rightarrow> pio_sm_t \<Rightarrow> bool" where
  "rx_fifo_is_register_file v s \<longleftrightarrow>
     PIO_SIM_HAS_RXFIFO_MOV v \<and>
     (sm_fifo_join s = PIO_FIFO_JOIN_RX_PUT \<or> sm_fifo_join s = PIO_FIFO_JOIN_RX_GET \<or>
      sm_fifo_join s = PIO_FIFO_JOIN_RX_PUTGET)"

section \<open>The delay / side-set field\<close>

record delay_sideset_t =
  ds_delay :: u8
  ds_side_val :: u32
  ds_side_en :: bool
  ds_ss_data_bits :: u8

definition sideset_total :: "pio_sm_t \<Rightarrow> u8" where
  "sideset_total s = (if 5 < sm_sideset_total_bits s then 5 else sm_sideset_total_bits s)"

definition decode_delay_sideset :: "pio_sm_t \<Rightarrow> u8 \<Rightarrow> delay_sideset_t" where
  "decode_delay_sideset s field =
     (let ss_total = sideset_total s;
          delay_bits = (5 - ss_total) AND 7;
          delay = ucast (ucast field AND mask_n delay_bits);
          opt = sm_sideset_opt s;
          data_bits = (if 0 < ss_total then (if opt then ss_total - 1 else ss_total) else 0);
          side_en = (if 0 < ss_total \<and> opt then (drop_bit 4 field) AND 1 \<noteq> 0 else \<not> opt);
          side_val = (if 0 < ss_total
                      then drop_bit (unat delay_bits) (ucast field) AND mask_n data_bits else 0)
      in \<lparr>ds_delay = delay, ds_side_val = side_val, ds_side_en = side_en,
          ds_ss_data_bits = data_bits\<rparr>)"

section \<open>The invariant\<close>

text \<open>Capacities of the TX and RX FIFO for each join mode.\<close>

definition join_caps :: "u8 \<Rightarrow> u8 \<times> u8" where
  "join_caps join = (if join = PIO_FIFO_JOIN_TX then (8, 0)
     else if join = PIO_FIFO_JOIN_RX then (0, 8) else (4, 4))"

definition sm_wf :: "pio_sm_t \<Rightarrow> bool" where
  "sm_wf s \<longleftrightarrow>
     sm_pc s < 32 \<and> sm_wrap_bottom s < 32 \<and> sm_wrap_top s < 32 \<and>
     sm_osr_count s \<le> 32 \<and> sm_isr_count s \<le> 32 \<and>
     0 < sm_pull_thresh s \<and> sm_pull_thresh s \<le> 32 \<and>
     0 < sm_push_thresh s \<and> sm_push_thresh s \<le> 32 \<and>
     sm_out_count s \<le> 32 \<and> sm_set_count s \<le> 32 \<and> sm_in_count s \<le> 32 \<and>
     sm_out_en_sel s < 32 \<and> sm_delay s < 32 \<and>
     fifo_wf (sm_tx s) \<and> fifo_wf (sm_rx s) \<and>
     f_cap (sm_tx s) = fst (join_caps (sm_fifo_join s)) \<and>
     f_cap (sm_rx s) = snd (join_caps (sm_fifo_join s))"

definition config_wf :: "pio_sm_config \<Rightarrow> bool" where
  "config_wf c \<longleftrightarrow>
     c_wrap_bottom c < 32 \<and> c_wrap_top c < 32 \<and>
     0 < c_pull_thresh c \<and> c_pull_thresh c \<le> 32 \<and>
     0 < c_push_thresh c \<and> c_push_thresh c \<le> 32 \<and>
     c_out_count c \<le> 32 \<and> c_set_count c \<le> 32 \<and> c_in_count c \<le> 32 \<and> c_out_en_sel c < 32"

section \<open>Masks and bit reversal\<close>

lemma bit_mask_n: "bit (mask_n n) k \<longleftrightarrow> k < 32 \<and> k < unat n"
proof (cases "32 \<le> n")
  case True
  then have "mask_n n = mask 32" by (simp add: mask_n_def mask_eq_exp_minus_1)
  then show ?thesis using True by (auto simp: bit_simps word_le_nat_alt)
next
  case False
  then have "mask_n n = mask (unat n)"
    by (simp add: mask_n_def mask_eq_exp_minus_1 push_bit_of_1)
  then show ?thesis using False by (auto simp: bit_simps word_le_nat_alt)
qed


text \<open>One stage of the bit reversal exchanges the two halves of every group of \<open>2 * n\<close> bits.\<close>

definition swap_index :: "u32 \<Rightarrow> nat \<Rightarrow> nat \<Rightarrow> nat" where
  "swap_index m n k = (if bit m k then k + n else k - n)"

definition swap_mask :: "u32 \<Rightarrow> nat \<Rightarrow> bool" where
  "swap_mask m n \<longleftrightarrow> (\<forall>k \<in> set [0..<32]. swap_index m n k < 32 \<and>
     (if bit m k then k + n < 32 \<and> \<not> bit m (k + n) else n \<le> k \<and> bit m (k - n)))"

lemma swap_masks:
  "swap_mask 0x55555555 1" "swap_mask 0x33333333 2" "swap_mask 0x0F0F0F0F 4" "swap_mask 0x00FF00FF 8"
  by code_simp+

lemma bit_swap_stage:
  fixes w m :: u32
  assumes "swap_mask m n" "k < 32"
  shows "bit (push_bit n (w AND m) OR (drop_bit n w AND m)) k \<longleftrightarrow> bit w (swap_index m n k)"
    and "swap_index m n k < 32"
proof -
  have *: "swap_index m n k < 32 \<and>
     (if bit m k then k + n < 32 \<and> \<not> bit m (k + n) else n \<le> k \<and> bit m (k - n))" if "k < 32" for k
    using assms(1) that by (auto simp: swap_mask_def)
  then show "swap_index m n k < 32" using assms(2) by blast
  show "bit (push_bit n (w AND m) OR (drop_bit n w AND m)) k \<longleftrightarrow> bit w (swap_index m n k)"
  proof (cases "bit m k")
    case True
    have "\<not> bit m (k - n)" if "n \<le> k"
      using * [of "k - n"] True that less_imp_diff_less [OF assms(2), of n] by auto
    then show ?thesis using True assms(2) by (auto simp: swap_index_def bit_simps add.commute)
  next
    case False
    then show ?thesis using * [OF assms(2)] assms(2) by (auto simp: swap_index_def bit_simps)
  qed
qed

lemma swap_index_chain:
  "\<forall>k \<in> set [0..<32]. swap_index 0x55555555 1 (swap_index 0x33333333 2 (swap_index 0x0F0F0F0F 4
     (swap_index 0x00FF00FF 8 (if k < 16 then k + 16 else k - 16)))) = 31 - k"
  by code_simp

lemma bit_pio_reverse32: "bit (pio_reverse32 w) k \<longleftrightarrow> k < 32 \<and> bit w (31 - k)"
proof (cases "k < 32")
  case True
  define j where "j = (if k < 16 then k + 16 else k - 16)"
  have j: "j < 32" using True by (auto simp: j_def)
  have half: "bit (push_bit 16 u OR drop_bit 16 u) k = bit u j" for u :: u32
    using True by (auto simp: j_def bit_simps add.commute dest: word_bit_lt)
  have "bit (pio_reverse32 w) k = bit w (swap_index 0x55555555 1 (swap_index 0x33333333 2
      (swap_index 0x0F0F0F0F 4 (swap_index 0x00FF00FF 8 j))))"
    unfolding pio_reverse32_def Let_def
    by (simp only: half j bit_swap_stage [OF swap_masks(1)] bit_swap_stage [OF swap_masks(2)]
        bit_swap_stage [OF swap_masks(3)] bit_swap_stage [OF swap_masks(4)])
  then show ?thesis using swap_index_chain True by (simp add: j_def)
next
  case False
  then show ?thesis by (auto dest: word_bit_lt)
qed
lemma pio_reverse32_involution: "pio_reverse32 (pio_reverse32 w) = w"
  by (rule bit_word_eqI) (auto simp: bit_pio_reverse32)

section \<open>The invariant holds initially and is kept\<close>

lemma config_wf_default: "config_wf pio_get_default_sm_config"
  by (simp add: pio_get_default_sm_config_def config_zero_def config_wf_def)

lemma clamp_bounds [simp]:
  "clamp_pin_count n \<le> 32" "0 < clamp_thresh n" "clamp_thresh n \<le> 32"
  by (auto simp: clamp_pin_count_def clamp_thresh_def word_neq_0_conv not_less)

lemma and_31_less: "w AND 0x1F < (32 :: u8)"
  using word_and_le1 [of w "0x1F"] by (auto simp: word_le_nat_alt word_less_nat_alt)

lemma config_wf_mutators [wf_intros]:
  assumes "config_wf c"
  shows "config_wf (sm_config_set_out_pins a n c)" "config_wf (sm_config_set_out_pin_base a c)"
    "config_wf (sm_config_set_out_pin_count n c)" "config_wf (sm_config_set_set_pins a n c)"
    "config_wf (sm_config_set_set_pin_base a c)" "config_wf (sm_config_set_set_pin_count n c)"
    "config_wf (sm_config_set_in_pins a c)" "config_wf (sm_config_set_in_pin_base a c)"
    "config_wf (sm_config_set_in_pin_count n c)" "config_wf (sm_config_set_sideset_pins a c)"
    "config_wf (sm_config_set_sideset n opt dirs c)" "config_wf (sm_config_set_wrap a n c)"
    "config_wf (sm_config_set_clkdiv_int_frac i f c)" "config_wf (sm_config_set_out_shift r auto n c)"
    "config_wf (sm_config_set_in_shift r auto n c)" "config_wf (sm_config_set_fifo_join j c)"
    "config_wf (sm_config_set_mov_status a n c)" "config_wf (sm_config_set_jmp_pin a c)"
    "config_wf (sm_config_set_out_special st en a c)"
  using assms
  by (simp_all add: config_wf_def sm_config_set_out_pins_def sm_config_set_out_pin_base_def
      sm_config_set_out_pin_count_def sm_config_set_set_pins_def sm_config_set_set_pin_base_def
      sm_config_set_set_pin_count_def sm_config_set_in_pins_def sm_config_set_in_pin_base_def
      sm_config_set_in_pin_count_def sm_config_set_sideset_pins_def sm_config_set_sideset_def
      sm_config_set_wrap_def sm_config_set_clkdiv_int_frac_def sm_config_set_out_shift_def
      sm_config_set_in_shift_def sm_config_set_fifo_join_def sm_config_set_mov_status_def
      sm_config_set_jmp_pin_def sm_config_set_out_special_def u8_mod_less and_31_less not_less)

lemma fifo_wf_empty: "f_cap f \<le> 8 \<Longrightarrow> fifo_wf (f\<lparr>f_head := 0, f_tail := 0, f_count := 0\<rparr>)"
  by (simp add: fifo_wf_def)

lemma fifo_wf_clear_cap: "c \<le> 8 \<Longrightarrow> fifo_wf (fifo_clear (f\<lparr>f_cap := c\<rparr>))"
  by (simp add: fifo_wf_def fifo_clear_def)

lemma f_cap_clear [simp]: "f_cap (fifo_clear f) = f_cap f"
  by (simp add: fifo_clear_def)

lemma f_cap_push_pop [simp]:
  "f_cap (fst (fifo_push f w)) = f_cap f" "f_cap (fst (fifo_pop f)) = f_cap f"
  by (simp_all add: fifo_push_def fifo_pop_def)

lemma sm_wf_reset_exec [wf_intros]: "sm_wf s \<Longrightarrow> sm_wf (sm_reset_exec s)"
  by (simp add: sm_wf_def sm_reset_exec_def fifo_clear_wf)

lemma sm_wf_init_defaults: "sm_wf (sm_init_defaults sm_zero)"
  by (simp add: sm_wf_def sm_init_defaults_def sm_reset_exec_def sm_zero_def fifo_zero_def
      fifo_wf_clear_cap fifo_wf_def fifo_clear_def join_caps_def)

text \<open>The join mode that ends up stored, and the join as a change of capacities.\<close>

definition stored_join :: "pio_version \<Rightarrow> u8 \<Rightarrow> u8" where
  "stored_join v j = (if v = RP2040 \<and> (j = 3 \<or> j = 4 \<or> j = 5) then PIO_FIFO_JOIN_NONE else j)"

lemma fifo_join_switch_eq:
  "fifo_join_switch v j = (fst (join_caps (stored_join v j)), snd (join_caps (stored_join v j)),
     stored_join v j)"
  by (cases v) (auto simp: fifo_join_switch_def stored_join_def join_caps_def)

lemma apply_fifo_join_eq:
  "apply_fifo_join v j s =
     (let j' = stored_join v j; c = join_caps j';
          tx = (sm_tx s)\<lparr>f_cap := fst c\<rparr>; rx = (sm_rx s)\<lparr>f_cap := snd c\<rparr>
      in if j' = sm_fifo_join s then s\<lparr>sm_fifo_join := j', sm_tx := tx, sm_rx := rx\<rparr>
         else s\<lparr>sm_fifo_join := j', sm_tx := fifo_clear tx, sm_rx := fifo_clear rx\<rparr>)"
  by (simp add: apply_fifo_join_def fifo_join_switch_eq Let_def)

lemma join_caps_le: "fst (join_caps j) \<le> 8" "snd (join_caps j) \<le> 8"
  by (simp_all add: join_caps_def)

lemma apply_fifo_join_caps [simp]:
  "sm_fifo_join (apply_fifo_join v j s) = stored_join v j"
  "f_cap (sm_tx (apply_fifo_join v j s)) = fst (join_caps (stored_join v j))"
  "f_cap (sm_rx (apply_fifo_join v j s)) = snd (join_caps (stored_join v j))"
  by (simp_all add: apply_fifo_join_eq Let_def)

lemma f_cap_id: "f_cap f = c \<Longrightarrow> f\<lparr>f_cap := c\<rparr> = f"
  by auto

text \<open>An unchanged join leaves both FIFOs as they were, a changed one empties them.\<close>

lemma apply_fifo_join_same:
  assumes "f_cap (sm_tx s) = fst (join_caps (sm_fifo_join s))"
    and "f_cap (sm_rx s) = snd (join_caps (sm_fifo_join s))"
    and "stored_join v j = sm_fifo_join s"
  shows "apply_fifo_join v j s = s"
  using assms by (simp add: apply_fifo_join_eq Let_def f_cap_id)

lemma apply_fifo_join_change:
  assumes "stored_join v j \<noteq> sm_fifo_join s"
  shows "fifo_words (sm_tx (apply_fifo_join v j s)) = []"
    "fifo_words (sm_rx (apply_fifo_join v j s)) = []"
    "fifo_wf (sm_tx (apply_fifo_join v j s))" "fifo_wf (sm_rx (apply_fifo_join v j s))"
  using assms
  by (simp_all add: apply_fifo_join_eq Let_def ring.clear_contents fifo_wf_clear_cap join_caps_le
      del: fifo_words_Nil)

lemma sm_wf_apply_fifo_join [wf_intros]:
  assumes "sm_wf s" shows "sm_wf (apply_fifo_join v j s)"
proof (cases "stored_join v j = sm_fifo_join s")
  case True
  then show ?thesis using assms apply_fifo_join_same [of s v j] by (simp add: sm_wf_def)
next
  case False
  then show ?thesis using assms
    by (simp add: sm_wf_def apply_fifo_join_eq Let_def fifo_wf_clear_cap join_caps_le)
qed

lemma sm_wf_set_config [wf_intros]:
  assumes "config_wf c" "sm_wf s"
  shows "sm_wf (sm_set_config v c s)"
proof -
  define t where "t = s\<lparr>sm_wrap_bottom := c_wrap_bottom c, sm_wrap_top := c_wrap_top c,
        sm_out_base := c_out_base c, sm_out_count := c_out_count c,
        sm_set_base := c_set_base c, sm_set_count := c_set_count c,
        sm_in_base := c_in_base c, sm_in_count := c_in_count c,
        sm_sideset_base := c_sideset_base c, sm_sideset_total_bits := c_sideset_total_bits c,
        sm_sideset_opt := c_sideset_opt c, sm_sideset_pindirs := c_sideset_pindirs c,
        sm_jmp_pin := c_jmp_pin c, sm_out_dir := c_out_dir c, sm_in_dir := c_in_dir c,
        sm_autopull := c_autopull c, sm_autopush := c_autopush c,
        sm_pull_thresh := c_pull_thresh c, sm_push_thresh := c_push_thresh c,
        sm_clkdiv_int := c_clkdiv_int c, sm_clkdiv_frac := c_clkdiv_frac c,
        sm_status_sel := c_status_sel c, sm_status_n := c_status_n c,
        sm_status_override := False, sm_out_sticky := c_out_sticky c,
        sm_out_inline_en := c_out_inline_en c, sm_out_en_sel := c_out_en_sel c\<rparr>"
  have "sm_wf t" using assms by (simp add: t_def sm_wf_def config_wf_def)
  then have "sm_wf (apply_fifo_join v (c_fifo_join c) t)"
    by (rule sm_wf_apply_fifo_join)
  then show ?thesis by (simp only: sm_set_config_def t_def)
qed

lemma sm_wf_init [wf_intros]:
  "config_wf c \<Longrightarrow> sm_wf s \<Longrightarrow> sm_wf (sm_init v pc c s)"
  using sm_wf_set_config [of c s v]
  by (simp add: sm_init_def Let_def sm_wf_def fifo_clear_wf u8_mod_less)

lemma osr_refill_eq:
  "osr_refill s = (if f_count (sm_tx s) = 0 then (s, False)
     else (s\<lparr>sm_tx := fst (fifo_pop (sm_tx s)), sm_osr := f_buf (sm_tx s) (unat (f_tail (sm_tx s))),
             sm_osr_count := 0\<rparr>, True))"
  by (simp add: osr_refill_def fifo_pop_def)

lemma isr_drain_eq:
  "isr_drain s = (if f_cap (sm_rx s) \<le> f_count (sm_rx s) then (s, False)
     else (s\<lparr>sm_rx := fst (fifo_push (sm_rx s) (sm_isr s)), sm_isr := 0, sm_isr_count := 0\<rparr>, True))"
  by (simp add: isr_drain_def fifo_push_def)

lemma sm_wf_refill_drain [wf_intros]:
  "sm_wf s \<Longrightarrow> sm_wf (fst (osr_refill s))" "sm_wf s \<Longrightarrow> sm_wf (fst (isr_drain s))"
  by (auto simp: sm_wf_def osr_refill_eq isr_drain_eq intro: ring.pop_inv ring.push_inv)

section \<open>The delay / side-set field is in range\<close>

lemma sideset_total_le: "sideset_total s \<le> 5"
  by (auto simp: sideset_total_def)

lemma small_cases: "(n :: u8) \<le> 5 \<Longrightarrow> n = 0 \<or> n = 1 \<or> n = 2 \<or> n = 3 \<or> n = 4 \<or> n = 5"
proof -
  assume "n \<le> 5"
  then have "unat n \<le> 5" by (simp add: word_le_nat_alt)
  then have "unat n = 0 \<or> unat n = 1 \<or> unat n = 2 \<or> unat n = 3 \<or> unat n = 4 \<or> unat n = 5"
    by arith
  then show ?thesis by (auto simp: word_unat_eq_iff)
qed

lemma decode_bounds:
  "ds_delay (decode_delay_sideset s field) < 32" "ds_ss_data_bits (decode_delay_sideset s field) \<le> 5"
proof -
  have "unat (ucast (ucast field AND mask_n n) :: u8) < 32" if "n \<le> 5" for n
  proof -
    have "ucast (ucast field AND mask_n n) = field AND ucast (mask_n n)" 
      by (rule bit_word_eqI) (auto simp: bit_simps)
    moreover have "mask_n n \<in> {0, 1, 3, 7, 15, 31}" 
      using small_cases [OF that] by (auto simp: mask_n_def word_le_nat_alt)
    ultimately show ?thesis
      using word_and_le1 [of field "ucast (mask_n n)"] by (auto simp: word_le_nat_alt)
  qed
  moreover have "(5 - sideset_total s) AND 7 \<le> 5"
    using small_cases [OF sideset_total_le [of s]] by auto
  ultimately show "ds_delay (decode_delay_sideset s field) < 32"
    by (simp add: decode_delay_sideset_def Let_def word_less_nat_alt)
  show "ds_ss_data_bits (decode_delay_sideset s field) \<le> 5"
    using small_cases [OF sideset_total_le [of s]] by (auto simp: decode_delay_sideset_def Let_def)
qed
end
