(* ===== verification/Pio_Store.thy ===== *)
theory Pio_Store
  imports Pio_Pads Pio_Sm
begin

text \<open>
  The PIO block (\<open>pio_sim_t\<close>) and the store that holds the blocks and the shared pad sets, so that
  the pointers of the C structs keep their aliasing: \<open>pio->pads\<close> may name the block's own pads or
  those of a group, \<open>pads->owners[i]\<close> and \<open>pio->irq_prev\<close> / \<open>irq_next\<close> name blocks.  A C function
  that touches only \<open>*pio\<close> is a function on the block; one that follows a pointer out of it is a
  function on the store and the number of the block.  The theory holds pad resolution
  (\<open>pio_pads_resolve\<close>) with its priority law, and the lifecycle operations.
\<close>

section \<open>Blocks and the store\<close>

text \<open>The address of a pad set: the one embedded in a block, or the one of a group.\<close>

datatype pads_ptr = Embedded nat | Shared nat

text \<open>
  Function pointers (the device hook \<open>on_tick\<close>, the trace hook \<open>on_insn\<close>) and their \<open>void *\<close>
  contexts are numbers; what a device hook does is a parameter of the tick (\<open>Pio_Tick\<close>).  The trace
  hook takes a \<open>const\<close> block, so a call of it is an entry of the log \<open>st_trace\<close>.
\<close>

record pio_sim_t =
  pio_insn :: "nat \<Rightarrow> u16"
  pio_insn_used :: "nat \<Rightarrow> bool"
  pio_sm :: "nat \<Rightarrow> pio_sm_t"
  pio_irq :: u8
  pio_irq_inte :: "nat \<Rightarrow> u32"
  pio_irq_intf :: "nat \<Rightarrow> u32"
  pio_pads_embedded :: pio_pads_t
  pio_pads :: pads_ptr
  pio_gpio_base :: u8
  pio_on_tick :: "nat option"
  pio_device_ctx :: nat
  pio_on_insn :: "nat option"
  pio_trace_ctx :: nat
  pio_cycle :: u64
  pio_unwritten_fetches :: u64
  pio_irq_prev :: "nat option"
  pio_irq_next :: "nat option"

record trace_call =
  tc_hook :: nat
  tc_block :: nat
  tc_sm :: nat
  tc_pc :: u8
  tc_insn :: u16
  tc_ctx :: nat

record pio_store =
  st_blk :: "nat \<Rightarrow> pio_sim_t"
  st_gpads :: "nat \<Rightarrow> pio_pads_t"
  st_trace :: "trace_call list"

section \<open>Access through pointers\<close>

definition upd_blk :: "nat \<Rightarrow> (pio_sim_t \<Rightarrow> pio_sim_t) \<Rightarrow> pio_store \<Rightarrow> pio_store" where
  "upd_blk b f h = h\<lparr>st_blk := (st_blk h)(b := f (st_blk h b))\<rparr>"

definition blk_upd_sm :: "nat \<Rightarrow> (pio_sm_t \<Rightarrow> pio_sm_t) \<Rightarrow> pio_sim_t \<Rightarrow> pio_sim_t" where
  "blk_upd_sm i f p = p\<lparr>pio_sm := (pio_sm p)(i := f (pio_sm p i))\<rparr>"

definition the_sm :: "pio_store \<Rightarrow> nat \<Rightarrow> nat \<Rightarrow> pio_sm_t" where
  "the_sm h b i = pio_sm (st_blk h b) i"

definition upd_sm :: "nat \<Rightarrow> nat \<Rightarrow> (pio_sm_t \<Rightarrow> pio_sm_t) \<Rightarrow> pio_store \<Rightarrow> pio_store" where
  "upd_sm b i f h = upd_blk b (blk_upd_sm i f) h"

definition get_pads :: "pio_store \<Rightarrow> pads_ptr \<Rightarrow> pio_pads_t" where
  "get_pads h q = (case q of Embedded b \<Rightarrow> pio_pads_embedded (st_blk h b) | Shared g \<Rightarrow> st_gpads h g)"

definition upd_pads :: "pads_ptr \<Rightarrow> (pio_pads_t \<Rightarrow> pio_pads_t) \<Rightarrow> pio_store \<Rightarrow> pio_store" where
  "upd_pads q f h = (case q of
       Embedded b \<Rightarrow> upd_blk b (\<lambda>p. p\<lparr>pio_pads_embedded := f (pio_pads_embedded p)\<rparr>) h
     | Shared g \<Rightarrow> h\<lparr>st_gpads := (st_gpads h)(g := f (st_gpads h g))\<rparr>)"

text \<open>The pads a block is wired to, \<open>*pio->pads\<close>.\<close>

abbreviation pads_ptr_of :: "pio_store \<Rightarrow> nat \<Rightarrow> pads_ptr" where
  "pads_ptr_of h b \<equiv> pio_pads (st_blk h b)"

abbreviation pads_of :: "pio_store \<Rightarrow> nat \<Rightarrow> pio_pads_t" where
  "pads_of h b \<equiv> get_pads h (pads_ptr_of h b)"

text \<open>The index guard \<open>SM_IDX\<close>.\<close>

definition SM_IDX :: "u8 \<Rightarrow> nat" where
  "SM_IDX sm = unat (sm AND 3)"

section \<open>Pad resolution\<close>

text \<open>
  The state machines that drive a pad set, in the order of the two nested loops: owner slot first,
  then state machine.  Each driver is the pair of its slot's function mask and its state.
\<close>

definition pad_drivers :: "pio_store \<Rightarrow> pio_pads_t \<Rightarrow> (u64 \<times> pio_sm_t) list" where
  "pad_drivers h p =
     concat (map (\<lambda>k. map (\<lambda>s. (p_pio_func_mask p k, the_sm h (p_owners p k) s)) [0..<PIO_SIM_NUM_SM])
       [0..<unat (p_owner_count p)])"

definition resolve_pass1 :: "u64 \<times> pio_sm_t \<Rightarrow> u64 \<times> u64 \<Rightarrow> u64 \<times> u64" where
  "resolve_pass1 d acc =
     (let (fmask, s) = d; (oe, val) = acc;
          written = sm_wrote_this_cycle s AND fmask;
          driven = (if sm_enabled s then 0 else sm_dir_driven s AND fmask)
      in (merge driven (sm_out_pin_oe s) oe, merge written (sm_out_pin_val s) val))"

definition resolve_pass2 :: "u64 \<times> pio_sm_t \<Rightarrow> u64 \<Rightarrow> u64" where
  "resolve_pass2 d oe =
     (let (fmask, s) = d
      in if \<not> sm_enabled s then oe else merge (sm_dir_driven s AND fmask) (sm_out_pin_oe s) oe)"

definition pio_pads_resolve :: "pads_ptr \<Rightarrow> pio_store \<Rightarrow> pio_store" where
  "pio_pads_resolve q h =
     (let p = get_pads h q;
          ds = pad_drivers h p;
          (oe, val) = fold resolve_pass1 ds (0, p_pin_levels p);
          oe = fold resolve_pass2 ds oe
      in upd_pads q (\<lambda>p. p\<lparr>p_pin_dirs := oe, p_pin_levels := val\<rparr>) h)"

section \<open>Lifecycle\<close>

text \<open>The all-zero block, as \<open>memset\<close> leaves it, and a store of such blocks.\<close>

definition blk_zero :: pio_sim_t where
  "blk_zero =
     \<lparr>pio_insn = (\<lambda>_. 0), pio_insn_used = (\<lambda>_. False), pio_sm = (\<lambda>_. sm_zero), pio_irq = 0,
      pio_irq_inte = (\<lambda>_. 0), pio_irq_intf = (\<lambda>_. 0), pio_pads_embedded = pads_zero,
      pio_pads = Embedded 0, pio_gpio_base = 0, pio_on_tick = None, pio_device_ctx = 0,
      pio_on_insn = None, pio_trace_ctx = 0, pio_cycle = 0, pio_unwritten_fetches = 0,
      pio_irq_prev = None, pio_irq_next = None\<rparr>"

definition store_zero :: pio_store where
  "store_zero = \<lparr>st_blk = (\<lambda>_. blk_zero), st_gpads = (\<lambda>_. pads_zero), st_trace = []\<rparr>"

text \<open>\<open>memset\<close> of the block, then its own pads with itself as the only owner, then the loop.\<close>

definition pio_sim_init :: "pio_version \<Rightarrow> nat \<Rightarrow> pio_store \<Rightarrow> pio_store" where
  "pio_sim_init v b h = upd_blk b (\<lambda>_.
     blk_zero\<lparr>pio_pads := Embedded b,
       pio_pads_embedded :=
         pio_pads_init_defaults v (pads_zero\<lparr>p_owners := (\<lambda>_. 0)(0 := b), p_owner_count := 1\<rparr>),
       pio_sm := (\<lambda>i. if i < PIO_SIM_NUM_SM then sm_init_defaults sm_zero else sm_zero)\<rparr>) h"

text \<open>The loop writes \<open>insns[i]\<close> while \<open>i < count\<close> and the target address is in the 32-word memory.\<close>

fun pio_sim_load_from :: "nat \<Rightarrow> u16 list \<Rightarrow> pio_sim_t \<Rightarrow> pio_sim_t" where
  "pio_sim_load_from addr [] p = p"
| "pio_sim_load_from addr (w # ws) p =
     (if addr < PIO_SIM_INSN_COUNT
      then pio_sim_load_from (addr + 1) ws
        (p\<lparr>pio_insn := (pio_insn p)(addr := w), pio_insn_used := (pio_insn_used p)(addr := True)\<rparr>)
      else p)"

definition pio_sim_load :: "u8 \<Rightarrow> u16 list \<Rightarrow> pio_sim_t \<Rightarrow> pio_sim_t" where
  "pio_sim_load offset insns p = pio_sim_load_from (unat offset) insns p"

definition pio_sim_sm_restart :: "u8 \<Rightarrow> pio_sim_t \<Rightarrow> pio_sim_t" where
  "pio_sim_sm_restart sm p = blk_upd_sm (SM_IDX sm) sm_reset_exec p"

definition pio_sim_sm_set_enabled :: "nat \<Rightarrow> u8 \<Rightarrow> bool \<Rightarrow> pio_store \<Rightarrow> pio_store" where
  "pio_sim_sm_set_enabled b sm enabled h =
     (let h = upd_sm b (SM_IDX sm) (\<lambda>s. s\<lparr>sm_enabled := enabled\<rparr>) h
      in pio_pads_resolve (pads_ptr_of h b) h)"

definition pio_sim_sm_is_enabled :: "pio_sim_t \<Rightarrow> u8 \<Rightarrow> bool" where
  "pio_sim_sm_is_enabled p sm = sm_enabled (pio_sm p (SM_IDX sm))"

definition pio_sim_sm_is_stalled :: "pio_sim_t \<Rightarrow> u8 \<Rightarrow> bool" where
  "pio_sim_sm_is_stalled p sm = sm_stalled (pio_sm p (SM_IDX sm))"

definition pio_sim_set_sm_mask_enabled :: "nat \<Rightarrow> u8 \<Rightarrow> bool \<Rightarrow> pio_store \<Rightarrow> pio_store" where
  "pio_sim_set_sm_mask_enabled b sm_mask enabled h =
     (let h = fold (\<lambda>i h. if bit sm_mask i then upd_sm b i (\<lambda>s. s\<lparr>sm_enabled := enabled\<rparr>) h else h)
                [0..<PIO_SIM_NUM_SM] h
      in pio_pads_resolve (pads_ptr_of h b) h)"

definition pio_sim_clkdiv_restart_sm_mask :: "u8 \<Rightarrow> pio_sim_t \<Rightarrow> pio_sim_t" where
  "pio_sim_clkdiv_restart_sm_mask sm_mask p =
     fold (\<lambda>i p. if bit sm_mask i then blk_upd_sm i (\<lambda>s. s\<lparr>sm_clk_accum := 0\<rparr>) p else p)
       [0..<PIO_SIM_NUM_SM] p"

definition pio_sim_enable_sm_mask_in_sync :: "nat \<Rightarrow> u8 \<Rightarrow> pio_store \<Rightarrow> pio_store" where
  "pio_sim_enable_sm_mask_in_sync b sm_mask h =
     upd_blk b (pio_sim_clkdiv_restart_sm_mask sm_mask) (pio_sim_set_sm_mask_enabled b sm_mask True h)"

section \<open>Reading back\<close>

lemma the_sm_upd_blk [store_simps]:
  "the_sm (upd_blk b f h) b' i = (if b' = b then pio_sm (f (st_blk h b)) i else the_sm h b' i)"
  by (simp add: the_sm_def upd_blk_def)

lemma the_sm_upd_sm [store_simps, simp]:
  "the_sm (upd_sm b i f h) b' i' = (if b' = b \<and> i' = i then f (the_sm h b i) else the_sm h b' i')"
  by (simp add: the_sm_def upd_sm_def upd_blk_def blk_upd_sm_def)

lemma upd_sm_frame [frame, simp]:
  "pio_irq (st_blk (upd_sm b i f h) b') = pio_irq (st_blk h b')"
  "pio_pads (st_blk (upd_sm b i f h) b') = pio_pads (st_blk h b')"
  "pio_gpio_base (st_blk (upd_sm b i f h) b') = pio_gpio_base (st_blk h b')"
  "pio_irq_prev (st_blk (upd_sm b i f h) b') = pio_irq_prev (st_blk h b')"
  "pio_irq_next (st_blk (upd_sm b i f h) b') = pio_irq_next (st_blk h b')"
  "pio_insn (st_blk (upd_sm b i f h) b') = pio_insn (st_blk h b')"
  "pio_insn_used (st_blk (upd_sm b i f h) b') = pio_insn_used (st_blk h b')"
  "pio_irq_inte (st_blk (upd_sm b i f h) b') = pio_irq_inte (st_blk h b')"
  "pio_irq_intf (st_blk (upd_sm b i f h) b') = pio_irq_intf (st_blk h b')"
  "pio_on_tick (st_blk (upd_sm b i f h) b') = pio_on_tick (st_blk h b')"
  "pio_device_ctx (st_blk (upd_sm b i f h) b') = pio_device_ctx (st_blk h b')"
  "pio_on_insn (st_blk (upd_sm b i f h) b') = pio_on_insn (st_blk h b')"
  "pio_trace_ctx (st_blk (upd_sm b i f h) b') = pio_trace_ctx (st_blk h b')"
  "pio_cycle (st_blk (upd_sm b i f h) b') = pio_cycle (st_blk h b')"
  "pio_unwritten_fetches (st_blk (upd_sm b i f h) b') = pio_unwritten_fetches (st_blk h b')"
  "pio_pads_embedded (st_blk (upd_sm b i f h) b') = pio_pads_embedded (st_blk h b')"
  "st_gpads (upd_sm b i f h) = st_gpads h"
  "st_trace (upd_sm b i f h) = st_trace h"
  by (simp_all add: upd_sm_def upd_blk_def blk_upd_sm_def)

lemma get_pads_upd_sm [frame, simp]: "get_pads (upd_sm b i f h) q = get_pads h q"
  by (simp add: get_pads_def split: pads_ptr.split)

lemma get_pads_upd_pads [store_simps, simp]:
  "get_pads (upd_pads q f h) q' = (if q' = q then f (get_pads h q) else get_pads h q')"
  by (auto simp: get_pads_def upd_pads_def upd_blk_def split: pads_ptr.splits)

lemma upd_pads_frame [frame, simp]:
  "the_sm (upd_pads q f h) b i = the_sm h b i"
  "pio_sm (st_blk (upd_pads q f h) b) = pio_sm (st_blk h b)"
  "pio_irq (st_blk (upd_pads q f h) b) = pio_irq (st_blk h b)"
  "pio_pads (st_blk (upd_pads q f h) b) = pio_pads (st_blk h b)"
  "pio_gpio_base (st_blk (upd_pads q f h) b) = pio_gpio_base (st_blk h b)"
  "pio_irq_prev (st_blk (upd_pads q f h) b) = pio_irq_prev (st_blk h b)"
  "pio_irq_next (st_blk (upd_pads q f h) b) = pio_irq_next (st_blk h b)"
  "pio_insn (st_blk (upd_pads q f h) b) = pio_insn (st_blk h b)"
  "pio_insn_used (st_blk (upd_pads q f h) b) = pio_insn_used (st_blk h b)"
  "pio_irq_inte (st_blk (upd_pads q f h) b) = pio_irq_inte (st_blk h b)"
  "pio_irq_intf (st_blk (upd_pads q f h) b) = pio_irq_intf (st_blk h b)"
  "pio_on_tick (st_blk (upd_pads q f h) b) = pio_on_tick (st_blk h b)"
  "pio_device_ctx (st_blk (upd_pads q f h) b) = pio_device_ctx (st_blk h b)"
  "pio_on_insn (st_blk (upd_pads q f h) b) = pio_on_insn (st_blk h b)"
  "pio_trace_ctx (st_blk (upd_pads q f h) b) = pio_trace_ctx (st_blk h b)"
  "pio_cycle (st_blk (upd_pads q f h) b) = pio_cycle (st_blk h b)"
  "pio_unwritten_fetches (st_blk (upd_pads q f h) b) = pio_unwritten_fetches (st_blk h b)"
  "st_trace (upd_pads q f h) = st_trace h"
  by (simp_all add: upd_pads_def upd_blk_def the_sm_def split: pads_ptr.split)

lemma SM_IDX_less: "SM_IDX sm < PIO_SIM_NUM_SM"
  by (simp add: SM_IDX_def unat_and_3)

section \<open>The priority law of pad resolution\<close>

lemma fold_resolve_pass1:
  "fold resolve_pass1 ds (oe, val) =
     (fold (\<lambda>d. merge (if sm_enabled (snd d) then 0 else sm_dir_driven (snd d) AND fst d)
        (sm_out_pin_oe (snd d))) ds oe,
      fold (\<lambda>d. merge (sm_wrote_this_cycle (snd d) AND fst d) (sm_out_pin_val (snd d))) ds val)"
  by (induction ds arbitrary: oe val) (simp_all add: resolve_pass1_def split_beta Let_def)

lemma fold_resolve_pass2:
  "fold resolve_pass2 ds oe =
     fold (\<lambda>d. merge (if sm_enabled (snd d) then sm_dir_driven (snd d) AND fst d else 0)
       (sm_out_pin_oe (snd d))) ds oe"
  by (induction ds arbitrary: oe) (simp_all add: resolve_pass2_def split_beta Let_def)

text \<open>
  Driver \<open>d\<close> claims the direction of pin \<open>k\<close>, or wrote its level this cycle, through its function
  mask.
\<close>

definition claims_dir :: "nat \<Rightarrow> u64 \<times> pio_sm_t \<Rightarrow> bool" where
  "claims_dir k d \<longleftrightarrow> bit (sm_dir_driven (snd d)) k \<and> bit (fst d) k"

definition wrote_pin :: "nat \<Rightarrow> u64 \<times> pio_sm_t \<Rightarrow> bool" where
  "wrote_pin k d \<longleftrightarrow> bit (sm_wrote_this_cycle (snd d)) k \<and> bit (fst d) k"

text \<open>Who decides a pin: the last enabled claimant, else the last disabled one.\<close>

definition dir_winner :: "nat \<Rightarrow> (u64 \<times> pio_sm_t) list \<Rightarrow> (u64 \<times> pio_sm_t) option" where
  "dir_winner k ds =
     (case List.find (\<lambda>d. sm_enabled (snd d) \<and> claims_dir k d) (rev ds) of
        Some d \<Rightarrow> Some d
      | None \<Rightarrow> List.find (\<lambda>d. \<not> sm_enabled (snd d) \<and> claims_dir k d) (rev ds))"

lemma resolve_dirs_bit:
  "bit (p_pin_dirs (get_pads (pio_pads_resolve q h) q)) k =
     (case dir_winner k (pad_drivers h (get_pads h q)) of
        None \<Rightarrow> False | Some d \<Rightarrow> bit (sm_out_pin_oe (snd d)) k)"
proof -
  have "(\<lambda>d. bit (if sm_enabled (snd d) then sm_dir_driven (snd d) AND fst d else 0) k) =
      (\<lambda>d. sm_enabled (snd d) \<and> claims_dir k d)"
    by (auto simp: fun_eq_iff claims_dir_def word_bits)
  moreover have "(\<lambda>d. bit (if sm_enabled (snd d) then 0 else sm_dir_driven (snd d) AND fst d) k) =
      (\<lambda>d. \<not> sm_enabled (snd d) \<and> claims_dir k d)"
    by (auto simp: fun_eq_iff claims_dir_def word_bits)
  ultimately show ?thesis
    by (simp add: pio_pads_resolve_def Let_def fold_resolve_pass1 fold_resolve_pass2 bit_fold_merge
        dir_winner_def split: option.split)
qed

lemma resolve_levels_bit:
  "bit (p_pin_levels (get_pads (pio_pads_resolve q h) q)) k =
     (case List.find (wrote_pin k) (rev (pad_drivers h (get_pads h q))) of
        None \<Rightarrow> bit (p_pin_levels (get_pads h q)) k
      | Some d \<Rightarrow> bit (sm_out_pin_val (snd d)) k)"
proof -
  have "(\<lambda>d. bit (sm_wrote_this_cycle (snd d) AND fst d) k) = wrote_pin k"
    by (auto simp: fun_eq_iff wrote_pin_def word_bits)
  then show ?thesis
    by (simp add: pio_pads_resolve_def Let_def fold_resolve_pass1 bit_fold_merge)
qed

text \<open>Resolution writes \<open>pin_dirs\<close> and \<open>pin_levels\<close> of one pad set and nothing else.\<close>

lemma resolve_eq:
  "pio_pads_resolve q h =
     upd_pads q (\<lambda>p. p\<lparr>p_pin_dirs := p_pin_dirs (get_pads (pio_pads_resolve q h) q),
       p_pin_levels := p_pin_levels (get_pads (pio_pads_resolve q h) q)\<rparr>) h"
  by (simp add: pio_pads_resolve_def Let_def split_beta)

lemma resolve_frame [frame, simp]:
  "the_sm (pio_pads_resolve q h) b i = the_sm h b i"
  "pio_sm (st_blk (pio_pads_resolve q h) b) = pio_sm (st_blk h b)"
  "pio_irq (st_blk (pio_pads_resolve q h) b) = pio_irq (st_blk h b)"
  "pio_pads (st_blk (pio_pads_resolve q h) b) = pio_pads (st_blk h b)"
  "pio_gpio_base (st_blk (pio_pads_resolve q h) b) = pio_gpio_base (st_blk h b)"
  "pio_irq_prev (st_blk (pio_pads_resolve q h) b) = pio_irq_prev (st_blk h b)"
  "pio_irq_next (st_blk (pio_pads_resolve q h) b) = pio_irq_next (st_blk h b)"
  "pio_insn (st_blk (pio_pads_resolve q h) b) = pio_insn (st_blk h b)"
  "pio_insn_used (st_blk (pio_pads_resolve q h) b) = pio_insn_used (st_blk h b)"
  "pio_irq_inte (st_blk (pio_pads_resolve q h) b) = pio_irq_inte (st_blk h b)"
  "pio_irq_intf (st_blk (pio_pads_resolve q h) b) = pio_irq_intf (st_blk h b)"
  "pio_on_tick (st_blk (pio_pads_resolve q h) b) = pio_on_tick (st_blk h b)"
  "pio_device_ctx (st_blk (pio_pads_resolve q h) b) = pio_device_ctx (st_blk h b)"
  "pio_on_insn (st_blk (pio_pads_resolve q h) b) = pio_on_insn (st_blk h b)"
  "pio_trace_ctx (st_blk (pio_pads_resolve q h) b) = pio_trace_ctx (st_blk h b)"
  "pio_cycle (st_blk (pio_pads_resolve q h) b) = pio_cycle (st_blk h b)"
  "pio_unwritten_fetches (st_blk (pio_pads_resolve q h) b) = pio_unwritten_fetches (st_blk h b)"
  "st_trace (pio_pads_resolve q h) = st_trace h"
  by (subst resolve_eq, simp)+

lemma resolve_other_pads [frame, simp]:
  "q' \<noteq> q \<Longrightarrow> get_pads (pio_pads_resolve q h) q' = get_pads h q'"
  by (subst resolve_eq) simp

section \<open>The initial block\<close>

lemma init_ptr [simp]: "pads_ptr_of (pio_sim_init v b h) b = Embedded b"
  by (simp add: pio_sim_init_def upd_blk_def)

lemma init_pads:
  "get_pads (pio_sim_init v b h) (Embedded b) =
     pio_pads_init_defaults v (pads_zero\<lparr>p_owners := (\<lambda>_. 0)(0 := b), p_owner_count := 1\<rparr>)"
  by (simp add: pio_sim_init_def get_pads_def upd_blk_def)

lemma init_sm: "i < 4 \<Longrightarrow> the_sm (pio_sim_init v b h) b i = sm_init_defaults sm_zero"
  by (simp add: pio_sim_init_def the_sm_def upd_blk_def)

section \<open>Properties\<close>

text \<open>
  C5: Pad resolution.  The direction of a pin is that of the last enabled state machine (owner slot
  first, then state machine number) that claims it through its block's function mask, else that of
  the last disabled claimant, else input; its level is that of the last state machine that wrote it
  in this cycle, else the level it had.
\<close>

theorem pads_resolve_priority:
  "bit (p_pin_dirs (get_pads (pio_pads_resolve q h) q)) k =
     (case dir_winner k (pad_drivers h (get_pads h q)) of
        None \<Rightarrow> False | Some d \<Rightarrow> bit (sm_out_pin_oe (snd d)) k) \<and>
   bit (p_pin_levels (get_pads (pio_pads_resolve q h) q)) k =
     (case List.find (wrote_pin k) (rev (pad_drivers h (get_pads h q))) of
        None \<Rightarrow> bit (p_pin_levels (get_pads h q)) k
      | Some d \<Rightarrow> bit (sm_out_pin_val (snd d)) k)"
  using resolve_dirs_bit resolve_levels_bit by blast

end
