(* ===== verification/Pio_Host.thy ===== *)
theory Pio_Host
  imports Pio_Store
begin

text \<open>
  The host side of a PIO block in \<open>lib/src/pio_sim.c\<close>: applying a configuration, reading state
  machine registers, the FIFO, pin and IRQ-flag accessors and the two system interrupt lines.  The
  lemmas give each accessor's effect in terms of the abstractions of the lower theories (queue
  contents, wire levels, flag bits).
\<close>

section \<open>Configuration of a state machine in its block\<close>

abbreviation (input) PIO_SIM_PIN_WINDOW :: nat where "PIO_SIM_PIN_WINDOW \<equiv> 32"
abbreviation (input) PIO_SIM_NUM_IRQ :: nat where "PIO_SIM_NUM_IRQ \<equiv> 8"

definition phys_pin :: "pio_version \<Rightarrow> pio_sim_t \<Rightarrow> u8 \<Rightarrow> u8" where
  "phys_pin v p view =
     (let w = view mod 32
      in if PIO_SIM_HAS_GPIO_BASE v
         then word_of_nat ((unat (pio_gpio_base p) + unat w) mod PIO_SIM_NUM_PINS v) else w)"

definition pio_sim_sm_clkdiv_restart :: "u8 \<Rightarrow> pio_sim_t \<Rightarrow> pio_sim_t" where
  "pio_sim_sm_clkdiv_restart sm p = blk_upd_sm (SM_IDX sm) (\<lambda>s. s\<lparr>sm_clk_accum := 0\<rparr>) p"

definition pio_sim_sm_set_pc :: "u8 \<Rightarrow> u8 \<Rightarrow> pio_sim_t \<Rightarrow> pio_sim_t" where
  "pio_sim_sm_set_pc sm pc p = blk_upd_sm (SM_IDX sm) (\<lambda>s. s\<lparr>sm_pc := pc mod 32\<rparr>) p"

definition pio_sim_sm_get_pc :: "pio_sim_t \<Rightarrow> u8 \<Rightarrow> u8" where
  "pio_sim_sm_get_pc p sm = sm_pc (pio_sm p (SM_IDX sm))"

definition pio_sim_sm_get_x :: "pio_sim_t \<Rightarrow> u8 \<Rightarrow> u32" where
  "pio_sim_sm_get_x p sm = sm_x (pio_sm p (SM_IDX sm))"

definition pio_sim_sm_get_y :: "pio_sim_t \<Rightarrow> u8 \<Rightarrow> u32" where
  "pio_sim_sm_get_y p sm = sm_y (pio_sm p (SM_IDX sm))"

definition pio_sim_sm_get_isr :: "pio_sim_t \<Rightarrow> u8 \<Rightarrow> u32" where
  "pio_sim_sm_get_isr p sm = sm_isr (pio_sm p (SM_IDX sm))"

definition pio_sim_sm_get_osr :: "pio_sim_t \<Rightarrow> u8 \<Rightarrow> u32" where
  "pio_sim_sm_get_osr p sm = sm_osr (pio_sm p (SM_IDX sm))"

definition pio_sim_sm_get_isr_count :: "pio_sim_t \<Rightarrow> u8 \<Rightarrow> u8" where
  "pio_sim_sm_get_isr_count p sm = sm_isr_count (pio_sm p (SM_IDX sm))"

definition pio_sim_sm_get_osr_count :: "pio_sim_t \<Rightarrow> u8 \<Rightarrow> u8" where
  "pio_sim_sm_get_osr_count p sm = sm_osr_count (pio_sm p (SM_IDX sm))"

definition pio_sim_sm_get_instruction :: "pio_sim_t \<Rightarrow> u8 \<Rightarrow> u16" where
  "pio_sim_sm_get_instruction p sm =
     (let s = pio_sm p (SM_IDX sm)
      in if sm_exec_pending s then sm_exec_insn s
         else pio_insn p (unat (sm_pc s) mod PIO_SIM_INSN_COUNT))"

definition pio_sim_sm_set_status_value :: "u8 \<Rightarrow> u32 \<Rightarrow> pio_sim_t \<Rightarrow> pio_sim_t" where
  "pio_sim_sm_set_status_value sm val p =
     blk_upd_sm (SM_IDX sm) (\<lambda>s. s\<lparr>sm_status_value := val, sm_status_override := True\<rparr>) p"

definition pio_sim_sm_clear_status_value :: "u8 \<Rightarrow> pio_sim_t \<Rightarrow> pio_sim_t" where
  "pio_sim_sm_clear_status_value sm p =
     blk_upd_sm (SM_IDX sm) (\<lambda>s. s\<lparr>sm_status_override := False\<rparr>) p"

text \<open>The \<open>bool\<close> result and the value written through the out-parameter, when it is written.\<close>

definition pio_sim_sm_get_status_value :: "pio_sim_t \<Rightarrow> u8 \<Rightarrow> bool \<times> u32 option" where
  "pio_sim_sm_get_status_value p sm =
     (let s = pio_sm p (SM_IDX sm)
      in (sm_status_override s, if sm_status_override s then Some (sm_status_value s) else None))"

definition pio_sim_sm_set_config ::
  "pio_version \<Rightarrow> u8 \<Rightarrow> pio_sm_config \<Rightarrow> pio_sim_t \<Rightarrow> pio_sim_t" where
  "pio_sim_sm_set_config v sm c p = blk_upd_sm (SM_IDX sm) (sm_set_config v c) p"

definition pio_sim_sm_init ::
  "pio_version \<Rightarrow> u8 \<Rightarrow> u8 \<Rightarrow> pio_sm_config \<Rightarrow> pio_sim_t \<Rightarrow> pio_sim_t" where
  "pio_sim_sm_init v sm initial_pc c p = blk_upd_sm (SM_IDX sm) (sm_init v initial_pc c) p"

text \<open>One iteration of the loop of \<open>pio_sim_sm_set_consecutive_pindirs\<close> on the pin mask \<open>m\<close>.\<close>

definition set_pindir_bit :: "u64 \<Rightarrow> bool \<Rightarrow> pio_sm_t \<Rightarrow> pio_sm_t" where
  "set_pindir_bit m is_out s =
     s\<lparr>sm_out_pin_oe := (if is_out then sm_out_pin_oe s OR m else sm_out_pin_oe s AND NOT m),
       sm_dir_driven := sm_dir_driven s OR m\<rparr>"

definition pio_sim_sm_set_consecutive_pindirs ::
  "pio_version \<Rightarrow> nat \<Rightarrow> u8 \<Rightarrow> u8 \<Rightarrow> u8 \<Rightarrow> bool \<Rightarrow> pio_store \<Rightarrow> pio_store" where
  "pio_sim_sm_set_consecutive_pindirs v b sm base count is_out h =
     (let p = st_blk h b;
          h = upd_sm b (SM_IDX sm)
                (fold (\<lambda>i. set_pindir_bit (bit64 (unat (phys_pin v p (base + of_nat i)))) is_out)
                   [0..<unat (clamp_pin_count count)]) h
      in pio_pads_resolve (pads_ptr_of h b) h)"

definition pio_sim_set_device :: "nat option \<Rightarrow> nat \<Rightarrow> pio_sim_t \<Rightarrow> pio_sim_t" where
  "pio_sim_set_device on_tick ctx p = p\<lparr>pio_on_tick := on_tick, pio_device_ctx := ctx\<rparr>"

definition pio_sim_set_trace :: "nat option \<Rightarrow> nat \<Rightarrow> pio_sim_t \<Rightarrow> pio_sim_t" where
  "pio_sim_set_trace fn ctx p = p\<lparr>pio_on_insn := fn, pio_trace_ctx := ctx\<rparr>"

text \<open>The next two exist in the \<open>RP2350\<close> build only.\<close>

definition pio_sim_set_irq_neighbors :: "nat option \<Rightarrow> nat option \<Rightarrow> pio_sim_t \<Rightarrow> pio_sim_t" where
  "pio_sim_set_irq_neighbors prev nxt p = p\<lparr>pio_irq_prev := prev, pio_irq_next := nxt\<rparr>"

definition pio_sim_set_gpio_base :: "u8 \<Rightarrow> pio_sim_t \<Rightarrow> pio_sim_t" where
  "pio_sim_set_gpio_base base p = p\<lparr>pio_gpio_base := (if 16 \<le> base then 16 else 0)\<rparr>"

definition pio_sim_get_gpio_base :: "pio_sim_t \<Rightarrow> u8" where
  "pio_sim_get_gpio_base p = pio_gpio_base p"

definition pio_sim_sync_settle :: "pio_version \<Rightarrow> nat \<Rightarrow> pio_store \<Rightarrow> pio_store" where
  "pio_sim_sync_settle v b h =
     (let view = pads_input_view v (pads_of h b)
      in upd_pads (pads_ptr_of h b) (\<lambda>p. p\<lparr>p_in_sync0 := view, p_in_sync1 := view\<rparr>) h)"

definition pio_sim_set_pull_level :: "nat \<Rightarrow> u64 \<Rightarrow> bool \<Rightarrow> pio_store \<Rightarrow> pio_store" where
  "pio_sim_set_pull_level b m level h =
     upd_pads (pads_ptr_of h b)
       (\<lambda>p. if level then p\<lparr>p_pad_pue := p_pad_pue p OR m, p_pad_pde := p_pad_pde p AND NOT m\<rparr>
            else p\<lparr>p_pad_pde := p_pad_pde p OR m, p_pad_pue := p_pad_pue p AND NOT m\<rparr>) h"

definition pio_sim_set_input_sync_bypass :: "nat \<Rightarrow> u64 \<Rightarrow> pio_store \<Rightarrow> pio_store" where
  "pio_sim_set_input_sync_bypass b m h =
     upd_pads (pads_ptr_of h b) (\<lambda>p. p\<lparr>p_sync_bypass := m\<rparr>) h"

section \<open>FIFO access\<close>

definition pio_sim_sm_is_tx_fifo_full :: "pio_sim_t \<Rightarrow> u8 \<Rightarrow> bool" where
  "pio_sim_sm_is_tx_fifo_full p sm \<longleftrightarrow>
     f_cap (sm_tx (pio_sm p (SM_IDX sm))) \<le> f_count (sm_tx (pio_sm p (SM_IDX sm)))"

definition pio_sim_sm_is_tx_fifo_empty :: "pio_sim_t \<Rightarrow> u8 \<Rightarrow> bool" where
  "pio_sim_sm_is_tx_fifo_empty p sm \<longleftrightarrow> f_count (sm_tx (pio_sm p (SM_IDX sm))) = 0"

definition pio_sim_sm_is_rx_fifo_full :: "pio_sim_t \<Rightarrow> u8 \<Rightarrow> bool" where
  "pio_sim_sm_is_rx_fifo_full p sm \<longleftrightarrow>
     f_cap (sm_rx (pio_sm p (SM_IDX sm))) \<le> f_count (sm_rx (pio_sm p (SM_IDX sm)))"

definition pio_sim_sm_is_rx_fifo_empty :: "pio_sim_t \<Rightarrow> u8 \<Rightarrow> bool" where
  "pio_sim_sm_is_rx_fifo_empty p sm \<longleftrightarrow> f_count (sm_rx (pio_sm p (SM_IDX sm))) = 0"

text \<open>\<open>pio_sim_sm_put\<close> and \<open>pio_sim_sm_get\<close> on the selected state machine.\<close>

definition sm_put :: "u32 \<Rightarrow> pio_sm_t \<Rightarrow> pio_sm_t \<times> bool" where
  "sm_put word s =
     (case fifo_push (sm_tx s) word of
        (tx, False) \<Rightarrow> (s\<lparr>sm_tx := tx, sm_fdebug := sm_fdebug s OR PIO_FDEBUG_TXOVER\<rparr>, False)
      | (tx, True) \<Rightarrow> (s\<lparr>sm_tx := tx\<rparr>, True))"

definition sm_get :: "pio_sm_t \<Rightarrow> pio_sm_t \<times> u32 option" where
  "sm_get s =
     (case fifo_pop (sm_rx s) of
        (rx, None) \<Rightarrow> (s\<lparr>sm_rx := rx, sm_fdebug := sm_fdebug s OR PIO_FDEBUG_RXUNDER\<rparr>, None)
      | (rx, Some w) \<Rightarrow> (s\<lparr>sm_rx := rx\<rparr>, Some w))"

definition pio_sim_sm_put :: "u8 \<Rightarrow> u32 \<Rightarrow> pio_sim_t \<Rightarrow> pio_sim_t \<times> bool" where
  "pio_sim_sm_put sm word p =
     (blk_upd_sm (SM_IDX sm) (\<lambda>s. fst (sm_put word s)) p, snd (sm_put word (pio_sm p (SM_IDX sm))))"

definition pio_sim_sm_get :: "u8 \<Rightarrow> pio_sim_t \<Rightarrow> pio_sim_t \<times> u32 option" where
  "pio_sim_sm_get sm p =
     (blk_upd_sm (SM_IDX sm) (\<lambda>s. fst (sm_get s)) p, snd (sm_get (pio_sm p (SM_IDX sm))))"

definition pio_sim_sm_clear_fifos :: "u8 \<Rightarrow> pio_sim_t \<Rightarrow> pio_sim_t" where
  "pio_sim_sm_clear_fifos sm p = blk_upd_sm (SM_IDX sm)
     (\<lambda>s. s\<lparr>sm_tx := fifo_clear (sm_tx s), sm_rx := fifo_clear (sm_rx s)\<rparr>) p"

text \<open>The next two exist in the \<open>RP2350\<close> build only.\<close>

definition pio_sim_sm_rxfifo_get :: "pio_sim_t \<Rightarrow> u8 \<Rightarrow> u8 \<Rightarrow> u32" where
  "pio_sim_sm_rxfifo_get p sm index = f_buf (sm_rx (pio_sm p (SM_IDX sm))) (unat (index AND 3))"

definition pio_sim_sm_rxfifo_put :: "u8 \<Rightarrow> u8 \<Rightarrow> u32 \<Rightarrow> pio_sim_t \<Rightarrow> pio_sim_t" where
  "pio_sim_sm_rxfifo_put sm index word p = blk_upd_sm (SM_IDX sm)
     (\<lambda>s. s\<lparr>sm_rx := (sm_rx s)\<lparr>f_buf := (f_buf (sm_rx s))(unat (index AND 3) := word)\<rparr>\<rparr>) p"

definition pio_sim_sm_get_tx_fifo_level :: "pio_sim_t \<Rightarrow> u8 \<Rightarrow> u8" where
  "pio_sim_sm_get_tx_fifo_level p sm = f_count (sm_tx (pio_sm p (SM_IDX sm)))"

definition pio_sim_sm_get_rx_fifo_level :: "pio_sim_t \<Rightarrow> u8 \<Rightarrow> u8" where
  "pio_sim_sm_get_rx_fifo_level p sm = f_count (sm_rx (pio_sm p (SM_IDX sm)))"

definition pio_sim_sm_get_fdebug :: "pio_sim_t \<Rightarrow> u8 \<Rightarrow> u8" where
  "pio_sim_sm_get_fdebug p sm = sm_fdebug (pio_sm p (SM_IDX sm))"

definition pio_sim_sm_clear_fdebug :: "u8 \<Rightarrow> u8 \<Rightarrow> pio_sim_t \<Rightarrow> pio_sim_t" where
  "pio_sim_sm_clear_fdebug sm m p =
     blk_upd_sm (SM_IDX sm) (\<lambda>s. s\<lparr>sm_fdebug := sm_fdebug s AND NOT m\<rparr>) p"

section \<open>Pin access\<close>

definition pio_sim_get_pin :: "pio_version \<Rightarrow> nat \<Rightarrow> pio_store \<Rightarrow> u8 \<Rightarrow> bool" where
  "pio_sim_get_pin v b h pin \<longleftrightarrow>
     pads_live v (pads_of h b) AND bit64 (unat pin mod PIO_SIM_NUM_PINS v) \<noteq> 0"

definition pio_sim_set_pin :: "pio_version \<Rightarrow> nat \<Rightarrow> u8 \<Rightarrow> bool \<Rightarrow> pio_store \<Rightarrow> pio_store" where
  "pio_sim_set_pin v b pin level h =
     (let m = bit64 (unat pin mod PIO_SIM_NUM_PINS v)
      in upd_pads (pads_ptr_of h b)
           (\<lambda>p. p\<lparr>p_ext_drive := p_ext_drive p OR m,
                 p_ext_levels := (if level then p_ext_levels p OR m
                                  else p_ext_levels p AND NOT m)\<rparr>) h)"

definition pio_sim_release_pin :: "pio_version \<Rightarrow> nat \<Rightarrow> u8 \<Rightarrow> pio_store \<Rightarrow> pio_store" where
  "pio_sim_release_pin v b pin h =
     upd_pads (pads_ptr_of h b)
       (\<lambda>p. p\<lparr>p_ext_drive := p_ext_drive p AND NOT (bit64 (unat pin mod PIO_SIM_NUM_PINS v))\<rparr>) h"

definition pio_sim_pin_is_pio_output :: "pio_version \<Rightarrow> nat \<Rightarrow> pio_store \<Rightarrow> u8 \<Rightarrow> bool" where
  "pio_sim_pin_is_pio_output v b h pin =
     (let p = pads_of h b;
          oe = p_pin_dirs p;
          oe = ((oe XOR p_oeover_inv p) OR p_oeover_high p) AND NOT (p_oeover_low p);
          oe = oe AND NOT (p_pad_od p);
          oe = (if PIO_SIM_HAS_PAD_ISO v then oe AND NOT (p_pad_iso p) else oe)
      in oe AND bit64 (unat pin mod PIO_SIM_NUM_PINS v) \<noteq> 0)"

section \<open>IRQ flags\<close>

definition irq_bit :: "u8 \<Rightarrow> u8" where
  "irq_bit irq = push_bit (unat (irq AND 7)) 1"

definition pio_sim_irq_get :: "pio_sim_t \<Rightarrow> u8 \<Rightarrow> bool" where
  "pio_sim_irq_get p irq \<longleftrightarrow> pio_irq p AND irq_bit irq \<noteq> 0"

definition pio_sim_irq_clear :: "u8 \<Rightarrow> pio_sim_t \<Rightarrow> pio_sim_t" where
  "pio_sim_irq_clear irq p = p\<lparr>pio_irq := pio_irq p AND NOT (irq_bit irq)\<rparr>"

definition pio_sim_irq_force :: "u8 \<Rightarrow> bool \<Rightarrow> pio_sim_t \<Rightarrow> pio_sim_t" where
  "pio_sim_irq_force irq on p =
     p\<lparr>pio_irq := (if on then pio_irq p OR irq_bit irq else pio_irq p AND NOT (irq_bit irq))\<rparr>"

section \<open>System interrupt lines\<close>

abbreviation (input) PIO_INTR_SM_RXNEMPTY :: "nat \<Rightarrow> u32" where
  "PIO_INTR_SM_RXNEMPTY sm \<equiv> push_bit sm 1"
abbreviation (input) PIO_INTR_SM_TXNFULL :: "nat \<Rightarrow> u32" where
  "PIO_INTR_SM_TXNFULL sm \<equiv> push_bit (sm + 4) 1"
abbreviation (input) PIO_INTR_SM_IRQ :: "nat \<Rightarrow> u32" where
  "PIO_INTR_SM_IRQ i \<equiv> push_bit (i + 8) 1"

definition pio_sim_get_intr :: "pio_version \<Rightarrow> pio_sim_t \<Rightarrow> u32" where
  "pio_sim_get_intr v p =
     (let intr = fold (\<lambda>sm intr.
            let intr = (if \<not> pio_sim_sm_is_rx_fifo_empty p (of_nat sm)
                        then intr OR PIO_INTR_SM_RXNEMPTY sm else intr)
            in if \<not> pio_sim_sm_is_tx_fifo_full p (of_nat sm)
               then intr OR PIO_INTR_SM_TXNFULL sm else intr) [0..<PIO_SIM_NUM_SM] 0;
          irq_route_count = (if PIO_SIM_HAS_INTR_IRQ8 v then PIO_SIM_NUM_IRQ else 4)
      in fold (\<lambda>i intr. if bit (pio_irq p) i then intr OR PIO_INTR_SM_IRQ i else intr)
           [0..<irq_route_count] intr)"

definition PIO_SIM_INTS_VALID_MASK :: "pio_version \<Rightarrow> u32" where
  "PIO_SIM_INTS_VALID_MASK v = (if PIO_SIM_HAS_INTR_IRQ8 v then 0xFFFF else 0xFFF)"

definition line_idx :: "u8 \<Rightarrow> nat" where
  "line_idx line = unat (line AND 1)"

definition pio_sim_set_irqn_source_mask_enabled ::
  "pio_version \<Rightarrow> u8 \<Rightarrow> u32 \<Rightarrow> bool \<Rightarrow> pio_sim_t \<Rightarrow> pio_sim_t" where
  "pio_sim_set_irqn_source_mask_enabled v line source_mask enabled p =
     (let m = source_mask AND PIO_SIM_INTS_VALID_MASK v; l = line_idx line
      in p\<lparr>pio_irq_inte := (pio_irq_inte p)(l :=
             (if enabled then pio_irq_inte p l OR m else pio_irq_inte p l AND NOT m))\<rparr>)"

definition pio_sim_set_irqn_source_enabled ::
  "pio_version \<Rightarrow> u8 \<Rightarrow> u32 \<Rightarrow> bool \<Rightarrow> pio_sim_t \<Rightarrow> pio_sim_t" where
  "pio_sim_set_irqn_source_enabled v line source enabled p =
     pio_sim_set_irqn_source_mask_enabled v line source enabled p"

definition pio_sim_get_inte :: "pio_sim_t \<Rightarrow> u8 \<Rightarrow> u32" where
  "pio_sim_get_inte p line = pio_irq_inte p (line_idx line)"

definition pio_sim_set_intf ::
  "pio_version \<Rightarrow> u8 \<Rightarrow> u32 \<Rightarrow> bool \<Rightarrow> pio_sim_t \<Rightarrow> pio_sim_t" where
  "pio_sim_set_intf v line m on p =
     (let m = m AND PIO_SIM_INTS_VALID_MASK v; l = line_idx line
      in p\<lparr>pio_irq_intf := (pio_irq_intf p)(l :=
             (if on then pio_irq_intf p l OR m else pio_irq_intf p l AND NOT m))\<rparr>)"

definition pio_sim_get_intf :: "pio_sim_t \<Rightarrow> u8 \<Rightarrow> u32" where
  "pio_sim_get_intf p line = pio_irq_intf p (line_idx line)"

definition pio_sim_get_ints :: "pio_version \<Rightarrow> pio_sim_t \<Rightarrow> u8 \<Rightarrow> u32" where
  "pio_sim_get_ints v p line =
     (let l = line_idx line
      in (pio_sim_get_intr v p AND pio_irq_inte p l) OR pio_irq_intf p l)"

definition pio_sim_get_irqn_asserted :: "pio_version \<Rightarrow> pio_sim_t \<Rightarrow> u8 \<Rightarrow> bool" where
  "pio_sim_get_irqn_asserted v p line \<longleftrightarrow> pio_sim_get_ints v p line \<noteq> 0"

section \<open>The pin window\<close>

text \<open>The hardware base of the window is 0 or 16; \<open>pio_sim_set_gpio_base\<close> stores nothing else.\<close>

definition gpio_base_wf :: "pio_sim_t \<Rightarrow> bool" where
  "gpio_base_wf p \<longleftrightarrow> pio_gpio_base p = 0 \<or> pio_gpio_base p = 16"

definition window_base :: "pio_version \<Rightarrow> pio_sim_t \<Rightarrow> nat" where
  "window_base v p = (if PIO_SIM_HAS_GPIO_BASE v then unat (pio_gpio_base p) else 0)"

lemma phys_pin_bound: "unat (phys_pin v p view) < PIO_SIM_NUM_PINS v"
proof (cases v)
  case RP2040
  then show ?thesis using u8_mod_less [of view]
    by (simp add: phys_pin_def PIO_SIM_NUM_PINS_def word_less_nat_alt)
next
  case RP2350
  then show ?thesis by (simp add: phys_pin_def PIO_SIM_NUM_PINS_def unat_word_of_nat_mod)
qed

lemma phys_pin_less [simp]: "unat (phys_pin v p view) < 64"
  using phys_pin_bound [of v p view] num_pins_bounds(2) [of v] by linarith

lemma phys_pin_window:
  assumes "gpio_base_wf p"
  shows "unat (phys_pin v p view) = window_base v p + unat view mod 32"
proof (cases v)
  case RP2040
  then show ?thesis by (simp add: phys_pin_def window_base_def unat_mod_distrib)
next
  case RP2350
  have "unat (pio_gpio_base p) + unat view mod 32 < 48"
    using assms by (auto simp: gpio_base_wf_def)
  then show ?thesis using RP2350
    by (simp add: phys_pin_def window_base_def PIO_SIM_NUM_PINS_def unat_word_of_nat_mod
        unat_mod_distrib unsigned_of_nat take_bit_nat_eq_self del: of_nat_add)
qed

lemma gpio_base_wf_set: "gpio_base_wf (pio_sim_set_gpio_base base p)"
  by (simp add: gpio_base_wf_def pio_sim_set_gpio_base_def)

section \<open>FIFO accessors as queue operations\<close>

lemma blk_upd_sm_get [store_simps, simp]:
  "pio_sm (blk_upd_sm i f p) j = (if j = i then f (pio_sm p i) else pio_sm p j)"
  by (simp add: blk_upd_sm_def)

lemma sm_put_eq:
  "sm_put w s = (if f_cap (sm_tx s) \<le> f_count (sm_tx s)
     then (s\<lparr>sm_fdebug := sm_fdebug s OR PIO_FDEBUG_TXOVER\<rparr>, False)
     else (s\<lparr>sm_tx := fst (fifo_push (sm_tx s) w)\<rparr>, True))"
  by (simp add: sm_put_def fifo_push_def)

lemma sm_get_eq:
  "sm_get s = (if f_count (sm_rx s) = 0
     then (s\<lparr>sm_fdebug := sm_fdebug s OR PIO_FDEBUG_RXUNDER\<rparr>, None)
     else (s\<lparr>sm_rx := fst (fifo_pop (sm_rx s))\<rparr>, snd (fifo_pop (sm_rx s))))"
  by (simp add: sm_get_def fifo_pop_def)

lemma sm_wf_put_get [wf_intros]:
  "sm_wf s \<Longrightarrow> sm_wf (fst (sm_put w s))" "sm_wf s \<Longrightarrow> sm_wf (fst (sm_get s))"
  by (auto simp: sm_wf_def sm_put_eq sm_get_eq intro: ring.pop_inv ring.push_inv)

text \<open>The host queues words in order; a word that does not fit is refused and reported.\<close>

lemma sm_put_words:
  assumes "fifo_wf (sm_tx s)"
  shows "fifo_words (sm_tx (fst (sm_put w s))) =
      (if snd (sm_put w s) then fifo_words (sm_tx s) @ [w] else fifo_words (sm_tx s))"
    and "snd (sm_put w s) \<longleftrightarrow> length (fifo_words (sm_tx s)) < unat (f_cap (sm_tx s))"
  using ring.push_contents [OF assms, of w]
  by (auto simp: sm_put_eq word_le_nat_alt not_le)

lemma sm_get_words:
  assumes "fifo_wf (sm_rx s)"
  shows "(case snd (sm_get s) of
            None \<Rightarrow> fifo_words (sm_rx s) = [] \<and> fst (sm_get s) = s\<lparr>sm_fdebug := sm_fdebug s OR 4\<rparr>
          | Some w \<Rightarrow> fifo_words (sm_rx s) = w # fifo_words (sm_rx (fst (sm_get s))))"
proof (cases "f_count (sm_rx s) = 0")
  case True
  then show ?thesis by (simp add: sm_get_eq)
next
  case False
  then show ?thesis
    using fifo_pop_words(1) [OF assms False] by (simp add: sm_get_eq fifo_pop_def)
qed

section \<open>Flag bits\<close>

lemma and_7_less: "unat (w AND 7 :: u8) < 8"
  using word_and_le1 [of w 7] by (simp add: word_le_nat_alt)

lemma and_7_cases: "(w AND 7 :: u8) \<in> {0, 1, 2, 3, 4, 5, 6, 7}"
proof -
  have "unat (w AND 7) < 8" by (rule and_7_less)
  then have "unat (w AND 7) \<in> {0, 1, 2, 3, 4, 5, 6, 7}" by auto
  then show ?thesis by (auto simp: word_unat_eq_iff)
qed

lemma bit_irq_bit [simp]: "bit (irq_bit irq) k \<longleftrightarrow> k = unat (irq AND 7)"
  using and_7_less [of irq] by (auto simp: irq_bit_def bit_simps)

lemma and_irq_bit: "(w AND irq_bit irq \<noteq> 0) \<longleftrightarrow> bit w (unat (irq AND 7))"
proof -
  have "w AND irq_bit irq = (if bit w (unat (irq AND 7)) then irq_bit irq else 0)"
    by (rule bit_word_eqI) (auto simp: bit_and_iff)
  moreover have "irq_bit irq \<noteq> 0"
    by (metis bit_0_eq bit_irq_bit bot_apply bot_bool_def)
  ultimately show ?thesis by simp
qed

lemma irq_get_bit: "pio_sim_irq_get p irq \<longleftrightarrow> bit (pio_irq p) (unat (irq AND 7))"
  by (simp add: pio_sim_irq_get_def and_irq_bit)

lemma irq_clear_bit:
  "bit (pio_irq (pio_sim_irq_clear irq p)) k \<longleftrightarrow> bit (pio_irq p) k \<and> k \<noteq> unat (irq AND 7)"
  by (auto simp: pio_sim_irq_clear_def word_bits dest: word_bit_lt)

lemma irq_force_bit:
  "bit (pio_irq (pio_sim_irq_force irq on p)) k \<longleftrightarrow>
     (if k = unat (irq AND 7) then on else bit (pio_irq p) k)"
  using and_7_less [of irq] by (auto simp: pio_sim_irq_force_def word_bits dest: word_bit_lt)

section \<open>Interrupt sources\<close>

lemma bit_pow2: "bit (2 ^ n :: u32) k \<longleftrightarrow> k = n \<and> n < 32"
  by (auto simp: bit_simps simp flip: push_bit_of_1)

lemma bit_fold_set:
  "bit (fold (\<lambda>i acc. if P i then acc OR push_bit (i + c) 1 else acc) xs (a :: u32)) k \<longleftrightarrow>
     bit a k \<or> (k < 32 \<and> (\<exists>i\<in>set xs. P i \<and> k = i + c))"
  by (induction xs arbitrary: a) (auto simp: bit_or_iff bit_pow2)

text \<open>Which condition each bit of \<open>INTR\<close> reports.\<close>

definition intr_source :: "pio_version \<Rightarrow> pio_sim_t \<Rightarrow> nat \<Rightarrow> bool" where
  "intr_source v p k \<longleftrightarrow>
     (if k < 4 then fifo_words (sm_rx (pio_sm p k)) \<noteq> []
      else if k < 8 then f_count (sm_tx (pio_sm p (k - 4))) < f_cap (sm_tx (pio_sm p (k - 4)))
      else k < (if PIO_SIM_HAS_INTR_IRQ8 v then 16 else 12) \<and> bit (pio_irq p) (k - 8))"

lemma SM_IDX_of_nat: "i < 4 \<Longrightarrow> SM_IDX (of_nat i) = i"
proof -
  assume "i < 4"
  then have "i = 0 \<or> i = 1 \<or> i = 2 \<or> i = 3" by arith
  then show ?thesis by (auto simp: SM_IDX_def)
qed

lemma bit_fold_set2:
  "bit (fold (\<lambda>i acc. let acc = (if P i then acc OR push_bit i 1 else acc)
       in if Q i then acc OR push_bit (i + c) 1 else acc) xs (a :: u32)) k \<longleftrightarrow>
     bit a k \<or> (k < 32 \<and> (\<exists>i\<in>set xs. P i \<and> k = i \<or> Q i \<and> k = i + c))"
proof (induction xs arbitrary: a)
  case Nil
  then show ?case by simp
next
  case (Cons x xs)
  have "bit (let acc = (if P x then a OR push_bit x 1 else a)
       in if Q x then acc OR push_bit (x + c) 1 else acc) k \<longleftrightarrow>
     bit a k \<or> (k < 32 \<and> (P x \<and> k = x \<or> Q x \<and> k = x + c))"
    by (auto simp: Let_def bit_or_iff bit_pow2)
  then show ?case unfolding fold.simps o_def Cons.IH list.set by blast
qed

lemma intr_bit: "bit (pio_sim_get_intr v p) k = intr_source v p k"
proof -
  define rx where "rx i = (\<not> pio_sim_sm_is_rx_fifo_empty p (of_nat i))" for i :: nat
  define tx where "tx i = (\<not> pio_sim_sm_is_tx_fifo_full p (of_nat i))" for i :: nat
  define n where "n = (if PIO_SIM_HAS_INTR_IRQ8 v then 8 else 4 :: nat)"
  have "bit (pio_sim_get_intr v p) k \<longleftrightarrow>
      (k < 32 \<and> (\<exists>i<4. rx i \<and> k = i \<or> tx i \<and> k = i + 4)) \<or>
      (k < 32 \<and> (\<exists>i<n. bit (pio_irq p) i \<and> k = i + 8))"
    unfolding pio_sim_get_intr_def Let_def [of "fold _ _ _"] rx_def [symmetric] tx_def [symmetric]
      n_def [symmetric] Let_def [of n]
    by (subst bit_fold_set, subst bit_fold_set2) auto
  also have "\<dots> \<longleftrightarrow> (if k < 4 then rx k else if k < 8 then tx (k - 4)
      else k < n + 8 \<and> bit (pio_irq p) (k - 8))"
    by (auto simp: n_def intro: exI [of _ "k - 8"] exI [of _ "k - 4"])
  also have "\<dots> = intr_source v p k"
    by (auto simp: intr_source_def rx_def tx_def n_def SM_IDX_of_nat not_le
        pio_sim_sm_is_rx_fifo_empty_def pio_sim_sm_is_tx_fifo_full_def simp del: of_nat_diff)
  finally show ?thesis .
qed

text \<open>No register image of an interrupt line holds a bit that \<open>INTR\<close> cannot source.\<close>

definition ints_wf :: "pio_version \<Rightarrow> pio_sim_t \<Rightarrow> bool" where
  "ints_wf v p \<longleftrightarrow> (\<forall>l \<in> {0, 1}.
     pio_irq_inte p l AND NOT (PIO_SIM_INTS_VALID_MASK v) = 0 \<and>
     pio_irq_intf p l AND NOT (PIO_SIM_INTS_VALID_MASK v) = 0)"

lemma line_idx_01: "line_idx line = 0 \<or> line_idx line = 1"
  using word_and_le1 [of line 1] by (auto simp: line_idx_def word_le_nat_alt)

lemma valid_mask_bit:
  "bit (PIO_SIM_INTS_VALID_MASK v) k \<longleftrightarrow> k < (if PIO_SIM_HAS_INTR_IRQ8 v then 16 else 12)"
proof -
  have "PIO_SIM_INTS_VALID_MASK v = mask (if PIO_SIM_HAS_INTR_IRQ8 v then 16 else 12)"
    by (cases v) (simp_all add: PIO_SIM_INTS_VALID_MASK_def mask_eq_exp_minus_1)
  then show ?thesis by (auto simp: bit_mask_iff)
qed

lemma valid_subset:
  "w AND NOT (PIO_SIM_INTS_VALID_MASK v) = 0 \<longleftrightarrow> (\<forall>k. bit w k \<longrightarrow> bit (PIO_SIM_INTS_VALID_MASK v) k)"
proof
  assume *: "w AND NOT (PIO_SIM_INTS_VALID_MASK v) = 0"
  have "\<not> bit (w AND NOT (PIO_SIM_INTS_VALID_MASK v)) k" for k by (simp add: *)
  then show "\<forall>k. bit w k \<longrightarrow> bit (PIO_SIM_INTS_VALID_MASK v) k"
    using word_bit_lt [of w] by (simp add: word_bits)
qed (auto intro!: bit_word_eqI simp: word_bits)

lemma ints_wf_set:
  assumes "ints_wf v p"
  shows "ints_wf v (pio_sim_set_irqn_source_mask_enabled v line m on p)"
    and "ints_wf v (pio_sim_set_intf v line m on p)"
  using assms line_idx_01 [of line]
  unfolding ints_wf_def valid_subset
  by (auto simp: pio_sim_set_irqn_source_mask_enabled_def pio_sim_set_intf_def Let_def word_bits)

section \<open>Pins as the host sees them\<close>

lemma get_pin_level:
  "pio_sim_get_pin v b h pin = wire_level v (pads_of h b) (unat pin mod PIO_SIM_NUM_PINS v)"
  by (simp add: pio_sim_get_pin_def and_bit64_nonzero mod_num_pins_less pads_live_bit)

lemma chip_drive_set_pin [simp]:
  "chip_oe v (pads_of (pio_sim_set_pin v b pin level h) b) k = chip_oe v (pads_of h b) k"
  "chip_level v (pads_of (pio_sim_set_pin v b pin level h) b) k = chip_level v (pads_of h b) k"
  by (simp_all add: pio_sim_set_pin_def Let_def chip_oe_def chip_level_def mux_oe_def mux_level_def)

lemma wire_level_set_pin:
  fixes h b v pin level
  defines "n \<equiv> unat pin mod PIO_SIM_NUM_PINS v" and "p \<equiv> pads_of h b"
  shows "wire_level v (pads_of (pio_sim_set_pin v b pin level h) b) k =
    (if k = n \<and> \<not> chip_oe v p n then level else wire_level v p k)"
proof -
  have n: "n < 64" unfolding n_def by (rule mod_num_pins_less)
  show ?thesis using n unfolding wire_level_def chip_drive_set_pin
    by (auto simp: pio_sim_set_pin_def Let_def word_bits n_def [symmetric] p_def dest: word_bit_lt)
qed

section \<open>Properties\<close>

text \<open>
  The level the host reads on a pin.  The chip's drive (PIO or selected peripheral, after the
  output overrides, output disable and isolation) wins; else an external driver; else a pull-up
  reads high unless both pulls make it a bus keeper, which repeats the last driven level; else low.
\<close>

lemma get_pin_priority:
  "pio_sim_get_pin v b h pin =
    (let p = pads_of h b; n = unat pin mod PIO_SIM_NUM_PINS v
     in if bit (fst (pio_pads_chip_drive v p)) n then bit (snd (pio_pads_chip_drive v p)) n
        else if bit (p_ext_drive p) n then bit (p_ext_levels p) n
        else if bit (p_pad_pue p) n then (if bit (p_pad_pde p) n then bit (p_keep_state p) n else True)
        else False)"
  by (simp add: get_pin_level wire_level_def chip_drive_oe chip_drive_level Let_def)

text \<open>
  The bus keeper.  On a pin the chip does not drive and with both pulls enabled, the level an
  external driver sets is still read after the pads have been clocked once and the driver has let go.
\<close>

lemma bus_keeper_holds:
  assumes "\<not> chip_oe v (pads_of h b) (unat pin mod PIO_SIM_NUM_PINS v)"
    and "bit (p_pad_pue (pads_of h b)) (unat pin mod PIO_SIM_NUM_PINS v)"
    and "bit (p_pad_pde (pads_of h b)) (unat pin mod PIO_SIM_NUM_PINS v)"
  shows "pio_sim_get_pin v b (pio_sim_release_pin v b pin
           (upd_pads (pads_ptr_of h b) (pads_clock v) (pio_sim_set_pin v b pin level h))) pin = level"
proof -
  define n where "n = unat pin mod PIO_SIM_NUM_PINS v"
  define p1 where "p1 = pads_of (pio_sim_set_pin v b pin level h) b"
  have ptr: "pads_ptr_of (pio_sim_set_pin v b pin level h) b = pads_ptr_of h b"
    by (simp add: pio_sim_set_pin_def Let_def)
  define p3 where "p3 = (pads_clock v p1)\<lparr>p_ext_drive := p_ext_drive p1 AND NOT (bit64 n)\<rparr>"
  have oe1: "\<not> chip_oe v p1 n"
    using assms(1) by (simp add: p1_def n_def)
  have lvl: "wire_level v p1 n = level"
    using assms(1) by (simp add: p1_def n_def wire_level_set_pin)
  have "bit (p_ext_drive p1) n"
    using mod_num_pins_less [of "unat pin" v]
    by (simp add: p1_def n_def pio_sim_set_pin_def Let_def word_bits)
  then have "bit (p_keep_state p3) n = level"
    using lvl oe1 by (simp add: p3_def pads_clock_eq keeper_bit)
  moreover have "chip_oe v p3 n = chip_oe v p1 n"
    by (simp add: p3_def pads_clock_eq chip_oe_def mux_oe_def)
  moreover have "bit (p_pad_pue p3) n" "bit (p_pad_pde p3) n" "\<not> bit (p_ext_drive p3) n"
    using assms(2,3) by (simp_all add: p3_def p1_def pads_clock_eq n_def pio_sim_set_pin_def Let_def
        word_bits mod_num_pins_less)
  ultimately have "wire_level v p3 n = level" using oe1 by (simp add: wire_level_def)
  moreover have "pads_of (pio_sim_release_pin v b pin
           (upd_pads (pads_ptr_of h b) (pads_clock v) (pio_sim_set_pin v b pin level h))) b = p3"
    by (simp add: pio_sim_release_pin_def ptr p3_def p1_def n_def pads_clock_eq)
  ultimately show ?thesis by (simp add: get_pin_level n_def)
qed

end
