(* ===== verification/Pio_Exec.thy ===== *)
theory Pio_Exec
  imports Pio_Host
begin

text \<open>
  Execution of one instruction (\<open>exec_one\<close> and the handlers it calls in \<open>lib/src/pio_sim.c\<close>) on the
  store.  A handler returns the new store, whether the instruction stalled, and the program counter
  to load when the instruction sets it (\<open>None\<close> is \<open>*set_pc == false\<close>).
\<close>

type_synonym exec_result = "pio_store \<times> bool \<times> u8 option"

section \<open>Pins as a state machine sees them\<close>

definition pio_input_level :: "pio_version \<Rightarrow> nat \<Rightarrow> pio_store \<Rightarrow> u8 \<Rightarrow> bool" where
  "pio_input_level v b h pin =
     (let p = pads_of h b;
          synced = (p_in_sync1 p AND NOT (p_sync_bypass p)) OR
                   (pads_input_view v p AND p_sync_bypass p)
      in synced AND bit64 (unat pin mod PIO_SIM_NUM_PINS v) \<noteq> 0)"

text \<open>One iteration of the loop of \<open>drive_pins\<close>, and of that of \<open>release_out_pins\<close>.\<close>

definition drive_pin_bit :: "u64 \<Rightarrow> bool \<Rightarrow> pio_sm_t \<Rightarrow> pio_sm_t" where
  "drive_pin_bit m level s =
     s\<lparr>sm_out_pin_val := (if level then sm_out_pin_val s OR m else sm_out_pin_val s AND NOT m),
       sm_wrote_this_cycle := sm_wrote_this_cycle s OR m\<rparr>"

definition release_pin_bit :: "u64 \<Rightarrow> pio_sm_t \<Rightarrow> pio_sm_t" where
  "release_pin_bit m s =
     s\<lparr>sm_out_pin_oe := sm_out_pin_oe s AND NOT m,
       sm_wrote_this_cycle := sm_wrote_this_cycle s AND NOT m,
       sm_dir_driven := sm_dir_driven s AND NOT m\<rparr>"

definition drive_pins ::
  "pio_version \<Rightarrow> nat \<Rightarrow> nat \<Rightarrow> u8 \<Rightarrow> u8 \<Rightarrow> u32 \<Rightarrow> pio_store \<Rightarrow> pio_store" where
  "drive_pins v b i base count val h =
     (let p = st_blk h b;
          h = upd_sm b i
                (fold (\<lambda>k. drive_pin_bit (bit64 (unat (phys_pin v p (base + of_nat k)))) (bit val k))
                   [0..<unat (clamp_pin_count count)]) h
      in pio_pads_resolve (pads_ptr_of h b) h)"

definition drive_pindirs ::
  "pio_version \<Rightarrow> nat \<Rightarrow> nat \<Rightarrow> u8 \<Rightarrow> u8 \<Rightarrow> u32 \<Rightarrow> pio_store \<Rightarrow> pio_store" where
  "drive_pindirs v b i base count val h =
     (let p = st_blk h b;
          h = upd_sm b i
                (fold (\<lambda>k. set_pindir_bit (bit64 (unat (phys_pin v p (base + of_nat k)))) (bit val k))
                   [0..<unat (clamp_pin_count count)]) h
      in pio_pads_resolve (pads_ptr_of h b) h)"

definition release_out_pins ::
  "pio_version \<Rightarrow> nat \<Rightarrow> nat \<Rightarrow> u8 \<Rightarrow> u8 \<Rightarrow> pio_store \<Rightarrow> pio_store" where
  "release_out_pins v b i base count h =
     (let p = st_blk h b;
          h = upd_sm b i
                (fold (\<lambda>k. release_pin_bit (bit64 (unat (phys_pin v p (base + of_nat k)))))
                   [0..<unat count]) h
      in pio_pads_resolve (pads_ptr_of h b) h)"

definition read_in_pins :: "pio_version \<Rightarrow> nat \<Rightarrow> pio_store \<Rightarrow> u8 \<Rightarrow> u8 \<Rightarrow> u32" where
  "read_in_pins v b h base count =
     fold (\<lambda>k val. if pio_input_level v b h (phys_pin v (st_blk h b) (base + of_nat k))
                   then val OR push_bit k 1 else val) [0..<unat (clamp_pin_count count)] 0"

section \<open>Operand sources\<close>

definition read_status :: "pio_version \<Rightarrow> nat \<Rightarrow> pio_store \<Rightarrow> pio_sm_t \<Rightarrow> u32" where
  "read_status v b h s =
     (if sm_status_override s then sm_status_value s
      else
        let p = st_blk h b;
            neighbour = (\<lambda>nb. case nb of None \<Rightarrow> False
                              | Some b' \<Rightarrow> pio_sim_irq_get (st_blk h b') (sm_status_n s AND 7));
            cond =
              (if sm_status_sel s = PIO_STATUS_RX_LEVEL then f_count (sm_rx s) < sm_status_n s
               else if sm_status_sel s = PIO_STATUS_IRQ_SET \<and> PIO_SIM_HAS_IRQ_STATUS v
                 then pio_sim_irq_get p (sm_status_n s AND 7)
               else if sm_status_sel s = PIO_STATUS_IRQ_SET_PREV \<and> PIO_SIM_HAS_IRQ_PREVNEXT v
                 then neighbour (pio_irq_prev p)
               else if sm_status_sel s = PIO_STATUS_IRQ_SET_NEXT \<and> PIO_SIM_HAS_IRQ_PREVNEXT v
                 then neighbour (pio_irq_next p)
               else f_count (sm_tx s) < sm_status_n s)
        in if cond then 0xFFFFFFFF else 0)"

definition read_source :: "pio_version \<Rightarrow> nat \<Rightarrow> pio_store \<Rightarrow> pio_sm_t \<Rightarrow> u8 \<Rightarrow> u32" where
  "read_source v b h s src =
     (if src = 0 then read_in_pins v b h (sm_in_base s) 32 AND mask_n (sm_in_count s)
      else if src = 1 then sm_x s
      else if src = 2 then sm_y s
      else if src = 5 then read_status v b h s
      else if src = 6 then sm_isr s
      else if src = 7 then sm_osr s
      else 0)"

section \<open>JMP\<close>

definition jmp_taken :: "pio_version \<Rightarrow> nat \<Rightarrow> pio_store \<Rightarrow> pio_sm_t \<Rightarrow> u8 \<Rightarrow> bool" where
  "jmp_taken v b h s cond =
     (if cond = 0 then True
      else if cond = 1 then sm_x s = 0
      else if cond = 2 then sm_x s \<noteq> 0
      else if cond = 3 then sm_y s = 0
      else if cond = 4 then sm_y s \<noteq> 0
      else if cond = 5 then sm_x s \<noteq> sm_y s
      else if cond = 6 then pio_input_level v b h (phys_pin v (st_blk h b) (sm_jmp_pin s))
      else if cond = 7 then sm_osr_count s < sm_pull_thresh s
      else False)"

definition jmp_decrement :: "u8 \<Rightarrow> pio_sm_t \<Rightarrow> pio_sm_t" where
  "jmp_decrement cond s =
     (if cond = 2 then s\<lparr>sm_x := sm_x s - 1\<rparr>
      else if cond = 4 then s\<lparr>sm_y := sm_y s - 1\<rparr> else s)"

definition exec_jmp :: "pio_version \<Rightarrow> nat \<Rightarrow> nat \<Rightarrow> u8 \<Rightarrow> pio_store \<Rightarrow> exec_result" where
  "exec_jmp v b i operand h =
     (let cond = drop_bit 5 operand AND 7;
          addr = operand AND 0x1F;
          take = jmp_taken v b h (the_sm h b i) cond
      in (upd_sm b i (jmp_decrement cond) h, False, if take then Some addr else None))"

section \<open>IRQ targets\<close>

datatype irq_block_sel_t = IRQ_BLOCK_SELF | IRQ_BLOCK_PREV | IRQ_BLOCK_NEXT

record irq_target_t =
  t_index :: u8
  t_block :: irq_block_sel_t

abbreviation (input) PIO_IRQ_REL :: u8 where "PIO_IRQ_REL \<equiv> 0x10"
abbreviation (input) PIO_IRQ_PREV :: u8 where "PIO_IRQ_PREV \<equiv> 0x08"
abbreviation (input) PIO_IRQ_NEXT :: u8 where "PIO_IRQ_NEXT \<equiv> 0x18"

definition resolve_irq_target :: "pio_version \<Rightarrow> nat \<Rightarrow> u8 \<Rightarrow> irq_target_t" where
  "resolve_irq_target v sm_idx field =
     (let mode = field AND 0x18;
          base = field AND 7;
          mode = (if PIO_SIM_HAS_IRQ_PREVNEXT v then mode else mode AND PIO_IRQ_REL)
      in if mode = PIO_IRQ_REL
         then \<lparr>t_index = (base AND 4) OR (((base AND 3) + of_nat sm_idx) AND 3),
               t_block = IRQ_BLOCK_SELF\<rparr>
         else if mode = PIO_IRQ_PREV \<and> PIO_SIM_HAS_IRQ_PREVNEXT v
         then \<lparr>t_index = base, t_block = IRQ_BLOCK_PREV\<rparr>
         else if mode = PIO_IRQ_NEXT \<and> PIO_SIM_HAS_IRQ_PREVNEXT v
         then \<lparr>t_index = base, t_block = IRQ_BLOCK_NEXT\<rparr>
         else \<lparr>t_index = base, t_block = IRQ_BLOCK_SELF\<rparr>)"

definition irq_target_block ::
  "pio_version \<Rightarrow> nat \<Rightarrow> pio_store \<Rightarrow> irq_block_sel_t \<Rightarrow> nat option" where
  "irq_target_block v b h sel =
     (case sel of
        IRQ_BLOCK_PREV \<Rightarrow> (if PIO_SIM_HAS_IRQ_PREVNEXT v then pio_irq_prev (st_blk h b) else None)
      | IRQ_BLOCK_NEXT \<Rightarrow> (if PIO_SIM_HAS_IRQ_PREVNEXT v then pio_irq_next (st_blk h b) else None)
      | IRQ_BLOCK_SELF \<Rightarrow> Some b)"

section \<open>WAIT\<close>

text \<open>The comparison \<open>(level ? 1U : 0U) == pol\<close> is the equality of two truth values.\<close>

definition exec_wait :: "pio_version \<Rightarrow> nat \<Rightarrow> nat \<Rightarrow> u8 \<Rightarrow> pio_store \<Rightarrow> exec_result" where
  "exec_wait v b i operand h =
     (let s = the_sm h b i;
          p = st_blk h b;
          pol = (drop_bit 7 operand AND 1 = 1);
          source = drop_bit 5 operand AND 3;
          index = operand AND 0x1F
      in if source = 0 then
           (h, pio_input_level v b h (phys_pin v p index) \<noteq> pol, None)
         else if source = 1 then
           (h, (index < sm_in_count s \<and>
                pio_input_level v b h (phys_pin v p (sm_in_base s + index))) \<noteq> pol, None)
         else if source = 2 then
           (let t = resolve_irq_target v i index
            in case irq_target_block v b h (t_block t) of
                 None \<Rightarrow> (h, True, None)
               | Some blk \<Rightarrow>
                   (let met = (pio_sim_irq_get (st_blk h blk) (t_index t) = pol)
                    in (if met \<and> pol then upd_blk blk (pio_sim_irq_clear (t_index t)) h else h,
                        \<not> met, None)))
         else if source = 3 \<and> PIO_SIM_HAS_WAIT_JMPPIN v then
           (h, pio_input_level v b h (phys_pin v p (sm_jmp_pin s + index)) \<noteq> pol, None)
         else (h, True, None))"

section \<open>IN\<close>

definition operand_count :: "u8 \<Rightarrow> u8" where
  "operand_count operand = (let count = operand AND 0x1F in if count = 0 then 32 else count)"

text \<open>The ISR with \<open>count\<close> bits of \<open>data\<close> shifted in, then the shift with the autopush that may follow.\<close>

definition isr_shifted :: "u8 \<Rightarrow> u32 \<Rightarrow> pio_sm_t \<Rightarrow> u32" where
  "isr_shifted count data s =
     (case sm_in_dir s of
        PIO_SHIFT_RIGHT \<Rightarrow> (if 32 \<le> count then data
          else drop_bit (unat count) (sm_isr s) OR push_bit (32 - unat count) data)
      | PIO_SHIFT_LEFT \<Rightarrow> (if 32 \<le> count then data
          else push_bit (unat count) (sm_isr s) OR data))"

definition isr_shift_in :: "u8 \<Rightarrow> u32 \<Rightarrow> pio_sm_t \<Rightarrow> pio_sm_t" where
  "isr_shift_in count data s =
     (let n = sm_isr_count s + count;
          n = (if 32 < n then 32 else n);
          s = s\<lparr>sm_isr := isr_shifted count data s, sm_isr_count := n\<rparr>
      in if sm_autopush s \<and> sm_push_thresh s \<le> n then fst (isr_drain s) else s)"

definition exec_in :: "pio_version \<Rightarrow> nat \<Rightarrow> nat \<Rightarrow> u8 \<Rightarrow> pio_store \<Rightarrow> exec_result" where
  "exec_in v b i operand h =
     (let s = the_sm h b i;
          src = drop_bit 5 operand AND 7;
          count = operand_count operand;
          will_autopush = (sm_autopush s \<and>
            unat (sm_push_thresh s) \<le> unat (sm_isr_count s) + unat count)
      in if will_autopush \<and> (rx_fifo_is_register_file v s \<or>
              pio_sim_sm_is_rx_fifo_full (st_blk h b) (of_nat i))
         then (upd_sm b i (\<lambda>s. s\<lparr>sm_fdebug := sm_fdebug s OR PIO_FDEBUG_RXSTALL\<rparr>) h, True, None)
         else (let data = read_source v b h s src AND mask_n count
               in (upd_sm b i (isr_shift_in count data) h, False, None)))"

section \<open>OUT\<close>

definition out_store ::
  "pio_version \<Rightarrow> nat \<Rightarrow> nat \<Rightarrow> u8 \<Rightarrow> u32 \<Rightarrow> u8 \<Rightarrow> pio_store \<Rightarrow> pio_store \<times> u8 option" where
  "out_store v b i dest val count h =
     (let s = the_sm h b i
      in if dest = 0 then
           (let driven = (\<not> sm_out_inline_en s \<or> drop_bit (unat (sm_out_en_sel s)) val AND 1 \<noteq> 0)
            in if driven then (drive_pins v b i (sm_out_base s) (sm_out_count s) val h, None)
               else if sm_out_sticky s
               then (release_out_pins v b i (sm_out_base s) (sm_out_count s) h, None)
               else (h, None))
         else if dest = 1 then (upd_sm b i (\<lambda>s. s\<lparr>sm_x := val\<rparr>) h, None)
         else if dest = 2 then (upd_sm b i (\<lambda>s. s\<lparr>sm_y := val\<rparr>) h, None)
         else if dest = 4 then (drive_pindirs v b i (sm_out_base s) (sm_out_count s) val h, None)
         else if dest = 5 then (h, Some (ucast (val AND 0x1F)))
         else if dest = 6 then (upd_sm b i (\<lambda>s. s\<lparr>sm_isr := val, sm_isr_count := count\<rparr>) h, None)
         else if dest = 7
         then (upd_sm b i (\<lambda>s. s\<lparr>sm_exec_pending := True, sm_exec_insn := ucast val\<rparr>) h, None)
         else (h, None))"

text \<open>The value shifted out of the OSR, and the OSR and its counter afterwards.\<close>

definition osr_shift_val :: "u8 \<Rightarrow> pio_sm_t \<Rightarrow> u32" where
  "osr_shift_val count s =
     (case sm_out_dir s of
        PIO_SHIFT_RIGHT \<Rightarrow> sm_osr s AND mask_n count
      | PIO_SHIFT_LEFT \<Rightarrow> (if 32 \<le> count then sm_osr s
           else drop_bit (32 - unat count) (sm_osr s) AND mask_n count))"

definition osr_shift_out :: "u8 \<Rightarrow> pio_sm_t \<Rightarrow> pio_sm_t" where
  "osr_shift_out count s =
     (let osr = (case sm_out_dir s of
            PIO_SHIFT_RIGHT \<Rightarrow> (if 32 \<le> count then 0 else drop_bit (unat count) (sm_osr s))
          | PIO_SHIFT_LEFT \<Rightarrow> (if 32 \<le> count then 0 else push_bit (unat count) (sm_osr s)));
          n = sm_osr_count s + count
      in s\<lparr>sm_osr := osr, sm_osr_count := (if 32 < n then 32 else n)\<rparr>)"

definition exec_out :: "pio_version \<Rightarrow> nat \<Rightarrow> nat \<Rightarrow> u8 \<Rightarrow> pio_store \<Rightarrow> exec_result" where
  "exec_out v b i operand h =
     (let s = the_sm h b i;
          dest = drop_bit 5 operand AND 7;
          count = operand_count operand
      in if sm_autopull s \<and> sm_pull_thresh s \<le> sm_osr_count s
         then (upd_sm b i (\<lambda>s. s\<lparr>sm_fdebug := sm_fdebug s OR PIO_FDEBUG_TXSTALL\<rparr>) h, True, None)
         else (let out_val = osr_shift_val count s;
                   h = upd_sm b i (osr_shift_out count) h;
                   (h, pc) = out_store v b i dest out_val count h
               in (h, False, pc)))"

section \<open>PUSH, PULL and the RX-FIFO MOV\<close>

definition push_insn :: "pio_version \<Rightarrow> bool \<Rightarrow> bool \<Rightarrow> pio_sm_t \<Rightarrow> pio_sm_t \<times> bool" where
  "push_insn v cond block s =
     (if cond \<and> sm_isr_count s < sm_push_thresh s then (s, False)
      else if rx_fifo_is_register_file v s \<or> f_cap (sm_rx s) \<le> f_count (sm_rx s) then
        (let s = s\<lparr>sm_fdebug := sm_fdebug s OR PIO_FDEBUG_RXSTALL\<rparr>
         in if block then (s, True) else (s\<lparr>sm_isr := 0, sm_isr_count := 0\<rparr>, False))
      else (fst (isr_drain s), False))"

definition pull_insn :: "bool \<Rightarrow> bool \<Rightarrow> pio_sm_t \<Rightarrow> pio_sm_t \<times> bool" where
  "pull_insn cond block s =
     (if cond \<and> sm_osr_count s < sm_pull_thresh s then (s, False)
      else if sm_autopull s \<and> sm_osr_count s = 0 then (s, False)
      else if f_count (sm_tx s) = 0 then
        (let s = s\<lparr>sm_fdebug := sm_fdebug s OR PIO_FDEBUG_TXSTALL\<rparr>
         in if block then (s, True) else (s\<lparr>sm_osr := sm_x s, sm_osr_count := 0\<rparr>, False))
      else (fst (osr_refill s), False))"

definition exec_pushpull :: "pio_version \<Rightarrow> nat \<Rightarrow> nat \<Rightarrow> u8 \<Rightarrow> pio_store \<Rightarrow> exec_result" where
  "exec_pushpull v b i operand h =
     (let is_pull = (drop_bit 7 operand AND 1 \<noteq> 0);
          cond = (drop_bit 6 operand AND 1 \<noteq> 0);
          block = (drop_bit 5 operand AND 1 \<noteq> 0);
          f = (if is_pull then pull_insn cond block else push_insn v cond block)
      in (upd_sm b i (\<lambda>s. fst (f s)) h, snd (f (the_sm h b i)), None))"

definition mov_rxfifo :: "u8 \<Rightarrow> pio_sm_t \<Rightarrow> pio_sm_t" where
  "mov_rxfifo operand s =
     (let from_rx = (operand AND 0x80 \<noteq> 0);
          idx_literal = (operand AND 0x08 \<noteq> 0);
          idx = (if idx_literal then unat (operand AND 3) else unat (sm_y s AND 3))
      in if from_rx then
           (if sm_fifo_join s \<noteq> PIO_FIFO_JOIN_RX_GET \<and> sm_fifo_join s \<noteq> PIO_FIFO_JOIN_RX_PUTGET then s
            else s\<lparr>sm_osr := f_buf (sm_rx s) idx, sm_osr_count := 0\<rparr>)
         else
           (if sm_fifo_join s \<noteq> PIO_FIFO_JOIN_RX_PUT \<and> sm_fifo_join s \<noteq> PIO_FIFO_JOIN_RX_PUTGET then s
            else s\<lparr>sm_rx := (sm_rx s)\<lparr>f_buf := (f_buf (sm_rx s))(idx := sm_isr s)\<rparr>,
                   sm_isr := 0, sm_isr_count := 0\<rparr>))"

definition exec_mov_rxfifo :: "nat \<Rightarrow> nat \<Rightarrow> u8 \<Rightarrow> pio_store \<Rightarrow> pio_store" where
  "exec_mov_rxfifo b i operand h = upd_sm b i (mov_rxfifo operand) h"

section \<open>MOV, IRQ, SET\<close>

definition mov_operation :: "u8 \<Rightarrow> u32 \<Rightarrow> u32" where
  "mov_operation mov_op w =
     (if mov_op = 1 then NOT w else if mov_op = 2 then pio_reverse32 w else w)"

definition exec_mov ::
  "pio_version \<Rightarrow> nat \<Rightarrow> nat \<Rightarrow> u8 \<Rightarrow> pio_store \<Rightarrow> pio_store \<times> u8 option" where
  "exec_mov v b i operand h =
     (let s = the_sm h b i;
          dest = drop_bit 5 operand AND 7;
          mov_op = drop_bit 3 operand AND 3;
          src = operand AND 7;
          w = mov_operation mov_op (read_source v b h s src)
      in if dest = 0 then (drive_pins v b i (sm_out_base s) (sm_out_count s) w h, None)
         else if dest = 1 then (upd_sm b i (\<lambda>s. s\<lparr>sm_x := w\<rparr>) h, None)
         else if dest = 2 then (upd_sm b i (\<lambda>s. s\<lparr>sm_y := w\<rparr>) h, None)
         else if dest = 3 \<and> PIO_SIM_HAS_MOV_PINDIRS v
         then (drive_pindirs v b i (sm_out_base s) (sm_out_count s) w h, None)
         else if dest = 4
         then (upd_sm b i (\<lambda>s. s\<lparr>sm_exec_pending := True, sm_exec_insn := ucast w\<rparr>) h, None)
         else if dest = 5 then (h, Some (ucast (w AND 0x1F)))
         else if dest = 6 then (upd_sm b i (\<lambda>s. s\<lparr>sm_isr := w, sm_isr_count := 0\<rparr>) h, None)
         else if dest = 7 then (upd_sm b i (\<lambda>s. s\<lparr>sm_osr := w, sm_osr_count := 0\<rparr>) h, None)
         else (h, None))"

definition exec_irq :: "pio_version \<Rightarrow> nat \<Rightarrow> nat \<Rightarrow> u8 \<Rightarrow> pio_store \<Rightarrow> exec_result" where
  "exec_irq v b i operand h =
     (let s = the_sm h b i;
          clr = (drop_bit 6 operand AND 1 \<noteq> 0);
          wait = (drop_bit 5 operand AND 1 \<noteq> 0);
          t = resolve_irq_target v i (operand AND 0x1F);
          raise = (\<lambda>p. p\<lparr>pio_irq := pio_irq p OR push_bit (unat (t_index t)) 1\<rparr>)
      in case irq_target_block v b h (t_block t) of
           None \<Rightarrow> (h, wait \<and> \<not> clr, None)
         | Some blk \<Rightarrow>
             (if clr then (upd_blk blk (pio_sim_irq_clear (t_index t)) h, False, None)
              else if wait then
                (let h = (if \<not> sm_stalled s then upd_blk blk raise h else h)
                 in (h, pio_sim_irq_get (st_blk h blk) (t_index t), None))
              else (upd_blk blk raise h, False, None)))"

definition exec_set :: "pio_version \<Rightarrow> nat \<Rightarrow> nat \<Rightarrow> u8 \<Rightarrow> pio_store \<Rightarrow> pio_store" where
  "exec_set v b i operand h =
     (let s = the_sm h b i;
          dest = drop_bit 5 operand AND 7;
          val = ucast operand AND 0x1F
      in if dest = 0 then drive_pins v b i (sm_set_base s) (sm_set_count s) val h
         else if dest = 1 then upd_sm b i (\<lambda>s. s\<lparr>sm_x := val\<rparr>) h
         else if dest = 2 then upd_sm b i (\<lambda>s. s\<lparr>sm_y := val\<rparr>) h
         else if dest = 4 then drive_pindirs v b i (sm_set_base s) (sm_set_count s) val h
         else h)"

section \<open>One instruction\<close>

text \<open>The \<open>switch\<close> on the opcode.\<close>

definition exec_op :: "pio_version \<Rightarrow> nat \<Rightarrow> nat \<Rightarrow> u8 \<Rightarrow> u8 \<Rightarrow> pio_store \<Rightarrow> exec_result" where
  "exec_op v b i opc operand h =
     (if opc = 0 then exec_jmp v b i operand h
      else if opc = 1 then exec_wait v b i operand h
      else if opc = 2 then exec_in v b i operand h
      else if opc = 3 then exec_out v b i operand h
      else if opc = 4 then
        (if PIO_SIM_HAS_RXFIFO_MOV v \<and> operand AND 0x10 \<noteq> 0
         then (exec_mov_rxfifo b i operand h, False, None)
         else exec_pushpull v b i operand h)
      else if opc = 5 then (let (h, pc) = exec_mov v b i operand h in (h, False, pc))
      else if opc = 6 then exec_irq v b i operand h
      else if opc = 7 then (exec_set v b i operand h, False, None)
      else (h, False, None))"

text \<open>The side-set of the instruction, applied whether or not it stalled.\<close>

definition apply_sideset ::
  "pio_version \<Rightarrow> nat \<Rightarrow> nat \<Rightarrow> delay_sideset_t \<Rightarrow> pio_store \<Rightarrow> pio_store" where
  "apply_sideset v b i ds h =
     (let s = the_sm h b i
      in if ds_side_en ds \<and> 0 < ds_ss_data_bits ds
         then (if sm_sideset_pindirs s
               then drive_pindirs v b i (sm_sideset_base s) (ds_ss_data_bits ds) (ds_side_val ds) h
               else drive_pins v b i (sm_sideset_base s) (ds_ss_data_bits ds) (ds_side_val ds) h)
         else h)"

text \<open>
  The result of \<open>exec_one\<close>: the store, whether the instruction committed, the program counter it
  sets and the delay it asks for (meaningful when it committed).
\<close>

definition exec_one ::
  "pio_version \<Rightarrow> nat \<Rightarrow> nat \<Rightarrow> u16 \<Rightarrow> pio_store \<Rightarrow> pio_store \<times> bool \<times> u8 option \<times> u8" where
  "exec_one v b i insn h =
     (let opc = ucast (drop_bit 13 insn);
          field = ucast (drop_bit 8 insn AND 0x1F);
          operand = ucast (insn AND 0xFF);
          ds = decode_delay_sideset (the_sm h b i) field;
          (h, stalled, pc) = exec_op v b i opc operand h;
          h = apply_sideset v b i ds h
      in if stalled then (h, False, pc, 0) else (h, True, pc, ds_delay ds))"

section \<open>Pin spans\<close>

text \<open>The physical pin of position \<open>k\<close> of a span that starts at view index \<open>base\<close>.\<close>

abbreviation (input) span_pin :: "pio_version \<Rightarrow> pio_sim_t \<Rightarrow> u8 \<Rightarrow> nat \<Rightarrow> nat" where
  "span_pin v p base k \<equiv> unat (phys_pin v p (base + of_nat k))"

lemma u8_add_mod_32: "unat (base + of_nat k :: u8) mod 32 = (unat base + k) mod 32"
  by (simp add: unat_word_ariths unsigned_of_nat take_bit_eq_mod mod_mod_cancel mod_simps)

lemma span_pin_inject:
  assumes "gpio_base_wf p" "span_pin v p base j = span_pin v p base k" "j < 32" "k < 32"
  shows "j = k"
proof -
  have "(unat base + j) mod 32 = (unat base + k) mod 32"
    using assms(1,2) by (simp add: phys_pin_window u8_add_mod_32)
  then show ?thesis using assms(3,4) by (rule ring_slot_inject)
qed

lemma fold_drive_pin_bit:
  "fold (\<lambda>k. drive_pin_bit (m k) (lv k)) ks s =
     s\<lparr>sm_out_pin_val := fold (\<lambda>k w. if lv k then w OR m k else w AND NOT (m k)) ks (sm_out_pin_val s),
       sm_wrote_this_cycle := fold (\<lambda>k w. w OR m k) ks (sm_wrote_this_cycle s)\<rparr>"
  by (induction ks arbitrary: s) (simp_all add: drive_pin_bit_def)

lemma fold_set_pindir_bit:
  "fold (\<lambda>k. set_pindir_bit (m k) (lv k)) ks s =
     s\<lparr>sm_out_pin_oe := fold (\<lambda>k w. if lv k then w OR m k else w AND NOT (m k)) ks (sm_out_pin_oe s),
       sm_dir_driven := fold (\<lambda>k w. w OR m k) ks (sm_dir_driven s)\<rparr>"
  by (induction ks arbitrary: s) (simp_all add: set_pindir_bit_def)

lemma fold_release_pin_bit:
  "fold (\<lambda>k. release_pin_bit (m k)) ks s =
     s\<lparr>sm_out_pin_oe := fold (\<lambda>k w. w AND NOT (m k)) ks (sm_out_pin_oe s),
       sm_dir_driven := fold (\<lambda>k w. w AND NOT (m k)) ks (sm_dir_driven s),
       sm_wrote_this_cycle := fold (\<lambda>k w. w AND NOT (m k)) ks (sm_wrote_this_cycle s)\<rparr>"
  by (induction ks arbitrary: s) (simp_all add: release_pin_bit_def)

lemma bit_fold_or:
  "bit (fold (\<lambda>k w. w OR bit64 (q k)) ks w) x \<longleftrightarrow> bit w x \<or> (x < 64 \<and> (\<exists>k\<in>set ks. q k = x))"
  by (induction ks arbitrary: w) (auto simp: word_bits)

lemma bit_fold_and_not:
  "bit (fold (\<lambda>k w. w AND NOT (bit64 (q k))) ks w) x \<longleftrightarrow> bit w x \<and> x \<notin> q ` set ks"
  by (induction ks arbitrary: w) (auto simp: word_bits dest: word_bit_lt)

lemma bit_fold_assign_other:
  "x \<notin> q ` set ks \<Longrightarrow>
   bit (fold (\<lambda>k w. if lv k then w OR bit64 (q k) else w AND NOT (bit64 (q k))) ks w) x = bit w x"
  by (induction ks arbitrary: w) (auto simp: word_bits dest: word_bit_lt)

lemma bit_fold_assign:
  assumes "\<And>j. j < n \<Longrightarrow> q j = q k \<Longrightarrow> j = k" "k < n" "q k < 64"
  shows "bit (fold (\<lambda>k w. if lv k then w OR bit64 (q k) else w AND NOT (bit64 (q k))) [0..<n] w) (q k) =
    lv k"
proof -
  let ?f = "\<lambda>k w. if lv k then w OR bit64 (q k) else w AND NOT (bit64 (q k))"
  have "q k \<notin> q ` set [Suc k..<n]"
  proof
    assume "q k \<in> q ` set [Suc k..<n]"
    then obtain j where "q j = q k" "k < j" "j < n" by auto
    then show False using assms(1) [of j] by simp
  qed
  then have "bit (fold ?f [0..<n] w) (q k) = bit (?f k (fold ?f [0..<k] w)) (q k)"
    unfolding upt_split [OF assms(2)] by (simp add: bit_fold_assign_other)
  then show ?thesis using assms(3) by (auto simp: word_bits)
qed

text \<open>What a pin write leaves in the output registers of the state machine.\<close>

lemma drive_pins_regs:
  fixes h v b i base count val
  defines "p \<equiv> st_blk h b" and "n \<equiv> unat (clamp_pin_count count)"
    and "s \<equiv> the_sm h b i" and "s' \<equiv> the_sm (drive_pins v b i base count val h) b i"
  shows "s' = s\<lparr>sm_out_pin_val := sm_out_pin_val s', sm_wrote_this_cycle := sm_wrote_this_cycle s'\<rparr>"
    and "gpio_base_wf p \<Longrightarrow> k < n \<Longrightarrow> bit (sm_out_pin_val s') (span_pin v p base k) = bit val k"
    and "x \<notin> span_pin v p base ` {..<n} \<Longrightarrow> bit (sm_out_pin_val s') x = bit (sm_out_pin_val s) x"
    and "bit (sm_wrote_this_cycle s') x \<longleftrightarrow>
      bit (sm_wrote_this_cycle s) x \<or> x \<in> span_pin v p base ` {..<n}"
proof -
  have n: "n \<le> 32" unfolding n_def using clamp_bounds(1) [of count] by (simp add: word_le_nat_alt)
  note defs = s'_def drive_pins_def Let_def fold_drive_pin_bit p_def n_def s_def
  show "s' = s\<lparr>sm_out_pin_val := sm_out_pin_val s', sm_wrote_this_cycle := sm_wrote_this_cycle s'\<rparr>"
    by (simp add: defs)
  show "bit (sm_out_pin_val s') (span_pin v p base k) = bit val k" if "gpio_base_wf p" "k < n"
  proof -
    have "j = k" if "j < n" "span_pin v p base j = span_pin v p base k" for j
      using span_pin_inject [OF \<open>gpio_base_wf p\<close> that(2)] that(1) \<open>k < n\<close> n by simp
    from bit_fold_assign [of n "span_pin v p base" k, OF this \<open>k < n\<close> phys_pin_less]
    show ?thesis unfolding defs by simp
  qed
  show "bit (sm_out_pin_val s') x = bit (sm_out_pin_val s) x" if "x \<notin> span_pin v p base ` {..<n}"
    using that by (simp add: defs bit_fold_assign_other atLeast0LessThan)
  show "bit (sm_wrote_this_cycle s') x \<longleftrightarrow>
      bit (sm_wrote_this_cycle s) x \<or> x \<in> span_pin v p base ` {..<n}"
    by (auto simp: defs bit_fold_or)
qed

lemma drive_pindirs_regs:
  fixes h v b i base count val
  defines "p \<equiv> st_blk h b" and "n \<equiv> unat (clamp_pin_count count)"
    and "s \<equiv> the_sm h b i" and "s' \<equiv> the_sm (drive_pindirs v b i base count val h) b i"
  shows "s' = s\<lparr>sm_out_pin_oe := sm_out_pin_oe s', sm_dir_driven := sm_dir_driven s'\<rparr>"
    and "gpio_base_wf p \<Longrightarrow> k < n \<Longrightarrow> bit (sm_out_pin_oe s') (span_pin v p base k) = bit val k"
    and "x \<notin> span_pin v p base ` {..<n} \<Longrightarrow> bit (sm_out_pin_oe s') x = bit (sm_out_pin_oe s) x"
    and "bit (sm_dir_driven s') x \<longleftrightarrow> bit (sm_dir_driven s) x \<or> x \<in> span_pin v p base ` {..<n}"
proof -
  have n: "n \<le> 32" unfolding n_def using clamp_bounds(1) [of count] by (simp add: word_le_nat_alt)
  note defs = s'_def drive_pindirs_def Let_def fold_set_pindir_bit p_def n_def s_def
  show "s' = s\<lparr>sm_out_pin_oe := sm_out_pin_oe s', sm_dir_driven := sm_dir_driven s'\<rparr>"
    by (simp add: defs)
  show "bit (sm_out_pin_oe s') (span_pin v p base k) = bit val k" if "gpio_base_wf p" "k < n"
  proof -
    have "j = k" if "j < n" "span_pin v p base j = span_pin v p base k" for j
      using span_pin_inject [OF \<open>gpio_base_wf p\<close> that(2)] that(1) \<open>k < n\<close> n by simp
    from bit_fold_assign [of n "span_pin v p base" k, OF this \<open>k < n\<close> phys_pin_less]
    show ?thesis unfolding defs by simp
  qed
  show "bit (sm_out_pin_oe s') x = bit (sm_out_pin_oe s) x" if "x \<notin> span_pin v p base ` {..<n}"
    using that by (simp add: defs bit_fold_assign_other atLeast0LessThan)
  show "bit (sm_dir_driven s') x \<longleftrightarrow> bit (sm_dir_driven s) x \<or> x \<in> span_pin v p base ` {..<n}"
    by (auto simp: defs bit_fold_or)
qed

section \<open>Sampling\<close>

lemma input_level_eq:
  "pio_input_level v b h pin =
     (let k = unat pin mod PIO_SIM_NUM_PINS v; p = pads_of h b
      in if bit (p_sync_bypass p) k then bit (pads_input_view v p) k else bit (p_in_sync1 p) k)"
  by (auto simp: pio_input_level_def Let_def and_bit64_nonzero mod_num_pins_less word_bits
      dest: word_bit_lt)

lemma read_in_pins_bit:
  "bit (read_in_pins v b h base count) k \<longleftrightarrow>
     k < unat (clamp_pin_count count) \<and>
     pio_input_level v b h (phys_pin v (st_blk h b) (base + of_nat k))"
proof -
  have n: "unat (clamp_pin_count count) \<le> 32"
    using clamp_bounds(1) [of count] by (simp add: word_le_nat_alt)
  have "bit (read_in_pins v b h base count) k \<longleftrightarrow> bit (0 :: u32) k \<or> (k < 32 \<and>
      (\<exists>j\<in>set [0..<unat (clamp_pin_count count)].
         pio_input_level v b h (phys_pin v (st_blk h b) (base + of_nat j)) \<and> k = j + 0))"
    unfolding read_in_pins_def
    by (subst bit_fold_set [where c = 0, symmetric]) (simp only: add_0_right)
  then show ?thesis using n by auto
qed

section \<open>Shift registers bit by bit\<close>

lemma operand_count_bounds: "0 < operand_count w" "operand_count w \<le> 32"
  using and_31_less [of w]
  by (auto simp: operand_count_def Let_def word_neq_0_conv intro: less_imp_le)

lemma count_cases: "c \<le> 32 \<Longrightarrow> (32 \<le> c \<and> unat c = 32) \<or> (\<not> 32 \<le> c \<and> unat c < 32)" for c :: u8
  by (auto simp: word_le_nat_alt)

lemma osr_shift_val_bit:
  assumes "c \<le> 32"
  shows "bit (osr_shift_val c s) k \<longleftrightarrow> k < unat c \<and>
    (case sm_out_dir s of PIO_SHIFT_RIGHT \<Rightarrow> bit (sm_osr s) k
                        | PIO_SHIFT_LEFT \<Rightarrow> bit (sm_osr s) (k + (32 - unat c)))"
  using count_cases [OF assms]
  by (auto simp: osr_shift_val_def bit_and_iff bit_drop_bit_eq bit_mask_n add.commute
      split: pio_shift_dir_t.split dest: word_bit_lt)

lemma osr_shift_out_bit:
  assumes "c \<le> 32"
  shows "bit (sm_osr (osr_shift_out c s)) k \<longleftrightarrow>
    (case sm_out_dir s of PIO_SHIFT_RIGHT \<Rightarrow> bit (sm_osr s) (k + unat c)
       | PIO_SHIFT_LEFT \<Rightarrow> k < 32 \<and> unat c \<le> k \<and> bit (sm_osr s) (k - unat c))"
  using count_cases [OF assms]
  by (auto simp: osr_shift_out_def Let_def bit_drop_bit_eq bit_push_bit_iff add.commute
      split: pio_shift_dir_t.split dest: word_bit_lt)

lemma isr_shifted_bit:
  assumes "0 < c" "c \<le> 32" "\<And>k. bit data k \<Longrightarrow> k < unat c"
  shows "bit (isr_shifted c data s) k \<longleftrightarrow>
    (case sm_in_dir s of
       PIO_SHIFT_RIGHT \<Rightarrow> (if k < 32 - unat c then bit (sm_isr s) (k + unat c)
                           else k < 32 \<and> bit data (k - (32 - unat c)))
     | PIO_SHIFT_LEFT \<Rightarrow> (if k < unat c then bit data k else k < 32 \<and> bit (sm_isr s) (k - unat c)))"
proof -
  have "bit data k \<Longrightarrow> k < 32" for k by (drule word_bit_lt) simp
  then show ?thesis
    using count_cases [OF assms(2)] assms(3)
    by (auto simp: isr_shifted_def bit_or_iff bit_drop_bit_eq bit_push_bit_iff add.commute
        split: pio_shift_dir_t.split dest: word_bit_lt)
qed

end
