(* ===== verification/Pio_Encode.thy ===== *)
theory Pio_Encode
  imports Pio_Exec
begin

text \<open>
  The instruction encoders of \<open>lib/src/pio_sim.c\<close> and their round trip through the fields that
  \<open>exec_one\<close> and the handlers decode.
\<close>

section \<open>Encoders\<close>

text \<open>Every encoder computes in \<open>uint32_t\<close> and truncates to \<open>uint16_t\<close>.\<close>

definition pio_sim_encode_jmp :: "u8 \<Rightarrow> u8 \<Rightarrow> u16" where
  "pio_sim_encode_jmp condition addr =
     ucast (push_bit 13 0 OR push_bit 5 (ucast (condition AND 7)) OR ucast (addr AND 0x1F) :: u32)"

definition pio_sim_encode_set :: "u8 \<Rightarrow> u8 \<Rightarrow> u16" where
  "pio_sim_encode_set dest val =
     ucast (push_bit 13 7 OR push_bit 5 (ucast (dest AND 7)) OR ucast (val AND 0x1F) :: u32)"

definition pio_sim_encode_out :: "u8 \<Rightarrow> u8 \<Rightarrow> u16" where
  "pio_sim_encode_out dest count =
     ucast (push_bit 13 3 OR push_bit 5 (ucast (dest AND 7)) OR ucast (count AND 0x1F) :: u32)"

definition pio_sim_encode_in :: "u8 \<Rightarrow> u8 \<Rightarrow> u16" where
  "pio_sim_encode_in src count =
     ucast (push_bit 13 2 OR push_bit 5 (ucast (src AND 7)) OR ucast (count AND 0x1F) :: u32)"

definition pio_sim_encode_push :: "bool \<Rightarrow> bool \<Rightarrow> u16" where
  "pio_sim_encode_push if_full block =
     ucast (push_bit 13 4 OR (if if_full then push_bit 6 1 else 0) OR
            (if block then push_bit 5 1 else 0) :: u32)"

definition pio_sim_encode_pull :: "bool \<Rightarrow> bool \<Rightarrow> u16" where
  "pio_sim_encode_pull if_empty block =
     ucast (push_bit 13 4 OR push_bit 7 1 OR (if if_empty then push_bit 6 1 else 0) OR
            (if block then push_bit 5 1 else 0) :: u32)"

definition pio_sim_encode_mov :: "u8 \<Rightarrow> u8 \<Rightarrow> u8 \<Rightarrow> u16" where
  "pio_sim_encode_mov dest opn src =
     ucast (push_bit 13 5 OR push_bit 5 (ucast (dest AND 7)) OR push_bit 3 (ucast (opn AND 3)) OR
            ucast (src AND 7) :: u32)"

definition pio_sim_encode_irq :: "bool \<Rightarrow> bool \<Rightarrow> u8 \<Rightarrow> u16" where
  "pio_sim_encode_irq clr wait index =
     ucast (push_bit 13 6 OR (if clr then push_bit 6 1 else 0) OR (if wait then push_bit 5 1 else 0) OR
            ucast (index AND 0x1F) :: u32)"

text \<open>The next four exist in the \<open>RP2350\<close> build only.\<close>

definition pio_sim_encode_mov_to_rxfifo :: "u8 \<Rightarrow> u16" where
  "pio_sim_encode_mov_to_rxfifo index =
     ucast (push_bit 13 4 OR 0x10 OR 0x08 OR ucast (index AND 3) :: u32)"

definition pio_sim_encode_mov_from_rxfifo :: "u8 \<Rightarrow> u16" where
  "pio_sim_encode_mov_from_rxfifo index =
     ucast (push_bit 13 4 OR 0x80 OR 0x10 OR 0x08 OR ucast (index AND 3) :: u32)"

definition pio_sim_encode_mov_to_rxfifo_y :: u16 where
  "pio_sim_encode_mov_to_rxfifo_y = ucast (push_bit 13 4 OR 0x10 :: u32)"

definition pio_sim_encode_mov_from_rxfifo_y :: u16 where
  "pio_sim_encode_mov_from_rxfifo_y = ucast (push_bit 13 4 OR 0x80 OR 0x10 :: u32)"

definition pio_sim_encode_irq_rel :: "bool \<Rightarrow> bool \<Rightarrow> u8 \<Rightarrow> u16" where
  "pio_sim_encode_irq_rel clr wait index = pio_sim_encode_irq clr wait ((index AND 7) OR PIO_IRQ_REL)"

definition pio_sim_encode_wait :: "u8 \<Rightarrow> u8 \<Rightarrow> u8 \<Rightarrow> u16" where
  "pio_sim_encode_wait polarity source index =
     ucast (push_bit 13 1 OR push_bit 7 (ucast (polarity AND 1)) OR push_bit 5 (ucast (source AND 3)) OR
            ucast (index AND 0x1F) :: u32)"

definition pio_sim_encode_wait_irq_rel :: "u8 \<Rightarrow> u8 \<Rightarrow> u16" where
  "pio_sim_encode_wait_irq_rel polarity index =
     pio_sim_encode_wait polarity 2 ((index AND 7) OR PIO_IRQ_REL)"

definition pio_sim_encode_wait_jmppin :: "u8 \<Rightarrow> u8 \<Rightarrow> u16" where
  "pio_sim_encode_wait_jmppin polarity index = pio_sim_encode_wait polarity 3 index"

definition pio_sim_encode_nop :: u16 where
  "pio_sim_encode_nop = pio_sim_encode_mov 2 0 2"

section \<open>Fields\<close>

text \<open>The three fields \<open>exec_one\<close> takes an instruction apart into.\<close>

definition insn_fields :: "u16 \<Rightarrow> u8 \<times> u8 \<times> u8" where
  "insn_fields insn =
     (ucast (drop_bit 13 insn), ucast (drop_bit 8 insn AND 0x1F), ucast (insn AND 0xFF))"

lemma and_masks:
  "w AND 1 = take_bit 1 w" "w AND 3 = take_bit 2 w" "w AND 7 = take_bit 3 w" "w AND 0x1F = take_bit 5 w"
  for w :: "'a::len word"
  by (simp_all add: take_bit_eq_mask mask_eq_exp_minus_1)

lemma and_ff: "w AND 0xFF = take_bit 8 w" for w :: u16
  by (simp add: take_bit_eq_mask mask_eq_exp_minus_1)

text \<open>An opcode above an eight-bit operand.\<close>

lemma insn_fields_pack:
  assumes "opc < (8 :: u32)" "operand < 256"
  shows "insn_fields (ucast (push_bit 13 opc OR operand)) = (ucast opc, 0, ucast operand)"
proof -
  have o: "take_bit 3 opc = opc" "take_bit 8 operand = operand"
    using assms by (simp_all add: word_unat_eq_iff unsigned_take_bit_eq word_less_nat_alt take_bit_nat_eq_self)
  have b: "bit opc k \<Longrightarrow> k < 3" "bit operand k \<Longrightarrow> k < 8" for k
    using o by (metis bit_take_bit_iff)+
  have "\<not> bit operand (n + 13)" "\<not> bit operand (n + 8)" for n using b(2) by fastforce+
  then show ?thesis unfolding insn_fields_def and_masks and_ff
    by (auto intro!: bit_word_eqI simp: bit_simps add.commute dest: b)
qed

text \<open>The operand as a three-bit selector above a five-bit number.\<close>

definition pack35 :: "u8 \<Rightarrow> u8 \<Rightarrow> u8" where
  "pack35 d n = push_bit 5 (d AND 7) OR (n AND 0x1F)"

lemma pack35_fields [simp]:
  "drop_bit 5 (pack35 d n) AND 7 = d AND 7" "pack35 d n AND 0x1F = n AND 0x1F"
  unfolding pack35_def and_masks
  by (auto intro!: bit_word_eqI simp: bit_simps add.commute dest: word_bit_lt)

lemma ucast_pack35:
  "push_bit 5 (ucast (d AND 7)) OR ucast (n AND 0x1F) = (ucast (pack35 d n) :: u32)"
  unfolding pack35_def and_masks
  by (auto intro!: bit_word_eqI simp: bit_simps dest: word_bit_lt)

lemma ucast_u8_less: "(ucast (w :: u8) :: u32) < 256"
  using unsigned_less [where 'a = nat, of w] by (simp add: word_less_nat_alt unsigned_ucast_eq take_bit_nat_eq_self)

lemma ucast_ucast_u8 [simp]: "ucast (ucast (w :: u8) :: u32) = w"
  by (rule bit_word_eqI) (auto simp: bit_simps)

lemma insn_fields_pack35:
  "opc < (8 :: u32) \<Longrightarrow>
   insn_fields (ucast (push_bit 13 opc OR push_bit 5 (ucast (d AND 7)) OR ucast (n AND 0x1F))) =
     (ucast opc, 0, pack35 d n)"
  using insn_fields_pack [of opc "ucast (pack35 d n)"] by (simp add: ucast_pack35 ucast_u8_less)

lemma bit_pack35: "bit (pack35 d n) k \<longleftrightarrow> (if k < 5 then bit n k else k < 8 \<and> bit d (k - 5))"
  unfolding pack35_def and_masks by (auto simp: bit_simps dest: word_bit_lt)

lemma drop_bit_and_1: "drop_bit k w AND 1 = of_bool (bit w k)" for w :: u8
  by (simp add: bit_iff_odd_drop_bit and_one_eq mod_2_eq_odd)

text \<open>The selector and number the remaining encoders put into the operand.\<close>

lemma encode_irq_pack:
  "pio_sim_encode_irq clr wait index = ucast (push_bit 13 6 OR push_bit 5 (ucast
     (((if clr then 2 else 0) OR (if wait then 1 else 0) :: u8) AND 7)) OR ucast (index AND 0x1F) :: u32)"
  unfolding pio_sim_encode_irq_def by (cases clr; cases wait) (simp_all flip: or.assoc)

lemma encode_push_pack:
  "pio_sim_encode_push c block = ucast (push_bit 13 4 OR push_bit 5 (ucast
     (((if c then 2 else 0) OR (if block then 1 else 0) :: u8) AND 7)) OR ucast (0 AND 0x1F :: u8) :: u32)"
  unfolding pio_sim_encode_push_def by (cases c; cases block) simp_all

lemma encode_pull_pack:
  "pio_sim_encode_pull c block = ucast (push_bit 13 4 OR push_bit 5 (ucast
     ((4 OR (if c then 2 else 0) OR (if block then 1 else 0) :: u8) AND 7)) OR ucast (0 AND 0x1F :: u8) :: u32)"
  unfolding pio_sim_encode_pull_def by (cases c; cases block) simp_all

lemma encode_mov_pack:
  "pio_sim_encode_mov dest opn src = ucast (push_bit 13 5 OR push_bit 5 (ucast (dest AND 7)) OR
     ucast ((push_bit 3 (opn AND 3) OR (src AND 7)) AND 0x1F) :: u32)"
  unfolding pio_sim_encode_mov_def and_masks
  by (auto intro!: bit_word_eqI simp: bit_simps dest: word_bit_lt)

lemma encode_wait_pack:
  "pio_sim_encode_wait pol source index = ucast (push_bit 13 1 OR push_bit 5 (ucast
     ((push_bit 2 (pol AND 1) OR (source AND 3)) AND 7)) OR ucast (index AND 0x1F) :: u32)"
  unfolding pio_sim_encode_wait_def and_masks
  by (auto intro!: bit_word_eqI simp: bit_simps dest: word_bit_lt)

lemma opc_less: "n \<in> {0, 1, 2, 3, 4, 5, 6, 7} \<Longrightarrow> n < (8 :: u32)"
  by (auto simp: word_less_nat_alt)

lemma encode_fields:
  "insn_fields (pio_sim_encode_jmp c a) = (0, 0, pack35 c a)"
  "insn_fields (pio_sim_encode_in c a) = (2, 0, pack35 c a)"
  "insn_fields (pio_sim_encode_out c a) = (3, 0, pack35 c a)"
  "insn_fields (pio_sim_encode_set c a) = (7, 0, pack35 c a)"
  "insn_fields (pio_sim_encode_mov c opn a) = (5, 0, pack35 c (push_bit 3 (opn AND 3) OR (a AND 7)))"
  "insn_fields (pio_sim_encode_wait pol c a) = (1, 0, pack35 (push_bit 2 (pol AND 1) OR (c AND 3)) a)"
  "insn_fields (pio_sim_encode_irq f g a) =
     (6, 0, pack35 ((if f then 2 else 0) OR (if g then 1 else 0)) a)"
  "insn_fields (pio_sim_encode_push f g) =
     (4, 0, pack35 ((if f then 2 else 0) OR (if g then 1 else 0)) 0)"
  "insn_fields (pio_sim_encode_pull f g) =
     (4, 0, pack35 (4 OR (if f then 2 else 0) OR (if g then 1 else 0)) 0)"
  unfolding pio_sim_encode_jmp_def pio_sim_encode_in_def pio_sim_encode_out_def pio_sim_encode_set_def
    encode_mov_pack encode_wait_pack encode_irq_pack encode_push_pack encode_pull_pack
  by (subst insn_fields_pack35, (simp add: opc_less; fail), simp)+

section \<open>Properties\<close>

text \<open>The index of a relative IRQ, and of the instructions on RX FIFO entries.\<close>

lemma rel_index: "((a AND 7) OR 0x10) AND 0x1F = (a AND 7) OR 0x10" for a :: u8
  using and_7_cases [of a] by auto

lemma encode_rxfifo_fields:
  "insn_fields (pio_sim_encode_mov_to_rxfifo a) = (4, 0, 0x18 OR (a AND 3))"
  "insn_fields (pio_sim_encode_mov_from_rxfifo a) = (4, 0, 0x98 OR (a AND 3))"
  "insn_fields pio_sim_encode_mov_to_rxfifo_y = (4, 0, 0x10)"
  "insn_fields pio_sim_encode_mov_from_rxfifo_y = (4, 0, 0x90)"
  using and_3_cases [of a]
  by (auto simp: insn_fields_def pio_sim_encode_mov_to_rxfifo_def pio_sim_encode_mov_from_rxfifo_def
      pio_sim_encode_mov_to_rxfifo_y_def pio_sim_encode_mov_from_rxfifo_y_def)

text \<open>The encoders that the others are made of.\<close>

lemma basic_encoders_decode:
  "insn_fields (pio_sim_encode_jmp c a) = (0, 0, pack35 c a) \<and>
   insn_fields (pio_sim_encode_in c a) = (2, 0, pack35 c a) \<and>
   insn_fields (pio_sim_encode_out c a) = (3, 0, pack35 c a) \<and>
   insn_fields (pio_sim_encode_set c a) = (7, 0, pack35 c a) \<and>
   drop_bit 5 (pack35 c a) AND 7 = c AND 7 \<and> pack35 c a AND 0x1F = a AND 0x1F \<and>
   (case insn_fields (pio_sim_encode_mov c opn a) of (opc, field, w) \<Rightarrow> opc = 5 \<and> field = 0 \<and>
      drop_bit 5 w AND 7 = c AND 7 \<and> drop_bit 3 w AND 3 = opn AND 3 \<and> w AND 7 = a AND 7) \<and>
   (case insn_fields (pio_sim_encode_wait pol c a) of (opc, field, w) \<Rightarrow> opc = 1 \<and> field = 0 \<and>
      drop_bit 7 w AND 1 = pol AND 1 \<and> drop_bit 5 w AND 3 = c AND 3 \<and> w AND 0x1F = a AND 0x1F) \<and>
   (case insn_fields (pio_sim_encode_irq f g a) of (opc, field, w) \<Rightarrow> opc = 6 \<and> field = 0 \<and>
      (drop_bit 6 w AND 1 \<noteq> 0) = f \<and> (drop_bit 5 w AND 1 \<noteq> 0) = g \<and> w AND 0x1F = a AND 0x1F) \<and>
   (case insn_fields (pio_sim_encode_push f g) of (opc, field, w) \<Rightarrow> opc = 4 \<and> field = 0 \<and>
      drop_bit 7 w AND 1 = 0 \<and> (drop_bit 6 w AND 1 \<noteq> 0) = f \<and> (drop_bit 5 w AND 1 \<noteq> 0) = g \<and> w AND 0x10 = 0) \<and>
   (case insn_fields (pio_sim_encode_pull f g) of (opc, field, w) \<Rightarrow> opc = 4 \<and> field = 0 \<and>
      drop_bit 7 w AND 1 \<noteq> 0 \<and> (drop_bit 6 w AND 1 \<noteq> 0) = f \<and> (drop_bit 5 w AND 1 \<noteq> 0) = g \<and> w AND 0x10 = 0)"
proof -
  have w: "drop_bit 5 (pack35 d n) AND 3 = d AND 3"
    "drop_bit 3 (pack35 d n) AND 3 = drop_bit 3 n AND 3" "pack35 d n AND 7 = n AND 7" for d n
    unfolding and_masks by (auto intro!: bit_word_eqI simp: bit_simps bit_pack35)
  have m: "drop_bit 3 (push_bit 3 (opn AND 3) OR (a AND 7)) AND 3 = opn AND 3"
    "(push_bit 3 (opn AND 3) OR (a AND 7)) AND 7 = a AND 7"
    "(push_bit 2 (pol AND 1) OR (c AND 3)) AND 3 = c AND 3"
    unfolding and_masks by (auto intro!: bit_word_eqI simp: bit_simps dest: word_bit_lt)
  have "bit (push_bit 2 (pol AND 1) OR (c AND 3)) 2 = odd pol"
    unfolding and_masks by (simp add: bit_simps bit_0)
  then have pol: "of_bool (bit (pack35 (push_bit 2 (pol AND 1) OR (c AND 3)) a) 7) = pol AND 1"
    unfolding bit_pack35 by (simp add: and_one_eq mod_2_eq_odd)
  have pp: "pack35 d 0 AND 0x10 = 0" for d
  proof (rule bit_word_eqI)
    have "(0x10 :: u8) = push_bit 4 1" by simp
    then have "bit (0x10 :: u8) k \<Longrightarrow> k = 4" for k by (simp only: bit_push_bit_iff bit_1_iff) auto
    then have "bit (pack35 d 0 AND 0x10) k \<Longrightarrow> bit (pack35 d 0) 4" for k
      unfolding bit_and_iff by metis
    then show "bit (pack35 d 0 AND 0x10) k = bit 0 k" for k by (auto simp: bit_pack35)
  qed
  have ors: "bit (4 OR x OR y) 2" "bit (x OR y) k = (bit x k \<or> bit y k)" for x y :: u8 and k
    by (simp_all add: bit_or_iff bit_numeral_rec)
  show ?thesis
    unfolding encode_fields prod.case drop_bit_and_1 w m pack35_fields pp pol
    by (simp add: bit_pack35 ors bit_numeral_rec)
qed

lemma rxfifo_operands:
  "(0x18 OR (a AND 3)) AND 0x10 \<noteq> 0 \<and> (0x18 OR (a AND 3)) AND 0x80 = 0 \<and> (0x18 OR (a AND 3)) AND 0x08 \<noteq> 0 \<and>
   (0x18 OR (a AND 3)) AND 3 = a AND 3 \<and> (0x98 OR (a AND 3)) AND 0x10 \<noteq> 0 \<and> (0x98 OR (a AND 3)) AND 0x80 \<noteq> 0 \<and>
   (0x98 OR (a AND 3)) AND 0x08 \<noteq> 0 \<and> (0x98 OR (a AND 3)) AND 3 = a AND 3" for a :: u8
  using and_3_cases [of a] by auto

lemma nop_fields: "insn_fields pio_sim_encode_nop = (5, 0, 0x42)"
  by code_simp

text \<open>
  C27: Encoding round trip.  Each of the 17 encoders produces the opcode its handler is dispatched on, an empty
  delay and side-set field, and an operand from which the handler reads back the arguments, each
  reduced to the width of its field.  The relative forms of \<open>irq\<close> and \<open>wait irq\<close> carry the relative mode over an index of three
  bits, \<open>nop\<close> is \<open>mov y, y\<close>, and the four \<open>mov\<close>s on RX FIFO entries share the opcode of \<open>push\<close> and \<open>pull\<close>, from which bit 4 of the operand tells
  them apart; bit 7 is the direction and bit 3 tells a literal index from \<open>y\<close>.
\<close>

theorem encoders_decode:
  "insn_fields (pio_sim_encode_jmp c a) = (0, 0, pack35 c a) \<and>
   insn_fields (pio_sim_encode_in c a) = (2, 0, pack35 c a) \<and>
   insn_fields (pio_sim_encode_out c a) = (3, 0, pack35 c a) \<and>
   insn_fields (pio_sim_encode_set c a) = (7, 0, pack35 c a) \<and>
   drop_bit 5 (pack35 c a) AND 7 = c AND 7 \<and> pack35 c a AND 0x1F = a AND 0x1F \<and>
   (case insn_fields (pio_sim_encode_mov c opn a) of (opc, field, w) \<Rightarrow> opc = 5 \<and> field = 0 \<and>
      drop_bit 5 w AND 7 = c AND 7 \<and> drop_bit 3 w AND 3 = opn AND 3 \<and> w AND 7 = a AND 7) \<and>
   (case insn_fields (pio_sim_encode_wait pol c a) of (opc, field, w) \<Rightarrow> opc = 1 \<and> field = 0 \<and>
      drop_bit 7 w AND 1 = pol AND 1 \<and> drop_bit 5 w AND 3 = c AND 3 \<and> w AND 0x1F = a AND 0x1F) \<and>
   (case insn_fields (pio_sim_encode_irq f g a) of (opc, field, w) \<Rightarrow> opc = 6 \<and> field = 0 \<and>
      (drop_bit 6 w AND 1 \<noteq> 0) = f \<and> (drop_bit 5 w AND 1 \<noteq> 0) = g \<and> w AND 0x1F = a AND 0x1F) \<and>
   (case insn_fields (pio_sim_encode_push f g) of (opc, field, w) \<Rightarrow> opc = 4 \<and> field = 0 \<and>
      drop_bit 7 w AND 1 = 0 \<and> (drop_bit 6 w AND 1 \<noteq> 0) = f \<and> (drop_bit 5 w AND 1 \<noteq> 0) = g \<and> w AND 0x10 = 0) \<and>
   (case insn_fields (pio_sim_encode_pull f g) of (opc, field, w) \<Rightarrow> opc = 4 \<and> field = 0 \<and>
      drop_bit 7 w AND 1 \<noteq> 0 \<and> (drop_bit 6 w AND 1 \<noteq> 0) = f \<and> (drop_bit 5 w AND 1 \<noteq> 0) = g \<and> w AND 0x10 = 0) \<and>
   (case insn_fields (pio_sim_encode_irq_rel f g a) of (opc, field, w) \<Rightarrow> opc = 6 \<and> field = 0 \<and>
      (drop_bit 6 w AND 1 \<noteq> 0) = f \<and> (drop_bit 5 w AND 1 \<noteq> 0) = g \<and> w AND 0x1F = (a AND 7) OR PIO_IRQ_REL) \<and>
   (case insn_fields (pio_sim_encode_wait_irq_rel pol a) of (opc, field, w) \<Rightarrow> opc = 1 \<and> field = 0 \<and>
      drop_bit 7 w AND 1 = pol AND 1 \<and> drop_bit 5 w AND 3 = 2 \<and> w AND 0x1F = (a AND 7) OR PIO_IRQ_REL) \<and>
   (case insn_fields (pio_sim_encode_wait_jmppin pol a) of (opc, field, w) \<Rightarrow> opc = 1 \<and> field = 0 \<and>
      drop_bit 7 w AND 1 = pol AND 1 \<and> drop_bit 5 w AND 3 = 3 \<and> w AND 0x1F = a AND 0x1F) \<and>
   (case insn_fields pio_sim_encode_nop of (opc, field, w) \<Rightarrow> opc = 5 \<and> field = 0 \<and>
      drop_bit 5 w AND 7 = 2 \<and> drop_bit 3 w AND 3 = 0 \<and> w AND 7 = 2) \<and>
   (case insn_fields (pio_sim_encode_mov_to_rxfifo a) of (opc, field, w) \<Rightarrow> opc = 4 \<and> field = 0 \<and>
      w AND 0x10 \<noteq> 0 \<and> w AND 0x80 = 0 \<and> w AND 0x08 \<noteq> 0 \<and> w AND 3 = a AND 3) \<and>
   (case insn_fields (pio_sim_encode_mov_from_rxfifo a) of (opc, field, w) \<Rightarrow> opc = 4 \<and> field = 0 \<and>
      w AND 0x10 \<noteq> 0 \<and> w AND 0x80 \<noteq> 0 \<and> w AND 0x08 \<noteq> 0 \<and> w AND 3 = a AND 3) \<and>
   (case insn_fields pio_sim_encode_mov_to_rxfifo_y of (opc, field, w) \<Rightarrow> opc = 4 \<and> field = 0 \<and>
      w AND 0x10 \<noteq> 0 \<and> w AND 0x80 = 0 \<and> w AND 0x08 = 0) \<and>
   (case insn_fields pio_sim_encode_mov_from_rxfifo_y of (opc, field, w) \<Rightarrow> opc = 4 \<and> field = 0 \<and>
      w AND 0x10 \<noteq> 0 \<and> w AND 0x80 \<noteq> 0 \<and> w AND 0x08 = 0)"
  using basic_encoders_decode [of c a opn pol f g] basic_encoders_decode [of 2 "(a AND 7) OR PIO_IRQ_REL" opn pol f g]
    basic_encoders_decode [of 3 a opn pol f g] rxfifo_operands [of a]
  unfolding pio_sim_encode_irq_rel_def pio_sim_encode_wait_irq_rel_def pio_sim_encode_wait_jmppin_def
    encode_rxfifo_fields nop_fields rel_index
  by (auto split: prod.splits)

end
