(* ===== verification/Pio_Invariant.thy ===== *)
theory Pio_Invariant
  imports Pio_Exec
begin

text \<open>
  What an instruction may change.  \<open>exec_frame b i\<close> is the footprint of an instruction of state
  machine \<open>i\<close> of block \<open>b\<close>; the locale \<open>sm_exec_invariant\<close> collects what a predicate on one state machine
  must survive (the single-register updates the handlers are made of), and proves once that every
  handler and \<open>exec_one\<close> keep such a predicate; \<open>sm_step_invariant\<close> extends it by
  the registers a cycle writes itself and \<open>sm_invariant\<close> by the clock accumulator, which only the
  tick writes.  They are interpreted for the well-formedness invariant \<open>sm_wf\<close>, for the
  configuration being constant, and for the registers an instruction or a cycle leaves alone.
\<close>

section \<open>Footprint of an instruction\<close>

definition blk_frame :: "pio_sim_t \<Rightarrow> pio_sim_t" where
  "blk_frame p = p\<lparr>pio_sm := (\<lambda>_. sm_zero), pio_irq := 0, pio_pads_embedded := pads_zero\<rparr>"

definition pads_frame :: "pio_pads_t \<Rightarrow> pio_pads_t" where
  "pads_frame p = p\<lparr>p_pin_dirs := 0, p_pin_levels := 0\<rparr>"

text \<open>
  Only the state machine itself, IRQ flags, and the directions and levels of the pads the block is
  wired to may differ.
\<close>

definition exec_frame :: "nat \<Rightarrow> nat \<Rightarrow> pio_store \<Rightarrow> pio_store \<Rightarrow> bool" where
  "exec_frame b i h h' \<longleftrightarrow>
     (\<forall>b' i'. (b', i') \<noteq> (b, i) \<longrightarrow> the_sm h' b' i' = the_sm h b' i') \<and>
     (\<forall>b'. blk_frame (st_blk h' b') = blk_frame (st_blk h b')) \<and>
     (\<forall>q. q \<noteq> pads_ptr_of h b \<longrightarrow> get_pads h' q = get_pads h q) \<and>
     pads_frame (pads_of h' b) = pads_frame (pads_of h b) \<and>
     st_trace h' = st_trace h"

lemma blk_frame_fields:
  assumes "blk_frame p' = blk_frame p"
  shows "pio_insn p' = pio_insn p" "pio_insn_used p' = pio_insn_used p"
    "pio_irq_inte p' = pio_irq_inte p" "pio_irq_intf p' = pio_irq_intf p" "pio_pads p' = pio_pads p"
    "pio_gpio_base p' = pio_gpio_base p" "pio_on_tick p' = pio_on_tick p"
    "pio_device_ctx p' = pio_device_ctx p" "pio_on_insn p' = pio_on_insn p"
    "pio_trace_ctx p' = pio_trace_ctx p" "pio_cycle p' = pio_cycle p"
    "pio_unwritten_fetches p' = pio_unwritten_fetches p"
    "pio_irq_prev p' = pio_irq_prev p" "pio_irq_next p' = pio_irq_next p"
  using assms by (cases p; cases p'; simp add: blk_frame_def)+

lemma exec_frame_ptr: "exec_frame b i h h' \<Longrightarrow> pads_ptr_of h' b' = pads_ptr_of h b'"
  by (auto simp: exec_frame_def dest: blk_frame_fields(5))

lemma exec_frame_refl [simp, frame]: "exec_frame b i h h"
  by (simp add: exec_frame_def)

lemma exec_frame_trans [frame]:
  assumes "exec_frame b i h1 h2" "exec_frame b i h2 h3"
  shows "exec_frame b i h1 h3"
proof -
  have "pads_ptr_of h2 b = pads_ptr_of h1 b" using assms(1) by (rule exec_frame_ptr)
  with assms show ?thesis by (simp add: exec_frame_def)
qed

lemma exec_frame_upd_sm [frame]: "exec_frame b i h (upd_sm b i f h)"
  by (simp add: exec_frame_def blk_frame_def upd_sm_def upd_blk_def blk_upd_sm_def the_sm_def
      get_pads_def split: pads_ptr.split)

lemma get_pads_upd_irq: "get_pads (upd_blk b (\<lambda>p. p\<lparr>pio_irq := g p\<rparr>) h) q = get_pads h q"
  by (simp add: get_pads_def upd_blk_def split: pads_ptr.split)

lemma exec_frame_upd_irq [frame]: "exec_frame b i h (upd_blk b' (\<lambda>p. p\<lparr>pio_irq := g p\<rparr>) h)"
  by (simp add: exec_frame_def get_pads_upd_irq)
     (simp add: the_sm_def upd_blk_def blk_frame_def)

lemma blk_frame_upd_pads: "blk_frame (st_blk (upd_pads q f h) b) = blk_frame (st_blk h b)"
  by (simp add: upd_pads_def upd_blk_def blk_frame_def split: pads_ptr.split)

lemma exec_frame_resolve [frame]:
  "exec_frame b i h (pio_pads_resolve (pads_ptr_of h b) h)"
proof -
  have "blk_frame (st_blk (pio_pads_resolve q h) b') = blk_frame (st_blk h b')" for q b'
    by (subst resolve_eq) (rule blk_frame_upd_pads)
  moreover have "pads_frame (get_pads (pio_pads_resolve q h) q) = pads_frame (get_pads h q)" for q
    by (subst resolve_eq) (simp add: pads_frame_def)
  ultimately show ?thesis by (simp add: exec_frame_def)
qed

lemma exec_frame_pins [frame]:
  "exec_frame b i h (drive_pins v b i base count val h)"
  "exec_frame b i h (drive_pindirs v b i base count val h)"
  "exec_frame b i h (release_out_pins v b i base count h)"
  unfolding drive_pins_def drive_pindirs_def release_out_pins_def Let_def
  by (rule exec_frame_trans [OF exec_frame_upd_sm exec_frame_resolve])+

text \<open>Every handler stays within the footprint.\<close>

lemma irq_clear_upd: "pio_sim_irq_clear t = (\<lambda>p. p\<lparr>pio_irq := pio_irq p AND NOT (irq_bit t)\<rparr>)"
  by (simp add: fun_eq_iff pio_sim_irq_clear_def)

lemma exec_frame_jmp [frame]: "exec_frame b i h (fst (exec_jmp v b i operand h))"
  by (simp add: exec_jmp_def Let_def exec_frame_upd_sm)

lemma exec_frame_wait [frame]: "exec_frame b i h (fst (exec_wait v b i operand h))"
  by (simp add: exec_wait_def Let_def irq_clear_upd exec_frame_upd_irq split: option.split)

lemma exec_frame_in [frame]: "exec_frame b i h (fst (exec_in v b i operand h))"
  by (simp add: exec_in_def Let_def exec_frame_upd_sm)

lemma exec_frame_out_store [frame]: "exec_frame b i h (fst (out_store v b i dest val count h))"
  by (simp add: out_store_def Let_def exec_frame_upd_sm exec_frame_pins)

lemma exec_frame_out [frame]: "exec_frame b i h (fst (exec_out v b i operand h))"
  by (simp add: exec_out_def Let_def split_beta exec_frame_upd_sm
      exec_frame_trans [OF exec_frame_upd_sm exec_frame_out_store])

lemma exec_frame_pushpull [frame]: "exec_frame b i h (fst (exec_pushpull v b i operand h))"
  by (simp add: exec_pushpull_def Let_def exec_frame_upd_sm)

lemma exec_frame_mov [frame]: "exec_frame b i h (fst (exec_mov v b i operand h))"
  by (simp add: exec_mov_def Let_def exec_frame_upd_sm exec_frame_pins)

lemma exec_frame_irq [frame]: "exec_frame b i h (fst (exec_irq v b i operand h))"
  by (simp add: exec_irq_def Let_def irq_clear_upd exec_frame_upd_irq
      split: option.split)

lemma exec_frame_set [frame]: "exec_frame b i h (exec_set v b i operand h)"
  by (simp add: exec_set_def Let_def exec_frame_upd_sm exec_frame_pins)

lemma exec_frame_op [frame]: "exec_frame b i h (fst (exec_op v b i opc operand h))"
  by (simp add: exec_op_def split_beta exec_frame_jmp exec_frame_wait exec_frame_in exec_frame_out
      exec_frame_pushpull exec_frame_mov exec_frame_irq exec_frame_set exec_mov_rxfifo_def
      exec_frame_upd_sm)

lemma exec_frame_sideset [frame]: "exec_frame b i h (apply_sideset v b i ds h)"
  by (simp add: apply_sideset_def Let_def exec_frame_pins)

lemma exec_frame_one [frame]: "exec_frame b i h (fst (exec_one v b i insn h))"
  by (simp add: exec_one_def Let_def split_beta
      exec_frame_trans [OF exec_frame_op exec_frame_sideset])

section \<open>Predicates a state machine keeps\<close>

locale sm_exec_invariant =
  fixes P :: "pio_sm_t \<Rightarrow> bool"
  assumes wf: "P s \<Longrightarrow> sm_wf s"
    and x: "P s \<Longrightarrow> P (s\<lparr>sm_x := w\<rparr>)"
    and y: "P s \<Longrightarrow> P (s\<lparr>sm_y := w\<rparr>)"
    and osr: "P s \<Longrightarrow> n \<le> 32 \<Longrightarrow> P (s\<lparr>sm_osr := w, sm_osr_count := n\<rparr>)"
    and isr: "P s \<Longrightarrow> n \<le> 32 \<Longrightarrow> P (s\<lparr>sm_isr := w, sm_isr_count := n\<rparr>)"
    and pin_vals: "P s \<Longrightarrow> P (s\<lparr>sm_out_pin_val := m, sm_wrote_this_cycle := m'\<rparr>)"
    and pin_dirs: "P s \<Longrightarrow> P (s\<lparr>sm_out_pin_oe := m, sm_dir_driven := m'\<rparr>)"
    and wrote: "P s \<Longrightarrow> P (s\<lparr>sm_wrote_this_cycle := m\<rparr>)"
    and pending: "P s \<Longrightarrow> P (s\<lparr>sm_exec_pending := e\<rparr>)"
    and exec_insn: "P s \<Longrightarrow> P (s\<lparr>sm_exec_insn := insn\<rparr>)"
    and fdebug: "P s \<Longrightarrow> P (s\<lparr>sm_fdebug := d\<rparr>)"
    and tx: "P s \<Longrightarrow> P (s\<lparr>sm_tx := fst (fifo_pop (sm_tx s))\<rparr>)"
    and rx: "P s \<Longrightarrow> P (s\<lparr>sm_rx := fst (fifo_push (sm_rx s) w)\<rparr>)"
    and rx_buf: "P s \<Longrightarrow> P (s\<lparr>sm_rx := (sm_rx s)\<lparr>f_buf := g\<rparr>\<rparr>)"
begin

lemma jmp_decrement: "P s \<Longrightarrow> P (jmp_decrement c s)"
  by (simp add: jmp_decrement_def x y)

lemma refill: "P s \<Longrightarrow> P (fst (osr_refill s))"
  using osr [OF tx, of s 0] by (simp add: osr_refill_eq)

lemma drain: "P s \<Longrightarrow> P (fst (isr_drain s))"
  using isr [OF rx, of s 0] by (simp add: isr_drain_eq)

lemma shift_in: "P s \<Longrightarrow> P (isr_shift_in c data s)"
  by (auto simp: isr_shift_in_def Let_def not_less intro!: drain isr)

lemma shift_out: "P s \<Longrightarrow> P (osr_shift_out c s)"
  by (auto simp: osr_shift_out_def Let_def not_less intro!: osr)

lemma push: "P s \<Longrightarrow> P (fst (push_insn v c blk s))"
  using isr [OF fdebug, of s 0] by (simp add: push_insn_def Let_def drain fdebug)

lemma pull: "P s \<Longrightarrow> P (fst (pull_insn c blk s))"
  using osr [OF fdebug, of s 0] by (simp add: pull_insn_def Let_def refill fdebug)

lemma mov_rxfifo: "P s \<Longrightarrow> P (mov_rxfifo operand s)"
  using isr [OF rx_buf, of s 0] by (simp add: mov_rxfifo_def Let_def osr)

lemma drive:
  assumes "P (the_sm h b i)"
  shows "P (the_sm (drive_pins v b i base count val h) b i)"
    and "P (the_sm (drive_pindirs v b i base count val h) b i)"
    and "P (the_sm (release_out_pins v b i base count h) b i)"
proof -
  show "P (the_sm (drive_pins v b i base count val h) b i)"
    by (subst drive_pins_regs(1)) (rule pin_vals [OF assms])
  show "P (the_sm (drive_pindirs v b i base count val h) b i)"
    by (subst drive_pindirs_regs(1)) (rule pin_dirs [OF assms])
  show "P (the_sm (release_out_pins v b i base count h) b i)"
    using assms by (simp add: release_out_pins_def Let_def fold_release_pin_bit wrote pin_dirs)
qed

lemma exec: "P s \<Longrightarrow> P (s\<lparr>sm_exec_pending := e, sm_exec_insn := insn\<rparr>)"
  by (rule exec_insn [OF pending])

lemma the_sm_upd_irq [simp]: "the_sm (upd_blk b' (\<lambda>p. p\<lparr>pio_irq := g p\<rparr>) h) b i = the_sm h b i"
  by (simp add: the_sm_def upd_blk_def)

lemma exec_jmp: "P (the_sm h b i) \<Longrightarrow> P (the_sm (fst (exec_jmp v b i operand h)) b i)"
  by (simp add: exec_jmp_def Let_def jmp_decrement)

lemma exec_wait: "P (the_sm h b i) \<Longrightarrow> P (the_sm (fst (exec_wait v b i operand h)) b i)"
  by (simp add: exec_wait_def Let_def irq_clear_upd split: option.split)

lemma exec_in: "P (the_sm h b i) \<Longrightarrow> P (the_sm (fst (exec_in v b i operand h)) b i)"
  by (simp add: exec_in_def Let_def fdebug shift_in)

lemma out_store:
  "P (the_sm h b i) \<Longrightarrow> count \<le> 32 \<Longrightarrow> P (the_sm (fst (out_store v b i dest val count h)) b i)"
  by (simp add: out_store_def Let_def x y isr exec drive)

lemma exec_out: "P (the_sm h b i) \<Longrightarrow> P (the_sm (fst (exec_out v b i operand h)) b i)"
  using out_store [OF _ operand_count_bounds(2)]
  by (simp add: exec_out_def Let_def split_beta fdebug shift_out)

lemma exec_pushpull: "P (the_sm h b i) \<Longrightarrow> P (the_sm (fst (exec_pushpull v b i operand h)) b i)"
  by (simp add: exec_pushpull_def Let_def push pull)

lemma exec_mov: "P (the_sm h b i) \<Longrightarrow> P (the_sm (fst (exec_mov v b i operand h)) b i)"
  by (simp add: exec_mov_def Let_def x y isr osr exec drive)

lemma exec_irq: "P (the_sm h b i) \<Longrightarrow> P (the_sm (fst (exec_irq v b i operand h)) b i)"
  by (simp add: exec_irq_def Let_def irq_clear_upd split: option.split)

lemma exec_set: "P (the_sm h b i) \<Longrightarrow> P (the_sm (exec_set v b i operand h) b i)"
  by (simp add: exec_set_def Let_def x y drive)

lemma exec_op: "P (the_sm h b i) \<Longrightarrow> P (the_sm (fst (exec_op v b i opc operand h)) b i)"
  by (simp add: exec_op_def split_beta exec_jmp exec_wait exec_in exec_out exec_pushpull exec_mov
      exec_irq exec_set exec_mov_rxfifo_def mov_rxfifo)

lemma sideset: "P (the_sm h b i) \<Longrightarrow> P (the_sm (apply_sideset v b i ds h) b i)"
  by (simp add: apply_sideset_def Let_def drive)

lemma exec_one: "P (the_sm h b i) \<Longrightarrow> P (the_sm (fst (exec_one v b i insn h)) b i)"
  by (simp add: exec_one_def Let_def split_beta sideset exec_op)

end

locale sm_step_invariant = sm_exec_invariant +
  assumes pc: "P s \<Longrightarrow> a < 32 \<Longrightarrow> P (s\<lparr>sm_pc := a\<rparr>)"
    and delay: "P s \<Longrightarrow> n < 32 \<Longrightarrow> P (s\<lparr>sm_delay := n\<rparr>)"
    and stalled: "P s \<Longrightarrow> P (s\<lparr>sm_stalled := e\<rparr>)"

locale sm_invariant = sm_step_invariant +
  assumes accum: "P s \<Longrightarrow> P (s\<lparr>sm_clk_accum := acc\<rparr>)"

section \<open>Well-formedness and configuration\<close>

text \<open>The configuration a state machine runs with, read back from its registers.\<close>

definition sm_config_of :: "pio_sm_t \<Rightarrow> pio_sm_config" where
  "sm_config_of s =
     \<lparr>c_out_base = sm_out_base s, c_out_count = sm_out_count s, c_set_base = sm_set_base s,
      c_set_count = sm_set_count s, c_in_base = sm_in_base s, c_in_count = sm_in_count s,
      c_sideset_base = sm_sideset_base s, c_sideset_total_bits = sm_sideset_total_bits s,
      c_sideset_opt = sm_sideset_opt s, c_sideset_pindirs = sm_sideset_pindirs s,
      c_jmp_pin = sm_jmp_pin s, c_out_dir = sm_out_dir s, c_in_dir = sm_in_dir s,
      c_autopull = sm_autopull s, c_autopush = sm_autopush s, c_pull_thresh = sm_pull_thresh s,
      c_push_thresh = sm_push_thresh s, c_clkdiv_int = sm_clkdiv_int s,
      c_clkdiv_frac = sm_clkdiv_frac s, c_wrap_bottom = sm_wrap_bottom s, c_wrap_top = sm_wrap_top s,
      c_fifo_join = sm_fifo_join s, c_status_sel = sm_status_sel s, c_status_n = sm_status_n s,
      c_out_sticky = sm_out_sticky s, c_out_inline_en = sm_out_inline_en s,
      c_out_en_sel = sm_out_en_sel s\<rparr>"

lemma fifo_wf_buf [simp]: "fifo_wf (f\<lparr>f_buf := g\<rparr>) = fifo_wf f"
  by (simp add: fifo_wf_def)

interpretation wf: sm_invariant sm_wf
  by unfold_locales (simp_all add: sm_wf_def ring.pop_inv ring.push_inv)

lemmas wf_updates = wf.x wf.y wf.osr wf.isr wf.pin_vals wf.pin_dirs wf.wrote wf.pending wf.exec_insn
  wf.fdebug wf.tx wf.rx wf.rx_buf wf.pc wf.delay wf.stalled wf.accum

interpretation cfg: sm_invariant
  "\<lambda>s. sm_wf s \<and> sm_config_of s = c \<and> sm_enabled s = e" for c e
  by unfold_locales (simp_all add: wf_updates sm_config_of_def)

interpretation seq_regs: sm_exec_invariant
  "\<lambda>s. sm_wf s \<and> sm_pc s = a \<and> sm_delay s = d \<and> sm_stalled s = e" for a d e
  by unfold_locales (simp_all add: wf_updates)

interpretation clk_regs: sm_step_invariant
  "\<lambda>s. sm_wf s \<and> sm_clk_accum s = a \<and> sm_clkdiv_int s = d \<and> sm_clkdiv_frac s = f" for a d f
  by unfold_locales (simp_all add: wf_updates)

lemma sm_config_of_set_config:
  "sm_config_of (sm_set_config v c s) = c\<lparr>c_fifo_join := stored_join v (c_fifo_join c)\<rparr>"
  by (simp add: sm_set_config_def sm_config_of_def apply_fifo_join_eq Let_def)

text \<open>The program counters and delays an instruction asks for are in range.\<close>

lemma exec_op_pc: "snd (snd (exec_op v b i opc operand h)) = Some a \<Longrightarrow> a < 32"
proof -
  have "ucast (w AND 0x1F :: u32) < (32 :: u8)" for w
  proof -
    have "ucast (w AND 0x1F) = (ucast w AND 0x1F :: u8)" by (rule bit_word_eqI) (auto simp: bit_simps)
    then show ?thesis by (simp add: and_31_less)
  qed
  then show "snd (snd (exec_op v b i opc operand h)) = Some a \<Longrightarrow> a < 32"
    by (auto simp: exec_op_def exec_jmp_def exec_wait_def exec_in_def exec_out_def exec_pushpull_def
        exec_mov_def exec_irq_def out_store_def Let_def split_beta and_31_less
        split: if_splits option.splits)
qed

lemma exec_one_pc: "fst (snd (snd (exec_one v b i insn h))) = Some a \<Longrightarrow> a < 32"
  by (auto simp: exec_one_def Let_def split_beta split: if_splits dest: exec_op_pc)

lemma exec_one_delay: "snd (snd (snd (exec_one v b i insn h))) < 32"
  by (simp add: exec_one_def Let_def split_beta decode_bounds)

end
