(* ===== verification/Pio_Tick.thy ===== *)
theory Pio_Tick
  imports Pio_Invariant
begin

text \<open>
  Stepping: one cycle of a state machine (\<open>sm_cycle\<close>), one system tick of a block
  (\<open>pio_sim_tick\<close>), the bounded run loops and the out-of-band \<open>pio_sim_sm_exec\<close> of
  \<open>lib/src/pio_sim.c\<close>.  The device hook is host code: \<open>dev f b ctx\<close> is what hook number \<open>f\<close> does to
  the store when it is called on block \<open>b\<close> with context \<open>ctx\<close>.  The locale \<open>rate_divider\<close> holds
  the exact-rate law of the accumulate-and-subtract clock dividers.
\<close>

section \<open>One state-machine cycle\<close>

definition call_on_insn :: "nat \<Rightarrow> nat \<Rightarrow> u16 \<Rightarrow> pio_store \<Rightarrow> pio_store" where
  "call_on_insn b i insn h =
     (case pio_on_insn (st_blk h b) of
        None \<Rightarrow> h
      | Some f \<Rightarrow> h\<lparr>st_trace := st_trace h @
          [\<lparr>tc_hook = f, tc_block = b, tc_sm = i, tc_pc = sm_pc (the_sm h b i), tc_insn = insn,
            tc_ctx = pio_trace_ctx (st_blk h b)\<rparr>]\<rparr>)"

text \<open>The tail of \<open>sm_cycle\<close> after an injected instruction, and after one fetched from memory.\<close>

definition commit_injected :: "u8 option \<Rightarrow> u8 \<Rightarrow> pio_sm_t \<Rightarrow> pio_sm_t" where
  "commit_injected pc delay s =
     s\<lparr>sm_exec_pending := False, sm_pc := (case pc of Some a \<Rightarrow> a | None \<Rightarrow> sm_pc s),
       sm_delay := delay\<rparr>"

definition commit_fetched :: "u8 option \<Rightarrow> u8 \<Rightarrow> pio_sm_t \<Rightarrow> pio_sm_t" where
  "commit_fetched pc delay s =
     s\<lparr>sm_pc := (case pc of
          Some a \<Rightarrow> a
        | None \<Rightarrow> (if sm_pc s = sm_wrap_top s then sm_wrap_bottom s
                   else word_of_nat ((unat (sm_pc s) + 1) mod PIO_SIM_INSN_COUNT))),
       sm_delay := (if sm_exec_pending s then 0 else delay)\<rparr>"

definition autopull_refill :: "pio_sm_t \<Rightarrow> pio_sm_t" where
  "autopull_refill s =
     (if sm_autopull s \<and> sm_pull_thresh s \<le> sm_osr_count s then fst (osr_refill s) else s)"

definition sm_cycle :: "pio_version \<Rightarrow> nat \<Rightarrow> nat \<Rightarrow> pio_store \<Rightarrow> pio_store" where
  "sm_cycle v b i h =
     (let h = upd_sm b i autopull_refill h;
          s = the_sm h b i
      in if 0 < sm_delay s then upd_sm b i (\<lambda>s. s\<lparr>sm_delay := sm_delay s - 1\<rparr>) h
         else
           let from_exec = sm_exec_pending s;
               fetch_pc = unat (sm_pc s) mod PIO_SIM_INSN_COUNT;
               insn = (if from_exec then sm_exec_insn s else pio_insn (st_blk h b) fetch_pc);
               h = (if \<not> from_exec \<and> \<not> pio_insn_used (st_blk h b) fetch_pc
                    then upd_blk b (\<lambda>p. p\<lparr>pio_unwritten_fetches := pio_unwritten_fetches p + 1\<rparr>) h
                    else h);
               (h, committed, pc, delay) = exec_one v b i insn h
           in if \<not> committed then upd_sm b i (\<lambda>s. s\<lparr>sm_stalled := True\<rparr>) h
              else
                let h = upd_sm b i (\<lambda>s. s\<lparr>sm_stalled := False\<rparr>) h;
                    h = call_on_insn b i insn h
                in upd_sm b i
                     (if from_exec then commit_injected pc delay else commit_fetched pc delay) h)"

section \<open>One system tick\<close>

text \<open>The clock divider: the divisor in 1/256 units, and one step of the accumulator.\<close>

definition div_units :: "pio_sm_t \<Rightarrow> u32" where
  "div_units s =
     (let div_int = (if sm_clkdiv_int s = 0 then 65536 else ucast (sm_clkdiv_int s))
      in push_bit 8 div_int OR ucast (sm_clkdiv_frac s))"

definition clk_divider_step :: "pio_sm_t \<Rightarrow> pio_sm_t \<times> bool" where
  "clk_divider_step s =
     (let acc = sm_clk_accum s + 256
      in if div_units s \<le> acc then (s\<lparr>sm_clk_accum := acc - div_units s\<rparr>, True)
         else (s\<lparr>sm_clk_accum := acc\<rparr>, False))"

definition tick_sm :: "pio_version \<Rightarrow> nat \<Rightarrow> nat \<Rightarrow> pio_store \<Rightarrow> pio_store" where
  "tick_sm v b i h =
     (let due = snd (clk_divider_step (the_sm h b i));
          h = upd_sm b i (\<lambda>s. fst (clk_divider_step s)) h
      in if due \<and> sm_enabled (the_sm h b i)
         then let h = sm_cycle v b i h
              in if sm_out_sticky (the_sm h b i)
                 then upd_sm b i (\<lambda>s. s\<lparr>sm_wrote_this_cycle := sm_wrote_this_cycle s OR sm_out_pin_oe s\<rparr>) h
                 else h
         else h)"

definition open_write_window :: "nat \<Rightarrow> pio_store \<Rightarrow> pio_store" where
  "open_write_window b h =
     fold (\<lambda>i. upd_sm b i (\<lambda>s. s\<lparr>sm_wrote_this_cycle := 0\<rparr>)) [0..<PIO_SIM_NUM_SM] h"

type_synonym device = "nat \<Rightarrow> nat \<Rightarrow> nat \<Rightarrow> pio_store \<Rightarrow> pio_store"

definition call_on_tick :: "device \<Rightarrow> nat \<Rightarrow> pio_store \<Rightarrow> pio_store" where
  "call_on_tick dev b h =
     (case pio_on_tick (st_blk h b) of
        None \<Rightarrow> h | Some f \<Rightarrow> dev f b (pio_device_ctx (st_blk h b)) h)"

definition pio_sim_tick :: "pio_version \<Rightarrow> device \<Rightarrow> nat \<Rightarrow> pio_store \<Rightarrow> pio_store" where
  "pio_sim_tick v dev b h =
     (let h = open_write_window b h;
          h = fold (tick_sm v b) [0..<PIO_SIM_NUM_SM] h;
          h = pio_pads_resolve (pads_ptr_of h b) h;
          h = call_on_tick dev b h;
          h = (if pads_ptr_of h b = Embedded b then upd_pads (Embedded b) (pads_clock v) h else h)
      in upd_blk b (\<lambda>p. p\<lparr>pio_cycle := pio_cycle p + 1\<rparr>) h)"

section \<open>Running\<close>

definition pio_sim_run :: "pio_version \<Rightarrow> device \<Rightarrow> nat \<Rightarrow> u64 \<Rightarrow> pio_store \<Rightarrow> pio_store" where
  "pio_sim_run v dev b n h = (pio_sim_tick v dev b ^^ unat n) h"

text \<open>The loop \<open>while ((t < max_ticks) && go) { tick; t++; }\<close> with \<open>max_ticks - t\<close> iterations left.\<close>

fun run_while :: "('h \<Rightarrow> bool) \<Rightarrow> ('h \<Rightarrow> 'h) \<Rightarrow> nat \<Rightarrow> 'h \<Rightarrow> 'h \<times> nat" where
  "run_while go step 0 h = (h, 0)"
| "run_while go step (Suc n) h =
     (if go h then let (h', t) = run_while go step n (step h) in (h', t + 1) else (h, 0))"

definition pio_sim_run_until_rx ::
  "pio_version \<Rightarrow> device \<Rightarrow> nat \<Rightarrow> u8 \<Rightarrow> u64 \<Rightarrow> pio_store \<Rightarrow> pio_store \<times> u64" where
  "pio_sim_run_until_rx v dev b sm max_ticks h =
     (let (h, t) = run_while (\<lambda>h. pio_sim_sm_is_rx_fifo_empty (st_blk h b) sm)
                     (pio_sim_tick v dev b) (unat max_ticks) h
      in (h, word_of_nat t))"

definition pio_sim_run_until_tx_empty ::
  "pio_version \<Rightarrow> device \<Rightarrow> nat \<Rightarrow> u8 \<Rightarrow> u64 \<Rightarrow> pio_store \<Rightarrow> pio_store \<times> u64" where
  "pio_sim_run_until_tx_empty v dev b sm max_ticks h =
     (let (h, t) = run_while (\<lambda>h. \<not> pio_sim_sm_is_tx_fifo_empty (st_blk h b) sm)
                     (pio_sim_tick v dev b) (unat max_ticks) h
      in (h, word_of_nat t))"

definition pio_sim_run_until_tx_drained ::
  "pio_version \<Rightarrow> device \<Rightarrow> nat \<Rightarrow> u8 \<Rightarrow> u64 \<Rightarrow> pio_store \<Rightarrow> pio_store \<times> u64" where
  "pio_sim_run_until_tx_drained v dev b sm max_ticks h =
     (let h = upd_blk b (pio_sim_sm_clear_fdebug sm PIO_FDEBUG_TXSTALL) h;
          (h, t) = run_while
                     (\<lambda>h. pio_sim_sm_get_fdebug (st_blk h b) sm AND PIO_FDEBUG_TXSTALL = 0)
                     (pio_sim_tick v dev b) (unat max_ticks) h
      in (h, word_of_nat t))"

definition pio_sim_sm_exec :: "pio_version \<Rightarrow> nat \<Rightarrow> u8 \<Rightarrow> u16 \<Rightarrow> pio_store \<Rightarrow> pio_store" where
  "pio_sim_sm_exec v b sm insn h =
     (let i = SM_IDX sm;
          h = upd_sm b i (\<lambda>s. s\<lparr>sm_stalled := False\<rparr>) h;
          (h, committed, pc, delay) = exec_one v b i insn h
      in if committed
         then let h = call_on_insn b i insn h
              in (case pc of Some a \<Rightarrow> upd_sm b i (\<lambda>s. s\<lparr>sm_pc := a\<rparr>) h | None \<Rightarrow> h)
         else upd_sm b i
                (\<lambda>s. s\<lparr>sm_exec_pending := True, sm_exec_insn := insn, sm_stalled := True\<rparr>) h)"

section \<open>Footprint of a cycle\<close>

text \<open>
  A cycle may also count a fetch of an unwritten word and call the trace hook; otherwise its
  footprint is that of the instruction.
\<close>

definition cycle_frame :: "nat \<Rightarrow> nat \<Rightarrow> pio_store \<Rightarrow> pio_store \<Rightarrow> bool" where
  "cycle_frame b i h h' \<longleftrightarrow>
     (\<forall>b' i'. (b', i') \<noteq> (b, i) \<longrightarrow> the_sm h' b' i' = the_sm h b' i') \<and>
     (\<forall>b'. (blk_frame (st_blk h' b'))\<lparr>pio_unwritten_fetches := 0\<rparr> =
           (blk_frame (st_blk h b'))\<lparr>pio_unwritten_fetches := 0\<rparr>) \<and>
     (\<forall>q. q \<noteq> pads_ptr_of h b \<longrightarrow> get_pads h' q = get_pads h q) \<and>
     pads_frame (pads_of h' b) = pads_frame (pads_of h b)"

lemma cycle_frame_fields:
  assumes "cycle_frame b i h h'"
  shows "pio_insn (st_blk h' b') = pio_insn (st_blk h b')"
    "pio_insn_used (st_blk h' b') = pio_insn_used (st_blk h b')"
    "pio_pads (st_blk h' b') = pio_pads (st_blk h b')"
    "pio_gpio_base (st_blk h' b') = pio_gpio_base (st_blk h b')"
    "pio_on_tick (st_blk h' b') = pio_on_tick (st_blk h b')"
    "pio_device_ctx (st_blk h' b') = pio_device_ctx (st_blk h b')"
    "pio_cycle (st_blk h' b') = pio_cycle (st_blk h b')"
    "pio_irq_prev (st_blk h' b') = pio_irq_prev (st_blk h b')"
    "pio_irq_next (st_blk h' b') = pio_irq_next (st_blk h b')"
    "pio_irq_inte (st_blk h' b') = pio_irq_inte (st_blk h b')"
    "pio_irq_intf (st_blk h' b') = pio_irq_intf (st_blk h b')"
    "pio_on_insn (st_blk h' b') = pio_on_insn (st_blk h b')"
proof -
  have "(blk_frame (st_blk h' b'))\<lparr>pio_unwritten_fetches := 0\<rparr> =
      (blk_frame (st_blk h b'))\<lparr>pio_unwritten_fetches := 0\<rparr>"
    using assms by (simp add: cycle_frame_def)
  then show "pio_insn (st_blk h' b') = pio_insn (st_blk h b')"
    "pio_insn_used (st_blk h' b') = pio_insn_used (st_blk h b')"
    "pio_pads (st_blk h' b') = pio_pads (st_blk h b')"
    "pio_gpio_base (st_blk h' b') = pio_gpio_base (st_blk h b')"
    "pio_on_tick (st_blk h' b') = pio_on_tick (st_blk h b')"
    "pio_device_ctx (st_blk h' b') = pio_device_ctx (st_blk h b')"
    "pio_cycle (st_blk h' b') = pio_cycle (st_blk h b')"
    "pio_irq_prev (st_blk h' b') = pio_irq_prev (st_blk h b')"
    "pio_irq_next (st_blk h' b') = pio_irq_next (st_blk h b')"
    "pio_irq_inte (st_blk h' b') = pio_irq_inte (st_blk h b')"
    "pio_irq_intf (st_blk h' b') = pio_irq_intf (st_blk h b')"
    "pio_on_insn (st_blk h' b') = pio_on_insn (st_blk h b')"
    by (cases "st_blk h' b'"; cases "st_blk h b'"; simp add: blk_frame_def)+
qed

lemma cycle_frame_exec [frame]: "exec_frame b i h h' \<Longrightarrow> cycle_frame b i h h'"
  by (simp add: exec_frame_def cycle_frame_def)

lemma cycle_frame_refl [simp, frame]: "cycle_frame b i h h"
  by (simp add: cycle_frame_def)

lemma cycle_frame_trans [frame]:
  assumes "cycle_frame b i h1 h2" "cycle_frame b i h2 h3"
  shows "cycle_frame b i h1 h3"
proof -
  have "pads_ptr_of h2 b = pads_ptr_of h1 b" using assms(1) by (rule cycle_frame_fields)
  with assms show ?thesis by (simp add: cycle_frame_def)
qed

lemma cycle_frame_upd_sm [frame]: "cycle_frame b i h (upd_sm b i f h)"
  by (rule cycle_frame_exec [OF exec_frame_upd_sm])

lemma cycle_frame_unwritten [frame]:
  "cycle_frame b i h (upd_blk b (\<lambda>p. p\<lparr>pio_unwritten_fetches := g p\<rparr>) h)"
  by (simp add: cycle_frame_def the_sm_def upd_blk_def blk_frame_def get_pads_def
      split: pads_ptr.split)

lemma call_on_insn_eq [simp]:
  "st_blk (call_on_insn b i insn h) = st_blk h" "st_gpads (call_on_insn b i insn h) = st_gpads h"
  "the_sm (call_on_insn b i insn h) b' i' = the_sm h b' i'"
  "get_pads (call_on_insn b i insn h) q = get_pads h q"
  by (simp_all add: call_on_insn_def the_sm_def get_pads_def split: option.split pads_ptr.split)

lemma cycle_frame_on_insn [frame]: "cycle_frame b i h (call_on_insn b i insn h)"
  by (simp add: cycle_frame_def)

lemma cycle_frame_cycle [frame]: "cycle_frame b i h (sm_cycle v b i h)"
proof -
  note step = cycle_frame_trans [OF _ cycle_frame_upd_sm]
  have one: "cycle_frame b i h (fst (exec_one v b i insn h))" for insn h
    by (rule cycle_frame_exec [OF exec_frame_one])
  show ?thesis
    unfolding sm_cycle_def Let_def split_beta
    by (auto intro!: step cycle_frame_trans [OF _ cycle_frame_on_insn] cycle_frame_trans [OF _ one]
        cycle_frame_trans [OF _ cycle_frame_unwritten] split: if_splits)
qed

lemma cycle_frame_tick_sm [frame]: "cycle_frame b i h (tick_sm v b i h)"
  unfolding tick_sm_def Let_def
  by (auto intro!: cycle_frame_trans [OF _ cycle_frame_upd_sm] cycle_frame_trans [OF _ cycle_frame_cycle])

section \<open>Invariants across a tick\<close>

lemma u8_pc_succ: "word_of_nat (n mod 32) < (32 :: u8)"
  by (simp add: word_less_nat_alt unat_word_of_nat_mod)

lemma u8_pred_less: "0 < (n :: u8) \<Longrightarrow> n < 32 \<Longrightarrow> n - 1 < 32"
  using unat_pred_pos [of n] by (simp add: word_less_nat_alt unat_gt_0)

context sm_step_invariant
begin

lemma commit_injected:
  "P s \<Longrightarrow> (\<And>a. pc = Some a \<Longrightarrow> a < 32) \<Longrightarrow> d < 32 \<Longrightarrow> P (commit_injected pc d s)"
  using delay [OF pc [OF pending]] wf [of s]
  by (auto simp: commit_injected_def sm_wf_def split: option.split)

lemma commit_fetched:
  "P s \<Longrightarrow> (\<And>a. pc = Some a \<Longrightarrow> a < 32) \<Longrightarrow> d < 32 \<Longrightarrow> P (commit_fetched pc d s)"
  using wf [of s] u8_pc_succ [of "unat (sm_pc s) + 1"]
  by (auto simp: commit_fetched_def sm_wf_def simp del: of_nat_add split: option.split intro!: delay pc)

lemma autopull: "P s \<Longrightarrow> P (autopull_refill s)"
  by (simp add: autopull_refill_def refill)

lemma the_sm_upd_unwritten [simp]:
  "the_sm (upd_blk b' (\<lambda>p. p\<lparr>pio_unwritten_fetches := g p\<rparr>) h) b i = the_sm h b i"
  by (simp add: the_sm_def upd_blk_def)

lemma cycle: "P (the_sm h b i) \<Longrightarrow> P (the_sm (sm_cycle v b i h) b i)"
proof -
  assume P: "P (the_sm h b i)"
  let ?h = "upd_sm b i autopull_refill h"
  have P1: "P (the_sm ?h b i)" using P by (simp add: autopull)
  show ?thesis
  proof (cases "0 < sm_delay (the_sm ?h b i)")
    case True
    then have "sm_delay (the_sm ?h b i) - 1 < 32"
      using wf [OF P1] by (intro u8_pred_less) (simp_all add: sm_wf_def)
    with True P1 show ?thesis by (simp add: sm_cycle_def Let_def delay)
  next
    case False
    have one: "P (the_sm (fst (exec_one v b i insn h')) b i)" if "the_sm h' b i = the_sm ?h b i" for insn h'
      using exec_one [of h' b i v insn] P1 that by simp
    show ?thesis
      using False unfolding sm_cycle_def Let_def split_beta
      by (auto intro!: stalled commit_injected commit_fetched one exec_one_delay dest: exec_one_pc
          split: if_splits)
  qed
qed

end

context sm_invariant
begin

lemma divider: "P s \<Longrightarrow> P (fst (clk_divider_step s))"
  by (simp add: clk_divider_step_def Let_def accum)

lemma tick_sm_self: "P (the_sm h b i) \<Longrightarrow> P (the_sm (tick_sm v b i h) b i)"
  using cycle [of "upd_sm b i (\<lambda>s. fst (clk_divider_step s)) h" b i v]
  by (simp add: tick_sm_def Let_def divider wrote)

lemma tick_sm_other: "(b', i') \<noteq> (b, i) \<Longrightarrow> the_sm (tick_sm v b i h) b' i' = the_sm h b' i'"
  using cycle_frame_tick_sm [of b i h v] by (simp add: cycle_frame_def)

lemma tick_sms: "P (the_sm h b j) \<Longrightarrow> P (the_sm (fold (tick_sm v b) is h) b j)"
proof (induction "is" arbitrary: h)
  case Nil
  then show ?case by simp
next
  case (Cons i "is")
  have "P (the_sm (tick_sm v b i h) b j)"
    using Cons.prems tick_sm_self [of h b i v] tick_sm_other [of b j b i v h] by (cases "j = i") auto
  then show ?case using Cons.IH by simp
qed

lemma write_window: "P (the_sm h b j) \<Longrightarrow> P (the_sm (open_write_window b h) b j)"
proof -
  have "P (the_sm (fold (\<lambda>i. upd_sm b i (\<lambda>s. s\<lparr>sm_wrote_this_cycle := 0\<rparr>)) is h) b j)"
    if "P (the_sm h b j)" for "is" h
    using that
  proof (induction "is" arbitrary: h)
    case (Cons i "is")
    have "P (the_sm (upd_sm b i (\<lambda>s. s\<lparr>sm_wrote_this_cycle := 0\<rparr>) h) b j)"
      using Cons.prems wrote [of "the_sm h b i" 0] by (cases "j = i") simp_all
    then show ?case using Cons.IH by simp
  qed simp
  then show "P (the_sm h b j) \<Longrightarrow> P (the_sm (open_write_window b h) b j)"
    by (simp add: open_write_window_def)
qed

lemma the_sm_upd_cycle [simp]:
  "the_sm (upd_blk b' (\<lambda>p. p\<lparr>pio_cycle := g p\<rparr>) h) b i = the_sm h b i"
  by (simp add: the_sm_def upd_blk_def)

text \<open>A tick keeps the predicate for each state machine of the block, if the device hook does.\<close>

lemma tick:
  assumes "P (the_sm h b j)"
    and "\<And>f ctx h. P (the_sm h b j) \<Longrightarrow> P (the_sm (dev f b ctx h) b j)"
  shows "P (the_sm (pio_sim_tick v dev b h) b j)"
  using assms tick_sms [OF write_window [OF assms(1)]]
  by (simp add: pio_sim_tick_def Let_def call_on_tick_def split: option.split)

lemma run:
  assumes "P (the_sm h b j)"
    and "\<And>f ctx h. P (the_sm h b j) \<Longrightarrow> P (the_sm (dev f b ctx h) b j)"
  shows "P (the_sm (pio_sim_run v dev b n h) b j)"
proof -
  have "P (the_sm ((pio_sim_tick v dev b ^^ k) h) b j)" for k
    by (induction k) (auto intro!: assms tick)
  then show ?thesis by (simp add: pio_sim_run_def)
qed

lemma sm_exec: "P (the_sm h b i) \<Longrightarrow> i = SM_IDX sm \<Longrightarrow> P (the_sm (pio_sim_sm_exec v b sm insn h) b i)"
  using exec_one [of "upd_sm b i (\<lambda>s. s\<lparr>sm_stalled := False\<rparr>) h" b i v insn]
    exec_one_pc [of v b i insn "upd_sm b i (\<lambda>s. s\<lparr>sm_stalled := False\<rparr>) h"]
  by (auto simp: pio_sim_sm_exec_def Let_def split_beta stalled pc exec split: option.split)

end

section \<open>Bounded run loops\<close>

lemma run_while_eq:
  "run_while go step n h =
     (let t = (LEAST t. t = n \<or> \<not> go ((step ^^ t) h)) in ((step ^^ t) h, t))"
proof (induction n arbitrary: h)
  case 0
  have "(LEAST t. t = 0 \<or> \<not> go ((step ^^ t) h)) = 0" by (rule Least_eq_0) simp
  then show ?case by simp
next
  case (Suc n)
  show ?case
  proof (cases "go h")
    case False
    then have "(LEAST t. t = Suc n \<or> \<not> go ((step ^^ t) h)) = 0" by (intro Least_eq_0) simp
    then show ?thesis using False by simp
  next
    case True
    have "(LEAST t. t = Suc n \<or> \<not> go ((step ^^ t) h)) =
        Suc (LEAST t. Suc t = Suc n \<or> \<not> go ((step ^^ Suc t) h))"
      using True by (intro Least_Suc [of _ "Suc n"]) simp_all
    then show ?thesis using True Suc.IH [of "step h"] by (simp add: funpow_swap1 Let_def)
  qed
qed

text \<open>The loop runs at most \<open>n\<close> ticks and stops early exactly when its condition fails.\<close>

lemma run_while_stops:
  assumes "run_while go step n h = (h', t)"
  shows "t \<le> n" "h' = (step ^^ t) h" "t < n \<Longrightarrow> \<not> go h'" "\<And>k. k < t \<Longrightarrow> go ((step ^^ k) h)"
proof -
  let ?Q = "\<lambda>t. t = n \<or> \<not> go ((step ^^ t) h)"
  have t: "t = (LEAST t. ?Q t)" and h': "h' = (step ^^ t) h"
    using assms by (auto simp: run_while_eq Let_def)
  have "?Q t" unfolding t by (rule LeastI [of ?Q n]) simp
  then show "t < n \<Longrightarrow> \<not> go h'" by (simp add: h')
  show "t \<le> n" unfolding t by (rule Least_le) simp
  then show "go ((step ^^ k) h)" if "k < t" for k
    using that not_less_Least [of k ?Q] by (auto simp: t)
  show "h' = (step ^^ t) h" by (rule h')
qed

lemma run_while_stopped: "\<not> go h \<Longrightarrow> run_while go step n h = (h, 0)"
  by (cases n) simp_all

section \<open>Clock dividers\<close>

text \<open>
  An accumulator that gains \<open>inc\<close> per step and fires, losing \<open>unit\<close>, when it reaches \<open>unit\<close>.
\<close>

locale rate_divider =
  fixes step :: "'s \<Rightarrow> 's"
    and fires :: "'s \<Rightarrow> bool"
    and acc :: "'s \<Rightarrow> nat"
    and ok :: "'s \<Rightarrow> bool"
    and inc unit :: nat
  assumes ok_step: "ok s \<Longrightarrow> ok (step s)"
    and acc_less: "ok s \<Longrightarrow> acc s < unit"
    and inc_le: "ok s \<Longrightarrow> inc \<le> unit"
    and fires_iff: "ok s \<Longrightarrow> fires s \<longleftrightarrow> unit \<le> acc s + inc"
    and acc_step: "ok s \<Longrightarrow> acc (step s) = (if fires s then acc s + inc - unit else acc s + inc)"
begin

lemma ok_steps: "ok s \<Longrightarrow> ok ((step ^^ n) s)"
  by (induction n) (simp_all add: ok_step)

lemma balance:
  "ok s \<Longrightarrow> acc ((step ^^ n) s) + unit * card {k. k < n \<and> fires ((step ^^ k) s)} = acc s + n * inc"
proof (induction n)
  case 0
  then show ?case by simp
next
  case (Suc n)
  let ?s = "(step ^^ n) s"
  have ok: "ok ?s" using Suc.prems by (rule ok_steps)
  have "{k. k < Suc n \<and> fires ((step ^^ k) s)} =
      (if fires ?s then insert n {k. k < n \<and> fires ((step ^^ k) s)}
       else {k. k < n \<and> fires ((step ^^ k) s)})"
    by (auto simp: less_Suc_eq)
  then have "card {k. k < Suc n \<and> fires ((step ^^ k) s)} =
      card {k. k < n \<and> fires ((step ^^ k) s)} + (if fires ?s then 1 else 0)"
    by simp
  then show ?case
    using Suc.IH [OF Suc.prems] acc_step [OF ok] fires_iff [OF ok] by (auto simp: algebra_simps)
qed

text \<open>The exact rate: after \<open>n\<close> steps it has fired the integer part of \<open>(acc + n * inc) / unit\<close> times.\<close>

lemma fire_count:
  assumes "ok s"
  shows "card {k. k < n \<and> fires ((step ^^ k) s)} = (acc s + n * inc) div unit"
    and "acc ((step ^^ n) s) = (acc s + n * inc) mod unit"
proof -
  have *: "acc ((step ^^ n) s) < unit" by (rule acc_less [OF ok_steps [OF assms]])
  show "card {k. k < n \<and> fires ((step ^^ k) s)} = (acc s + n * inc) div unit"
    using * by (simp flip: balance [OF assms, of n])
  show "acc ((step ^^ n) s) = (acc s + n * inc) mod unit"
    using * by (simp flip: balance [OF assms, of n])
qed

end

lemma unat_div_units:
  "unat (div_units s) =
     256 * (if sm_clkdiv_int s = 0 then 65536 else unat (sm_clkdiv_int s)) + unat (sm_clkdiv_frac s)"
proof -
  let ?d = "if sm_clkdiv_int s = 0 then 65536 else ucast (sm_clkdiv_int s) :: u32"
  let ?f = "ucast (sm_clkdiv_frac s) :: u32"
  have d: "unat ?d = (if sm_clkdiv_int s = 0 then 65536 else unat (sm_clkdiv_int s))"
    by (simp add: unsigned_ucast_eq take_bit_nat_eq_self [OF order_less_le_trans [OF unsigned_less]])
  have le: "unat ?d \<le> 65536"
    unfolding d using unsigned_less [where 'a = nat, of "sm_clkdiv_int s"] by simp
  have f: "unat ?f = unat (sm_clkdiv_frac s)" "unat ?f < 256"
    using unsigned_less [where 'a = nat, of "sm_clkdiv_frac s"]
    by (simp_all add: unsigned_ucast_eq take_bit_nat_eq_self)
  have "push_bit 8 ?d AND ?f = 0"
    by (rule bit_word_eqI) (auto simp: bit_simps dest: word_bit_lt)
  then have "div_units s = push_bit 8 ?d + ?f"
    unfolding div_units_def Let_def by (simp only: disjunctive_add_eq_or)
  also have "push_bit 8 ?d = of_nat (256 * unat ?d)"
    by (simp add: push_bit_eq_mult)
  also have "of_nat (256 * unat ?d) + ?f = of_nat (256 * unat ?d + unat ?f)" by simp
  finally have "unat (div_units s) = 256 * unat ?d + unat ?f"
    using le f(2) by (simp only: unsigned_of_nat take_bit_nat_eq_self)
      (simp add: take_bit_nat_eq_self)
  then show ?thesis by (simp only: d f)
qed

definition divider_ok :: "nat \<Rightarrow> pio_sm_t \<Rightarrow> bool" where
  "divider_ok u s \<longleftrightarrow> unat (div_units s) = u \<and> sm_clk_accum s < div_units s"

lemma div_units_bounds: "256 \<le> unat (div_units s)" "unat (div_units s) < 2 ^ 25"
  using unsigned_less [where 'a = nat, of "sm_clkdiv_frac s"]
    unsigned_less [where 'a = nat, of "sm_clkdiv_int s"]
    unat_gt_0 [of "sm_clkdiv_int s"]
  by (auto simp: unat_div_units simp del: unat_gt_0)

lemma clk_accum_add:
  assumes "sm_clk_accum s < div_units s"
  shows "unat (sm_clk_accum s + 256) = unat (sm_clk_accum s) + 256"
  using assms div_units_bounds(2) [of s] by (simp add: word_less_nat_alt unat_word_ariths)

lemma div_units_accum [simp]: "div_units (s\<lparr>sm_clk_accum := a\<rparr>) = div_units s"
  by (simp add: div_units_def)

interpretation clk: rate_divider "\<lambda>s. fst (clk_divider_step s)" "\<lambda>s. snd (clk_divider_step s)"
  "\<lambda>s. unat (sm_clk_accum s)" "divider_ok u" 256 u for u
proof
  fix s assume ok: "divider_ok u s"
  then have acc: "unat (sm_clk_accum s + 256) = unat (sm_clk_accum s) + 256"
    by (simp add: divider_ok_def clk_accum_add)
  have u: "unat (div_units s) = u" "256 \<le> u"
    using ok div_units_bounds(1) [of s] by (auto simp: divider_ok_def)
  show "unat (sm_clk_accum s) < u" using ok by (simp add: divider_ok_def word_less_nat_alt)
  then have less: "unat (sm_clk_accum s) + 256 - u < u" using u(2) by linarith
  show "256 \<le> u" by (rule u(2))
  show fires: "snd (clk_divider_step s) \<longleftrightarrow> u \<le> unat (sm_clk_accum s) + 256"
    by (simp add: clk_divider_step_def Let_def word_le_nat_alt acc u)
  have sub: "unat (sm_clk_accum s + 256 - div_units s) = unat (sm_clk_accum s) + 256 - u"
    if "div_units s \<le> sm_clk_accum s + 256"
    using that by (simp add: unat_sub acc u)
  show "unat (sm_clk_accum (fst (clk_divider_step s))) =
      (if snd (clk_divider_step s) then unat (sm_clk_accum s) + 256 - u
       else unat (sm_clk_accum s) + 256)"
    using sub acc by (simp add: clk_divider_step_def Let_def)
  show "divider_ok u (fst (clk_divider_step s))"
    using u sub less acc
    by (auto simp: divider_ok_def clk_divider_step_def Let_def word_less_nat_alt word_le_nat_alt)
qed

end
