(* ===== verification/Pio_Insn.thy ===== *)
theory Pio_Insn
  imports Pio_Invariant
begin

text \<open>
  What the instructions promise their programs: a stalled instruction can be retried, shifting
  loses no bits, PUSH, PULL and autopush move whole words through the FIFOs in order, and IRQ flags
  work as handshakes between state machines.
\<close>

section \<open>Stalls\<close>

definition stall_neutral :: "nat \<Rightarrow> nat \<Rightarrow> pio_store \<Rightarrow> exec_result \<Rightarrow> bool" where
  "stall_neutral b i h r \<longleftrightarrow> (fst (snd r) \<longrightarrow>
     snd (snd r) = None \<and> (\<forall>q. get_pads (fst r) q = get_pads h q) \<and>
     (\<exists>d. the_sm (fst r) b i = (the_sm h b i)\<lparr>sm_fdebug := d\<rparr>))"

lemma fdebug_same: "\<exists>d. s = s\<lparr>sm_fdebug := d\<rparr>" for s :: pio_sm_t
  by (rule exI [of _ "sm_fdebug s"]) simp

lemma stall_neutral_same: "(\<forall>b' i'. the_sm h' b' i' = the_sm h b' i') \<Longrightarrow>
   (\<forall>q. get_pads h' q = get_pads h q) \<Longrightarrow> stall_neutral b i h (h', st, None)"
  by (simp add: stall_neutral_def fdebug_same)

lemma stall_neutral_fdebug:
  "stall_neutral b i h (upd_sm b i (\<lambda>s. s\<lparr>sm_fdebug := f s\<rparr>) h, st, None)"
  by (auto simp: stall_neutral_def)

lemma stall_neutral_go: "stall_neutral b i h (h', False, pc)"
  by (simp add: stall_neutral_def)

lemma the_sm_upd_irq_flags: "the_sm (upd_blk b' (\<lambda>p. p\<lparr>pio_irq := g p\<rparr>) h) b i = the_sm h b i"
  by (simp add: the_sm_def upd_blk_def)

lemma stall_neutral_wait: "stall_neutral b i h (exec_wait v b i operand h)"
  unfolding exec_wait_def Let_def irq_clear_upd
  by (simp add: stall_neutral_same the_sm_upd_irq_flags get_pads_upd_irq split: option.split)

lemma stall_neutral_irq: "stall_neutral b i h (exec_irq v b i operand h)"
  unfolding exec_irq_def Let_def irq_clear_upd
  by (simp add: stall_neutral_same the_sm_upd_irq_flags get_pads_upd_irq split: option.split)

lemma stall_neutral_in: "stall_neutral b i h (exec_in v b i operand h)"
  unfolding exec_in_def Let_def by (simp add: stall_neutral_fdebug stall_neutral_go)

lemma stall_neutral_out: "stall_neutral b i h (exec_out v b i operand h)"
  unfolding exec_out_def Let_def split_beta by (simp add: stall_neutral_fdebug stall_neutral_go)

lemma if_stall:
  "snd (if A then (s, False) else if B then if k then (t, True) else (t', False) else (t'', False)) \<Longrightarrow>
   fst (if A then (s, False) else if B then if k then (t, True) else (t', False) else (t'', False)) = t"
  by (auto split: if_splits)

lemma push_insn_stall:
  "snd (push_insn v c k s) \<Longrightarrow> fst (push_insn v c k s) = s\<lparr>sm_fdebug := sm_fdebug s OR 8\<rparr>"
  unfolding push_insn_def Let_def by (rule if_stall)

lemma pull_insn_stall:
  "snd (pull_insn c k s) \<Longrightarrow> fst (pull_insn c k s) = s\<lparr>sm_fdebug := sm_fdebug s OR 1\<rparr>"
proof (cases "c \<and> sm_osr_count s < sm_pull_thresh s")
  case True
  then show "snd (pull_insn c k s) \<Longrightarrow> ?thesis" by (simp add: pull_insn_def)
next
  case False
  then show "snd (pull_insn c k s) \<Longrightarrow> ?thesis"
    unfolding pull_insn_def Let_def by (simp only: if_False) (rule if_stall)
qed

lemma stall_neutral_upd:
  assumes "\<And>s. snd (f s) \<Longrightarrow> fst (f s) = s\<lparr>sm_fdebug := d s\<rparr>"
  shows "stall_neutral b i h (upd_sm b i (\<lambda>s. fst (f s)) h, snd (f (the_sm h b i)), None)"
  using assms [of "the_sm h b i"] by (auto simp: stall_neutral_def)

lemma stall_neutral_pushpull: "stall_neutral b i h (exec_pushpull v b i operand h)"
proof (cases "drop_bit 7 operand AND 1 \<noteq> 0")
  case True
  show ?thesis
    unfolding exec_pushpull_def Let_def if_P [OF True]
    by (rule stall_neutral_upd) (rule pull_insn_stall)
next
  case False
  show ?thesis
    unfolding exec_pushpull_def Let_def if_not_P [OF False]
    by (rule stall_neutral_upd) (rule push_insn_stall)
qed

lemma stall_neutral_op: "stall_neutral b i h (exec_op v b i opc operand h)"
  by (simp add: exec_op_def exec_jmp_def Let_def split_beta stall_neutral_go stall_neutral_wait
      stall_neutral_irq stall_neutral_in stall_neutral_out stall_neutral_pushpull)

lemma apply_sideset_regs:
  "the_sm (apply_sideset v b i ds h) b i = (let s' = the_sm (apply_sideset v b i ds h) b i in
     (the_sm h b i)\<lparr>sm_out_pin_val := sm_out_pin_val s', sm_wrote_this_cycle := sm_wrote_this_cycle s',
       sm_out_pin_oe := sm_out_pin_oe s', sm_dir_driven := sm_dir_driven s'\<rparr>)"
proof -
  let ?s = "the_sm h b i"
  have "the_sm (drive_pins v b i base count val h) b i = (let s' = the_sm (drive_pins v b i base count val h) b i in
      ?s\<lparr>sm_out_pin_val := sm_out_pin_val s', sm_wrote_this_cycle := sm_wrote_this_cycle s',
        sm_out_pin_oe := sm_out_pin_oe s', sm_dir_driven := sm_dir_driven s'\<rparr>)" for base count val
    using drive_pins_regs(1) [of v b i base count val h]
    by (cases ?s; cases "the_sm (drive_pins v b i base count val h) b i") (simp add: Let_def)
  moreover have "the_sm (drive_pindirs v b i base count val h) b i = (let s' = the_sm (drive_pindirs v b i base count val h) b i in
      ?s\<lparr>sm_out_pin_val := sm_out_pin_val s', sm_wrote_this_cycle := sm_wrote_this_cycle s',
        sm_out_pin_oe := sm_out_pin_oe s', sm_dir_driven := sm_dir_driven s'\<rparr>)" for base count val
    using drive_pindirs_regs(1) [of v b i base count val h]
    by (cases ?s; cases "the_sm (drive_pindirs v b i base count val h) b i") (simp add: Let_def)
  moreover have "?s = ?s\<lparr>sm_out_pin_val := sm_out_pin_val ?s, sm_wrote_this_cycle := sm_wrote_this_cycle ?s,
      sm_out_pin_oe := sm_out_pin_oe ?s, sm_dir_driven := sm_dir_driven ?s\<rparr>"
    by simp
  ultimately show ?thesis
    by (cases "ds_side_en ds \<and> 0 < ds_ss_data_bits ds"; cases "sm_sideset_pindirs ?s")
      (simp_all only: apply_sideset_def Let_def if_True if_False simp_thms)
qed

lemma exec_one_stalled:
  assumes "exec_one v b i insn h = (h', False, pc, d)"
  obtains h1 x where "h' = apply_sideset v b i (decode_delay_sideset (the_sm h b i) (ucast (drop_bit 8 insn AND 0x1F))) h1"
    "the_sm h1 b i = (the_sm h b i)\<lparr>sm_fdebug := x\<rparr>" "\<And>q. get_pads h1 q = get_pads h q" "pc = None" "d = 0"
proof -
  obtain h1 st pc1 where e: "exec_op v b i (ucast (drop_bit 13 insn)) (ucast (insn AND 0xFF)) h = (h1, st, pc1)"
    by (rule prod_cases3)
  have st: "st" using assms by (simp add: exec_one_def e Let_def split: if_splits)
  then obtain x where "the_sm h1 b i = (the_sm h b i)\<lparr>sm_fdebug := x\<rparr>" "\<And>q. get_pads h1 q = get_pads h q" "pc1 = None"
    using stall_neutral_op [of b i h v "ucast (drop_bit 13 insn)" "ucast (insn AND 0xFF)"]
    by (auto simp: e stall_neutral_def)
  with assms st show thesis by (intro that [of h1 x]) (simp_all add: exec_one_def e Let_def)
qed

text \<open>
  C1: A stalled instruction can be retried.  When \<open>exec_one\<close> reports that an instruction stalled, the
  instruction itself has left no trace on its state machine but a sticky FDEBUG flag, has not touched any
  pad set, sets no program counter and asks for no delay, so that a retry cannot shift, push or pull
  anything twice.  Its side-set, if it has one, is applied on the stalled cycle all the same: of the
  registers it may change only the levels and directions the machine drives, with their marks of this cycle.
\<close>

theorem stalled_insn_has_no_effect:
  assumes "exec_one v b i insn h = (h', False, pc, d)"
  shows "let s = the_sm h b i; ds = decode_delay_sideset s (ucast (drop_bit 8 insn AND 0x1F)) in
    pc = None \<and> d = 0 \<and>
    (\<exists>h1 x. h' = apply_sideset v b i ds h1 \<and> the_sm h1 b i = s\<lparr>sm_fdebug := x\<rparr> \<and>
       (\<forall>q. get_pads h1 q = get_pads h q)) \<and>
    (\<exists>x lv wr oe dr. the_sm h' b i = s\<lparr>sm_fdebug := x, sm_out_pin_val := lv, sm_wrote_this_cycle := wr,
       sm_out_pin_oe := oe, sm_dir_driven := dr\<rparr>) \<and>
    (\<not> (ds_side_en ds \<and> 0 < ds_ss_data_bits ds) \<longrightarrow>
       (\<forall>q. get_pads h' q = get_pads h q) \<and> (\<exists>x. the_sm h' b i = s\<lparr>sm_fdebug := x\<rparr>))"
proof -
  define ds where "ds = decode_delay_sideset (the_sm h b i) (ucast (drop_bit 8 insn AND 0x1F))"
  obtain h1 x where h1: "h' = apply_sideset v b i ds h1" "the_sm h1 b i = (the_sm h b i)\<lparr>sm_fdebug := x\<rparr>"
    "\<And>q. get_pads h1 q = get_pads h q" "pc = None" "d = 0"
    using exec_one_stalled [OF assms] unfolding ds_def by blast
  have ex: "\<exists>h1 x. h' = apply_sideset v b i ds h1 \<and> the_sm h1 b i = (the_sm h b i)\<lparr>sm_fdebug := x\<rparr> \<and>
      (\<forall>q. get_pads h1 q = get_pads h q)"
    using h1(1-3) by blast
  have regs: "\<exists>x lv wr oe dr. the_sm h' b i = (the_sm h b i)\<lparr>sm_fdebug := x, sm_out_pin_val := lv, sm_wrote_this_cycle := wr,
      sm_out_pin_oe := oe, sm_dir_driven := dr\<rparr>"
    using apply_sideset_regs [of v b i ds h1] unfolding h1(1,2) Let_def by blast
  have plain: "\<not> (ds_side_en ds \<and> 0 < ds_ss_data_bits ds) \<longrightarrow>
     (\<forall>q. get_pads h' q = get_pads h q) \<and> (\<exists>x. the_sm h' b i = (the_sm h b i)\<lparr>sm_fdebug := x\<rparr>)"
  proof
    assume "\<not> (ds_side_en ds \<and> 0 < ds_ss_data_bits ds)"
    then have "h' = h1" by (simp only: h1(1) apply_sideset_def Let_def if_False)
    with h1(2,3) show "(\<forall>q. get_pads h' q = get_pads h q) \<and> (\<exists>x. the_sm h' b i = (the_sm h b i)\<lparr>sm_fdebug := x\<rparr>)"
      by blast
  qed
  show ?thesis
    unfolding Let_def ds_def [symmetric] by (intro conjI h1(4,5) ex regs plain)
qed

text \<open>On an empty FIFO \<open>pull block side 1\<close> stalls and drives its side-set pin on every retry.\<close>

theorem stalled_insn_has_no_effect_witness:
  "let h = upd_sm 0 0 (\<lambda>s. s\<lparr>sm_sideset_total_bits := 1\<rparr>) (pio_sim_init RP2040 0 store_zero);
       r = exec_one RP2040 0 0 0x90A0 h
   in \<not> fst (snd r) \<and> snd (snd r) = (None, 0) \<and> sm_wrote_this_cycle (the_sm (fst r) 0 0) \<noteq> 0 \<and>
      sm_osr (the_sm (fst r) 0 0) = sm_osr (the_sm h 0 0) \<and> sm_tx (the_sm (fst r) 0 0) = sm_tx (the_sm h 0 0)"
proof -
  let ?h = "upd_sm 0 0 (\<lambda>s. s\<lparr>sm_sideset_total_bits := 1\<rparr>) (pio_sim_init RP2040 0 store_zero)"
  let ?r = "exec_one RP2040 0 0 0x90A0 ?h"
  have ds: "decode_delay_sideset (the_sm ?h 0 0) 0x10 = \<lparr>ds_delay = 0, ds_side_val = 1, ds_side_en = True, ds_ss_data_bits = 1\<rparr>"
    by (simp add: decode_delay_sideset_def init_sm sm_init_defaults_def sm_reset_exec_def sm_zero_def Let_def sideset_total_def mask_n_def)
  have "\<not> fst (snd ?r)"
    by (simp add: exec_one_def exec_op_def exec_pushpull_def Let_def init_sm pull_insn_def sm_init_defaults_def
        sm_reset_exec_def sm_zero_def fifo_clear_def split_beta)
  then obtain h' pc d where e: "?r = (h', False, pc, d)" by (cases ?r) simp
  note all = stalled_insn_has_no_effect [OF e, unfolded Let_def]
  obtain h1 x where h1: "h' = apply_sideset RP2040 0 0 (decode_delay_sideset (the_sm ?h 0 0) 0x10) h1"
    "the_sm h1 0 0 = (the_sm ?h 0 0)\<lparr>sm_fdebug := x\<rparr>"
    using all by auto
  have "h' = drive_pins RP2040 0 0 (sm_sideset_base (the_sm h1 0 0)) 1 1 h1"
    unfolding h1(1) ds apply_sideset_def Let_def
    by (simp add: h1(2) init_sm sm_init_defaults_def sm_reset_exec_def sm_zero_def)
  then have "bit (sm_wrote_this_cycle (the_sm h' 0 0)) (span_pin RP2040 (st_blk h1 0) (sm_sideset_base (the_sm h1 0 0)) 0)"
    by (simp only: drive_pins_regs(4)) (simp add: clamp_pin_count_def)
  then have "sm_wrote_this_cycle (the_sm h' 0 0) \<noteq> 0" by (auto simp del: One_nat_def)
  moreover have "pc = None" "d = 0" "sm_osr (the_sm h' 0 0) = sm_osr (the_sm ?h 0 0)" "sm_tx (the_sm h' 0 0) = sm_tx (the_sm ?h 0 0)"
    using all by auto
  ultimately show ?thesis unfolding Let_def e by simp
qed

section \<open>Shifting\<close>

text \<open>A client of the shift registers: \<open>out x, c\<close> followed by \<open>in x, c\<close>.\<close>

definition out_in :: "pio_version \<Rightarrow> nat \<Rightarrow> nat \<Rightarrow> u8 \<Rightarrow> pio_store \<Rightarrow> pio_store" where
  "out_in v b i w h = fst (exec_in v b i w (fst (exec_out v b i w h)))"

lemma osr_shift_out_fields [simp]:
  "sm_out_dir (osr_shift_out c s) = sm_out_dir s" "sm_in_dir (osr_shift_out c s) = sm_in_dir s"
  "sm_autopull (osr_shift_out c s) = sm_autopull s" "sm_autopush (osr_shift_out c s) = sm_autopush s"
  "sm_isr (osr_shift_out c s) = sm_isr s"
  by (simp_all add: osr_shift_out_def Let_def)

lemma isr_shift_in_fields [simp]:
  "\<not> sm_autopush s \<Longrightarrow> sm_out_dir (isr_shift_in c w s) = sm_out_dir s"
  "\<not> sm_autopush s \<Longrightarrow> sm_in_dir (isr_shift_in c w s) = sm_in_dir s"
  "\<not> sm_autopush s \<Longrightarrow> sm_autopull (isr_shift_in c w s) = sm_autopull s"
  "\<not> sm_autopush s \<Longrightarrow> sm_autopush (isr_shift_in c w s) = sm_autopush s"
  "\<not> sm_autopush s \<Longrightarrow> sm_osr (isr_shift_in c w s) = sm_osr s"
  "\<not> sm_autopush s \<Longrightarrow> sm_isr (isr_shift_in c w s) = isr_shifted c w s"
  by (simp_all add: isr_shift_in_def Let_def)

lemma osr_shift_val_masked: "osr_shift_val (operand_count w) s AND mask_n (operand_count w) =
   osr_shift_val (operand_count w) s"
  using operand_count_bounds(2) [of w]
  by (intro bit_word_eqI) (auto simp: bit_and_iff bit_mask_n osr_shift_val_bit)

lemma out_in_sm:
  assumes "drop_bit 5 w AND 7 = 1" "\<not> sm_autopull (the_sm h b i)" "\<not> sm_autopush (the_sm h b i)"
  shows "the_sm (out_in v b i w h) b i =
    (let s = the_sm h b i; c = operand_count w; x = osr_shift_val c s
     in isr_shift_in c x ((osr_shift_out c s)\<lparr>sm_x := x\<rparr>))"
  using assms
  by (simp add: out_in_def exec_out_def exec_in_def out_store_def read_source_def Let_def split_beta
      osr_shift_val_masked)

text \<open>The two shift registers as one of 64 bits: the pair of instructions shifts it by the count.\<close>

definition shift_pair :: "pio_sm_t \<Rightarrow> u64" where
  "shift_pair s = (case sm_out_dir s of
       PIO_SHIFT_RIGHT \<Rightarrow> ucast (sm_isr s) OR push_bit 32 (ucast (sm_osr s))
     | PIO_SHIFT_LEFT \<Rightarrow> ucast (sm_osr s) OR push_bit 32 (ucast (sm_isr s)))"

lemma bit_shift_pair:
  "bit (shift_pair s) k = (case sm_out_dir s of
       PIO_SHIFT_RIGHT \<Rightarrow> if k < 32 then bit (sm_isr s) k else bit (sm_osr s) (k - 32)
     | PIO_SHIFT_LEFT \<Rightarrow> if k < 32 then bit (sm_osr s) k else bit (sm_isr s) (k - 32))"
  by (auto simp: shift_pair_def bit_simps split: pio_shift_dir_t.split dest: word_bit_lt)

lemma shift_pair_step:
  fixes c :: u8 and s :: pio_sm_t
  defines "t \<equiv> isr_shift_in c (osr_shift_val c s) ((osr_shift_out c s)\<lparr>sm_x := osr_shift_val c s\<rparr>)"
  assumes "0 < c" "c \<le> 32" "\<not> sm_autopush s" "sm_in_dir s = sm_out_dir s"
  shows "shift_pair t = (case sm_out_dir s of PIO_SHIFT_RIGHT \<Rightarrow> drop_bit (unat c) (shift_pair s)
    | PIO_SHIFT_LEFT \<Rightarrow> push_bit (unat c) (shift_pair s))"
proof -
  have c: "0 < unat c" "unat c \<le> 32" using assms(2,3) by (simp_all add: word_le_nat_alt word_less_nat_alt)
  have x: "bit (osr_shift_val c s) k \<Longrightarrow> k < unat c" for k by (simp add: osr_shift_val_bit assms(3))
  have dir: "sm_out_dir t = sm_out_dir s" and osr: "sm_osr t = sm_osr (osr_shift_out c s)" using assms(4) by (simp_all add: t_def)
  have isr: "bit (sm_isr t) k = (case sm_out_dir s of
      PIO_SHIFT_RIGHT \<Rightarrow> (if k < 32 - unat c then bit (sm_isr s) (k + unat c) else k < 32 \<and> bit (osr_shift_val c s) (k - (32 - unat c)))
    | PIO_SHIFT_LEFT \<Rightarrow> (if k < unat c then bit (osr_shift_val c s) k else k < 32 \<and> bit (sm_isr s) (k - unat c)))" for k
    using isr_shifted_bit [OF assms(2,3) x, of "osr_shift_val c s" "(osr_shift_out c s)\<lparr>sm_x := osr_shift_val c s\<rparr>" k] assms(4,5)
    by (cases "sm_out_dir s") (simp_all add: t_def)
  show ?thesis
  proof (cases "sm_out_dir s")
    case PIO_SHIFT_LEFT
    have "bit (shift_pair t) k = bit (push_bit (unat c) (shift_pair s)) k" if "k < 64" for k
      using c that assms(5) unfolding bit_shift_pair dir osr isr
      by (auto simp: PIO_SHIFT_LEFT bit_push_bit_iff bit_shift_pair osr_shift_out_bit [OF assms(3)] osr_shift_val_bit [OF assms(3)]
          diff_diff_left add.commute)
    then show ?thesis by (auto simp: PIO_SHIFT_LEFT intro!: bit_word_eqI)
  next
    case PIO_SHIFT_RIGHT
    have "bit (shift_pair t) k = bit (drop_bit (unat c) (shift_pair s)) k" if "k < 64" for k
      using c that assms(5) unfolding bit_shift_pair dir osr isr
      by (auto simp: PIO_SHIFT_RIGHT bit_drop_bit_eq bit_shift_pair osr_shift_out_bit [OF assms(3)] osr_shift_val_bit [OF assms(3)]
          add.commute)
    then show ?thesis by (auto simp: PIO_SHIFT_RIGHT intro!: bit_word_eqI)
  qed
qed

lemma shift_pair_steps:
  fixes w h v b i
  defines "s j \<equiv> the_sm ((out_in v b i w ^^ j) h) b i"
  assumes "drop_bit 5 w AND 7 = 1" "\<not> sm_autopull (s 0)" "\<not> sm_autopush (s 0)" "sm_in_dir (s 0) = sm_out_dir (s 0)"
  shows "\<not> sm_autopull (s j) \<and> \<not> sm_autopush (s j) \<and>
    sm_in_dir (s j) = sm_out_dir (s 0) \<and> sm_out_dir (s j) = sm_out_dir (s 0) \<and>
    shift_pair (s j) = (case sm_out_dir (s 0) of
        PIO_SHIFT_RIGHT \<Rightarrow> drop_bit (j * unat (operand_count w)) (shift_pair (s 0))
      | PIO_SHIFT_LEFT \<Rightarrow> push_bit (j * unat (operand_count w)) (shift_pair (s 0)))"
proof (induction j)
  case 0
  show ?case using assms(3-5) by (simp split: pio_shift_dir_t.split)
next
  case (Suc j)
  let ?c = "operand_count w"
  let ?x = "osr_shift_val ?c (s j)"
  have "s (Suc j) = isr_shift_in ?c ?x ((osr_shift_out ?c (s j))\<lparr>sm_x := ?x\<rparr>)"
    using out_in_sm [OF assms(2), of "(out_in v b i w ^^ j) h" b i v] Suc by (simp add: s_def Let_def)
  then show ?case
    using shift_pair_step [OF operand_count_bounds [of w], of "s j"] Suc
    by (auto simp: ac_simps drop_bit_drop_bit split: pio_shift_dir_t.splits)
qed

text \<open>
  C12: Shifting is lossless.  Executing \<open>out x, c\<close> then \<open>in x, c\<close> as often as it takes to move 32 bits,
  with both shift registers in the same direction and no autopull or autopush, moves the OSR into
  the ISR unchanged, for either direction and every width that divides 32.
\<close>

theorem out_in_loopback:
  assumes "drop_bit 5 w AND 7 = 1" "n * unat (operand_count w) = 32"
    and "\<not> sm_autopull (the_sm h b i)" "\<not> sm_autopush (the_sm h b i)"
    and "sm_in_dir (the_sm h b i) = sm_out_dir (the_sm h b i)"
  shows "sm_isr (the_sm ((out_in v b i w ^^ n) h) b i) = sm_osr (the_sm h b i)"
proof -
  let ?s = "the_sm h b i" and ?t = "the_sm ((out_in v b i w ^^ n) h) b i"
  have "sm_out_dir ?t = sm_out_dir ?s" and
    pair: "shift_pair ?t = (case sm_out_dir ?s of PIO_SHIFT_RIGHT \<Rightarrow> drop_bit 32 (shift_pair ?s) | PIO_SHIFT_LEFT \<Rightarrow> push_bit 32 (shift_pair ?s))"
    using shift_pair_steps [where w = w and h = h and b = b and i = i and v = v and j = n] assms
    by (simp_all split: pio_shift_dir_t.splits)
  have "bit (sm_isr ?t) k = bit (sm_osr ?s) k" if "k < 32" for k
    using arg_cong [OF pair, of "\<lambda>p. bit p (if sm_out_dir ?s = PIO_SHIFT_RIGHT then k else k + 32)"] that \<open>sm_out_dir ?t = sm_out_dir ?s\<close>
    by (cases "sm_out_dir ?s") (simp_all add: bit_shift_pair bit_push_bit_iff bit_drop_bit_eq)
  then show ?thesis by (auto intro!: bit_word_eqI)
qed

theorem out_in_loopback_witness:
  "let h = upd_sm 0 2 (\<lambda>s. s\<lparr>sm_osr := 0xCAFEBABE\<rparr>) (pio_sim_init RP2350 0 store_zero) in
     sm_isr (the_sm ((out_in RP2350 0 2 0x28 ^^ 4) h) 0 2) = sm_osr (the_sm h 0 2)"
  unfolding Let_def
  by (rule out_in_loopback)
     (simp_all add: init_sm operand_count_def sm_init_defaults_def sm_reset_exec_def sm_zero_def)

section \<open>PUSH, PULL and autopush\<close>

text \<open>
  PULL.  It is a no-op under \<open>ifempty\<close> below the threshold and, with autopull, on a full OSR;
  otherwise it moves the oldest word of the TX FIFO into the OSR and resets the shift counter.  On
  an empty FIFO it raises TXSTALL and blocks, or copies X when non-blocking.
\<close>

lemma pull_takes_oldest_word:
  assumes "fifo_wf (sm_tx s)"
  shows "let (s', stalled) = pull_insn cond block s in
    if (cond \<and> sm_osr_count s < sm_pull_thresh s) \<or> (sm_autopull s \<and> sm_osr_count s = 0)
    then s' = s \<and> \<not> stalled
    else if fifo_words (sm_tx s) = []
    then stalled = block \<and>
      s' = (if block then s\<lparr>sm_fdebug := sm_fdebug s OR 1\<rparr>
            else s\<lparr>sm_fdebug := sm_fdebug s OR 1, sm_osr := sm_x s, sm_osr_count := 0\<rparr>)
    else \<not> stalled \<and> fifo_words (sm_tx s) = sm_osr s' # fifo_words (sm_tx s') \<and>
      s' = s\<lparr>sm_tx := sm_tx s', sm_osr := sm_osr s', sm_osr_count := 0\<rparr>"
proof -
  let ?nop = "(cond \<and> sm_osr_count s < sm_pull_thresh s) \<or> (sm_autopull s \<and> sm_osr_count s = 0)"
  consider (nop) ?nop | (empty) "\<not> ?nop" "f_count (sm_tx s) = 0" | (word) "\<not> ?nop" "f_count (sm_tx s) \<noteq> 0"
    by blast
  then show ?thesis
  proof cases
    case nop
    then have "pull_insn cond block s = (s, False)" by (auto simp: pull_insn_def)
    then show ?thesis using nop by simp
  next
    case empty
    then show ?thesis by (cases block) (simp_all add: pull_insn_def, blast)
  next
    case word
    then have "pull_insn cond block s = (fst (osr_refill s), False)" by (auto simp: pull_insn_def)
    then show ?thesis using word fifo_pop_words(1) [OF assms word(2)]
      by (simp add: osr_refill_eq) blast
  qed
qed

text \<open>
  PUSH.  It is a no-op under \<open>iffull\<close> below the threshold; otherwise it appends the ISR to the RX
  FIFO and clears it.  When the FIFO is full, or is a register file, it raises RXSTALL and blocks,
  or drops the ISR when non-blocking.
\<close>

lemma push_appends_isr:
  assumes "fifo_wf (sm_rx s)"
  shows "let (s', stalled) = push_insn v cond block s in
    if cond \<and> sm_isr_count s < sm_push_thresh s
    then s' = s \<and> \<not> stalled
    else if rx_fifo_is_register_file v s \<or> length (fifo_words (sm_rx s)) = unat (f_cap (sm_rx s))
    then stalled = block \<and>
      s' = (if block then s\<lparr>sm_fdebug := sm_fdebug s OR 8\<rparr>
            else s\<lparr>sm_fdebug := sm_fdebug s OR 8, sm_isr := 0, sm_isr_count := 0\<rparr>)
    else \<not> stalled \<and> fifo_words (sm_rx s') = fifo_words (sm_rx s) @ [sm_isr s] \<and>
      s' = s\<lparr>sm_rx := sm_rx s', sm_isr := 0, sm_isr_count := 0\<rparr>"
proof -
  let ?nop = "cond \<and> sm_isr_count s < sm_push_thresh s"
  let ?full = "rx_fifo_is_register_file v s \<or> f_cap (sm_rx s) \<le> f_count (sm_rx s)"
  have full: "length (fifo_words (sm_rx s)) = unat (f_cap (sm_rx s)) \<longleftrightarrow> f_cap (sm_rx s) \<le> f_count (sm_rx s)"
    using assms by (auto simp: fifo_wf_def word_le_nat_alt)
  consider (nop) ?nop | (full) "\<not> ?nop" ?full | (room) "\<not> ?nop" "\<not> ?full" by blast
  then show ?thesis
  proof cases
    case nop
    then have "push_insn v cond block s = (s, False)" by (auto simp: push_insn_def)
    then show ?thesis using nop by simp
  next
    case full
    then show ?thesis unfolding \<open>length (fifo_words (sm_rx s)) = unat (f_cap (sm_rx s)) \<longleftrightarrow> _\<close>
      by (cases block) (simp_all add: push_insn_def, blast)
  next
    case room
    then have "push_insn v cond block s = (fst (isr_drain s), False)" by (auto simp: push_insn_def)
    then show ?thesis using room ring.push_contents [OF assms, of "sm_isr s"]
      unfolding \<open>length (fifo_words (sm_rx s)) = unat (f_cap (sm_rx s)) \<longleftrightarrow> _\<close>
      by (simp add: isr_drain_eq word_le_nat_alt not_le) blast
  qed
qed

text \<open>What shifting into the ISR does below the threshold, and at it with room in the FIFO.\<close>

lemma isr_shift_in_threshold:
  fixes s :: pio_sm_t and c :: u8
  defines "full \<equiv> sm_autopush s \<and> unat (sm_push_thresh s) \<le> unat (sm_isr_count s) + unat c"
  assumes wf: "sm_wf s" and c: "c \<le> 32"
  shows "\<not> full \<Longrightarrow> sm_rx (isr_shift_in c data s) = sm_rx s \<and> sm_isr (isr_shift_in c data s) = isr_shifted c data s \<and>
      unat (sm_isr_count (isr_shift_in c data s)) = min 32 (unat (sm_isr_count s) + unat c)"
    and "full \<Longrightarrow> length (fifo_words (sm_rx s)) \<noteq> unat (f_cap (sm_rx s)) \<Longrightarrow>
      fifo_words (sm_rx (isr_shift_in c data s)) = fifo_words (sm_rx s) @ [isr_shifted c data s] \<and>
      sm_isr (isr_shift_in c data s) = 0 \<and> sm_isr_count (isr_shift_in c data s) = 0"
proof -
  have rx: "fifo_wf (sm_rx s)" using wf by (simp add: sm_wf_def)
  let ?n = "if 32 < sm_isr_count s + c then 32 else sm_isr_count s + c"
  let ?t = "s\<lparr>sm_isr := isr_shifted c data s, sm_isr_count := ?n\<rparr>"
  have cnt: "unat ?n = min 32 (unat (sm_isr_count s) + unat c)"
    using wf c by (auto simp: sm_wf_def word_le_nat_alt word_less_nat_alt unat_word_ariths)
  have "sm_push_thresh s \<le> ?n \<longleftrightarrow> unat (sm_push_thresh s) \<le> unat (sm_isr_count s) + unat c"
    using wf unfolding word_le_nat_alt cnt by (auto simp: sm_wf_def word_le_nat_alt)
  then have sh: "isr_shift_in c data s = (if full then fst (isr_drain ?t) else ?t)"
    unfolding full_def isr_shift_in_def Let_def by simp
  show "\<not> full \<Longrightarrow> sm_rx (isr_shift_in c data s) = sm_rx s \<and> sm_isr (isr_shift_in c data s) = isr_shifted c data s \<and>
      unat (sm_isr_count (isr_shift_in c data s)) = min 32 (unat (sm_isr_count s) + unat c)"
    using cnt by (simp add: sh)
  show "full \<Longrightarrow> length (fifo_words (sm_rx s)) \<noteq> unat (f_cap (sm_rx s)) \<Longrightarrow>
      fifo_words (sm_rx (isr_shift_in c data s)) = fifo_words (sm_rx s) @ [isr_shifted c data s] \<and>
      sm_isr (isr_shift_in c data s) = 0 \<and> sm_isr_count (isr_shift_in c data s) = 0"
    using ring.contents_bounded [OF rx] ring.push_contents [OF rx, of "isr_shifted c data s"]
    unfolding sh by (simp add: isr_drain_eq word_le_nat_alt le_less)
qed

text \<open>
  C21: IN with autopush.  The instruction stalls, before shifting, exactly when it would reach the
  threshold and the RX FIFO cannot take a word; when it reaches the threshold otherwise, the
  shifted ISR is appended to the RX FIFO as one word; below the threshold only the ISR and its
  saturating counter change.
\<close>

theorem in_autopush:
  assumes "sm_wf (the_sm h b i)" "i < 4"
  shows "let s = the_sm h b i; c = operand_count operand;
      data = read_source v b h s (drop_bit 5 operand AND 7) AND mask_n c;
      full = (sm_autopush s \<and> unat (sm_push_thresh s) \<le> unat (sm_isr_count s) + unat c);
      blocked = (rx_fifo_is_register_file v s \<or> length (fifo_words (sm_rx s)) = unat (f_cap (sm_rx s)));
      s' = isr_shift_in c data s
    in exec_in v b i operand h =
         (if full \<and> blocked then (upd_sm b i (\<lambda>s. s\<lparr>sm_fdebug := sm_fdebug s OR 8\<rparr>) h, True, None)
          else (upd_sm b i (isr_shift_in c data) h, False, None)) \<and>
       (full \<and> \<not> blocked \<longrightarrow> fifo_words (sm_rx s') = fifo_words (sm_rx s) @ [isr_shifted c data s] \<and>
          sm_isr s' = 0 \<and> sm_isr_count s' = 0) \<and>
       (\<not> full \<longrightarrow> sm_rx s' = sm_rx s \<and> sm_isr s' = isr_shifted c data s \<and>
          unat (sm_isr_count s') = min 32 (unat (sm_isr_count s) + unat c))"
proof -
  define s where "s = the_sm h b i"
  define c where "c = operand_count operand"
  define data where "data = read_source v b h s (drop_bit 5 operand AND 7) AND mask_n c"
  have wf: "sm_wf s" and c: "c \<le> 32" using assms operand_count_bounds(2) [of operand] by (simp_all add: s_def c_def)
  have "pio_sim_sm_is_rx_fifo_full (st_blk h b) (of_nat i) \<longleftrightarrow> length (fifo_words (sm_rx s)) = unat (f_cap (sm_rx s))"
    using wf assms(2)
    by (auto simp: pio_sim_sm_is_rx_fifo_full_def SM_IDX_of_nat s_def the_sm_def sm_wf_def fifo_wf_def word_le_nat_alt)
  then have "exec_in v b i operand h =
      (if (sm_autopush s \<and> unat (sm_push_thresh s) \<le> unat (sm_isr_count s) + unat c) \<and>
          (rx_fifo_is_register_file v s \<or> length (fifo_words (sm_rx s)) = unat (f_cap (sm_rx s)))
       then (upd_sm b i (\<lambda>s. s\<lparr>sm_fdebug := sm_fdebug s OR 8\<rparr>) h, True, None)
       else (upd_sm b i (isr_shift_in c data) h, False, None))"
    unfolding exec_in_def Let_def s_def [symmetric] c_def [symmetric] data_def by (simp only:)
  then show ?thesis
    using isr_shift_in_threshold [OF wf c, of data]
    unfolding Let_def s_def [symmetric] c_def [symmetric] data_def [symmetric] by blast
qed

theorem in_autopush_witness:
  "let h = upd_sm 0 0 (\<lambda>s. s\<lparr>sm_autopush := True, sm_push_thresh := 8, sm_x := 0x1AB\<rparr>)
             (pio_sim_init RP2040 0 store_zero)
   in \<not> fst (snd (exec_in RP2040 0 0 0x28 h)) \<and>
      fifo_words (sm_rx (the_sm (fst (exec_in RP2040 0 0 0x28 h)) 0 0)) = [0xAB]"
proof -
  let ?h = "upd_sm 0 0 (\<lambda>s. s\<lparr>sm_autopush := True, sm_push_thresh := 8, sm_x := 0x1AB\<rparr>)
             (pio_sim_init RP2040 0 store_zero)"
  have wf: "sm_wf (the_sm ?h 0 0)"
    using sm_wf_init_defaults by (simp add: init_sm sm_wf_def)
  note z = sm_init_defaults_def sm_reset_exec_def sm_zero_def fifo_zero_def fifo_clear_def
  have c: "operand_count 0x28 = 8" by (simp add: operand_count_def)
  have d: "read_source RP2040 0 ?h (the_sm ?h 0 0) (drop_bit 5 0x28 AND 7) AND mask_n 8 = 0xAB"
    by (simp add: read_source_def mask_n_def)
  have full: "sm_autopush (the_sm ?h 0 0) \<and>
      unat (sm_push_thresh (the_sm ?h 0 0)) \<le> unat (sm_isr_count (the_sm ?h 0 0)) + unat (8 :: u8)"
    by simp
  have room: "\<not> (rx_fifo_is_register_file RP2040 (the_sm ?h 0 0) \<or>
      length (fifo_words (sm_rx (the_sm ?h 0 0))) = unat (f_cap (sm_rx (the_sm ?h 0 0))))"
    by (simp add: init_sm z rx_fifo_is_register_file_def)
  have sh: "isr_shifted 8 0xAB (the_sm ?h 0 0) = 0xAB" "fifo_words (sm_rx (the_sm ?h 0 0)) = []"
    by (simp_all add: init_sm z isr_shifted_def)
  show ?thesis
    using in_autopush [OF wf, of "0x28" RP2040] full room unfolding Let_def c d sh
    by (simp del: fifo_words_Nil)
qed

section \<open>IRQ flags\<close>

text \<open>The index of an SM-relative IRQ: the number is added to the low two bits only.\<close>

definition rel_index :: "nat \<Rightarrow> u8 \<Rightarrow> u8" where
  "rel_index i base = (base AND 4) OR (((base AND 3) + of_nat i) AND 3)"

lemma unat_rel_index:
  assumes "base \<in> {0, 1, 2, 3, 4, 5, 6, 7}" "i < 4"
  shows "unat (rel_index i base) = 4 * (unat base div 4) + (unat base + i) mod 4"
proof -
  have "i \<in> {0, 1, 2, 3}" using assms(2) by auto
  with assms(1) show ?thesis
    by (elim insertE emptyE; simp only: rel_index_def; simp)
qed

lemma resolve_irq_target_rel:
  "field AND 0x18 = 0x10 \<Longrightarrow>
   resolve_irq_target v i field = \<lparr>t_index = rel_index i (field AND 7), t_block = IRQ_BLOCK_SELF\<rparr>"
  by (cases v) (simp_all add: resolve_irq_target_def Let_def rel_index_def)

lemma and_7_id: "unat w < 8 \<Longrightarrow> w AND 7 = (w :: u8)"
proof -
  assume *: "unat w < 8"
  have "w AND 7 = take_bit 3 w" by (simp add: take_bit_eq_mask mask_eq_exp_minus_1)
  also have "\<dots> = w"
    using * by (simp add: word_unat_eq_iff unsigned_take_bit_eq take_bit_nat_eq_self)
  finally show ?thesis .
qed

lemma resolve_irq_target_index: "unat (t_index (resolve_irq_target v i field)) < 8"
proof -
  have "unat (((field AND 7) AND 4) OR (w AND 3)) < 8" for w
  proof -
    have "((field AND 7) AND 4) OR (w AND 3) = ((field AND 4) OR (w AND 3)) AND 7"
      by (simp add: bit_eq_iff word_bits) (auto simp: bit_numeral_rec split: nat.splits)
    then show ?thesis using and_7_less by metis
  qed
  then show ?thesis using and_7_less by (simp add: resolve_irq_target_def Let_def)
qed

abbreviation (input) flag :: "pio_store \<Rightarrow> nat \<Rightarrow> irq_target_t \<Rightarrow> bool" where
  "flag h blk t \<equiv> pio_sim_irq_get (st_blk h blk) (t_index t)"

text \<open>
  SM-relative IRQ numbers.  The state machine number is added to the low two bits modulo 4, bit 2
  is kept, the flag is in the own block, and different state machines address different flags.
\<close>

lemma irq_rel_targets:
  assumes "field AND 0x18 = 0x10" "i < 4" "j < 4"
  shows "t_block (resolve_irq_target v i field) = IRQ_BLOCK_SELF \<and>
    unat (t_index (resolve_irq_target v i field)) =
      4 * (unat (field AND 7) div 4) + (unat (field AND 7) + i) mod 4 \<and>
    (t_index (resolve_irq_target v i field) = t_index (resolve_irq_target v j field) \<longleftrightarrow> i = j)"
proof -
  define base where "base = field AND 7"
  have base: "base \<in> {0, 1, 2, 3, 4, 5, 6, 7}" unfolding base_def by (rule and_7_cases)
  have "i = j" if "rel_index i base = rel_index j base"
  proof -
    have "(unat base + i) mod 4 = (unat base + j) mod 4"
      using unat_rel_index [OF base assms(2)] unat_rel_index [OF base assms(3)] that by simp
    then show ?thesis using assms(2,3) by (rule ring_slot_inject)
  qed
  then show ?thesis
    using unat_rel_index [OF base assms(2)]
    by (auto simp: resolve_irq_target_rel [OF assms(1)] base_def [symmetric])
qed

text \<open>
  C24: \<open>irq n wait\<close> as a handshake.  On its first presentation it raises the flag and stalls; retried,
  it changes nothing and stalls exactly as long as the flag is set, so a clear by the other side
  releases it and is never undone.
\<close>

theorem irq_wait_handshake:
  assumes "drop_bit 6 operand AND 1 = 0" "drop_bit 5 operand AND 1 \<noteq> 0"
    and "irq_target_block v b h (t_block (resolve_irq_target v i (operand AND 0x1F))) = Some blk"
  shows "let t = resolve_irq_target v i (operand AND 0x1F); (h', stalled, pc) = exec_irq v b i operand h in
    pc = None \<and>
    (if \<not> sm_stalled (the_sm h b i)
     then stalled \<and> flag h' blk t \<and> (\<forall>b' i'. the_sm h' b' i' = the_sm h b' i')
     else h' = h \<and> stalled = flag h blk t)"
proof -
  define t where "t = resolve_irq_target v i (operand AND 0x1F)"
  have t: "t_index t AND 7 = t_index t" "unat (t_index t) < 8"
    using resolve_irq_target_index [of v i "operand AND 0x1F"] and_7_id by (simp_all add: t_def)
  have "bit (push_bit (unat (t_index t)) 1 :: u8) (unat (t_index t))"
    using t by (simp add: bit_push_bit_iff del: push_bit_of_1)
  then show ?thesis
    using assms unfolding exec_irq_def Let_def t_def [symmetric]
    by (auto simp: irq_get_bit t(1) upd_blk_def bit_or_iff the_sm_def simp del: push_bit_of_1)
qed

theorem irq_wait_handshake_witness:
  "let h = pio_sim_init RP2040 0 store_zero in
     fst (snd (exec_irq RP2040 0 1 0x23 h)) \<and> pio_sim_irq_get (st_blk (fst (exec_irq RP2040 0 1 0x23 h)) 0) 3"
proof -
  let ?h = "pio_sim_init RP2040 0 store_zero"
  have s: "\<not> sm_stalled (the_sm ?h 0 1)"
    by (simp add: init_sm sm_init_defaults_def sm_reset_exec_def)
  have t: "resolve_irq_target RP2040 1 (0x23 AND 0x1F) = \<lparr>t_index = 3, t_block = IRQ_BLOCK_SELF\<rparr>"
    by (simp add: resolve_irq_target_def Let_def)
  have blk: "irq_target_block RP2040 0 ?h (t_block (resolve_irq_target RP2040 1 (0x23 AND 0x1F))) = Some 0"
    unfolding t by (simp add: irq_target_block_def)
  show ?thesis
    using irq_wait_handshake [OF _ _ blk] s unfolding t by (simp add: split_beta Let_def)
qed

text \<open>
  \<open>wait 1 irq n\<close> stalls until the flag is set and clears that flag, and only that flag, as it
  completes; \<open>wait 0 irq n\<close> waits for the flag to be clear and changes nothing.
\<close>

lemma wait_irq_consumes_flag:
  assumes "drop_bit 5 operand AND 3 = 2"
    and "irq_target_block v b h (t_block (resolve_irq_target v i (operand AND 0x1F))) = Some blk"
  shows "let t = resolve_irq_target v i (operand AND 0x1F); pol = (drop_bit 7 operand AND 1 = 1);
      (h', stalled, pc) = exec_wait v b i operand h in
    pc = None \<and> stalled = (flag h blk t \<noteq> pol) \<and>
    (if flag h blk t \<and> pol
     then \<not> flag h' blk t \<and> h' = upd_blk blk (\<lambda>p. p\<lparr>pio_irq := pio_irq (st_blk h' blk)\<rparr>) h \<and>
       (\<forall>k. k \<noteq> unat (t_index t) \<longrightarrow> bit (pio_irq (st_blk h' blk)) k = bit (pio_irq (st_blk h blk)) k)
     else h' = h)"
proof -
  define t where "t = resolve_irq_target v i (operand AND 0x1F)"
  have t: "t_index t AND 7 = t_index t" "unat (t_index t) < 8"
    using resolve_irq_target_index [of v i "operand AND 0x1F"] and_7_id by (simp_all add: t_def)
  have clr: "\<not> flag (upd_blk blk (pio_sim_irq_clear (t_index t)) h) blk t"
    by (simp add: upd_blk_def irq_get_bit irq_clear_bit)
  have other: "bit (pio_irq (pio_sim_irq_clear (t_index t) p)) k = bit (pio_irq p) k"
    if "k \<noteq> unat (t_index t)" for k p
    using that by (simp add: irq_clear_bit t(1))
  show ?thesis
    using assms clr other unfolding exec_wait_def Let_def t_def [symmetric]
    by (simp add: upd_blk_def pio_sim_irq_clear_def)
qed

end
