(* ===== verification/Pio_Run.thy ===== *)
theory Pio_Run
  imports Pio_Tick Pio_Insn
begin

text \<open>
  What holds of a running block: the invariants over any number of ticks, the isolation of the state
  machines from each other, the exact rate of the clock dividers, delays, the two-clock input
  synchroniser, and the bounds of the run loops.
\<close>

section \<open>Frames of a tick\<close>

lemma write_window_frame [frame, simp]:
  "pio_pads (st_blk (open_write_window b h) b') = pio_pads (st_blk h b')"
  "pio_on_tick (st_blk (open_write_window b h) b') = pio_on_tick (st_blk h b')"
  "pio_device_ctx (st_blk (open_write_window b h) b') = pio_device_ctx (st_blk h b')"
  "pio_cycle (st_blk (open_write_window b h) b') = pio_cycle (st_blk h b')"
  by (simp_all add: open_write_window_def upt_rec)

lemma the_sm_fold_upd:
  "distinct is \<Longrightarrow> the_sm (fold (\<lambda>i. upd_sm b i f) is h) b' j =
     (if b' = b \<and> j \<in> set is then f (the_sm h b j) else the_sm h b' j)"
  by (induction "is" arbitrary: h) auto

lemma write_window_sm [store_simps]:
  "the_sm (open_write_window b h) b' j =
     (if b' = b \<and> j < 4 then (the_sm h b j)\<lparr>sm_wrote_this_cycle := 0\<rparr> else the_sm h b' j)"
  unfolding open_write_window_def by (subst the_sm_fold_upd) simp_all

lemma tick_sms_frame [frame]:
  "pio_pads (st_blk (fold (tick_sm v b) is h) b') = pio_pads (st_blk h b')"
  "pio_on_tick (st_blk (fold (tick_sm v b) is h) b') = pio_on_tick (st_blk h b')"
  "pio_device_ctx (st_blk (fold (tick_sm v b) is h) b') = pio_device_ctx (st_blk h b')"
  "pio_cycle (st_blk (fold (tick_sm v b) is h) b') = pio_cycle (st_blk h b')"
  by (induction "is" arbitrary: h) (simp_all add: cycle_frame_fields [OF cycle_frame_tick_sm])

lemma tick_sm_elsewhere: "(b', i') \<noteq> (b, i) \<Longrightarrow> the_sm (tick_sm v b i h) b' i' = the_sm h b' i'"
  using cycle_frame_tick_sm [of b i h v] by (simp add: cycle_frame_def)

lemma tick_sms_other: "b' \<noteq> b \<or> j \<notin> set is \<Longrightarrow> the_sm (fold (tick_sm v b) is h) b' j = the_sm h b' j"
  by (induction "is" arbitrary: h) (auto simp: tick_sm_elsewhere)

lemma upd_cycle_frame [simp]:
  "the_sm (upd_blk b' (\<lambda>p. p\<lparr>pio_cycle := g p\<rparr>) h) b i = the_sm h b i"
  "pio_pads (st_blk (upd_blk b' (\<lambda>p. p\<lparr>pio_cycle := g p\<rparr>) h) b) = pio_pads (st_blk h b)"
  "get_pads (upd_blk b' (\<lambda>p. p\<lparr>pio_cycle := g p\<rparr>) h) q = get_pads h q"
  by (simp_all add: the_sm_def upd_blk_def get_pads_def split: pads_ptr.split)

text \<open>A device hook that leaves one state machine alone.\<close>

definition spares :: "device \<Rightarrow> nat \<Rightarrow> nat \<Rightarrow> bool" where
  "spares dev b j \<longleftrightarrow> (\<forall>f ctx h. the_sm (dev f b ctx h) b j = the_sm h b j)"

lemma tick_the_sm:
  "spares dev b j \<Longrightarrow> the_sm (pio_sim_tick v dev b h) b j =
    the_sm (fold (tick_sm v b) [0..<4] (open_write_window b h)) b j"
  by (simp add: pio_sim_tick_def Let_def call_on_tick_def spares_def split: option.split)

text \<open>Within a tick, a state machine is stepped once, from its state at the start of the tick.\<close>

lemma tick_sm_once:
  assumes "spares dev b j" "j < 4"
  obtains h' where "the_sm h' b j = (the_sm h b j)\<lparr>sm_wrote_this_cycle := 0\<rparr>"
    and "the_sm (pio_sim_tick v dev b h) b j = the_sm (tick_sm v b j h') b j"
proof
  let ?h = "fold (tick_sm v b) [0..<j] (open_write_window b h)"
  show "the_sm ?h b j = (the_sm h b j)\<lparr>sm_wrote_this_cycle := 0\<rparr>"
    using assms(2) by (simp add: tick_sms_other write_window_sm)
  show "the_sm (pio_sim_tick v dev b h) b j = the_sm (tick_sm v b j ?h) b j"
    unfolding tick_the_sm [OF assms(1)] upt_split [OF assms(2)] by (simp add: tick_sms_other)
qed

lemma tick_accum:
  assumes "spares dev b j" "j < 4" "sm_wf (the_sm h b j)"
  shows "sm_wf (the_sm (pio_sim_tick v dev b h) b j)"
    and "sm_clkdiv_int (the_sm (pio_sim_tick v dev b h) b j) = sm_clkdiv_int (the_sm h b j)"
    and "sm_clkdiv_frac (the_sm (pio_sim_tick v dev b h) b j) = sm_clkdiv_frac (the_sm h b j)"
    and "sm_clk_accum (the_sm (pio_sim_tick v dev b h) b j) =
      sm_clk_accum (fst (clk_divider_step (the_sm h b j)))"
proof -
  obtain h' where h': "the_sm h' b j = (the_sm h b j)\<lparr>sm_wrote_this_cycle := 0\<rparr>"
    and t: "the_sm (pio_sim_tick v dev b h) b j = the_sm (tick_sm v b j h') b j"
    by (rule tick_sm_once [OF assms(1,2)])
  let ?s = "the_sm h b j"
  let ?a = "sm_clk_accum (fst (clk_divider_step ?s))"
  let ?P = "\<lambda>s. sm_wf s \<and> sm_clk_accum s = ?a \<and> sm_clkdiv_int s = sm_clkdiv_int ?s \<and>
    sm_clkdiv_frac s = sm_clkdiv_frac ?s"
  have du: "div_units (?s\<lparr>sm_wrote_this_cycle := 0\<rparr>) = div_units ?s" by (simp add: div_units_def)
  have "?P (fst (clk_divider_step (the_sm h' b j)))"
    using assms(3) by (simp add: h' clk_divider_step_def Let_def du sm_wf_def)
  then have P: "?P (the_sm (upd_sm b j (\<lambda>s. fst (clk_divider_step s)) h') b j)" by simp
  have "?P (the_sm (tick_sm v b j h') b j)"
    unfolding tick_sm_def Let_def
    using P clk_regs.cycle [OF P, of v] by (auto intro: wf.wrote)
  then show "sm_wf (the_sm (pio_sim_tick v dev b h) b j)"
    "sm_clkdiv_int (the_sm (pio_sim_tick v dev b h) b j) = sm_clkdiv_int ?s"
    "sm_clkdiv_frac (the_sm (pio_sim_tick v dev b h) b j) = sm_clkdiv_frac ?s"
    "sm_clk_accum (the_sm (pio_sim_tick v dev b h) b j) = ?a"
    by (simp_all add: t)
qed

lemma div_units_steps: "div_units (((\<lambda>s. fst (clk_divider_step s)) ^^ n) s) = div_units s"
  by (induction n) (simp_all add: clk_divider_step_def Let_def)

lemma run_divider:
  assumes "spares dev b j" "j < 4" "sm_wf (the_sm h b j)"
  shows "sm_wf (the_sm ((pio_sim_tick v dev b ^^ n) h) b j) \<and>
    div_units (the_sm ((pio_sim_tick v dev b ^^ n) h) b j) = div_units (the_sm h b j) \<and>
    sm_clk_accum (the_sm ((pio_sim_tick v dev b ^^ n) h) b j) =
      sm_clk_accum (((\<lambda>s. fst (clk_divider_step s)) ^^ n) (the_sm h b j))"
proof (induction n)
  case 0
  then show ?case by (simp add: assms(3))
next
  case (Suc n)
  then have IH: "sm_wf (the_sm ((pio_sim_tick v dev b ^^ n) h) b j)"
    "div_units (the_sm ((pio_sim_tick v dev b ^^ n) h) b j) = div_units (the_sm h b j)"
    "sm_clk_accum (the_sm ((pio_sim_tick v dev b ^^ n) h) b j) =
      sm_clk_accum (((\<lambda>s. fst (clk_divider_step s)) ^^ n) (the_sm h b j))" by blast+
  note t = tick_accum [OF assms(1,2) IH(1), where v = v]
  have "div_units (((\<lambda>s. fst (clk_divider_step s)) ^^ n) (the_sm h b j)) = div_units (the_sm h b j)"
    by (rule div_units_steps)
  moreover have "div_units (the_sm ((pio_sim_tick v dev b ^^ Suc n) h) b j) = div_units (the_sm h b j)"
    unfolding IH(2) [symmetric] using t(2,3) by (simp add: div_units_def)
  ultimately show ?case
    using t(1,4) IH(2,3) by (simp add: clk_divider_step_def Let_def)
qed

lemma due_same:
  "sm_clk_accum s = sm_clk_accum t \<Longrightarrow> div_units s = div_units t \<Longrightarrow>
   snd (clk_divider_step s) = snd (clk_divider_step t)"
  by (simp add: clk_divider_step_def Let_def)

section \<open>Invariants\<close>

text \<open>
  Running never changes the configuration a state machine was given, nor whether it is enabled:
  only the host and the device hook do.
\<close>

lemma run_keeps_config:
  assumes "sm_wf (the_sm h b j)" "spares dev b j"
  shows "sm_config_of (the_sm (pio_sim_run v dev b n h) b j) = sm_config_of (the_sm h b j) \<and>
    sm_enabled (the_sm (pio_sim_run v dev b n h) b j) = sm_enabled (the_sm h b j)"
  using cfg.run [of h b j "sm_config_of (the_sm h b j)" "sm_enabled (the_sm h b j)" dev v n] assms
  by (simp add: spares_def)

text \<open>
  C23: Isolation.  A cycle of one state machine changes no other state machine of any block, no
  instruction memory, no pads other than those its block is wired to, and of those only the
  resolved directions and levels.
\<close>

theorem cycle_isolation:
  "let h' = sm_cycle v b i h in
     (if b' = b \<and> j = i then True else the_sm h' b' j = the_sm h b' j) \<and>
     pio_insn (st_blk h' b') = pio_insn (st_blk h b') \<and>
     pio_insn_used (st_blk h' b') = pio_insn_used (st_blk h b') \<and>
     (if q = pads_ptr_of h b
      then get_pads h' q = (get_pads h q)\<lparr>p_pin_dirs := p_pin_dirs (get_pads h' q),
             p_pin_levels := p_pin_levels (get_pads h' q)\<rparr>
      else get_pads h' q = get_pads h q)"
proof -
  note fr = cycle_frame_cycle [of b i h v]
  have ptr: "pads_ptr_of (sm_cycle v b i h) b = pads_ptr_of h b"
    using fr by (rule cycle_frame_fields)
  have pads: "p' = p\<lparr>p_pin_dirs := p_pin_dirs p', p_pin_levels := p_pin_levels p'\<rparr>"
    if "pads_frame p' = pads_frame p" for p p'
    using that by (cases p; cases p') (simp add: pads_frame_def)
  show ?thesis
    using fr ptr pads cycle_frame_fields(1,2) [OF fr, of b']
    by (simp add: cycle_frame_def Let_def)
qed

section \<open>Clock dividers\<close>

lemma upd_sm_upd_sm: "upd_sm b i f (upd_sm b i g h) = upd_sm b i (\<lambda>s. f (g s)) h"
  by (simp add: upd_sm_def upd_blk_def blk_upd_sm_def)

lemma upd_sm_cong: "f (the_sm h b i) = g (the_sm h b i) \<Longrightarrow> upd_sm b i f h = upd_sm b i g h"
  by (simp add: upd_sm_def upd_blk_def blk_upd_sm_def the_sm_def)

lemma upd_sm_id: "upd_sm b i (\<lambda>s. s) h = h"
  by (simp add: upd_sm_def upd_blk_def blk_upd_sm_def)

context rate_divider
begin

text \<open>It fires in just those steps in which the integer part of \<open>(acc + n * inc) / unit\<close> goes up.\<close>

lemma fires_at:
  assumes "ok s"
  shows "fires ((step ^^ k) s) \<longleftrightarrow> (acc s + Suc k * inc) div unit \<noteq> (acc s + k * inc) div unit"
proof -
  let ?t = "acc s + k * inc"
  have u: "0 < unit" using acc_less [OF assms] by simp
  have "acc s + Suc k * inc = (?t mod unit + inc) + ?t div unit * unit"
    using div_mult_mod_eq [of ?t unit] by simp
  then have "(acc s + Suc k * inc) div unit = ?t div unit + (?t mod unit + inc) div unit"
    using u by (simp only: div_mult_self1 neq0_conv)
  moreover have "fires ((step ^^ k) s) \<longleftrightarrow> unit \<le> ?t mod unit + inc"
    using fires_iff [OF ok_steps [OF assms]] fire_count(2) [OF assms] by simp
  ultimately show ?thesis using u by (simp add: div_eq_0_iff not_less)
qed

end

text \<open>
  The two halves of a tick around state machine \<open>j\<close>: what \<open>pio_sim_tick\<close> does before it comes to the
  machine, and what it does after its turn (the later machines, the resolution of the pads, the
  device hook, the synchroniser and the cycle counter).
\<close>

definition tick_before :: "pio_version \<Rightarrow> nat \<Rightarrow> nat \<Rightarrow> pio_store \<Rightarrow> pio_store" where
  "tick_before v b j h = fold (tick_sm v b) [0..<j] (open_write_window b h)"

definition tick_after :: "pio_version \<Rightarrow> device \<Rightarrow> nat \<Rightarrow> nat \<Rightarrow> pio_store \<Rightarrow> pio_store" where
  "tick_after v dev b j h =
     (let h = fold (tick_sm v b) [Suc j..<4] h;
          h = pio_pads_resolve (pads_ptr_of h b) h;
          h = call_on_tick dev b h;
          h = (if pads_ptr_of h b = Embedded b then upd_pads (Embedded b) (pads_clock v) h else h)
      in upd_blk b (\<lambda>p. p\<lparr>pio_cycle := pio_cycle p + 1\<rparr>) h)"

text \<open>A turn in which the machine runs: one cycle, and the sticky output refreshed.\<close>

definition run_turn :: "pio_version \<Rightarrow> nat \<Rightarrow> nat \<Rightarrow> pio_store \<Rightarrow> pio_store" where
  "run_turn v b j h =
     (let h = sm_cycle v b j h
      in if sm_out_sticky (the_sm h b j)
         then upd_sm b j (\<lambda>s. s\<lparr>sm_wrote_this_cycle := sm_wrote_this_cycle s OR sm_out_pin_oe s\<rparr>) h
         else h)"

lemma tick_halves:
  assumes "j < 4"
  shows "pio_sim_tick v dev b h = tick_after v dev b j (tick_sm v b j (tick_before v b j h))"
  unfolding pio_sim_tick_def tick_after_def tick_before_def Let_def upt_split [OF assms]
  by simp

lemma tick_before_sm: "j < 4 \<Longrightarrow> the_sm (tick_before v b j h) b j = (the_sm h b j)\<lparr>sm_wrote_this_cycle := 0\<rparr>"
  by (simp add: tick_before_def tick_sms_other write_window_sm)

lemma ticks_keep_enabled:
  assumes "spares dev b j" "sm_wf (the_sm h b j)"
  shows "sm_enabled (the_sm ((pio_sim_tick v dev b ^^ k) h) b j) = sm_enabled (the_sm h b j)"
proof -
  let ?P = "\<lambda>s. sm_wf s \<and> sm_config_of s = sm_config_of (the_sm h b j) \<and> sm_enabled s = sm_enabled (the_sm h b j)"
  have "?P (the_sm ((pio_sim_tick v dev b ^^ k) h) b j)"
  proof (induction k)
    case (Suc k)
    from cfg.tick [OF Suc.IH, of dev v] show ?case using assms(1) by (simp add: spares_def)
  qed (simp add: assms(2))
  then show ?thesis by blast
qed

lemma div_units_wrote: "div_units (s\<lparr>sm_wrote_this_cycle := w\<rparr>) = div_units s"
  by (simp add: div_units_def)

lemma clk_step_accum:
  "fst (clk_divider_step s) = s\<lparr>sm_clk_accum := sm_clk_accum (fst (clk_divider_step s))\<rparr>"
  by (simp add: clk_divider_step_def Let_def)

text \<open>
  C3: The exact rate of a state machine.  Let \<open>u\<close> be its divisor (in 1/256 of a system clock: 256 times
  the integer part, or 65536, plus the fraction) and \<open>total k = acc + 256 k\<close>, from an accumulator
  below \<open>u\<close>.  In tick \<open>k\<close> the turn of the machine sets its accumulator to \<open>total (k + 1) mod u\<close>, and then
  runs one cycle exactly when it is enabled and \<open>total / u\<close> goes up; otherwise its turn does nothing
  more.  An enabled machine so gets the integer part of \<open>total n / u\<close> cycles in \<open>n\<close> ticks and a disabled one
  none: no drift and no overflow, whatever the program does.  The device hook is assumed to leave the
  machine alone.
\<close>

theorem clock_rate_exact:
  fixes h b j v dev
  assumes "spares dev b j" "j < 4" "sm_wf (the_sm h b j)"
    and "sm_clk_accum (the_sm h b j) < div_units (the_sm h b j)"
  shows "let s = the_sm h b j; u = unat (div_units s); total = (\<lambda>k. unat (sm_clk_accum s) + k * 256);
      runs = (\<lambda>k. sm_enabled s \<and> total (Suc k) div u \<noteq> total k div u);
      at = (\<lambda>k. (pio_sim_tick v dev b ^^ k) h)
    in u = 256 * (if sm_clkdiv_int s = 0 then 65536 else unat (sm_clkdiv_int s)) + unat (sm_clkdiv_frac s) \<and>
       (\<forall>k. pio_sim_tick v dev b (at k) = tick_after v dev b j
         (let e = upd_sm b j (\<lambda>s. s\<lparr>sm_clk_accum := word_of_nat (total (Suc k) mod u)\<rparr>) (tick_before v b j (at k))
          in if runs k then run_turn v b j e else e)) \<and>
       card {k. k < n \<and> runs k} = (if sm_enabled s then total n div u else 0) \<and>
       unat (sm_clk_accum (the_sm (at n) b j)) = total n mod u"
proof -
  let ?s = "the_sm h b j" and ?step = "\<lambda>s. fst (clk_divider_step s)"
  let ?u = "unat (div_units ?s)" and ?total = "\<lambda>k. unat (sm_clk_accum ?s) + k * 256"
  let ?at = "\<lambda>k. (pio_sim_tick v dev b ^^ k) h"
  have ok: "divider_ok ?u ?s" using assms(4) by (simp add: divider_ok_def)
  note count = clk.fire_count [OF ok] and fires = clk.fires_at [OF ok]
  have run: "div_units (the_sm (?at k) b j) = div_units ?s"
    "sm_clk_accum (the_sm (?at k) b j) = sm_clk_accum ((?step ^^ k) ?s)" for k
    using run_divider [OF assms(1-3), where v = v and n = k] by blast+
  have turn: "pio_sim_tick v dev b (?at k) = tick_after v dev b j
      (let e = upd_sm b j (\<lambda>s. s\<lparr>sm_clk_accum := word_of_nat (?total (Suc k) mod ?u)\<rparr>) (tick_before v b j (?at k))
       in if sm_enabled ?s \<and> ?total (Suc k) div ?u \<noteq> ?total k div ?u then run_turn v b j e else e)" for k
  proof -
    let ?g = "tick_before v b j (?at k)"
    let ?a = "word_of_nat (?total (Suc k) mod ?u) :: u32"
    have g: "the_sm ?g b j = (the_sm (?at k) b j)\<lparr>sm_wrote_this_cycle := 0\<rparr>"
      by (rule tick_before_sm [OF assms(2)])
    have same: "sm_clk_accum (the_sm ?g b j) = sm_clk_accum ((?step ^^ k) ?s)"
      "div_units (the_sm ?g b j) = div_units ((?step ^^ k) ?s)"
      using run [of k] by (simp_all add: g div_units_steps div_units_wrote)
    have due: "snd (clk_divider_step (the_sm ?g b j)) \<longleftrightarrow> ?total (Suc k) div ?u \<noteq> ?total k div ?u"
      unfolding due_same [OF same] by (rule fires)
    have "sm_clk_accum (fst (clk_divider_step (the_sm ?g b j))) = sm_clk_accum ((?step ^^ Suc k) ?s)"
      using same by (simp add: clk_divider_step_def Let_def)
    also have "\<dots> = ?a"
      unfolding count(2) [of "Suc k", symmetric] by simp
    finally have "upd_sm b j ?step ?g = upd_sm b j (\<lambda>s. s\<lparr>sm_clk_accum := ?a\<rparr>) ?g"
      by (intro upd_sm_cong) (subst clk_step_accum, simp)
    moreover have "sm_enabled (the_sm (upd_sm b j (\<lambda>s. s\<lparr>sm_clk_accum := ?a\<rparr>) ?g) b j) = sm_enabled ?s"
      using ticks_keep_enabled [OF assms(1,3), where v = v and k = k] by (simp add: g)
    ultimately show ?thesis
      unfolding tick_halves [OF assms(2), of v dev b "?at k"] tick_sm_def run_turn_def Let_def due by simp
  qed
  have "card {k. k < n \<and> sm_enabled ?s \<and> ?total (Suc k) div ?u \<noteq> ?total k div ?u} =
      (if sm_enabled ?s then ?total n div ?u else 0)"
    using count(1) [of n] unfolding fires by simp
  moreover have "unat (sm_clk_accum (the_sm (?at n) b j)) = ?total n mod ?u"
    unfolding run(2) by (rule count(2))
  ultimately show ?thesis
    using turn unfolding Let_def by (intro conjI unat_div_units allI)
qed

theorem clock_rate_exact_witness:
  "let h = upd_sm 0 0 (\<lambda>s. s\<lparr>sm_clkdiv_int := 2, sm_clkdiv_frac := 128, sm_enabled := True\<rparr>) (pio_sim_init RP2040 0 store_zero);
       t = pio_sim_tick RP2040 (\<lambda>_ _ _ h. h) 0
   in t h = tick_after RP2040 (\<lambda>_ _ _ h. h) 0 0 (upd_sm 0 0 (\<lambda>s. s\<lparr>sm_clk_accum := 256\<rparr>) (tick_before RP2040 0 0 h)) \<and>
      card {k::nat. k < 100 \<and> (Suc k * 256) div 640 \<noteq> (k * 256) div 640} = 40 \<and>
      unat (sm_clk_accum (the_sm ((t ^^ 7) h) 0 0)) = 512"
proof -
  define h where "h = upd_sm 0 0 (\<lambda>s. s\<lparr>sm_clkdiv_int := 2, sm_clkdiv_frac := 128, sm_enabled := True\<rparr>) (pio_sim_init RP2040 0 store_zero)"
  have wf: "sm_wf (the_sm h 0 0)" using sm_wf_init_defaults by (simp add: h_def init_sm sm_wf_def)
  have acc: "unat (sm_clk_accum (the_sm h 0 0)) = 0" and en: "sm_enabled (the_sm h 0 0) = True"
    by (simp_all add: h_def init_sm sm_init_defaults_def sm_reset_exec_def)
  have u: "unat (div_units (the_sm h 0 0)) = 640" by (simp add: h_def unat_div_units)
  have less: "sm_clk_accum (the_sm h 0 0) < div_units (the_sm h 0 0)"
    unfolding acc word_less_nat_alt u by simp
  have dev: "spares (\<lambda>_ _ _ h. h) 0 0" by (simp add: spares_def)
  note rate = clock_rate_exact [OF dev _ wf less, where v = RP2040, unfolded acc u en Let_def if_True simp_thms add_0]
  have "pio_sim_tick RP2040 (\<lambda>_ _ _ h. h) 0 h = tick_after RP2040 (\<lambda>_ _ _ h. h) 0 0
      (upd_sm 0 0 (\<lambda>s. s\<lparr>sm_clk_accum := 256\<rparr>) (tick_before RP2040 0 0 h))"
    using conjunct1 [OF conjunct2 [OF rate], THEN spec [of _ 0]] by simp
  moreover have "card {k::nat. k < 100 \<and> (Suc k * 256) div 640 \<noteq> (k * 256) div 640} = 100 * 256 div 640"
    using conjunct1 [OF conjunct2 [OF conjunct2 [OF rate]], of 100] by (simp only: zero_less_numeral)
  moreover have "unat (sm_clk_accum (the_sm ((pio_sim_tick RP2040 (\<lambda>_ _ _ h. h) 0 ^^ 7) h) 0 0)) = 7 * 256 mod 640"
    using conjunct2 [OF conjunct2 [OF conjunct2 [OF rate]], of 7] by (simp only: zero_less_numeral)
  ultimately show ?thesis unfolding Let_def h_def [symmetric] by (intro conjI) simp_all
qed

section \<open>Delays\<close>

lemma autopull_delay [simp]: "sm_delay (autopull_refill s) = sm_delay s"
  by (simp add: autopull_refill_def osr_refill_eq)

lemma autopull_refill_delay:
  "autopull_refill (s\<lparr>sm_delay := d\<rparr>) = (autopull_refill s)\<lparr>sm_delay := d\<rparr>"
  by (simp add: autopull_refill_def osr_refill_eq)

text \<open>
  Delay cycles.  A state machine with \<open>d\<close> delay cycles pending lets exactly \<open>d\<close> of its cycles pass
  without executing anything: only the delay counts down and the background autopull may refill
  the OSR; nothing else in the store changes.
\<close>

lemma delay_idles:
  "k \<le> unat (sm_delay (the_sm h b i)) \<Longrightarrow>
   (sm_cycle v b i ^^ k) h =
     upd_sm b i (\<lambda>s. ((autopull_refill ^^ k) s)\<lparr>sm_delay := sm_delay s - of_nat k\<rparr>) h"
proof (induction k)
  case 0
  show ?case by (simp add: upd_sm_id)
next
  case (Suc k)
  let ?g = "\<lambda>s. ((autopull_refill ^^ k) s)\<lparr>sm_delay := sm_delay s - of_nat k\<rparr>"
  have IH: "(sm_cycle v b i ^^ k) h = upd_sm b i ?g h" using Suc by simp
  let ?d = "sm_delay (the_sm h b i) - of_nat k"
  have "unat ?d = unat (sm_delay (the_sm h b i)) - k"
    using Suc.prems unsigned_less [where 'a = nat, of "sm_delay (the_sm h b i)"]
    by (subst unat_sub) (simp_all add: word_le_nat_alt unsigned_of_nat take_bit_nat_eq_self)
  then have pos: "0 < ?d" using Suc.prems by (simp add: word_less_nat_alt)
  have "(sm_cycle v b i ^^ Suc k) h = sm_cycle v b i (upd_sm b i ?g h)" by (simp add: IH)
  also have "\<dots> = upd_sm b i (\<lambda>s. s\<lparr>sm_delay := sm_delay s - 1\<rparr>)
      (upd_sm b i autopull_refill (upd_sm b i ?g h))"
    using pos by (simp add: sm_cycle_def Let_def autopull_refill_delay)
  also have "\<dots> = upd_sm b i (\<lambda>s. ((autopull_refill ^^ Suc k) s)\<lparr>sm_delay := sm_delay s - of_nat (Suc k)\<rparr>) h"
    by (simp add: upd_sm_upd_sm autopull_refill_delay algebra_simps)
  finally show ?case .
qed

section \<open>The input synchroniser\<close>

lemma input_view_sync0 [simp]: "pads_input_view v (p\<lparr>p_in_sync0 := a\<rparr>) = pads_input_view v p"
  by (cases v; simp add: pads_input_view_def pads_live_def)

lemma input_view_clock: "pads_input_view v (pads_clock v p) = pads_input_view v (pads_update_keeper v p)"
  by (subst update_keeper_eq) (simp add: pads_clock_eq)

lemma pads_frame_tick_sm: "pads_frame (get_pads (tick_sm v b i h) q) = pads_frame (get_pads h q)"
  using cycle_frame_tick_sm [of b i h v] cycle_frame_fields(3) [OF cycle_frame_tick_sm [of b i h v], of b]
  by (cases "q = pads_ptr_of h b") (auto simp: cycle_frame_def)

lemma pads_frame_tick_sms:
  "pads_frame (get_pads (fold (tick_sm v b) is h) q) = pads_frame (get_pads h q)"
  by (induction "is" arbitrary: h) (simp_all add: pads_frame_tick_sm)

lemma get_pads_write_window [simp]: "get_pads (open_write_window b h) q = get_pads h q"
  by (simp add: open_write_window_def upt_rec)

lemma pads_frame_resolve: "pads_frame (get_pads (pio_pads_resolve q h) q') = pads_frame (get_pads h q')"
  by (subst resolve_eq) (simp add: pads_frame_def)

text \<open>The pads of a tick just before the synchroniser is clocked.\<close>

definition tick_pads :: "pio_version \<Rightarrow> nat \<Rightarrow> pio_store \<Rightarrow> pio_pads_t" where
  "tick_pads v b h = (let h' = fold (tick_sm v b) [0..<4] (open_write_window b h)
     in pads_of (pio_pads_resolve (pads_ptr_of h' b) h') b)"

lemma tick_own_pads:
  assumes "pads_ptr_of h b = Embedded b" "pio_on_tick (st_blk h b) = None"
  shows "pads_ptr_of (pio_sim_tick v dev b h) b = Embedded b"
    and "pio_on_tick (st_blk (pio_sim_tick v dev b h) b) = None"
    and "pads_of (pio_sim_tick v dev b h) b = pads_clock v (tick_pads v b h)"
    and "pads_frame (tick_pads v b h) = pads_frame (pads_of h b)"
proof -
  let ?h = "fold (tick_sm v b) [0..<4] (open_write_window b h)"
  have ptr: "pads_ptr_of ?h b = Embedded b" "pio_on_tick (st_blk ?h b) = None"
    using assms by (simp_all add: tick_sms_frame)
  have t: "pio_sim_tick v dev b h = upd_blk b (\<lambda>p. p\<lparr>pio_cycle := pio_cycle p + 1\<rparr>)
      (upd_pads (Embedded b) (pads_clock v) (pio_pads_resolve (Embedded b) ?h))"
    by (simp add: pio_sim_tick_def Let_def call_on_tick_def ptr)
  show "pads_ptr_of (pio_sim_tick v dev b h) b = Embedded b" by (simp add: t ptr)
  show "pio_on_tick (st_blk (pio_sim_tick v dev b h) b) = None"
    using ptr(2) by (simp add: t) (simp add: upd_blk_def)
  show "pads_of (pio_sim_tick v dev b h) b = pads_clock v (tick_pads v b h)"
    by (simp add: t tick_pads_def Let_def ptr)
  show "pads_frame (tick_pads v b h) = pads_frame (pads_of h b)"
    by (simp add: tick_pads_def Let_def ptr assms(1) pads_frame_resolve pads_frame_tick_sms)
qed

lemma pads_frame_inputs:
  assumes "pads_frame p = pads_frame p'"
  shows "p_in_sync0 p = p_in_sync0 p'" "p_in_sync1 p = p_in_sync1 p'" "p_sync_bypass p = p_sync_bypass p'"
    "p_pad_od p = p_pad_od p'" "p_pad_ie p = p_pad_ie p'" "p_ext_drive p = p_ext_drive p'" "p_ext_levels p = p_ext_levels p'"
    "p_inover_inv p = p_inover_inv p'" "p_inover_low p = p_inover_low p'" "p_inover_high p = p_inover_high p'"
    "p_pad_iso p = p_pad_iso p'"
  using assms by (cases p; cases p'; simp add: pads_frame_def)+

lemma pads_frame_tick_before:
  "pads_frame (pads_of (tick_before v b j h) b) = pads_frame (pads_of h b)"
  by (simp add: tick_before_def pads_frame_tick_sms tick_sms_frame)

text \<open>
  C22: The two-stage synchroniser.  In a block with its own pads and no device hook, after two ticks
  the level that the machines sample from a pin (\<open>pio_input_level\<close>) is what the pads showed between
  the two ticks: inputs are seen exactly two clocks late.  A pin whose synchroniser is bypassed shows its
  present level instead.  Every machine \<open>j\<close> samples the same synchronised level in the next tick, even
  if a machine before it drives the pin in that tick.
\<close>

theorem synchroniser_two_ticks:
  assumes "pads_ptr_of h b = Embedded b" "pio_on_tick (st_blk h b) = None"
  shows "let h1 = pio_sim_tick v dev b h; h2 = pio_sim_tick v dev b h1; h3 = tick_before v b j h2;
      k = unat pin mod PIO_SIM_NUM_PINS v; shown = (\<lambda>h. bit (pads_input_view v (pads_of h b)) k)
    in pio_input_level v b h2 pin = (if bit (p_sync_bypass (pads_of h b)) k then shown h2 else shown h1) \<and>
       pio_input_level v b h3 pin = (if bit (p_sync_bypass (pads_of h b)) k then shown h3 else shown h1)"
proof -
  let ?h1 = "pio_sim_tick v dev b h" and ?h2 = "pio_sim_tick v dev b (pio_sim_tick v dev b h)"
  note own = tick_own_pads(1-3) [OF assms, where v = v and dev = dev]
  note frame = pads_frame_inputs [OF tick_own_pads(4) [OF assms, where v = v]]
  note own2 = tick_own_pads(3) [OF own(1,2), where v = v and dev = dev]
  note frame2 = pads_frame_inputs [OF tick_own_pads(4) [OF own(1,2), where v = v]]
  have "p_in_sync1 (pads_of ?h2 b) = p_in_sync0 (pads_of ?h1 b)"
    by (simp add: own2 pads_clock_sync frame2)
  also have "\<dots> = pads_input_view v (pads_of ?h1 b)"
    by (simp add: own(3) pads_clock_sync input_view_clock)
  finally have sync: "p_in_sync1 (pads_of ?h2 b) = pads_input_view v (pads_of ?h1 b)" .
  have bypass: "p_sync_bypass (pads_of ?h2 b) = p_sync_bypass (pads_of h b)"
    by (simp add: own2 pads_clock_eq frame2 own(3) frame)
  note before = pads_frame_inputs(2,3) [OF pads_frame_tick_before [of v b j ?h2]]
  show ?thesis
    unfolding Let_def input_level_eq before sync bypass by (intro conjI refl)
qed

text \<open>A pin whose output is disabled, driven high from outside: the machines read it low after one tick and
  high after two.\<close>

theorem synchroniser_two_ticks_witness:
  "let t = pio_sim_tick RP2350 (\<lambda>_ _ _ h. h) 0;
       h = pio_sim_set_pin RP2350 0 7 True
         (upd_pads (Embedded 0) (\<lambda>p. p\<lparr>p_pad_od := NOT 0\<rparr>) (pio_sim_init RP2350 0 store_zero))
   in \<not> pio_input_level RP2350 0 (t h) 7 \<and> pio_input_level RP2350 0 (t (t h)) 7"
proof -
  define h where "h = pio_sim_set_pin RP2350 0 7 True
    (upd_pads (Embedded 0) (\<lambda>p. p\<lparr>p_pad_od := NOT 0\<rparr>) (pio_sim_init RP2350 0 store_zero))"
  let ?h1 = "pio_sim_tick RP2350 (\<lambda>_ _ _ h. h) 0 h"
  have h: "pads_ptr_of h 0 = Embedded 0" "pio_on_tick (st_blk h 0) = None"
    by (simp_all add: h_def pio_sim_set_pin_def Let_def, simp add: pio_sim_init_def upd_blk_def blk_zero_def)
  have fields: "p_pad_od (pads_of h 0) = NOT 0" "p_pad_ie (pads_of h 0) = NOT 0" "p_pad_iso (pads_of h 0) = 0"
    "bit (p_ext_drive (pads_of h 0)) 7" "bit (p_ext_levels (pads_of h 0)) 7" "p_sync_bypass (pads_of h 0) = 0"
    "p_inover_inv (pads_of h 0) = 0" "p_inover_low (pads_of h 0) = 0" "p_inover_high (pads_of h 0) = 0"
    "p_in_sync0 (pads_of h 0) = 0"
    by (simp_all add: h_def pio_sim_set_pin_def Let_def init_pads pio_pads_init_defaults_def pads_zero_def bit_simps bit64_def PIO_SIM_NUM_PINS_def)
  note own = tick_own_pads(3) [OF h, where v = RP2350 and dev = "\<lambda>_ _ _ h. h"]
  note frame = pads_frame_inputs [OF tick_own_pads(4) [OF h, where v = RP2350]]
  have "bit (pads_input_view RP2350 (pads_of ?h1 0)) 7"
    by (simp add: own pads_clock_eq input_view_bit wire_level_def chip_oe_def override_pin_def frame fields bit_simps)
  then have "pio_input_level RP2350 0 (pio_sim_tick RP2350 (\<lambda>_ _ _ h. h) 0 ?h1) 7"
    using synchroniser_two_ticks [OF h, where v = RP2350 and dev = "\<lambda>_ _ _ h. h" and pin = 7]
    by (simp add: Let_def fields PIO_SIM_NUM_PINS_def)
  moreover have "\<not> pio_input_level RP2350 0 ?h1 7"
    by (simp add: input_level_eq Let_def own pads_clock_eq frame fields)
  ultimately show ?thesis unfolding Let_def h_def by blast
qed

section \<open>Run loops\<close>

text \<open>
  C25: \<open>pio_sim_run_until_rx\<close> returns after at most \<open>max_ticks\<close> ticks, with the number of ticks it ran;
  it stops early only when the RX FIFO holds a word, and at the first tick at which it does.
\<close>

theorem run_until_rx_bounded:
  assumes "pio_sim_run_until_rx v dev b sm max_ticks h = (h', t)"
  shows "t \<le> max_ticks \<and> h' = pio_sim_run v dev b t h \<and>
    (t < max_ticks \<longrightarrow> fifo_words (sm_rx (the_sm h' b (SM_IDX sm))) \<noteq> []) \<and>
    (\<forall>k < t. fifo_words (sm_rx (the_sm (pio_sim_run v dev b k h) b (SM_IDX sm))) = [])"
proof -
  let ?go = "\<lambda>h. pio_sim_sm_is_rx_fifo_empty (st_blk h b) sm"
  obtain n where n: "run_while ?go (pio_sim_tick v dev b) (unat max_ticks) h = (h', n)" "t = word_of_nat n"
    using assms by (auto simp: pio_sim_run_until_rx_def Let_def split: prod.splits)
  note r = run_while_stops [OF n(1)]
  have go: "?go h \<longleftrightarrow> fifo_words (sm_rx (the_sm h b (SM_IDX sm))) = []" for h
    by (simp add: pio_sim_sm_is_rx_fifo_empty_def the_sm_def)
  have t: "unat t = n"
    using r(1) unsigned_less [where 'a = nat, of max_ticks]
    by (simp add: n(2) unsigned_of_nat take_bit_nat_eq_self)
  show ?thesis
    using r unfolding go
    by (auto simp: word_le_nat_alt word_less_nat_alt t pio_sim_run_def simp del: fifo_words_Nil)
qed

theorem run_until_rx_bounded_witness:
  "let h = upd_sm 0 2 (\<lambda>s. fst (isr_drain s)) (pio_sim_init RP2040 0 store_zero)
   in fifo_words (sm_rx (the_sm (fst (pio_sim_run_until_rx RP2040 (\<lambda>_ _ _ h. h) 0 2 5 h)) 0 (SM_IDX 2))) \<noteq> []"
proof -
  let ?h = "upd_sm 0 2 (\<lambda>s. fst (isr_drain s)) (pio_sim_init RP2040 0 store_zero)"
  have "\<not> pio_sim_sm_is_rx_fifo_empty (st_blk ?h 0) 2"
    by (simp add: pio_sim_sm_is_rx_fifo_empty_def SM_IDX_def flip: the_sm_def)
       (simp add: init_sm isr_drain_eq sm_init_defaults_def sm_reset_exec_def sm_zero_def fifo_zero_def
         fifo_clear_def fifo_push_def)
  then have "pio_sim_run_until_rx RP2040 (\<lambda>_ _ _ h. h) 0 2 5 ?h = (?h, 0)"
    by (simp add: pio_sim_run_until_rx_def run_while_stopped)
  from run_until_rx_bounded [OF this] show ?thesis
    by (simp add: \<open>pio_sim_run_until_rx RP2040 (\<lambda>_ _ _ h. h) 0 2 5 ?h = (?h, 0)\<close> Let_def del: fifo_words_Nil)
qed

section \<open>Out-of-band instructions\<close>

lemma exec_one_seq:
  "sm_wf (the_sm h b i) \<Longrightarrow> sm_stalled (the_sm (fst (exec_one v b i insn h)) b i) = sm_stalled (the_sm h b i)"
  using seq_regs.exec_one [of h b i] by blast

lemma irq_self_target:
  assumes "operand AND 0x18 = 0"
  shows "resolve_irq_target v i (operand AND 0x1F) = \<lparr>t_index = operand AND 7, t_block = IRQ_BLOCK_SELF\<rparr>"
proof -
  have "(operand AND 0x1F) AND 0x18 = operand AND 0x18" "(operand AND 0x1F) AND 7 = operand AND 7"
    by (simp_all add: ac_simps)
  with assms show ?thesis by (cases v) (simp_all add: resolve_irq_target_def Let_def)
qed

text \<open>
  C26: An instruction injected with \<open>pio_sim_sm_exec\<close> clears the stall latch even of a state machine
  that is parked on its own \<open>irq n wait\<close>: after any injected instruction that commits, the parked
  instruction counts as presented for the first time, so it raises the flag again and stays stalled
  although the host has cleared the flag in between.
\<close>

theorem sm_exec_rearms_irq_wait:
  assumes "sm_wf (the_sm h b (SM_IDX sm))"
    and "fst (snd (exec_one v b (SM_IDX sm) insn (upd_sm b (SM_IDX sm) (\<lambda>s. s\<lparr>sm_stalled := False\<rparr>) h)))"
    and "drop_bit 6 operand AND 1 = 0" "drop_bit 5 operand AND 1 \<noteq> 0" "operand AND 0x18 = 0"
  shows "let h' = upd_blk b (pio_sim_irq_clear operand) (pio_sim_sm_exec v b sm insn h);
             (h'', stalled, pc) = exec_irq v b (SM_IDX sm) operand h'
         in stalled \<and> pio_sim_irq_get (st_blk h'' b) operand"
proof -
  let ?i = "SM_IDX sm"
  let ?h0 = "upd_sm b ?i (\<lambda>s. s\<lparr>sm_stalled := False\<rparr>) h"
  let ?h' = "upd_blk b (pio_sim_irq_clear operand) (pio_sim_sm_exec v b sm insn h)"
  have "sm_wf (the_sm ?h0 b ?i)" using assms(1) by (simp add: wf.stalled)
  then have "\<not> sm_stalled (the_sm (fst (exec_one v b ?i insn ?h0)) b ?i)"
    by (simp add: exec_one_seq)
  then have "\<not> sm_stalled (the_sm (pio_sim_sm_exec v b sm insn h) b ?i)"
    using assms(2) by (simp add: pio_sim_sm_exec_def Let_def split_beta split: option.split)
  then have st: "\<not> sm_stalled (the_sm ?h' b ?i)"
    by (simp add: irq_clear_upd the_sm_upd_irq_flags)
  note t = irq_self_target [OF assms(5), of v ?i]
  have blk: "irq_target_block v b ?h' (t_block (resolve_irq_target v ?i (operand AND 0x1F))) = Some b"
    by (simp add: t irq_target_block_def)
  have idx: "pio_sim_irq_get p (operand AND 7) = pio_sim_irq_get p operand" for p
    by (simp add: irq_get_bit ac_simps)
  show ?thesis
    using irq_wait_handshake [OF assms(3,4) blk] st by (simp add: t idx split_beta Let_def)
qed

theorem sm_exec_rearms_irq_wait_witness:
  "let h = upd_sm 0 0 (\<lambda>s. s\<lparr>sm_stalled := True\<rparr>) (pio_sim_init RP2040 0 store_zero);
       h' = upd_blk 0 (pio_sim_irq_clear 0x20) (pio_sim_sm_exec RP2040 0 0 0xE023 h);
       (h'', stalled, pc) = exec_irq RP2040 0 (SM_IDX 0) 0x20 h'
   in stalled \<and> pio_sim_irq_get (st_blk h'' 0) 0x20"
proof -
  let ?h = "upd_sm 0 0 (\<lambda>s. s\<lparr>sm_stalled := True\<rparr>) (pio_sim_init RP2040 0 store_zero)"
  have "sm_wf (the_sm ?h 0 (SM_IDX 0))"
    using sm_wf_init_defaults by (simp add: SM_IDX_def init_sm wf.stalled)
  moreover have "fst (snd (exec_one RP2040 0 (SM_IDX 0) 0xE023
      (upd_sm 0 (SM_IDX 0) (\<lambda>s. s\<lparr>sm_stalled := False\<rparr>) ?h)))"
    by (simp add: exec_one_def exec_op_def Let_def)
  ultimately show ?thesis
    using sm_exec_rearms_irq_wait [of ?h 0 0 RP2040 "0xE023" "0x20"] by (simp add: Let_def)
qed

section \<open>From an instruction to the wire\<close>

lemma find_last_unique:
  assumes "d \<in> set ds" "P d" "\<And>d'. d' \<in> set ds \<Longrightarrow> P d' \<Longrightarrow> snd d' = snd d"
  shows "\<exists>d'. List.find P (rev ds) = Some d' \<and> snd d' = snd d"
proof -
  have "List.find P (rev ds) \<noteq> None"
    using assms(1,2) by (metis find_None_iff set_rev)
  then obtain d' where d': "List.find P (rev ds) = Some d'" by auto
  then have "d' \<in> set (rev ds)" "P d'" by (metis find_Some_iff nth_mem)+
  then show ?thesis using d' assms(3) by simp
qed

text \<open>
  State machine \<open>i\<close> of block \<open>b\<close> is the only one that drives pin \<open>n\<close> of its block's pads: it is
  enabled and has claimed the direction as an output, it is a driver of the pads whose function mask
  passes the pin, and no other driver claims the pin or has written it.
\<close>

definition sole_driver :: "pio_store \<Rightarrow> nat \<Rightarrow> nat \<Rightarrow> nat \<Rightarrow> bool" where
  "sole_driver h b i n \<longleftrightarrow>
     (let s = the_sm h b i; ds = pad_drivers h (pads_of h b) in
      sm_enabled s \<and> bit (sm_dir_driven s) n \<and> bit (sm_out_pin_oe s) n \<and>
      (\<exists>k < unat (p_owner_count (pads_of h b)). p_owners (pads_of h b) k = b \<and> bit (p_pio_func_mask (pads_of h b) k) n) \<and>
      (\<forall>k < unat (p_owner_count (pads_of h b)). \<forall>j < 4.
         \<not> (p_owners (pads_of h b) k = b \<and> j = i) \<longrightarrow>
         \<not> bit (sm_dir_driven (the_sm h (p_owners (pads_of h b) k) j)) n \<and>
         \<not> bit (sm_wrote_this_cycle (the_sm h (p_owners (pads_of h b) k) j)) n))"

lemma pad_drivers_set:
  "set (pad_drivers h p) =
     (\<Union>k \<in> {0..<unat (p_owner_count p)}. (\<lambda>j. (p_pio_func_mask p k, the_sm h (p_owners p k) j)) ` {0..<4})"
  by (simp add: pad_drivers_def)

text \<open>Overrides, output disable and isolation leave pin \<open>n\<close> alone.\<close>

definition plain_pad :: "pio_version \<Rightarrow> pio_pads_t \<Rightarrow> nat \<Rightarrow> bool" where
  "plain_pad v p n \<longleftrightarrow>
     \<not> bit (p_oeover_inv p) n \<and> \<not> bit (p_oeover_low p) n \<and> \<not> bit (p_oeover_high p) n \<and>
     \<not> bit (p_outover_inv p) n \<and> \<not> bit (p_outover_low p) n \<and> \<not> bit (p_outover_high p) n \<and>
     \<not> bit (p_pad_od p) n \<and> \<not> (PIO_SIM_HAS_PAD_ISO v \<and> bit (p_pad_iso p) n)"

lemma plain_output_level:
  "plain_pad v p n \<Longrightarrow> n < 64 \<Longrightarrow> bit (p_pin_dirs p) n \<Longrightarrow> wire_level v p n = bit (p_pin_levels p) n"
  by (auto simp: plain_pad_def wire_level_def chip_oe_def chip_level_def mux_oe_def mux_level_def
      override_pin_def)

lemma plain_pad_frame: "pads_frame p = pads_frame p' \<Longrightarrow> plain_pad v p n = plain_pad v p' n"
  by (cases p; cases p') (simp add: pads_frame_def plain_pad_def)

text \<open>A sole driver that has written the pin decides its level.\<close>

lemma resolve_sole_driver:
  assumes "sole_driver h b i n" "i < 4" "bit (sm_wrote_this_cycle (the_sm h b i)) n"
  shows "bit (p_pin_dirs (pads_of (pio_pads_resolve (pads_ptr_of h b) h) b)) n"
    and "bit (p_pin_levels (pads_of (pio_pads_resolve (pads_ptr_of h b) h) b)) n =
      bit (sm_out_pin_val (the_sm h b i)) n"
proof -
  let ?p = "pads_of h b" and ?s = "the_sm h b i"
  let ?ds = "pad_drivers h ?p"
  have s: "sm_enabled ?s" "bit (sm_dir_driven ?s) n" "bit (sm_out_pin_oe ?s) n"
    using assms(1) by (simp_all add: sole_driver_def Let_def)
  obtain k where k: "k < unat (p_owner_count ?p)" "p_owners ?p k = b" "bit (p_pio_func_mask ?p k) n"
    using assms(1) by (auto simp: sole_driver_def Let_def)
  let ?d = "(p_pio_func_mask ?p k, ?s)"
  have "?d \<in> (\<lambda>j. (p_pio_func_mask ?p k, the_sm h (p_owners ?p k) j)) ` {0..<4}"
    using assms(2) k(2) by (intro image_eqI [of _ _ i]) simp_all
  then have d: "?d \<in> set ?ds" unfolding pad_drivers_set using k(1) by (intro UN_I [of k]) simp_all
  have only: "snd d' = ?s"
    if mem: "d' \<in> set ?ds" and claim: "bit (sm_dir_driven (snd d')) n \<or> bit (sm_wrote_this_cycle (snd d')) n" for d'
  proof -
    obtain k' j where "k' < unat (p_owner_count ?p)" "j < 4"
      "d' = (p_pio_func_mask ?p k', the_sm h (p_owners ?p k') j)"
      using mem unfolding pad_drivers_set by (elim UN_E imageE) auto
    moreover from this have "p_owners ?p k' = b \<and> j = i"
      using claim assms(1) unfolding sole_driver_def Let_def by (metis snd_conv)
    ultimately show ?thesis by simp
  qed
  have "\<exists>d'. List.find (\<lambda>d. sm_enabled (snd d) \<and> claims_dir n d) (rev ?ds) = Some d' \<and> snd d' = snd ?d"
    using d s k(3) by (intro find_last_unique) (auto simp: claims_dir_def dest: only)
  then obtain d1 where "List.find (\<lambda>d. sm_enabled (snd d) \<and> claims_dir n d) (rev ?ds) = Some d1" "snd d1 = ?s"
    by auto
  then have "dir_winner n ?ds = Some d1" by (simp add: dir_winner_def)
  then show "bit (p_pin_dirs (pads_of (pio_pads_resolve (pads_ptr_of h b) h) b)) n"
    using s(3) \<open>snd d1 = ?s\<close> by (simp add: resolve_dirs_bit)
  have "\<exists>d'. List.find (wrote_pin n) (rev ?ds) = Some d' \<and> snd d' = snd ?d"
    using d assms(3) k(3) by (intro find_last_unique) (auto simp: wrote_pin_def dest: only)
  then obtain d2 where "List.find (wrote_pin n) (rev ?ds) = Some d2" "snd d2 = ?s" by auto
  then show "bit (p_pin_levels (pads_of (pio_pads_resolve (pads_ptr_of h b) h) b)) n =
      bit (sm_out_pin_val ?s) n"
    by (simp add: resolve_levels_bit)
qed

lemma sole_driver_upd:
  "sole_driver (upd_sm b i (\<lambda>s. s\<lparr>sm_out_pin_val := m, sm_wrote_this_cycle := m'\<rparr>) h) b i n =
     sole_driver h b i n"
  by (simp add: sole_driver_def Let_def cong: imp_cong) blast

lemma drive_pins_eq:
  "drive_pins v b i base count val h =
     (let s = the_sm (drive_pins v b i base count val h) b i;
          h1 = upd_sm b i (\<lambda>t. t\<lparr>sm_out_pin_val := sm_out_pin_val s,
                 sm_wrote_this_cycle := sm_wrote_this_cycle s\<rparr>) h
      in pio_pads_resolve (pads_ptr_of h1 b) h1)"
  unfolding drive_pins_def Let_def fold_drive_pin_bit
  by (simp add: upd_sm_def upd_blk_def blk_upd_sm_def the_sm_def)

text \<open>
  What a state machine writes to its pins is what the host reads.  When it is the only driver of a
  pin, drives it as an output, and the pad has no override, output disable or isolation, a pin write
  (OUT, SET, MOV or side-set) puts bit \<open>k\<close> of the value on the wire of the pin at position \<open>k\<close> of
  its span, through the pin window and the resolution.
\<close>

lemma driven_pin_is_read:
  assumes "gpio_base_wf (st_blk h b)" "i < 4" "k < unat (clamp_pin_count count)"
    and "unat pin mod PIO_SIM_NUM_PINS v = span_pin v (st_blk h b) base k"
    and "sole_driver h b i (span_pin v (st_blk h b) base k)"
    and "plain_pad v (pads_of h b) (span_pin v (st_blk h b) base k)"
  shows "pio_sim_get_pin v b (drive_pins v b i base count val h) pin = bit val k"
proof -
  define n where "n = span_pin v (st_blk h b) base k"
  let ?h = "drive_pins v b i base count val h"
  let ?s = "the_sm ?h b i"
  define h1 where "h1 = upd_sm b i (\<lambda>s. s\<lparr>sm_out_pin_val := sm_out_pin_val ?s,
        sm_wrote_this_cycle := sm_wrote_this_cycle ?s\<rparr>) h"
  have h: "?h = pio_pads_resolve (pads_ptr_of h1 b) h1"
    unfolding h1_def by (subst drive_pins_eq) (simp only: Let_def)
  have val: "bit (sm_out_pin_val ?s) n = bit val k" "bit (sm_wrote_this_cycle ?s) n"
    using drive_pins_regs(2) [OF assms(1,3)] imageI [of k "{..<unat (clamp_pin_count count)}"
      "span_pin v (st_blk h b) base"] assms(3)
    by (simp_all only: n_def drive_pins_regs(4) lessThan_iff simp_thms)
  have s1: "the_sm h1 b i = (the_sm h b i)\<lparr>sm_out_pin_val := sm_out_pin_val ?s,
        sm_wrote_this_cycle := sm_wrote_this_cycle ?s\<rparr>"
    by (simp add: h1_def)
  have sole: "sole_driver h1 b i n" unfolding h1_def sole_driver_upd n_def by (rule assms(5))
  have w: "bit (sm_wrote_this_cycle (the_sm h1 b i)) n" "bit (sm_out_pin_val (the_sm h1 b i)) n = bit val k"
    unfolding s1 using val by simp_all
  note res = resolve_sole_driver [OF sole assms(2) w(1)]
  have "bit (p_pin_dirs (pads_of ?h b)) n" unfolding h by (rule res(1))
  moreover have "bit (p_pin_levels (pads_of ?h b)) n = bit val k"
    unfolding h by (rule trans [OF res(2) w(2)])
  moreover have "plain_pad v (pads_of ?h b) n"
  proof -
    have "pads_frame (pads_of ?h b) = pads_frame (pads_of h b)"
      using exec_frame_pins(1) [of b i h v base count val] by (simp add: exec_frame_def)
    then have "plain_pad v (pads_of ?h b) n = plain_pad v (pads_of h b) n" by (rule plain_pad_frame)
    with assms(6) show ?thesis by (simp only: n_def)
  qed
  moreover have "n < 64" by (simp add: n_def)
  ultimately show ?thesis
    using plain_output_level [of v "pads_of ?h b" n] assms(4) by (simp add: get_pin_level n_def)
qed

end
