(* ===== verification/Pio_Gpio.thy ===== *)
theory Pio_Gpio
  imports Pio_Run
begin

text \<open>
  The GPIO registers (\<open>lib/src/pio_gpio.c\<close>): the function mux with its routing caches, the three
  overrides, the output of the other peripherals, and the pad registers with isolation.  All of them
  are fields of the pad set the block is wired to.  The locale \<open>pin_register\<close> is the contract of a
  one-bit-per-pin register, interpreted for each of them.
\<close>

section \<open>Registers\<close>

definition pin_idx :: "pio_version \<Rightarrow> u8 \<Rightarrow> nat" where
  "pin_idx v pin = unat pin mod PIO_SIM_NUM_PINS v"

definition pin_bit :: "pio_version \<Rightarrow> u8 \<Rightarrow> u64" where
  "pin_bit v pin = bit64 (unat pin mod PIO_SIM_NUM_PINS v)"

definition mask_set :: "u64 \<Rightarrow> bool \<Rightarrow> u64 \<Rightarrow> u64" where
  "mask_set b on m = (if on then m OR b else m AND NOT b)"

section \<open>Function routing\<close>

text \<open>
  The values of \<open>pio_gpio_func_t\<close> the code tests for.  An argument of the enumeration type is a
  32-bit number, as a caller may pass any value.
\<close>

abbreviation (input) PIO_GPIO_FUNC_PIO0 :: nat where "PIO_GPIO_FUNC_PIO0 \<equiv> 6"
abbreviation (input) PIO_GPIO_FUNC_NULL :: nat where "PIO_GPIO_FUNC_NULL \<equiv> 0x1F"
abbreviation (input) PIO_GPIO_FUNC_LEGACY_ANY_PIO :: nat where "PIO_GPIO_FUNC_LEGACY_ANY_PIO \<equiv> 0xFF"

text \<open>One iteration of the pin loop of \<open>pio_pads_apply_funcsel\<close>.\<close>

definition route_pin :: "pio_version \<Rightarrow> nat \<Rightarrow> pio_pads_t \<Rightarrow> pio_pads_t" where
  "route_pin v i p =
     (let b = bit64 i; f = unat (p_funcsel p i)
      in if f = PIO_GPIO_FUNC_LEGACY_ANY_PIO
         then p\<lparr>p_pio_func_mask := (\<lambda>s. if s < PIO_SIM_NUM_PIO v then p_pio_func_mask p s OR b
                                      else p_pio_func_mask p s)\<rparr>
         else if PIO_GPIO_FUNC_PIO0 \<le> f \<and> f < PIO_GPIO_FUNC_PIO0 + PIO_SIM_NUM_PIO v
         then p\<lparr>p_pio_func_mask := (p_pio_func_mask p)
                  (f - PIO_GPIO_FUNC_PIO0 := p_pio_func_mask p (f - PIO_GPIO_FUNC_PIO0) OR b)\<rparr>
         else if f \<noteq> PIO_GPIO_FUNC_NULL then p\<lparr>p_periph_sel_mask := p_periph_sel_mask p OR b\<rparr>
         else p)"

definition route_pins :: "pio_version \<Rightarrow> pio_pads_t \<Rightarrow> pio_pads_t" where
  "route_pins v p =
     fold (route_pin v) [0..<PIO_SIM_NUM_PINS v]
       (p\<lparr>p_pio_func_mask := (\<lambda>s. if s < PIO_SIM_NUM_PIO v then 0 else p_pio_func_mask p s),
          p_periph_sel_mask := 0\<rparr>)"

definition pio_pads_apply_funcsel :: "pio_version \<Rightarrow> pads_ptr \<Rightarrow> pio_store \<Rightarrow> pio_store" where
  "pio_pads_apply_funcsel v q h = pio_pads_resolve q (upd_pads q (route_pins v) h)"

definition pio_sim_gpio_set_function ::
  "pio_version \<Rightarrow> nat \<Rightarrow> u8 \<Rightarrow> u32 \<Rightarrow> pio_store \<Rightarrow> pio_store" where
  "pio_sim_gpio_set_function v b pin f h =
     (let raw = (if f = of_nat PIO_GPIO_FUNC_LEGACY_ANY_PIO then ucast f else ucast f AND 0x1F :: u8);
          h = upd_pads (pads_ptr_of h b)
                (\<lambda>p. p\<lparr>p_funcsel := (p_funcsel p)(pin_idx v pin := raw)\<rparr>) h
      in pio_pads_apply_funcsel v (pads_ptr_of h b) h)"

definition pio_sim_gpio_get_function :: "pio_version \<Rightarrow> nat \<Rightarrow> pio_store \<Rightarrow> u8 \<Rightarrow> u32" where
  "pio_sim_gpio_get_function v b h pin = ucast (p_funcsel (pads_of h b) (pin_idx v pin))"

section \<open>Overrides\<close>

datatype pio_gpio_override_t =
  PIO_GPIO_OVERRIDE_NORMAL | PIO_GPIO_OVERRIDE_INVERT | PIO_GPIO_OVERRIDE_LOW | PIO_GPIO_OVERRIDE_HIGH

text \<open>\<open>set_override\<close> writes three masks through pointers: it maps the triple of their old values.\<close>

definition set_override :: "u64 \<Rightarrow> pio_gpio_override_t \<Rightarrow> u64 \<times> u64 \<times> u64 \<Rightarrow> u64 \<times> u64 \<times> u64" where
  "set_override b ov ms =
     (case ms of (neg, low, high) \<Rightarrow>
       (mask_set b (ov = PIO_GPIO_OVERRIDE_INVERT) neg,
        mask_set b (ov = PIO_GPIO_OVERRIDE_LOW) low,
        mask_set b (ov = PIO_GPIO_OVERRIDE_HIGH) high))"

definition pio_sim_gpio_set_outover ::
  "pio_version \<Rightarrow> nat \<Rightarrow> u8 \<Rightarrow> pio_gpio_override_t \<Rightarrow> pio_store \<Rightarrow> pio_store" where
  "pio_sim_gpio_set_outover v b pin ov h =
     upd_pads (pads_ptr_of h b) (\<lambda>p.
       case set_override (pin_bit v pin) ov (p_outover_inv p, p_outover_low p, p_outover_high p) of
         (neg, low, high) \<Rightarrow> p\<lparr>p_outover_inv := neg, p_outover_low := low, p_outover_high := high\<rparr>) h"

definition pio_sim_gpio_set_oeover ::
  "pio_version \<Rightarrow> nat \<Rightarrow> u8 \<Rightarrow> pio_gpio_override_t \<Rightarrow> pio_store \<Rightarrow> pio_store" where
  "pio_sim_gpio_set_oeover v b pin ov h =
     upd_pads (pads_ptr_of h b) (\<lambda>p.
       case set_override (pin_bit v pin) ov (p_oeover_inv p, p_oeover_low p, p_oeover_high p) of
         (neg, low, high) \<Rightarrow> p\<lparr>p_oeover_inv := neg, p_oeover_low := low, p_oeover_high := high\<rparr>) h"

definition pio_sim_gpio_set_inover ::
  "pio_version \<Rightarrow> nat \<Rightarrow> u8 \<Rightarrow> pio_gpio_override_t \<Rightarrow> pio_store \<Rightarrow> pio_store" where
  "pio_sim_gpio_set_inover v b pin ov h =
     upd_pads (pads_ptr_of h b) (\<lambda>p.
       case set_override (pin_bit v pin) ov (p_inover_inv p, p_inover_low p, p_inover_high p) of
         (neg, low, high) \<Rightarrow> p\<lparr>p_inover_inv := neg, p_inover_low := low, p_inover_high := high\<rparr>) h"

definition get_override :: "u64 \<Rightarrow> u64 \<Rightarrow> u64 \<Rightarrow> u64 \<Rightarrow> pio_gpio_override_t" where
  "get_override neg low high b =
     (if high AND b \<noteq> 0 then PIO_GPIO_OVERRIDE_HIGH
      else if low AND b \<noteq> 0 then PIO_GPIO_OVERRIDE_LOW
      else if neg AND b \<noteq> 0 then PIO_GPIO_OVERRIDE_INVERT
      else PIO_GPIO_OVERRIDE_NORMAL)"

definition pio_sim_gpio_get_outover :: "pio_version \<Rightarrow> nat \<Rightarrow> pio_store \<Rightarrow> u8 \<Rightarrow> pio_gpio_override_t" where
  "pio_sim_gpio_get_outover v b h pin =
     (let p = pads_of h b in get_override (p_outover_inv p) (p_outover_low p) (p_outover_high p) (pin_bit v pin))"

definition pio_sim_gpio_get_oeover :: "pio_version \<Rightarrow> nat \<Rightarrow> pio_store \<Rightarrow> u8 \<Rightarrow> pio_gpio_override_t" where
  "pio_sim_gpio_get_oeover v b h pin =
     (let p = pads_of h b in get_override (p_oeover_inv p) (p_oeover_low p) (p_oeover_high p) (pin_bit v pin))"

definition pio_sim_gpio_get_inover :: "pio_version \<Rightarrow> nat \<Rightarrow> pio_store \<Rightarrow> u8 \<Rightarrow> pio_gpio_override_t" where
  "pio_sim_gpio_get_inover v b h pin =
     (let p = pads_of h b in get_override (p_inover_inv p) (p_inover_low p) (p_inover_high p) (pin_bit v pin))"

section \<open>Output of the other peripherals\<close>

definition pio_sim_gpio_set_periph_output ::
  "pio_version \<Rightarrow> nat \<Rightarrow> u8 \<Rightarrow> bool \<Rightarrow> bool \<Rightarrow> pio_store \<Rightarrow> pio_store" where
  "pio_sim_gpio_set_periph_output v b pin oe level h =
     upd_pads (pads_ptr_of h b) (\<lambda>p. p\<lparr>p_periph_oe := mask_set (pin_bit v pin) oe (p_periph_oe p),
       p_periph_level := mask_set (pin_bit v pin) level (p_periph_level p)\<rparr>) h"

definition pio_sim_gpio_get_periph_output :: "pio_version \<Rightarrow> nat \<Rightarrow> pio_store \<Rightarrow> u8 \<Rightarrow> bool \<times> bool" where
  "pio_sim_gpio_get_periph_output v b h pin =
     (p_periph_oe (pads_of h b) AND pin_bit v pin \<noteq> 0, p_periph_level (pads_of h b) AND pin_bit v pin \<noteq> 0)"

section \<open>Pad registers\<close>

definition pio_sim_pad_set_input_enable :: "pio_version \<Rightarrow> nat \<Rightarrow> u8 \<Rightarrow> bool \<Rightarrow> pio_store \<Rightarrow> pio_store" where
  "pio_sim_pad_set_input_enable v b pin ie h =
     upd_pads (pads_ptr_of h b) (\<lambda>p. p\<lparr>p_pad_ie := mask_set (pin_bit v pin) ie (p_pad_ie p)\<rparr>) h"

definition pio_sim_pad_set_output_disable :: "pio_version \<Rightarrow> nat \<Rightarrow> u8 \<Rightarrow> bool \<Rightarrow> pio_store \<Rightarrow> pio_store" where
  "pio_sim_pad_set_output_disable v b pin od h =
     upd_pads (pads_ptr_of h b) (\<lambda>p. p\<lparr>p_pad_od := mask_set (pin_bit v pin) od (p_pad_od p)\<rparr>) h"

definition pio_sim_pad_get_input_enable :: "pio_version \<Rightarrow> nat \<Rightarrow> pio_store \<Rightarrow> u8 \<Rightarrow> bool" where
  "pio_sim_pad_get_input_enable v b h pin \<longleftrightarrow> p_pad_ie (pads_of h b) AND pin_bit v pin \<noteq> 0"

definition pio_sim_pad_get_output_disable :: "pio_version \<Rightarrow> nat \<Rightarrow> pio_store \<Rightarrow> u8 \<Rightarrow> bool" where
  "pio_sim_pad_get_output_disable v b h pin \<longleftrightarrow> p_pad_od (pads_of h b) AND pin_bit v pin \<noteq> 0"

definition pio_sim_pad_set_pulls :: "pio_version \<Rightarrow> nat \<Rightarrow> u8 \<Rightarrow> bool \<Rightarrow> bool \<Rightarrow> pio_store \<Rightarrow> pio_store" where
  "pio_sim_pad_set_pulls v b pin up down h =
     upd_pads (pads_ptr_of h b) (\<lambda>p. p\<lparr>p_pad_pue := mask_set (pin_bit v pin) up (p_pad_pue p),
       p_pad_pde := mask_set (pin_bit v pin) down (p_pad_pde p)\<rparr>) h"

definition pio_sim_pad_get_pulls :: "pio_version \<Rightarrow> nat \<Rightarrow> pio_store \<Rightarrow> u8 \<Rightarrow> bool \<times> bool" where
  "pio_sim_pad_get_pulls v b h pin =
     (p_pad_pue (pads_of h b) AND pin_bit v pin \<noteq> 0, p_pad_pde (pads_of h b) AND pin_bit v pin \<noteq> 0)"

text \<open>The analog configuration byte: DRIVE in bits 0 and 1, SLEWFAST in bit 2, SCHMITT in bit 3.\<close>

definition upd_pad_cfg :: "pio_version \<Rightarrow> nat \<Rightarrow> u8 \<Rightarrow> (u8 \<Rightarrow> u8) \<Rightarrow> pio_store \<Rightarrow> pio_store" where
  "upd_pad_cfg v b pin f h =
     upd_pads (pads_ptr_of h b) (\<lambda>p. p\<lparr>p_pad_cfg := (p_pad_cfg p)(pin_idx v pin := f (p_pad_cfg p (pin_idx v pin)))\<rparr>) h"

definition pio_sim_pad_set_drive :: "pio_version \<Rightarrow> nat \<Rightarrow> u8 \<Rightarrow> u8 \<Rightarrow> pio_store \<Rightarrow> pio_store" where
  "pio_sim_pad_set_drive v b pin drive = upd_pad_cfg v b pin (\<lambda>cfg. (cfg AND NOT 3) OR (drive AND 3))"

definition pio_sim_pad_set_slew_fast :: "pio_version \<Rightarrow> nat \<Rightarrow> u8 \<Rightarrow> bool \<Rightarrow> pio_store \<Rightarrow> pio_store" where
  "pio_sim_pad_set_slew_fast v b pin fast =
     upd_pad_cfg v b pin (\<lambda>cfg. if fast then cfg OR 4 else cfg AND NOT 4)"

definition pio_sim_pad_set_schmitt :: "pio_version \<Rightarrow> nat \<Rightarrow> u8 \<Rightarrow> bool \<Rightarrow> pio_store \<Rightarrow> pio_store" where
  "pio_sim_pad_set_schmitt v b pin enable =
     upd_pad_cfg v b pin (\<lambda>cfg. if enable then cfg OR 8 else cfg AND NOT 8)"

definition pio_sim_pad_get_drive :: "pio_version \<Rightarrow> nat \<Rightarrow> pio_store \<Rightarrow> u8 \<Rightarrow> u8" where
  "pio_sim_pad_get_drive v b h pin = p_pad_cfg (pads_of h b) (pin_idx v pin) AND 3"

definition pio_sim_pad_get_slew_fast :: "pio_version \<Rightarrow> nat \<Rightarrow> pio_store \<Rightarrow> u8 \<Rightarrow> bool" where
  "pio_sim_pad_get_slew_fast v b h pin \<longleftrightarrow> p_pad_cfg (pads_of h b) (pin_idx v pin) AND 4 \<noteq> 0"

definition pio_sim_pad_get_schmitt :: "pio_version \<Rightarrow> nat \<Rightarrow> pio_store \<Rightarrow> u8 \<Rightarrow> bool" where
  "pio_sim_pad_get_schmitt v b h pin \<longleftrightarrow> p_pad_cfg (pads_of h b) (pin_idx v pin) AND 8 \<noteq> 0"

text \<open>Pad isolation exists on the RP2350 only; the two functions are compiled for that version.\<close>

definition pio_sim_pad_set_iso :: "nat \<Rightarrow> u8 \<Rightarrow> bool \<Rightarrow> pio_store \<Rightarrow> pio_store" where
  "pio_sim_pad_set_iso b pin on h =
     upd_pads (pads_ptr_of h b) (\<lambda>p.
       let m = pin_bit RP2350 pin;
           p = (if on \<and> p_pad_iso p AND m = 0
                then let (oe, lvl) = pio_pads_chip_drive RP2350 p
                     in p\<lparr>p_iso_oe := mask_set m (oe AND m \<noteq> 0) (p_iso_oe p),
                          p_iso_levels := mask_set m (lvl AND m \<noteq> 0) (p_iso_levels p)\<rparr>
                else p)
       in p\<lparr>p_pad_iso := mask_set m on (p_pad_iso p)\<rparr>) h"

definition pio_sim_pad_get_iso :: "nat \<Rightarrow> pio_store \<Rightarrow> u8 \<Rightarrow> bool" where
  "pio_sim_pad_get_iso b h pin \<longleftrightarrow> p_pad_iso (pads_of h b) AND pin_bit RP2350 pin \<noteq> 0"

definition pio_sim_pads_reset_hw :: "pio_version \<Rightarrow> nat \<Rightarrow> pio_store \<Rightarrow> pio_store" where
  "pio_sim_pads_reset_hw v b h =
     upd_pads (pads_ptr_of h b) (\<lambda>p.
       let p = p\<lparr>p_pad_ie := NOT 0, p_pad_od := 0, p_pad_pue := 0, p_pad_pde := NOT 0, p_keep_state := 0,
                 p_pad_cfg := (\<lambda>i. if i < PIO_SIM_NUM_PINS v then 1 OR 8 else p_pad_cfg p i)\<rparr>
       in if PIO_SIM_HAS_PAD_ISO v then p\<lparr>p_pad_iso := NOT 0, p_iso_oe := 0, p_iso_levels := 0\<rparr> else p) h"

section \<open>Registers with one bit per pin\<close>

lemma pin_idx_less: "pin_idx v pin < 64"
  by (simp add: pin_idx_def mod_num_pins_less)

lemma pin_bit_idx: "pin_bit v pin = bit64 (pin_idx v pin)"
  by (simp add: pin_bit_def pin_idx_def)

lemma bit_mask_set: "bit (mask_set (pin_bit v pin) on m) k = (if k = pin_idx v pin then on else bit m k)"
  using pin_idx_less [of v pin] by (auto simp: mask_set_def pin_bit_idx word_bits dest: word_bit_lt)

lemma and_pin_bit: "m AND pin_bit v pin \<noteq> 0 \<longleftrightarrow> bit m (pin_idx v pin)"
  by (simp add: pin_bit_idx and_bit64_nonzero pin_idx_less)

locale pin_register =
  fixes reg :: "pio_pads_t \<Rightarrow> u64"
    and upd :: "(u64 \<Rightarrow> u64) \<Rightarrow> pio_pads_t \<Rightarrow> pio_pads_t"
  assumes reg_upd: "reg (upd f p) = f (reg p)"
begin

lemma read_back: "reg (upd (mask_set (pin_bit v pin) on) p) AND pin_bit v pin' \<noteq> 0 \<longleftrightarrow>
    (if pin_idx v pin' = pin_idx v pin then on else reg p AND pin_bit v pin' \<noteq> 0)"
  unfolding reg_upd and_pin_bit bit_mask_set by simp

end

interpretation ie: pin_register p_pad_ie p_pad_ie_update by unfold_locales simp
interpretation od: pin_register p_pad_od p_pad_od_update by unfold_locales simp
interpretation pue: pin_register p_pad_pue p_pad_pue_update by unfold_locales simp
interpretation pde: pin_register p_pad_pde p_pad_pde_update by unfold_locales simp
interpretation periph_oe: pin_register p_periph_oe p_periph_oe_update by unfold_locales simp
interpretation periph_level: pin_register p_periph_level p_periph_level_update by unfold_locales simp
interpretation iso_reg: pin_register p_pad_iso p_pad_iso_update by unfold_locales simp

section \<open>Routing, pin by pin\<close>

text \<open>Function \<open>f\<close> lets owner slot \<open>s\<close> drive the pin; \<open>f\<close> is a function other than the PIO blocks'.\<close>

definition selects_slot :: "nat \<Rightarrow> nat \<Rightarrow> bool" where
  "selects_slot f s \<longleftrightarrow> f = PIO_GPIO_FUNC_LEGACY_ANY_PIO \<or> f = PIO_GPIO_FUNC_PIO0 + s"

definition selects_periph :: "pio_version \<Rightarrow> nat \<Rightarrow> bool" where
  "selects_periph v f \<longleftrightarrow> f \<noteq> PIO_GPIO_FUNC_LEGACY_ANY_PIO \<and> f \<noteq> PIO_GPIO_FUNC_NULL \<and>
     \<not> (PIO_GPIO_FUNC_PIO0 \<le> f \<and> f < PIO_GPIO_FUNC_PIO0 + PIO_SIM_NUM_PIO v)"

lemma route_pin_fields:
  "p_funcsel (route_pin v i p) = p_funcsel p"
  "bit (p_pio_func_mask (route_pin v i p) s) k \<longleftrightarrow> bit (p_pio_func_mask p s) k \<or>
     (s < PIO_SIM_NUM_PIO v \<and> k = i \<and> i < 64 \<and> selects_slot (unat (p_funcsel p i)) s)"
  "bit (p_periph_sel_mask (route_pin v i p)) k \<longleftrightarrow> bit (p_periph_sel_mask p) k \<or>
     (k = i \<and> i < 64 \<and> selects_periph v (unat (p_funcsel p i)))"
  by (auto simp: route_pin_def Let_def selects_slot_def selects_periph_def word_bits PIO_SIM_NUM_PIO_def
      split: pio_version.splits)

lemma fold_route_pin:
  "p_funcsel (fold (route_pin v) [0..<n] p) = p_funcsel p \<and>
   (bit (p_pio_func_mask (fold (route_pin v) [0..<n] p) s) k \<longleftrightarrow> bit (p_pio_func_mask p s) k \<or>
      (s < PIO_SIM_NUM_PIO v \<and> k < n \<and> k < 64 \<and> selects_slot (unat (p_funcsel p k)) s)) \<and>
   (bit (p_periph_sel_mask (fold (route_pin v) [0..<n] p)) k \<longleftrightarrow> bit (p_periph_sel_mask p) k \<or>
      (k < n \<and> k < 64 \<and> selects_periph v (unat (p_funcsel p k))))"
proof (induction n)
  case 0
  then show ?case by simp
next
  case (Suc n)
  then show ?case by (auto simp: route_pin_fields less_Suc_eq)
qed

lemma route_pins_mask:
  assumes "k < PIO_SIM_NUM_PINS v"
  shows "s < PIO_SIM_NUM_PIO v \<Longrightarrow>
      bit (p_pio_func_mask (route_pins v p) s) k \<longleftrightarrow> selects_slot (unat (p_funcsel p k)) s"
    and "bit (p_periph_sel_mask (route_pins v p)) k \<longleftrightarrow> selects_periph v (unat (p_funcsel p k))"
  using assms num_pins_bounds(2) [of v] by (auto simp: route_pins_def fold_route_pin)

lemma route_pin_frame:
  "p_owners (route_pin v i p) = p_owners p" "p_owner_count (route_pin v i p) = p_owner_count p"
  "p_periph_oe (route_pin v i p) = p_periph_oe p" "p_funcsel (route_pin v i p) = p_funcsel p"
  by (simp_all add: route_pin_def Let_def)

lemma fold_route_pin_frame:
  "p_owners (fold (route_pin v) is p) = p_owners p" "p_owner_count (fold (route_pin v) is p) = p_owner_count p"
  "p_periph_oe (fold (route_pin v) is p) = p_periph_oe p" "p_funcsel (fold (route_pin v) is p) = p_funcsel p"
  by (induction "is" arbitrary: p) (simp_all add: route_pin_frame)

lemma route_pins_frame:
  "p_owners (route_pins v p) = p_owners p" "p_owner_count (route_pins v p) = p_owner_count p"
  "p_periph_oe (route_pins v p) = p_periph_oe p" "p_funcsel (route_pins v p) = p_funcsel p"
  by (simp_all add: route_pins_def fold_route_pin_frame)

text \<open>Only drivers whose function mask has the pin can win it.\<close>

lemma dir_winner_masked: "dir_winner k ds = dir_winner k (filter (\<lambda>d. bit (fst d) k) ds)"
proof -
  have f: "List.find P xs = List.find P (filter Q xs)" if "\<And>x. P x \<Longrightarrow> Q x" for P Q and xs :: "'a list"
    using that by (induction xs) auto
  show ?thesis
    unfolding dir_winner_def rev_filter
    using f [of "\<lambda>d. sm_enabled (snd d) \<and> claims_dir k d" "\<lambda>d. bit (fst d) k" "rev ds"]
      f [of "\<lambda>d. \<not> sm_enabled (snd d) \<and> claims_dir k d" "\<lambda>d. bit (fst d) k" "rev ds"]
    by (simp add: claims_dir_def split: option.split)
qed

text \<open>The state machines of the owner slots in \<open>S\<close>, in resolution order.\<close>

definition slot_drivers :: "(nat \<Rightarrow> bool) \<Rightarrow> pio_store \<Rightarrow> pio_pads_t \<Rightarrow> (u64 \<times> pio_sm_t) list" where
  "slot_drivers S h p =
     concat (map (\<lambda>s. map (\<lambda>i. (p_pio_func_mask p s, the_sm h (p_owners p s) i)) [0..<PIO_SIM_NUM_SM])
       (filter S [0..<unat (p_owner_count p)]))"

lemma pad_drivers_masked:
  "filter (\<lambda>d. bit (fst d) k) (pad_drivers h p) = slot_drivers (\<lambda>s. bit (p_pio_func_mask p s) k) h p"
proof -
  have "filter (\<lambda>d. bit (fst d) k) (concat (map (\<lambda>s. map (\<lambda>i. (m s, f s i)) (is :: nat list)) ss)) =
      concat (map (\<lambda>s. map (\<lambda>i. (m s, f s i)) is) (filter (\<lambda>s. bit (m s) k) ss))"
    for m :: "nat \<Rightarrow> u64" and f :: "nat \<Rightarrow> nat \<Rightarrow> pio_sm_t" and "is" ss
    by (induction ss) (simp_all add: filter_map comp_def)
  then show ?thesis by (simp only: pad_drivers_def slot_drivers_def)
qed

lemma slot_drivers_cong:
  assumes "\<And>s. s < unat (p_owner_count p) \<Longrightarrow> S s = S' s"
  shows "slot_drivers S h p = slot_drivers S' h p"
proof -
  have "filter S [0..<unat (p_owner_count p)] = filter S' [0..<unat (p_owner_count p)]"
    using assms by (auto intro: filter_cong)
  then show ?thesis by (simp only: slot_drivers_def)
qed

lemma slot_drivers_none: "(\<And>s. s < unat (p_owner_count p) \<Longrightarrow> \<not> S s) \<Longrightarrow> slot_drivers S h p = []"
  using slot_drivers_cong [of p S "\<lambda>_. False" h] by (simp add: slot_drivers_def)

lemma slot_drivers_resolve:
  "slot_drivers S (pio_pads_resolve q h) (get_pads (pio_pads_resolve q h) q) = slot_drivers S h (get_pads h q)"
  by (subst (2) resolve_eq) (simp add: slot_drivers_def)

lemma apply_funcsel_pin:
  fixes v q h k
  defines "h' \<equiv> pio_pads_apply_funcsel v q h"
  defines "p' \<equiv> get_pads h' q" and "f \<equiv> unat (p_funcsel (get_pads h q) k)"
  assumes "unat (p_owner_count (get_pads h q)) \<le> PIO_SIM_NUM_PIO v" "k < PIO_SIM_NUM_PINS v"
  shows "p_funcsel p' = p_funcsel (get_pads h q)"
    and "mux_oe p' k \<longleftrightarrow> (if selects_periph v f then bit (p_periph_oe p') k
      else case dir_winner k (slot_drivers (selects_slot f) h' p') of
        None \<Rightarrow> False | Some d \<Rightarrow> bit (sm_out_pin_oe (snd d)) k)"
proof -
  let ?h = "upd_pads q (route_pins v) h"
  let ?p = "route_pins v (get_pads h q)"
  have h': "h' = pio_pads_resolve q ?h" by (simp add: h'_def pio_pads_apply_funcsel_def)
  have p: "get_pads ?h q = ?p" by simp
  have fields: "p_funcsel p' = p_funcsel ?p" "p_periph_oe p' = p_periph_oe ?p"
    "p_periph_sel_mask p' = p_periph_sel_mask ?p"
    unfolding p'_def h' by (subst resolve_eq, simp)+
  show "p_funcsel p' = p_funcsel (get_pads h q)" by (simp add: fields route_pins_frame)
  have drv: "slot_drivers (\<lambda>s. bit (p_pio_func_mask ?p s) k) ?h ?p = slot_drivers (selects_slot f) h' p'"
    unfolding p'_def h' slot_drivers_resolve p
    using assms(4,5) by (intro slot_drivers_cong) (simp add: route_pins_mask route_pins_frame f_def)
  have dirs: "bit (p_pin_dirs p') k \<longleftrightarrow> (case dir_winner k (slot_drivers (selects_slot f) h' p') of
      None \<Rightarrow> False | Some d \<Rightarrow> bit (sm_out_pin_oe (snd d)) k)"
    unfolding p'_def h' resolve_dirs_bit p
    unfolding dir_winner_masked [of k "pad_drivers ?h ?p"] pad_drivers_masked
    unfolding drv unfolding p'_def h' ..
  have "slot_drivers (selects_slot f) h' p' = []" if "selects_periph v f"
    using that assms(4) unfolding p'_def h' slot_drivers_resolve p
    by (intro slot_drivers_none) (auto simp: selects_slot_def selects_periph_def route_pins_frame)
  moreover have "bit (p_periph_sel_mask p') k \<longleftrightarrow> selects_periph v f"
    using assms(5) by (simp add: fields route_pins_mask f_def)
  ultimately show "mux_oe p' k \<longleftrightarrow> (if selects_periph v f then bit (p_periph_oe p') k
      else case dir_winner k (slot_drivers (selects_slot f) h' p') of
        None \<Rightarrow> False | Some d \<Rightarrow> bit (sm_out_pin_oe (snd d)) k)"
    by (simp add: mux_oe_def dirs dir_winner_def)
qed

section \<open>Properties\<close>

text \<open>
  The function mux is combinational.  As soon as \<open>pio_sim_gpio_set_function\<close> returns, the pin has
  the selected function (truncated to five bits), and its output enable is that of the peripheral
  register for a non-PIO function, and otherwise that of the winner among the state machines of
  exactly the owner slots the function selects: all of them for the legacy value, one for \<open>PIOn\<close>,
  none for the null function.
\<close>

lemma set_function_is_combinational:
  assumes "unat (p_owner_count (pads_of h b)) \<le> PIO_SIM_NUM_PIO v"
  shows "let h' = pio_sim_gpio_set_function v b pin f h; p' = pads_of h' b; k = pin_idx v pin;
      func = pio_sim_gpio_get_function v b h' pin
    in func = (if f = 0xFF then 0xFF else f AND 0x1F) \<and>
       mux_oe p' k = (if selects_periph v (unat func) then bit (p_periph_oe p') k
         else case dir_winner k (slot_drivers (selects_slot (unat func)) h' p') of
           None \<Rightarrow> False | Some d \<Rightarrow> bit (sm_out_pin_oe (snd d)) k)"
proof -
  define raw :: u8 where "raw = (if f = 0xFF then ucast f else ucast f AND 0x1F)"
  define h1 where "h1 = upd_pads (pads_ptr_of h b) (\<lambda>p. p\<lparr>p_funcsel := (p_funcsel p)(pin_idx v pin := raw)\<rparr>) h"
  have h': "pio_sim_gpio_set_function v b pin f h = pio_pads_apply_funcsel v (pads_ptr_of h b) h1"
    by (simp add: pio_sim_gpio_set_function_def raw_def h1_def Let_def)
  have ptr: "pads_ptr_of (pio_pads_apply_funcsel v (pads_ptr_of h b) h1) b = pads_ptr_of h b"
    by (simp add: pio_pads_apply_funcsel_def h1_def)
  have k: "pin_idx v pin < PIO_SIM_NUM_PINS v" by (simp add: pin_idx_def num_pins_bounds)
  have cnt: "unat (p_owner_count (get_pads h1 (pads_ptr_of h b))) \<le> PIO_SIM_NUM_PIO v"
    using assms by (simp add: h1_def)
  note a = apply_funcsel_pin [OF cnt k]
  have f1: "p_funcsel (get_pads h1 (pads_ptr_of h b)) (pin_idx v pin) = raw" by (simp add: h1_def)
  have func: "pio_sim_gpio_get_function v b (pio_pads_apply_funcsel v (pads_ptr_of h b) h1) pin = ucast raw"
    by (simp add: pio_sim_gpio_get_function_def ptr a(1) f1)
  have m5: "(0x1F :: u32) = mask 5" "(0x1F :: u8) = mask 5" by (simp_all add: mask_eq_exp_minus_1)
  have "(ucast raw :: u32) = (if f = 0xFF then 0xFF else f AND 0x1F)"
    unfolding raw_def m5 by (auto intro!: bit_word_eqI simp: bit_simps word_bits)
  moreover have "unat (ucast raw :: u32) = unat raw" 
    using unsigned_less [where 'a = nat, of raw] by (simp add: unsigned_ucast_eq take_bit_nat_eq_self)
  ultimately show ?thesis using a(2) unfolding f1 h' Let_def func ptr by simp
qed

section \<open>Overrides and isolation\<close>

text \<open>What an override makes of a signal.\<close>

definition overridden :: "pio_gpio_override_t \<Rightarrow> bool \<Rightarrow> bool" where
  "overridden ov x = (case ov of PIO_GPIO_OVERRIDE_NORMAL \<Rightarrow> x | PIO_GPIO_OVERRIDE_INVERT \<Rightarrow> \<not> x
     | PIO_GPIO_OVERRIDE_LOW \<Rightarrow> False | PIO_GPIO_OVERRIDE_HIGH \<Rightarrow> True)"

lemma set_override_bits:
  assumes "set_override (pin_bit v pin) ov (neg, low, high) = (neg', low', high')"
  shows "override_pin (bit neg' (pin_idx v pin)) (bit low' (pin_idx v pin)) (bit high' (pin_idx v pin)) x = overridden ov x"
    and "get_override neg' low' high' (pin_bit v pin) = ov"
    and "pin_idx v pin' \<noteq> pin_idx v pin \<Longrightarrow>
      get_override neg' low' high' (pin_bit v pin') = get_override neg low high (pin_bit v pin')"
  using assms
  by (cases ov; auto simp: set_override_def get_override_def and_pin_bit bit_mask_set override_pin_def overridden_def)+

text \<open>
  Overrides.  Each of OUTOVER, OEOVER and INOVER is read back as it was set, and takes effect at
  once: with \<open>ov\<close> the level, output enable or input of the pin is its normal value, the negated one,
  0 or 1 (an isolated pad keeps its latched drive, output disable still wins over OEOVER, and INOVER
  acts after input enable and isolation).
\<close>

lemma override_takes_effect:
  "let k = pin_idx v pin; p = pads_of h b; isolated = (v = RP2350 \<and> bit (p_pad_iso p) k);
       hout = pio_sim_gpio_set_outover v b pin ov h; hoe = pio_sim_gpio_set_oeover v b pin ov h;
       hin = pio_sim_gpio_set_inover v b pin ov h
   in pio_sim_gpio_get_outover v b hout pin = ov \<and> pio_sim_gpio_get_oeover v b hoe pin = ov \<and>
      pio_sim_gpio_get_inover v b hin pin = ov \<and>
      bit (snd (pio_pads_chip_drive v (pads_of hout b))) k =
        (if isolated then bit (p_iso_levels p) k else overridden ov (mux_level p k)) \<and>
      bit (fst (pio_pads_chip_drive v (pads_of hoe b))) k =
        (if isolated then bit (p_iso_oe p) k else \<not> bit (p_pad_od p) k \<and> overridden ov (mux_oe p k)) \<and>
      bit (pads_input_view v (pads_of hin b)) k =
        overridden ov (wire_level v p k \<and> bit (p_pad_ie p) k \<and> \<not> isolated)"
proof -
  define p where "p = pads_of h b"
  obtain n1 l1 g1 where out: "set_override (pin_bit v pin) ov (p_outover_inv p, p_outover_low p, p_outover_high p) = (n1, l1, g1)"
    by (metis prod_cases3)
  obtain n2 l2 g2 where oe: "set_override (pin_bit v pin) ov (p_oeover_inv p, p_oeover_low p, p_oeover_high p) = (n2, l2, g2)"
    by (metis prod_cases3)
  obtain n3 l3 g3 where inp: "set_override (pin_bit v pin) ov (p_inover_inv p, p_inover_low p, p_inover_high p) = (n3, l3, g3)"
    by (metis prod_cases3)
  define k where "k = pin_idx v pin"
  have k: "k < 64" by (simp add: k_def pin_idx_less)
  note set = set_override_bits(1) [OF out, folded k_def] set_override_bits(1) [OF oe, folded k_def]
    set_override_bits(1) [OF inp, folded k_def]
  note got = set_override_bits(2) [OF out] set_override_bits(2) [OF oe] set_override_bits(2) [OF inp]
  have pads: "pads_of (pio_sim_gpio_set_outover v b pin ov h) b = p\<lparr>p_outover_inv := n1, p_outover_low := l1, p_outover_high := g1\<rparr>"
    "pads_of (pio_sim_gpio_set_oeover v b pin ov h) b = p\<lparr>p_oeover_inv := n2, p_oeover_low := l2, p_oeover_high := g2\<rparr>"
    "pads_of (pio_sim_gpio_set_inover v b pin ov h) b = p\<lparr>p_inover_inv := n3, p_inover_low := l3, p_inover_high := g3\<rparr>"
    using out oe inp
    by (simp_all add: pio_sim_gpio_set_outover_def pio_sim_gpio_set_oeover_def pio_sim_gpio_set_inover_def p_def)
  have "chip_oe v (p\<lparr>p_inover_inv := n3, p_inover_low := l3, p_inover_high := g3\<rparr>) k = chip_oe v p k"
    "chip_level v (p\<lparr>p_inover_inv := n3, p_inover_low := l3, p_inover_high := g3\<rparr>) k = chip_level v p k" for k
    unfolding chip_oe_def chip_level_def mux_oe_def mux_level_def by simp_all
  then have wire: "wire_level v (p\<lparr>p_inover_inv := n3, p_inover_low := l3, p_inover_high := g3\<rparr>) k = wire_level v p k" for k
    unfolding wire_level_def by simp
  have mux: "mux_level (p\<lparr>p_outover_inv := n1, p_outover_low := l1, p_outover_high := g1\<rparr>) k = mux_level p k"
    "mux_oe (p\<lparr>p_oeover_inv := n2, p_oeover_low := l2, p_oeover_high := g2\<rparr>) k = mux_oe p k"
    by (simp_all add: mux_level_def mux_oe_def)
  show ?thesis
    unfolding Let_def pio_sim_gpio_get_outover_def pio_sim_gpio_get_oeover_def pio_sim_gpio_get_inover_def
      pads p_def [symmetric] k_def [symmetric] chip_drive_oe chip_drive_level input_view_bit wire
      chip_oe_def chip_level_def mux
    using k by (auto simp: set got)
qed

lemma pads_frame_iso:
  assumes "pads_frame p = pads_frame p'"
  shows "p_pad_iso p = p_pad_iso p'" "p_iso_oe p = p_iso_oe p'" "p_iso_levels p = p_iso_levels p'"
    "p_inover_inv p = p_inover_inv p'" "p_inover_low p = p_inover_low p'" "p_inover_high p = p_inover_high p'"
  using assms by (cases p; cases p'; simp add: pads_frame_def)+

lemma run_keeps_iso:
  fixes h b v dev
  assumes "pads_ptr_of h b = Embedded b" "pio_on_tick (st_blk h b) = None"
  defines "h' \<equiv> \<lambda>n. (pio_sim_tick v dev b ^^ n) h"
  shows "pads_ptr_of (h' n) b = Embedded b \<and> pio_on_tick (st_blk (h' n) b) = None \<and>
    p_pad_iso (pads_of (h' n) b) = p_pad_iso (pads_of h b) \<and>
    p_iso_oe (pads_of (h' n) b) = p_iso_oe (pads_of h b) \<and>
    p_iso_levels (pads_of (h' n) b) = p_iso_levels (pads_of h b) \<and>
    p_inover_inv (pads_of (h' n) b) = p_inover_inv (pads_of h b) \<and>
    p_inover_low (pads_of (h' n) b) = p_inover_low (pads_of h b) \<and>
    p_inover_high (pads_of (h' n) b) = p_inover_high (pads_of h b)"
proof (induction n)
  case 0
  then show ?case by (simp add: h'_def assms)
next
  case (Suc n)
  have h: "h' (Suc n) = pio_sim_tick v dev b (h' n)" by (simp add: h'_def)
  note own = tick_own_pads [OF conjunct1 [OF Suc.IH] conjunct1 [OF conjunct2 [OF Suc.IH]], where v = v]
  have "p_pad_iso (pads_of (h' (Suc n)) b) = p_pad_iso (pads_of (h' n) b)"
    "p_iso_oe (pads_of (h' (Suc n)) b) = p_iso_oe (pads_of (h' n) b)"
    "p_iso_levels (pads_of (h' (Suc n)) b) = p_iso_levels (pads_of (h' n) b)"
    "p_inover_inv (pads_of (h' (Suc n)) b) = p_inover_inv (pads_of (h' n) b)"
    "p_inover_low (pads_of (h' (Suc n)) b) = p_inover_low (pads_of (h' n) b)"
    "p_inover_high (pads_of (h' (Suc n)) b) = p_inover_high (pads_of (h' n) b)"
    unfolding h own(3) pads_clock_eq pads_frame_iso [OF own(4), symmetric] by simp_all
  moreover have "pads_ptr_of (h' (Suc n)) b = Embedded b" "pio_on_tick (st_blk (h' (Suc n)) b) = None"
    unfolding h by (rule own)+
  ultimately show ?case using Suc.IH by metis
qed

text \<open>
  C28: Pad isolation (RP2350).  Raising ISO latches what the chip drives onto the pad at that moment, and
  as long as the pad stays isolated its drive is the latched one, over any number of ticks of a block
  with its own pads and whatever its state machines do.  Isolation cuts the wire off before the override of the input: the input
  view of the pin, from which the synchroniser samples, is the override INOVER applied to 0.  It reads 0 when INOVER is NORMAL or LOW, but
  1 when it is INVERT or HIGH, although \<open>pio_gpio.h\<close> says that the input of an isolated pad reads 0.
\<close>

theorem isolation_freezes_drive:
  assumes "pads_ptr_of h b = Embedded b" "pio_on_tick (st_blk h b) = None" "\<not> pio_sim_pad_get_iso b h pin"
  shows "let k = pin_idx RP2350 pin; p = pads_of h b;
      h' = pio_sim_run RP2350 dev b n (pio_sim_pad_set_iso b pin True h); p' = pads_of h' b
    in pio_sim_pad_get_iso b h' pin \<and>
       bit (fst (pio_pads_chip_drive RP2350 p')) k = bit (fst (pio_pads_chip_drive RP2350 p)) k \<and>
       bit (snd (pio_pads_chip_drive RP2350 p')) k = bit (snd (pio_pads_chip_drive RP2350 p)) k \<and>
       bit (pads_input_view RP2350 p') k =
         (\<not> bit (p_inover_low p) k \<and> (bit (p_inover_high p) k \<or> bit (p_inover_inv p) k))"
proof -
  let ?k = "pin_idx RP2350 pin"
  let ?h1 = "pio_sim_pad_set_iso b pin True h"
  have h1: "pads_ptr_of ?h1 b = Embedded b" "pio_on_tick (st_blk ?h1 b) = None"
    using assms(1,2) by (simp_all add: pio_sim_pad_set_iso_def)
  note keep = run_keeps_iso [OF h1, where v = RP2350 and dev = dev and n = "unat n"]
  define p' where "p' = pads_of (pio_sim_run RP2350 dev b n ?h1) b"
  have "p_pad_iso p' = p_pad_iso (pads_of ?h1 b)" "p_iso_oe p' = p_iso_oe (pads_of ?h1 b)"
    "p_iso_levels p' = p_iso_levels (pads_of ?h1 b)"
    "p_inover_inv p' = p_inover_inv (pads_of ?h1 b)" "p_inover_low p' = p_inover_low (pads_of ?h1 b)"
    "p_inover_high p' = p_inover_high (pads_of ?h1 b)"
    using keep unfolding p'_def pio_sim_run_def by blast+
  moreover have "p_inover_inv (pads_of ?h1 b) = p_inover_inv (pads_of h b)" "p_inover_low (pads_of ?h1 b) = p_inover_low (pads_of h b)"
    "p_inover_high (pads_of ?h1 b) = p_inover_high (pads_of h b)"
    by (simp_all add: pio_sim_pad_set_iso_def Let_def split_beta)
  moreover have "bit (p_pad_iso (pads_of ?h1 b)) ?k"
    "bit (p_iso_oe (pads_of ?h1 b)) ?k = bit (fst (pio_pads_chip_drive RP2350 (pads_of h b))) ?k"
    "bit (p_iso_levels (pads_of ?h1 b)) ?k = bit (snd (pio_pads_chip_drive RP2350 (pads_of h b))) ?k"
    using assms(3) unfolding pio_sim_pad_get_iso_def
    by (simp_all add: pio_sim_pad_set_iso_def Let_def split_beta bit_mask_set and_pin_bit)
  ultimately show ?thesis
    unfolding Let_def p'_def [symmetric] pio_sim_pad_get_iso_def and_pin_bit chip_drive_oe chip_drive_level
      input_view_bit
    by (simp add: chip_oe_def [of _ p'] chip_level_def [of _ p'] pin_idx_less override_pin_def)
qed

theorem isolation_freezes_drive_witness:
  "let h = pio_sim_gpio_set_inover RP2350 0 9 PIO_GPIO_OVERRIDE_INVERT (pio_sim_init RP2350 0 store_zero);
       h' = pio_sim_run RP2350 (\<lambda>_ _ _ h. h) 0 100 (pio_sim_pad_set_iso 0 9 True h)
   in pio_sim_pad_get_iso 0 h' 9 \<and>
      bit (fst (pio_pads_chip_drive RP2350 (pads_of h' 0))) 9 = bit (fst (pio_pads_chip_drive RP2350 (pads_of h 0))) 9 \<and>
      bit (pads_input_view RP2350 (pads_of h' 0)) 9"
proof -
  let ?h0 = "pio_sim_init RP2350 0 store_zero"
  let ?h = "pio_sim_gpio_set_inover RP2350 0 9 PIO_GPIO_OVERRIDE_INVERT ?h0"
  have h: "pads_ptr_of ?h 0 = Embedded 0" "pio_on_tick (st_blk ?h 0) = None" "\<not> pio_sim_pad_get_iso 0 ?h 9"
    by (simp_all add: pio_sim_gpio_set_inover_def Let_def split_beta,
        simp add: pio_sim_init_def upd_blk_def blk_zero_def,
        simp add: pio_sim_pad_get_iso_def init_pads pio_pads_init_defaults_def pads_zero_def)
  have "bit (p_inover_inv (pads_of ?h 0)) 9" "\<not> bit (p_inover_low (pads_of ?h 0)) 9"
    by (simp_all add: pio_sim_gpio_set_inover_def Let_def split_beta set_override_def mask_set_def pin_bit_def bit64_def
        PIO_SIM_NUM_PINS_def init_pads pio_pads_init_defaults_def pads_zero_def bit_simps)
  with isolation_freezes_drive [OF h, of "\<lambda>_ _ _ h. h" 100] show ?thesis
    by (simp only: Let_def pin_idx_def PIO_SIM_NUM_PINS_def) simp
qed

text \<open>
  Pad registers.  Input enable, output disable, both pulls, the peripheral output, drive strength,
  slew rate and Schmitt trigger of a pin read back as they were last written, and writing one pin
  leaves the others as they were.
\<close>

lemma pad_registers_read_back:
  "let same = (pin_idx v pin' = pin_idx v pin) in
   pio_sim_pad_get_input_enable v b (pio_sim_pad_set_input_enable v b pin x h) pin' =
     (if same then x else pio_sim_pad_get_input_enable v b h pin') \<and>
   pio_sim_pad_get_output_disable v b (pio_sim_pad_set_output_disable v b pin x h) pin' =
     (if same then x else pio_sim_pad_get_output_disable v b h pin') \<and>
   pio_sim_pad_get_pulls v b (pio_sim_pad_set_pulls v b pin x y h) pin' =
     (if same then (x, y) else pio_sim_pad_get_pulls v b h pin') \<and>
   pio_sim_gpio_get_periph_output v b (pio_sim_gpio_set_periph_output v b pin x y h) pin' =
     (if same then (x, y) else pio_sim_gpio_get_periph_output v b h pin') \<and>
   pio_sim_pad_get_drive v b (pio_sim_pad_set_drive v b pin d h) pin' =
     (if same then d AND 3 else pio_sim_pad_get_drive v b h pin') \<and>
   pio_sim_pad_get_slew_fast v b (pio_sim_pad_set_slew_fast v b pin x h) pin' =
     (if same then x else pio_sim_pad_get_slew_fast v b h pin') \<and>
   pio_sim_pad_get_schmitt v b (pio_sim_pad_set_schmitt v b pin x h) pin' =
     (if same then x else pio_sim_pad_get_schmitt v b h pin')"
proof -
  note regs = ie.read_back od.read_back pue.read_back pde.read_back periph_oe.read_back periph_level.read_back
  have masks: "((c AND NOT m) OR (d AND m)) AND m = d AND m" "(c OR m) AND m = m" "(c AND NOT m) AND m = 0"
    for c d m :: u8
    by (rule bit_word_eqI, auto simp: word_bits)+
  note cfg = masks(1) [where m = 3, simplified] masks(2,3) [where m = 4, simplified] masks(2,3) [where m = 8, simplified]
  show ?thesis
    by (simp add: Let_def cfg pio_sim_pad_get_input_enable_def pio_sim_pad_set_input_enable_def
        pio_sim_pad_get_output_disable_def pio_sim_pad_set_output_disable_def pio_sim_pad_get_pulls_def
        pio_sim_pad_set_pulls_def pio_sim_gpio_get_periph_output_def pio_sim_gpio_set_periph_output_def
        pio_sim_pad_get_drive_def pio_sim_pad_set_drive_def pio_sim_pad_get_slew_fast_def
        pio_sim_pad_set_slew_fast_def pio_sim_pad_get_schmitt_def pio_sim_pad_set_schmitt_def upd_pad_cfg_def
        regs and_pin_bit bit_mask_set)
qed

end
