(* ===== verification/Pio_Dma.thy ===== *)
theory Pio_Dma
  imports Pio_Tick
begin

text \<open>
  The DMA controller (\<open>lib/src/pio_dma.c\<close>): channels with address generation, pacing by data requests
  and fractional timers, arbitration, the transfer engine, completion interrupts with chaining, and
  the checksum sniffer.  A transfer touches the PIO blocks, the host's memory and the controller, so
  the engine is a function on the record of the three.
\<close>

section \<open>State\<close>

text \<open>
  An endpoint in host memory is an address (\<open>unsigned char *\<close> on a 64-bit host, 0 is \<open>NULL\<close>); one on a
  FIFO names a slot of the attached blocks and a state machine.  Element sizes are the numbers of
  \<open>pio_dma_size_t\<close>, as a configuration built by hand may hold any value.
\<close>

datatype pio_dma_addr_kind_t = PIO_DMA_ADDR_MEM | PIO_DMA_ADDR_PIO_TXF | PIO_DMA_ADDR_PIO_RXF

record pio_dma_addr_t =
  a_kind :: pio_dma_addr_kind_t
  a_mem :: u64
  a_pio_index :: u8
  a_sm :: u8

abbreviation (input) DMA_SIZE_8 :: u32 where "DMA_SIZE_8 \<equiv> 0"
abbreviation (input) DMA_SIZE_16 :: u32 where "DMA_SIZE_16 \<equiv> 1"
abbreviation (input) DMA_SIZE_32 :: u32 where "DMA_SIZE_32 \<equiv> 2"

abbreviation (input) PIO_DMA_TREQ_TIMER :: "u8 \<Rightarrow> u8" where "PIO_DMA_TREQ_TIMER n \<equiv> 0x3B + n"
abbreviation (input) PIO_DMA_TREQ_FORCE :: u8 where "PIO_DMA_TREQ_FORCE \<equiv> 0x3F"

record dma_channel_config =
  dc_high_priority :: bool
  dc_data_size :: u32
  dc_incr_read :: bool
  dc_incr_write :: bool
  dc_ring_size :: u8
  dc_ring_sel :: bool
  dc_chain_to :: u8
  dc_treq_sel :: u8
  dc_bswap :: bool
  dc_irq_quiet :: bool
  dc_sniff_en :: bool

text \<open>A completion callback is a number; what it does is a parameter of the engine.\<close>

record pio_dma_channel_t =
  ch_ctrl :: dma_channel_config
  ch_read_addr :: pio_dma_addr_t
  ch_write_addr :: pio_dma_addr_t
  ch_trans_count :: u32
  ch_trans_count_reload :: u32
  ch_en :: bool
  ch_busy :: bool
  ch_on_complete :: "nat option"
  ch_cb_ctx :: nat

record dma_timer =
  tm_num :: u16
  tm_den :: u16
  tm_accum :: u32
  tm_credit :: bool

record dma_sniffer =
  sn_en :: bool
  sn_chan :: u8
  sn_calc :: u8
  sn_out_rev :: bool
  sn_out_inv :: bool
  sn_data :: u32

record pio_dma_t =
  d_ch :: "nat \<Rightarrow> pio_dma_channel_t"
  d_pio :: "nat \<Rightarrow> nat option"
  d_pio_count :: u8
  d_timer :: "nat \<Rightarrow> dma_timer"
  d_sniff :: dma_sniffer
  d_intr :: u32
  d_inte :: "nat \<Rightarrow> u32"
  d_intf :: "nat \<Rightarrow> u32"
  d_rr_next :: u8

record dma_world =
  w_store :: pio_store
  w_mem :: "u64 \<Rightarrow> u8"
  w_dma :: pio_dma_t

type_synonym dma_callback = "nat \<Rightarrow> u8 \<Rightarrow> nat \<Rightarrow> dma_world \<Rightarrow> dma_world"

definition upd_ch :: "nat \<Rightarrow> (pio_dma_channel_t \<Rightarrow> pio_dma_channel_t) \<Rightarrow> pio_dma_t \<Rightarrow> pio_dma_t" where
  "upd_ch c f d = d\<lparr>d_ch := (d_ch d)(c := f (d_ch d c))\<rparr>"

definition upd_dma :: "(pio_dma_t \<Rightarrow> pio_dma_t) \<Rightarrow> dma_world \<Rightarrow> dma_world" where
  "upd_dma f w = w\<lparr>w_dma := f (w_dma w)\<rparr>"

section \<open>Endpoints and configuration\<close>

definition pio_sim_sm_is_dreq_tx :: "pio_sim_t \<Rightarrow> u8 \<Rightarrow> bool" where
  "pio_sim_sm_is_dreq_tx p sm \<longleftrightarrow> \<not> pio_sim_sm_is_tx_fifo_full p sm"

definition pio_sim_sm_is_dreq_rx :: "pio_sim_t \<Rightarrow> u8 \<Rightarrow> bool" where
  "pio_sim_sm_is_dreq_rx p sm \<longleftrightarrow> \<not> pio_sim_sm_is_rx_fifo_empty p sm"

definition CH_IDX :: "pio_version \<Rightarrow> u8 \<Rightarrow> nat" where
  "CH_IDX v ch = unat ch mod PIO_SIM_DMA_NUM_CHANNELS v"

definition LINE_IDX :: "pio_version \<Rightarrow> u8 \<Rightarrow> nat" where
  "LINE_IDX v l = unat l mod PIO_SIM_DMA_NUM_IRQS v"

definition CH_VALID_MASK :: "pio_version \<Rightarrow> u32" where
  "CH_VALID_MASK v = push_bit (PIO_SIM_DMA_NUM_CHANNELS v) 1 - 1"

definition pio_dma_addr_mem :: "u64 \<Rightarrow> pio_dma_addr_t" where
  "pio_dma_addr_mem p = \<lparr>a_kind = PIO_DMA_ADDR_MEM, a_mem = p, a_pio_index = 0, a_sm = 0\<rparr>"

definition pio_dma_addr_txf :: "u8 \<Rightarrow> u8 \<Rightarrow> pio_dma_addr_t" where
  "pio_dma_addr_txf pio_index sm = \<lparr>a_kind = PIO_DMA_ADDR_PIO_TXF, a_mem = 0, a_pio_index = pio_index, a_sm = sm\<rparr>"

definition pio_dma_addr_rxf :: "u8 \<Rightarrow> u8 \<Rightarrow> pio_dma_addr_t" where
  "pio_dma_addr_rxf pio_index sm = \<lparr>a_kind = PIO_DMA_ADDR_PIO_RXF, a_mem = 0, a_pio_index = pio_index, a_sm = sm\<rparr>"

definition pio_dma_channel_get_default_config :: "pio_version \<Rightarrow> u8 \<Rightarrow> dma_channel_config" where
  "pio_dma_channel_get_default_config v ch =
     \<lparr>dc_high_priority = False, dc_data_size = DMA_SIZE_32, dc_incr_read = True, dc_incr_write = False,
      dc_ring_size = 0, dc_ring_sel = False, dc_chain_to = of_nat (CH_IDX v ch),
      dc_treq_sel = PIO_DMA_TREQ_FORCE, dc_bswap = False, dc_irq_quiet = False, dc_sniff_en = False\<rparr>"

text \<open>The controller as \<open>memset\<close> leaves it, with channel \<open>c\<close> configured by \<open>f c\<close>.\<close>

definition dma_zero :: "(nat \<Rightarrow> dma_channel_config) \<Rightarrow> pio_dma_t" where
  "dma_zero f =
     \<lparr>d_ch = (\<lambda>c. \<lparr>ch_ctrl = f c, ch_read_addr = pio_dma_addr_mem 0, ch_write_addr = pio_dma_addr_mem 0,
        ch_trans_count = 0, ch_trans_count_reload = 0, ch_en = False, ch_busy = False,
        ch_on_complete = None, ch_cb_ctx = 0\<rparr>),
      d_pio = (\<lambda>_. None), d_pio_count = 0,
      d_timer = (\<lambda>_. \<lparr>tm_num = 0, tm_den = 0, tm_accum = 0, tm_credit = False\<rparr>),
      d_sniff = \<lparr>sn_en = False, sn_chan = 0, sn_calc = 0, sn_out_rev = False, sn_out_inv = False, sn_data = 0\<rparr>,
      d_intr = 0, d_inte = (\<lambda>_. 0), d_intf = (\<lambda>_. 0), d_rr_next = 0\<rparr>"

definition pio_dma_init :: "pio_version \<Rightarrow> (nat \<Rightarrow> nat option) \<Rightarrow> u8 \<Rightarrow> pio_dma_t" where
  "pio_dma_init v pios pio_count =
     (let pio_count = (if PIO_SIM_NUM_PIO v < unat pio_count then of_nat (PIO_SIM_NUM_PIO v) else pio_count)
      in (dma_zero (\<lambda>c. pio_dma_channel_get_default_config v (of_nat c)))
           \<lparr>d_pio := (\<lambda>i. if i < unat pio_count then pios i else None), d_pio_count := pio_count\<rparr>)"

definition channel_config_set_read_increment :: "bool \<Rightarrow> dma_channel_config \<Rightarrow> dma_channel_config" where
  "channel_config_set_read_increment incr c = c\<lparr>dc_incr_read := incr\<rparr>"

definition channel_config_set_write_increment :: "bool \<Rightarrow> dma_channel_config \<Rightarrow> dma_channel_config" where
  "channel_config_set_write_increment incr c = c\<lparr>dc_incr_write := incr\<rparr>"

definition channel_config_set_dreq :: "u8 \<Rightarrow> dma_channel_config \<Rightarrow> dma_channel_config" where
  "channel_config_set_dreq dreq c = c\<lparr>dc_treq_sel := dreq\<rparr>"

definition channel_config_set_chain_to :: "pio_version \<Rightarrow> u8 \<Rightarrow> dma_channel_config \<Rightarrow> dma_channel_config" where
  "channel_config_set_chain_to v chain_to c = c\<lparr>dc_chain_to := of_nat (unat chain_to mod PIO_SIM_DMA_NUM_CHANNELS v)\<rparr>"

definition channel_config_set_transfer_data_size :: "u32 \<Rightarrow> dma_channel_config \<Rightarrow> dma_channel_config" where
  "channel_config_set_transfer_data_size sz c =
     c\<lparr>dc_data_size := (if DMA_SIZE_32 < sz then DMA_SIZE_32 else sz)\<rparr>"

definition channel_config_set_ring :: "bool \<Rightarrow> u8 \<Rightarrow> dma_channel_config \<Rightarrow> dma_channel_config" where
  "channel_config_set_ring write size_bits c =
     c\<lparr>dc_ring_sel := write, dc_ring_size := (if 15 < size_bits then 15 else size_bits)\<rparr>"

definition channel_config_set_bswap :: "bool \<Rightarrow> dma_channel_config \<Rightarrow> dma_channel_config" where
  "channel_config_set_bswap b c = c\<lparr>dc_bswap := b\<rparr>"

definition channel_config_set_irq_quiet :: "bool \<Rightarrow> dma_channel_config \<Rightarrow> dma_channel_config" where
  "channel_config_set_irq_quiet b c = c\<lparr>dc_irq_quiet := b\<rparr>"

definition channel_config_set_high_priority :: "bool \<Rightarrow> dma_channel_config \<Rightarrow> dma_channel_config" where
  "channel_config_set_high_priority b c = c\<lparr>dc_high_priority := b\<rparr>"

definition channel_config_set_sniff_enable :: "bool \<Rightarrow> dma_channel_config \<Rightarrow> dma_channel_config" where
  "channel_config_set_sniff_enable b c = c\<lparr>dc_sniff_en := b\<rparr>"

section \<open>Triggering\<close>

definition pio_dma_channel_set_enabled :: "pio_version \<Rightarrow> u8 \<Rightarrow> bool \<Rightarrow> pio_dma_t \<Rightarrow> pio_dma_t" where
  "pio_dma_channel_set_enabled v ch en = upd_ch (CH_IDX v ch) (\<lambda>c. c\<lparr>ch_en := en\<rparr>)"

definition dma_raise_irq :: "pio_version \<Rightarrow> dma_callback \<Rightarrow> u8 \<Rightarrow> dma_world \<Rightarrow> dma_world" where
  "dma_raise_irq v cb ch w =
     (let w = upd_dma (\<lambda>d. d\<lparr>d_intr := d_intr d OR push_bit (CH_IDX v ch) 1\<rparr>) w;
          chan = d_ch (w_dma w) (CH_IDX v ch)
      in case ch_on_complete chan of None \<Rightarrow> w | Some f \<Rightarrow> cb f ch (ch_cb_ctx chan) w)"

text \<open>One iteration of the loop of \<open>pio_dma_start_channel_mask\<close>.\<close>

definition start_channel :: "pio_version \<Rightarrow> dma_callback \<Rightarrow> u32 \<Rightarrow> nat \<Rightarrow> dma_world \<Rightarrow> dma_world" where
  "start_channel v cb chans c w =
     (let chan = d_ch (w_dma w) c
      in if \<not> bit chans c then w
         else if ch_trans_count_reload chan = 0
         then (if dc_irq_quiet (ch_ctrl chan) then dma_raise_irq v cb (of_nat c) w else w)
         else upd_dma (upd_ch c (\<lambda>ch. ch\<lparr>ch_trans_count := ch_trans_count_reload ch, ch_busy := True\<rparr>)) w)"

definition pio_dma_start_channel_mask :: "pio_version \<Rightarrow> dma_callback \<Rightarrow> u32 \<Rightarrow> dma_world \<Rightarrow> dma_world" where
  "pio_dma_start_channel_mask v cb chans w = fold (start_channel v cb chans) [0..<PIO_SIM_DMA_NUM_CHANNELS v] w"

definition pio_dma_channel_configure ::
  "pio_version \<Rightarrow> dma_callback \<Rightarrow> u8 \<Rightarrow> dma_channel_config \<Rightarrow> pio_dma_addr_t \<Rightarrow> pio_dma_addr_t \<Rightarrow> u32 \<Rightarrow> bool
     \<Rightarrow> dma_world \<Rightarrow> dma_world" where
  "pio_dma_channel_configure v cb ch c write_addr read_addr trans_count trigger w =
     (let w = upd_dma (upd_ch (CH_IDX v ch) (\<lambda>chan. chan
            \<lparr>ch_ctrl := c\<lparr>dc_data_size := (if DMA_SIZE_32 < dc_data_size c then DMA_SIZE_32 else dc_data_size c)\<rparr>,
             ch_write_addr := write_addr, ch_read_addr := read_addr, ch_trans_count_reload := trans_count,
             ch_en := True\<rparr>)) w
      in if trigger then pio_dma_start_channel_mask v cb (push_bit (CH_IDX v ch) 1) w else w)"

definition pio_dma_channel_abort_mask :: "pio_version \<Rightarrow> u32 \<Rightarrow> pio_dma_t \<Rightarrow> pio_dma_t" where
  "pio_dma_channel_abort_mask v chans d =
     fold (\<lambda>c d. if bit chans c then upd_ch c (\<lambda>ch. ch\<lparr>ch_busy := False\<rparr>) d else d)
       [0..<PIO_SIM_DMA_NUM_CHANNELS v] d"

definition pio_dma_channel_abort :: "pio_version \<Rightarrow> u8 \<Rightarrow> pio_dma_t \<Rightarrow> pio_dma_t" where
  "pio_dma_channel_abort v ch = pio_dma_channel_abort_mask v (push_bit (CH_IDX v ch) 1)"

definition pio_dma_channel_is_busy :: "pio_version \<Rightarrow> pio_dma_t \<Rightarrow> u8 \<Rightarrow> bool" where
  "pio_dma_channel_is_busy v d ch \<longleftrightarrow> ch_busy (d_ch d (CH_IDX v ch))"

definition pio_dma_channel_get_trans_count :: "pio_version \<Rightarrow> pio_dma_t \<Rightarrow> u8 \<Rightarrow> u32" where
  "pio_dma_channel_get_trans_count v d ch = ch_trans_count (d_ch d (CH_IDX v ch))"

definition pio_dma_channel_set_callback :: "pio_version \<Rightarrow> u8 \<Rightarrow> nat option \<Rightarrow> nat \<Rightarrow> pio_dma_t \<Rightarrow> pio_dma_t" where
  "pio_dma_channel_set_callback v ch fn ctx = upd_ch (CH_IDX v ch) (\<lambda>c. c\<lparr>ch_on_complete := fn, ch_cb_ctx := ctx\<rparr>)"

section \<open>Pacing timers\<close>

definition pio_dma_timer_set_fraction :: "u8 \<Rightarrow> u16 \<Rightarrow> u16 \<Rightarrow> pio_dma_t \<Rightarrow> pio_dma_t" where
  "pio_dma_timer_set_fraction timer numerator denominator d =
     d\<lparr>d_timer := (d_timer d)(unat timer mod PIO_SIM_DMA_NUM_TIMERS :=
         \<lparr>tm_num = numerator, tm_den = denominator, tm_accum = 0, tm_credit = False\<rparr>)\<rparr>"

text \<open>The loop body of \<open>dma_timers_tick\<close>: the new timer, and whether it issued a request.\<close>

definition timer_step :: "dma_timer \<Rightarrow> dma_timer \<times> bool" where
  "timer_step t =
     (if tm_den t = 0 then (t, False)
      else let t = t\<lparr>tm_accum := tm_accum t + ucast (tm_num t)\<rparr>
        in if ucast (tm_den t) \<le> tm_accum t
           then (t\<lparr>tm_accum := tm_accum t - ucast (tm_den t), tm_credit := True\<rparr>, True)
           else (t, False))"

definition dma_timers_tick :: "pio_dma_t \<Rightarrow> pio_dma_t" where
  "dma_timers_tick d =
     d\<lparr>d_timer := (\<lambda>t. if t < PIO_SIM_DMA_NUM_TIMERS then fst (timer_step (d_timer d t)) else d_timer d t)\<rparr>"

section \<open>Sniffer\<close>

definition pio_dma_sniffer_enable :: "pio_version \<Rightarrow> u8 \<Rightarrow> u8 \<Rightarrow> bool \<Rightarrow> pio_dma_t \<Rightarrow> pio_dma_t" where
  "pio_dma_sniffer_enable v ch mode force_channel_enable d =
     (let d = d\<lparr>d_sniff := (d_sniff d)\<lparr>sn_en := True, sn_chan := of_nat (CH_IDX v ch), sn_calc := mode\<rparr>\<rparr>
      in if force_channel_enable
         then upd_ch (CH_IDX v ch) (\<lambda>c. c\<lparr>ch_ctrl := (ch_ctrl c)\<lparr>dc_sniff_en := True\<rparr>\<rparr>) d else d)"

definition pio_dma_sniffer_disable :: "pio_dma_t \<Rightarrow> pio_dma_t" where
  "pio_dma_sniffer_disable d = d\<lparr>d_sniff := (d_sniff d)\<lparr>sn_en := False\<rparr>\<rparr>"

definition pio_dma_sniffer_set_output_invert_enabled :: "bool \<Rightarrow> pio_dma_t \<Rightarrow> pio_dma_t" where
  "pio_dma_sniffer_set_output_invert_enabled b d = d\<lparr>d_sniff := (d_sniff d)\<lparr>sn_out_inv := b\<rparr>\<rparr>"

definition pio_dma_sniffer_set_output_reverse_enabled :: "bool \<Rightarrow> pio_dma_t \<Rightarrow> pio_dma_t" where
  "pio_dma_sniffer_set_output_reverse_enabled b d = d\<lparr>d_sniff := (d_sniff d)\<lparr>sn_out_rev := b\<rparr>\<rparr>"

definition pio_dma_sniffer_set_data_accumulator :: "u32 \<Rightarrow> pio_dma_t \<Rightarrow> pio_dma_t" where
  "pio_dma_sniffer_set_data_accumulator seed d = d\<lparr>d_sniff := (d_sniff d)\<lparr>sn_data := seed\<rparr>\<rparr>"

definition pio_dma_sniffer_get_data_accumulator :: "pio_dma_t \<Rightarrow> u32" where
  "pio_dma_sniffer_get_data_accumulator d =
     (let x = sn_data (d_sniff d);
          x = (if sn_out_rev (d_sniff d) then pio_reverse32 x else x)
      in if sn_out_inv (d_sniff d) then NOT x else x)"

definition crc_bit_msb :: "u32 \<Rightarrow> u32 \<Rightarrow> u32 \<Rightarrow> u32" where
  "crc_bit_msb tp poly crc = (if crc AND tp \<noteq> 0 then push_bit 1 crc XOR poly else push_bit 1 crc)"

definition crc_update_msb :: "u32 \<Rightarrow> u8 \<Rightarrow> u32 \<Rightarrow> nat \<Rightarrow> u32" where
  "crc_update_msb crc byte poly width =
     (let tp = push_bit (width - 1) 1;
          crc = crc XOR push_bit (width - 8) (ucast byte);
          crc = (crc_bit_msb tp poly ^^ 8) crc
      in if width = 32 then crc else crc AND (push_bit width 1 - 1))"

definition crc_bit_lsb :: "u32 \<Rightarrow> u32 \<Rightarrow> u32" where
  "crc_bit_lsb poly crc = (if crc AND 1 \<noteq> 0 then drop_bit 1 crc XOR poly else drop_bit 1 crc)"

definition crc_update_lsb :: "u32 \<Rightarrow> u8 \<Rightarrow> u32 \<Rightarrow> u32" where
  "crc_update_lsb crc byte poly = (crc_bit_lsb poly ^^ 8) (crc XOR ucast byte)"

text \<open>The byte \<open>(uint8_t)(value >> (8U * i))\<close>.\<close>

definition byte_at :: "u32 \<Rightarrow> nat \<Rightarrow> u8" where
  "byte_at x i = ucast (drop_bit (8 * i) x)"

text \<open>The new value of \<open>SNIFF_DATA\<close> in calculation mode \<open>calc\<close>.\<close>

definition sniff_calc :: "u8 \<Rightarrow> u32 \<Rightarrow> nat \<Rightarrow> u32 \<Rightarrow> u32" where
  "sniff_calc calc value bytes crc =
     (let m = (if 4 \<le> bytes then 0xFFFFFFFF else push_bit (8 * bytes) 1 - 1);
          value = value AND m
      in if calc = 0x0 then fold (\<lambda>i crc. crc_update_msb crc (byte_at value i) 0x04C11DB7 32) [0..<bytes] crc
         else if calc = 0x1 then fold (\<lambda>i crc. crc_update_lsb crc (byte_at value i) 0xEDB88320) [0..<bytes] crc
         else if calc = 0x2 then fold (\<lambda>i crc. crc_update_msb crc (byte_at value i) 0x1021 16) [0..<bytes] crc
         else if calc = 0x3 then fold (\<lambda>i crc. crc_update_lsb (crc AND 0xFFFF) (byte_at value i) 0x8408) [0..<bytes] crc
         else if calc = 0xE then crc XOR value
         else crc + value)"

definition dma_sniff :: "u32 \<Rightarrow> nat \<Rightarrow> pio_dma_t \<Rightarrow> pio_dma_t" where
  "dma_sniff value bytes d =
     d\<lparr>d_sniff := (d_sniff d)\<lparr>sn_data := sniff_calc (sn_calc (d_sniff d)) value bytes (sn_data (d_sniff d))\<rparr>\<rparr>"

section \<open>Readiness\<close>

definition elem_bytes :: "u32 \<Rightarrow> nat" where
  "elem_bytes sz = unat (ucast (push_bit (unat sz) 1 :: u32) :: u8)"

text \<open>The pacing timer a request number names.\<close>

definition treq_timer :: "u8 \<Rightarrow> nat option" where
  "treq_timer treq =
     (if PIO_DMA_TREQ_TIMER 0 \<le> treq \<and> treq \<le> PIO_DMA_TREQ_TIMER 3
      then Some (unat (treq - PIO_DMA_TREQ_TIMER 0)) else None)"

text \<open>Slot \<open>i\<close> of the attached blocks, if it is in range and not \<open>NULL\<close>.\<close>

definition dma_pio :: "pio_dma_t \<Rightarrow> u8 \<Rightarrow> nat option" where
  "dma_pio d i = (if d_pio_count d \<le> i then None else d_pio d (unat i))"

definition dma_treq_ready :: "dma_world \<Rightarrow> pio_dma_channel_t \<Rightarrow> bool" where
  "dma_treq_ready w chan =
     (let treq = dc_treq_sel (ch_ctrl chan)
      in if treq = PIO_DMA_TREQ_FORCE then True
         else case treq_timer treq of
           Some t \<Rightarrow> tm_credit (d_timer (w_dma w) t)
         | None \<Rightarrow>
             case dma_pio (w_dma w) (treq div 8) of
               None \<Rightarrow> False
             | Some b \<Rightarrow>
                 let sm = treq mod 4; is_rx = (4 \<le> treq mod 8)
                 in if is_rx then pio_sim_sm_is_dreq_rx (st_blk (w_store w) b) sm
                    else pio_sim_sm_is_dreq_tx (st_blk (w_store w) b) sm)"

definition dma_endpoints_ready :: "dma_world \<Rightarrow> pio_dma_channel_t \<Rightarrow> bool" where
  "dma_endpoints_ready w chan =
     (let r = ch_read_addr chan; wr = ch_write_addr chan
      in if a_kind r = PIO_DMA_ADDR_PIO_RXF \<and>
            (case dma_pio (w_dma w) (a_pio_index r) of
               None \<Rightarrow> True | Some b \<Rightarrow> \<not> pio_sim_sm_is_dreq_rx (st_blk (w_store w) b) (a_sm r)) then False
         else if a_kind wr = PIO_DMA_ADDR_PIO_TXF \<and>
            (case dma_pio (w_dma w) (a_pio_index wr) of
               None \<Rightarrow> True | Some b \<Rightarrow> \<not> pio_sim_sm_is_dreq_tx (st_blk (w_store w) b) (a_sm wr)) then False
         else if a_kind r = PIO_DMA_ADDR_PIO_TXF \<or> a_kind wr = PIO_DMA_ADDR_PIO_RXF then False
         else if (a_kind r = PIO_DMA_ADDR_MEM \<and> a_mem r = 0) \<or> (a_kind wr = PIO_DMA_ADDR_MEM \<and> a_mem wr = 0)
         then False
         else True)"

section \<open>Transfers\<close>

definition dma_advance :: "bool \<Rightarrow> u8 \<Rightarrow> bool \<Rightarrow> nat \<Rightarrow> pio_dma_addr_t \<Rightarrow> pio_dma_addr_t" where
  "dma_advance incr ring_size ring_applies bytes a =
     (if a_kind a \<noteq> PIO_DMA_ADDR_MEM \<or> \<not> incr then a
      else if ring_applies \<and> ring_size \<noteq> 0 \<and> ring_size < 64
      then let m = push_bit (unat ring_size) 1 - 1;
               low = a_mem a AND m;
               nxt = (low + of_nat bytes) AND m
           in a\<lparr>a_mem := a_mem a + (nxt - low)\<rparr>
      else a\<lparr>a_mem := a_mem a + of_nat bytes\<rparr>)"

definition dma_bswap :: "u32 \<Rightarrow> nat \<Rightarrow> u32" where
  "dma_bswap x bytes =
     (if bytes = 2 then push_bit 8 (x AND 0xFF) OR (drop_bit 8 x AND 0xFF)
      else if bytes = 4
      then push_bit 24 x OR push_bit 8 (x AND 0xFF00) OR (drop_bit 8 x AND 0xFF00) OR drop_bit 24 x
      else x)"

text \<open>Little-endian access to \<open>bytes\<close> bytes of memory.\<close>

definition mem_load :: "(u64 \<Rightarrow> u8) \<Rightarrow> u64 \<Rightarrow> nat \<Rightarrow> u32" where
  "mem_load m a bytes = fold (\<lambda>i x. x OR push_bit (8 * i) (ucast (m (a + of_nat i)))) [0..<bytes] 0"

definition mem_store :: "u64 \<Rightarrow> nat \<Rightarrow> u32 \<Rightarrow> (u64 \<Rightarrow> u8) \<Rightarrow> u64 \<Rightarrow> u8" where
  "mem_store a bytes x m = fold (\<lambda>i m. m(a + of_nat i := byte_at x i)) [0..<bytes] m"

text \<open>
  Reading and writing an element.  An endpoint that is not memory is passed to the FIFO call whatever
  its kind is; the slot is in range and attached when the channel is ready.
\<close>

definition read_element :: "pio_dma_addr_t \<Rightarrow> nat \<Rightarrow> dma_world \<Rightarrow> u32 \<times> dma_world" where
  "read_element a bytes w =
     (if a_kind a = PIO_DMA_ADDR_MEM then (mem_load (w_mem w) (a_mem a) bytes, w)
      else case d_pio (w_dma w) (unat (a_pio_index a)) of
        None \<Rightarrow> (0, w)
      | Some b \<Rightarrow> (case snd (pio_sim_sm_get (a_sm a) (st_blk (w_store w) b)) of None \<Rightarrow> 0 | Some x \<Rightarrow> x,
          w\<lparr>w_store := upd_blk b (\<lambda>p. fst (pio_sim_sm_get (a_sm a) p)) (w_store w)\<rparr>))"

definition write_element :: "pio_dma_addr_t \<Rightarrow> nat \<Rightarrow> u32 \<Rightarrow> dma_world \<Rightarrow> dma_world" where
  "write_element a bytes x w =
     (if a_kind a = PIO_DMA_ADDR_MEM then w\<lparr>w_mem := mem_store (a_mem a) bytes x (w_mem w)\<rparr>
      else case d_pio (w_dma w) (unat (a_pio_index a)) of
        None \<Rightarrow> w
      | Some b \<Rightarrow> w\<lparr>w_store := upd_blk b (\<lambda>p. fst (pio_sim_sm_put (a_sm a) x p)) (w_store w)\<rparr>)"

text \<open>The data movement of \<open>dma_transfer_one\<close>: read, swap, sniff, write.\<close>

definition move_element :: "nat \<Rightarrow> dma_world \<Rightarrow> dma_world" where
  "move_element c w =
     (let chan = d_ch (w_dma w) c;
          bytes = elem_bytes (dc_data_size (ch_ctrl chan));
          (x, w) = read_element (ch_read_addr chan) bytes w;
          x = (if dc_bswap (ch_ctrl chan) then dma_bswap x bytes else x);
          w = (if sn_en (d_sniff (w_dma w)) \<and> dc_sniff_en (ch_ctrl chan) \<and> unat (sn_chan (d_sniff (w_dma w))) = c
               then upd_dma (dma_sniff x bytes) w else w)
      in write_element (ch_write_addr chan) bytes x w)"

text \<open>Advancing the cursors, consuming a timer credit and counting down.\<close>

definition advance_channel :: "nat \<Rightarrow> pio_dma_t \<Rightarrow> pio_dma_t" where
  "advance_channel c d =
     (let ctrl = ch_ctrl (d_ch d c);
          bytes = elem_bytes (dc_data_size ctrl);
          d = upd_ch c (\<lambda>ch. ch
                \<lparr>ch_read_addr := dma_advance (dc_incr_read ctrl) (dc_ring_size ctrl) (\<not> dc_ring_sel ctrl) bytes (ch_read_addr ch),
                 ch_write_addr := dma_advance (dc_incr_write ctrl) (dc_ring_size ctrl) (dc_ring_sel ctrl) bytes (ch_write_addr ch)\<rparr>) d;
          d = (case treq_timer (dc_treq_sel ctrl) of
                 None \<Rightarrow> d
               | Some t \<Rightarrow> d\<lparr>d_timer := (d_timer d)(t := (d_timer d t)\<lparr>tm_credit := False\<rparr>)\<rparr>)
      in upd_ch c (\<lambda>ch. ch\<lparr>ch_trans_count := ch_trans_count ch - 1\<rparr>) d)"

text \<open>What follows the last element; the callback may have changed the channel before the chaining test.\<close>

definition complete_channel :: "pio_version \<Rightarrow> dma_callback \<Rightarrow> nat \<Rightarrow> dma_world \<Rightarrow> dma_world" where
  "complete_channel v cb c w =
     (let w = upd_dma (upd_ch c (\<lambda>ch. ch\<lparr>ch_busy := False\<rparr>)) w;
          w = (if dc_irq_quiet (ch_ctrl (d_ch (w_dma w) c)) then w else dma_raise_irq v cb (of_nat c) w);
          chain = dc_chain_to (ch_ctrl (d_ch (w_dma w) c))
      in if unat chain \<noteq> c \<and> unat chain < PIO_SIM_DMA_NUM_CHANNELS v
         then pio_dma_start_channel_mask v cb (push_bit (unat chain) 1) w else w)"

definition dma_transfer_one :: "pio_version \<Rightarrow> dma_callback \<Rightarrow> nat \<Rightarrow> dma_world \<Rightarrow> dma_world" where
  "dma_transfer_one v cb c w =
     (let w = upd_dma (advance_channel c) (move_element c w)
      in if ch_trans_count (d_ch (w_dma w) c) = 0 then complete_channel v cb c w else w)"

definition dma_channel_ready :: "dma_world \<Rightarrow> nat \<Rightarrow> bool" where
  "dma_channel_ready w c =
     (let chan = d_ch (w_dma w) c
      in ch_en chan \<and> ch_busy chan \<and> dma_treq_ready w chan \<and> dma_endpoints_ready w chan)"

text \<open>
  The two scans of \<open>pio_dma_tick\<close>: the first channel of the wanted priority that is ready, in cyclic
  order from the round-robin seat.
\<close>

definition dma_scan :: "pio_version \<Rightarrow> dma_world \<Rightarrow> bool \<Rightarrow> nat option" where
  "dma_scan v w want_hp =
     List.find (\<lambda>c. dc_high_priority (ch_ctrl (d_ch (w_dma w) c)) = want_hp \<and> dma_channel_ready w c)
       (map (\<lambda>i. (unat (d_rr_next (w_dma w)) + i) mod PIO_SIM_DMA_NUM_CHANNELS v)
         [0..<PIO_SIM_DMA_NUM_CHANNELS v])"

definition dma_pick :: "pio_version \<Rightarrow> dma_world \<Rightarrow> nat option" where
  "dma_pick v w = (case dma_scan v w True of Some c \<Rightarrow> Some c | None \<Rightarrow> dma_scan v w False)"

definition pio_dma_tick :: "pio_version \<Rightarrow> dma_callback \<Rightarrow> dma_world \<Rightarrow> dma_world \<times> bool" where
  "pio_dma_tick v cb w =
     (let w = upd_dma dma_timers_tick w
      in case dma_pick v w of
           None \<Rightarrow> (w, False)
         | Some c \<Rightarrow>
             (upd_dma (\<lambda>d. d\<lparr>d_rr_next := of_nat ((c + 1) mod PIO_SIM_DMA_NUM_CHANNELS v)\<rparr>)
                (dma_transfer_one v cb c w), True))"

section \<open>Interrupts\<close>

definition pio_dma_irqn_set_channel_mask_enabled ::
  "pio_version \<Rightarrow> u8 \<Rightarrow> u32 \<Rightarrow> bool \<Rightarrow> pio_dma_t \<Rightarrow> pio_dma_t" where
  "pio_dma_irqn_set_channel_mask_enabled v irq_index channel_mask enabled d =
     (let m = channel_mask AND CH_VALID_MASK v; l = LINE_IDX v irq_index
      in d\<lparr>d_inte := (d_inte d)(l := if enabled then d_inte d l OR m else d_inte d l AND NOT m)\<rparr>)"

definition pio_dma_irqn_set_channel_enabled ::
  "pio_version \<Rightarrow> u8 \<Rightarrow> u8 \<Rightarrow> bool \<Rightarrow> pio_dma_t \<Rightarrow> pio_dma_t" where
  "pio_dma_irqn_set_channel_enabled v irq_index ch enabled =
     pio_dma_irqn_set_channel_mask_enabled v irq_index (push_bit (CH_IDX v ch) 1) enabled"

definition pio_dma_get_ints :: "pio_version \<Rightarrow> pio_dma_t \<Rightarrow> u8 \<Rightarrow> u32" where
  "pio_dma_get_ints v d irq_index =
     (d_intr d AND d_inte d (LINE_IDX v irq_index)) OR d_intf d (LINE_IDX v irq_index)"

definition pio_dma_irqn_get_channel_status :: "pio_version \<Rightarrow> pio_dma_t \<Rightarrow> u8 \<Rightarrow> u8 \<Rightarrow> bool" where
  "pio_dma_irqn_get_channel_status v d irq_index ch \<longleftrightarrow> pio_dma_get_ints v d irq_index AND push_bit (CH_IDX v ch) 1 \<noteq> 0"

definition pio_dma_irqn_acknowledge_channel :: "pio_version \<Rightarrow> u8 \<Rightarrow> u8 \<Rightarrow> pio_dma_t \<Rightarrow> pio_dma_t" where
  "pio_dma_irqn_acknowledge_channel v irq_index ch d = d\<lparr>d_intr := d_intr d AND NOT (push_bit (CH_IDX v ch) 1)\<rparr>"

definition pio_dma_get_intr :: "pio_dma_t \<Rightarrow> u32" where
  "pio_dma_get_intr d = d_intr d"

definition pio_dma_get_inte :: "pio_version \<Rightarrow> pio_dma_t \<Rightarrow> u8 \<Rightarrow> u32" where
  "pio_dma_get_inte v d irq_index = d_inte d (LINE_IDX v irq_index)"

definition pio_dma_get_intf :: "pio_version \<Rightarrow> pio_dma_t \<Rightarrow> u8 \<Rightarrow> u32" where
  "pio_dma_get_intf v d irq_index = d_intf d (LINE_IDX v irq_index)"

definition pio_dma_irqn_force_channel :: "pio_version \<Rightarrow> u8 \<Rightarrow> u8 \<Rightarrow> bool \<Rightarrow> pio_dma_t \<Rightarrow> pio_dma_t" where
  "pio_dma_irqn_force_channel v irq_index ch on d =
     (let l = LINE_IDX v irq_index; b = push_bit (CH_IDX v ch) 1
      in d\<lparr>d_intf := (d_intf d)(l := if on then d_intf d l OR b else d_intf d l AND NOT b)\<rparr>)"

end
