(* ===== verification/Pio_Sniff.thy ===== *)
theory Pio_Sniff
  imports Pio_Dma
begin

text \<open>
  The arithmetic of the DMA controller: the checksum sniffer's two CRC formulations and the rate of
  the pacing timers, an instance of \<open>rate_divider\<close>.
\<close>

section \<open>Checksums\<close>

lemma reverse32_xor: "pio_reverse32 (x XOR y) = pio_reverse32 x XOR pio_reverse32 y"
  by (rule bit_word_eqI) (simp add: bit_pio_reverse32 bit_simps)

lemma reverse32_push: "pio_reverse32 (push_bit 1 x) = drop_bit 1 (pio_reverse32 x)"
proof (rule bit_word_eqI)
  fix k
  assume "k < LENGTH(32)"
  then show "bit (pio_reverse32 (push_bit 1 x)) k = bit (drop_bit 1 (pio_reverse32 x)) k"
    unfolding bit_pio_reverse32 bit_drop_bit_eq comp_apply bit_push_bit_iff by auto
qed

text \<open>One bit of the most-significant-first update, read from the other end.\<close>

lemma crc_bit_reflected:
  "pio_reverse32 (crc_bit_msb (push_bit 31 1) poly crc) = crc_bit_lsb (pio_reverse32 poly) (pio_reverse32 crc)"
proof -
  have "crc AND push_bit 31 1 \<noteq> 0 \<longleftrightarrow> bit crc 31"
    by (simp only: bit_iff_and_push_bit_not_eq_0)
  moreover have "pio_reverse32 crc AND 1 \<noteq> 0 \<longleftrightarrow> bit crc 31"
    using bit_iff_and_push_bit_not_eq_0 [of "pio_reverse32 crc" 0] by (simp add: bit_pio_reverse32 del: bit_0)
  ultimately show ?thesis
    unfolding crc_bit_msb_def crc_bit_lsb_def
    by (cases "bit crc 31") (simp_all only: if_True if_False reverse32_xor reverse32_push)
qed

lemma crc_bits_reflected:
  "pio_reverse32 ((crc_bit_msb (push_bit 31 1) poly ^^ n) crc) =
     (crc_bit_lsb (pio_reverse32 poly) ^^ n) (pio_reverse32 crc)"
  by (induction n) (simp_all only: funpow.simps comp_apply id_apply crc_bit_reflected)

text \<open>A byte with its bits in the opposite order.\<close>

definition reverse8 :: "u8 \<Rightarrow> u8" where
  "reverse8 b = byte_at (pio_reverse32 (ucast b)) 3"

lemma reverse32_byte: "pio_reverse32 (push_bit 24 (ucast b)) = ucast (reverse8 b)"
proof (rule bit_word_eqI)
  fix k
  assume "k < LENGTH(32)"
  then show "bit (pio_reverse32 (push_bit 24 (ucast b))) k = bit (ucast (reverse8 b) :: u32) k"
    by (auto simp: reverse8_def byte_at_def bit_pio_reverse32 bit_simps)
qed

lemma crc_update_reflected:
  "crc_update_lsb (pio_reverse32 crc) (reverse8 byte) (pio_reverse32 poly) = pio_reverse32 (crc_update_msb crc byte poly 32)"
  by (simp add: crc_update_lsb_def crc_update_msb_def Let_def crc_bits_reflected reverse32_byte reverse32_xor
      del: push_bit_of_1)

lemma reverse8_involution: "reverse8 (reverse8 b) = b"
  by (rule bit_word_eqI) (auto simp: reverse8_def byte_at_def bit_pio_reverse32 bit_simps)

text \<open>The nine digits of the published check values, each fed as one byte.\<close>

definition check_digits :: "u32 list" where
  "check_digits = [0x31, 0x32, 0x33, 0x34, 0x35, 0x36, 0x37, 0x38, 0x39]"

lemma sniff_crc32r: "sniff_calc 0x1 x 1 crc = crc_update_lsb crc (ucast x) 0xEDB88320"
proof -
  have m: "(0xFF :: u32) = mask 8" by (simp add: mask_eq_exp_minus_1)
  have "byte_at (x AND 0xFF) 0 = ucast x"
    by (rule bit_word_eqI) (auto simp: byte_at_def bit_simps m)
  then show ?thesis by (simp add: sniff_calc_def)
qed

lemma crc32_steps:
  "crc_update_lsb 0xFFFFFFFF 0x31 0xEDB88320 = 0x7C231048"
  "crc_update_lsb 0x7C231048 0x32 0xEDB88320 = 0xB0ACBB32"
  "crc_update_lsb 0xB0ACBB32 0x33 0xEDB88320 = 0x77B79C2D"
  "crc_update_lsb 0x77B79C2D 0x34 0xEDB88320 = 0x641C1F5C"
  "crc_update_lsb 0x641C1F5C 0x35 0xEDB88320 = 0x340AC5E3"
  "crc_update_lsb 0x340AC5E3 0x36 0xEDB88320 = 0xF68D2C9E"
  "crc_update_lsb 0xF68D2C9E 0x37 0xEDB88320 = 0xAFFC9660"
  "crc_update_lsb 0xAFFC9660 0x38 0xEDB88320 = 0x651F2550"
  "crc_update_lsb 0x651F2550 0x39 0xEDB88320 = 0x340BC6D9"
  by code_simp+

text \<open>
  C35: The CRC formulations agree.  Feeding a byte to the reflected CRC-32 (\<open>CRC32R\<close>, least significant
  bit first) is feeding the bit-reversed byte to the plain CRC-32 (most significant bit first) on the
  bit-reversed accumulator.  On the ASCII digits 1 to 9, seeded with all ones and inverted on output,
  the sniffer gives the published check value of CRC-32.
\<close>

theorem crc32r_is_reflected_crc32:
  "crc_update_lsb crc byte 0xEDB88320 =
     pio_reverse32 (crc_update_msb (pio_reverse32 crc) (reverse8 byte) 0x04C11DB7 32) \<and>
   NOT (fold (\<lambda>x. sniff_calc 0x1 x 1) check_digits 0xFFFFFFFF) = 0xCBF43926"
proof -
  have "pio_reverse32 0x04C11DB7 = 0xEDB88320" by (simp add: pio_reverse32_def Let_def)
  then have "crc_update_lsb crc byte 0xEDB88320 =
      pio_reverse32 (crc_update_msb (pio_reverse32 crc) (reverse8 byte) 0x04C11DB7 32)"
    using crc_update_reflected [of "pio_reverse32 crc" "reverse8 byte" "0x04C11DB7"]
    by (simp add: reverse8_involution pio_reverse32_involution)
  moreover have "fold (\<lambda>x. sniff_calc 0x1 x 1) check_digits 0xFFFFFFFF = 0x340BC6D9"
    unfolding sniff_crc32r by (simp add: check_digits_def crc32_steps)
  ultimately show ?thesis by simp
qed

section \<open>Pacing timers\<close>

definition timer_ok :: "nat \<Rightarrow> nat \<Rightarrow> dma_timer \<Rightarrow> bool" where
  "timer_ok n d t \<longleftrightarrow> unat (tm_num t) = n \<and> unat (tm_den t) = d \<and> 0 < d \<and> n \<le> d \<and> unat (tm_accum t) < d"

interpretation pacing: rate_divider "\<lambda>t. fst (timer_step t)" "\<lambda>t. snd (timer_step t)"
  "\<lambda>t. unat (tm_accum t)" "timer_ok n d" n d for n d
proof
  fix t assume ok: "timer_ok n d t"
  have u: "unat (ucast x :: u32) = unat x" for x :: u16
    using unsigned_less [where 'a = nat, of x] by (simp add: unsigned_ucast_eq take_bit_nat_eq_self)
  have d: "d < 2 ^ 16" using ok unsigned_less [where 'a = nat, of "tm_den t"] by (simp add: timer_ok_def)
  have den: "tm_den t \<noteq> 0" using ok by (auto simp: timer_ok_def)
  have acc: "unat (tm_accum t + ucast (tm_num t)) = unat (tm_accum t) + n"
    using ok d by (simp add: timer_ok_def u unat_word_ariths)
  show "unat (tm_accum t) < d" "n \<le> d" using ok by (simp_all add: timer_ok_def)
  show fires: "snd (timer_step t) \<longleftrightarrow> d \<le> unat (tm_accum t) + n"
    using ok den acc by (auto simp: timer_step_def Let_def word_le_nat_alt u timer_ok_def)
  show step: "unat (tm_accum (fst (timer_step t))) =
      (if snd (timer_step t) then unat (tm_accum t) + n - d else unat (tm_accum t) + n)"
    using ok den acc by (auto simp: timer_step_def Let_def word_le_nat_alt u timer_ok_def unat_sub)
  show "timer_ok n d (fst (timer_step t))"
    using ok den step fires by (auto simp: timer_ok_def timer_step_def Let_def)
qed

lemma timers_tick_at: "t < 4 \<Longrightarrow> d_timer ((dma_timers_tick ^^ k) d) t = ((\<lambda>t. fst (timer_step t)) ^^ k) (d_timer d t)"
  by (induction k) (simp_all add: dma_timers_tick_def)

text \<open>
  The rate of a pacing timer.  A timer set to the fraction \<open>num / den\<close> (at most one) issues exactly the
  integer part of \<open>n * num / den\<close> requests in its first \<open>n\<close> ticks, for every \<open>n\<close>: no rounding
  accumulates.
\<close>

lemma dma_timer_rate:
  assumes "0 < den" "num \<le> den"
  shows "let d' = pio_dma_timer_set_fraction timer num den d; t = unat timer mod 4
    in card {k. k < n \<and> snd (timer_step (d_timer ((dma_timers_tick ^^ k) d') t))} = n * unat num div unat den"
proof -
  let ?t = "d_timer (pio_dma_timer_set_fraction timer num den d) (unat timer mod 4)"
  have "timer_ok (unat num) (unat den) ?t"
    using assms by (auto simp: pio_dma_timer_set_fraction_def timer_ok_def word_less_nat_alt word_le_nat_alt)
  note rate = pacing.fire_count(1) [OF this, of n]
  have "tm_accum ?t = 0" by (simp add: pio_dma_timer_set_fraction_def)
  then show ?thesis using rate by (simp add: Let_def timers_tick_at)
qed

end
