(* ===== verification/Pio_Group.thy ===== *)
theory Pio_Group
  imports Pio_Run
begin

text \<open>
  Groups of PIO blocks (\<open>pio_sim_group_t\<close> and the \<open>pio_sim_group_*\<close> functions of
  \<open>lib/src/pio_sim.c\<close>): blocks clocked in lockstep, on the \<open>RP2350\<close> linked in an IRQ ring, and
  optionally wired to one shared pad set.
\<close>

section \<open>State and operations\<close>

text \<open>
  The shared pad set \<open>g->pads\<close> is entry \<open>g_pads\<close> of the store's group pads, so that \<open>&g->pads\<close> is the
  pointer \<open>Shared (g_pads g)\<close>.
\<close>

record pio_sim_group_t =
  g_blk :: "nat \<Rightarrow> nat"
  g_count :: u8
  g_shared :: bool
  g_pads :: nat

text \<open>One iteration of the ring-wiring loop.\<close>

definition link_neighbors :: "pio_sim_group_t \<Rightarrow> nat \<Rightarrow> pio_store \<Rightarrow> pio_store" where
  "link_neighbors g i h =
     (let n = unat (g_count g);
          prev = g_blk g ((i + n - 1) mod n);
          nxt = g_blk g ((i + 1) mod n)
      in upd_blk (g_blk g i) (pio_sim_set_irq_neighbors (Some prev) (Some nxt)) h)"

definition pio_sim_group_init ::
  "pio_version \<Rightarrow> (nat \<Rightarrow> nat) \<Rightarrow> u8 \<Rightarrow> pio_sim_group_t \<Rightarrow> pio_store \<Rightarrow> pio_sim_group_t \<times> pio_store" where
  "pio_sim_group_init v blocks count g h =
     (let count = (if PIO_SIM_NUM_PIO v < unat count then of_nat (PIO_SIM_NUM_PIO v) else count);
          g = g\<lparr>g_count := count, g_shared := False,
                g_blk := (\<lambda>i. if i < unat count then blocks i else g_blk g i)\<rparr>
      in (g, if PIO_SIM_HAS_IRQ_PREVNEXT v
             then fold (link_neighbors g) [0..<unat count] h else h))"

text \<open>One iteration of the loop of \<open>pio_sim_group_init_shared\<close>.\<close>

definition join_shared :: "pio_sim_group_t \<Rightarrow> nat \<Rightarrow> pio_store \<Rightarrow> pio_store" where
  "join_shared g i h =
     upd_pads (Shared (g_pads g)) (\<lambda>p. p\<lparr>p_owners := (p_owners p)(i := g_blk g i)\<rparr>)
       (upd_blk (g_blk g i) (\<lambda>p. p\<lparr>pio_pads := Shared (g_pads g)\<rparr>) h)"

definition pio_sim_group_init_shared ::
  "pio_version \<Rightarrow> (nat \<Rightarrow> nat) \<Rightarrow> u8 \<Rightarrow> pio_sim_group_t \<Rightarrow> pio_store \<Rightarrow> pio_sim_group_t \<times> pio_store" where
  "pio_sim_group_init_shared v blocks count g h =
     (let (g, h) = pio_sim_group_init v blocks count g h;
          h = upd_pads (Shared (g_pads g)) (\<lambda>_. pio_pads_init_defaults v pads_zero) h;
          g = g\<lparr>g_shared := True\<rparr>;
          h = fold (join_shared g) [0..<unat (g_count g)] h
      in (g, upd_pads (Shared (g_pads g)) (\<lambda>p. p\<lparr>p_owner_count := g_count g\<rparr>) h))"

definition pio_sim_group_tick :: "pio_version \<Rightarrow> device \<Rightarrow> pio_sim_group_t \<Rightarrow> pio_store \<Rightarrow> pio_store" where
  "pio_sim_group_tick v dev g h =
     (let h = fold (\<lambda>i. open_write_window (g_blk g i)) [0..<unat (g_count g)] h;
          h = fold (\<lambda>i. pio_sim_tick v dev (g_blk g i)) [0..<unat (g_count g)] h
      in if g_shared g then upd_pads (Shared (g_pads g)) (pads_clock v) h else h)"

definition pio_sim_group_run ::
  "pio_version \<Rightarrow> device \<Rightarrow> pio_sim_group_t \<Rightarrow> u64 \<Rightarrow> pio_store \<Rightarrow> pio_store" where
  "pio_sim_group_run v dev g n h = (pio_sim_group_tick v dev g ^^ unat n) h"

definition pio_sim_group_enable_sm_mask_in_sync ::
  "pio_sim_group_t \<Rightarrow> (nat \<Rightarrow> u8) \<Rightarrow> pio_store \<Rightarrow> pio_store" where
  "pio_sim_group_enable_sm_mask_in_sync g masks h =
     fold (\<lambda>i. pio_sim_enable_sm_mask_in_sync (g_blk g i) (masks i)) [0..<unat (g_count g)] h"

section \<open>The IRQ ring\<close>

lemma link_neighbors_other:
  "b \<noteq> g_blk g i \<Longrightarrow> st_blk (link_neighbors g i h) b = st_blk h b"
  by (simp add: link_neighbors_def Let_def upd_blk_def)

lemma fold_link_other:
  "b \<notin> g_blk g ` set is \<Longrightarrow> st_blk (fold (link_neighbors g) is h) b = st_blk h b"
  by (induction "is" arbitrary: h) (auto simp: link_neighbors_other)

lemma fold_link:
  assumes "inj_on (g_blk g) {..<n}" "i < n" "n = unat (g_count g)"
  shows "pio_irq_prev (st_blk (fold (link_neighbors g) [0..<n] h) (g_blk g i)) = Some (g_blk g ((i + n - 1) mod n))"
    and "pio_irq_next (st_blk (fold (link_neighbors g) [0..<n] h) (g_blk g i)) = Some (g_blk g ((i + 1) mod n))"
proof -
  have "g_blk g i \<notin> g_blk g ` set [Suc i..<n]"
  proof
    assume "g_blk g i \<in> g_blk g ` set [Suc i..<n]"
    then obtain j where "g_blk g i = g_blk g j" "i < j" "j < n" by auto
    then show False using inj_onD [OF assms(1), of i j] assms(2) by simp
  qed
  then have "st_blk (fold (link_neighbors g) [0..<n] h) (g_blk g i) =
      st_blk (link_neighbors g i (fold (link_neighbors g) [0..<i] h)) (g_blk g i)"
    unfolding upt_split [OF assms(2)] by (simp add: fold_link_other)
  then show "pio_irq_prev (st_blk (fold (link_neighbors g) [0..<n] h) (g_blk g i)) = Some (g_blk g ((i + n - 1) mod n))"
    and "pio_irq_next (st_blk (fold (link_neighbors g) [0..<n] h) (g_blk g i)) = Some (g_blk g ((i + 1) mod n))"
    by (simp_all add: link_neighbors_def Let_def upd_blk_def pio_sim_set_irq_neighbors_def assms(3))
qed

text \<open>
  The inter-PIO IRQ ring (RP2350).  After \<open>pio_sim_group_init\<close> of distinct blocks, \<open>next\<close> of block
  \<open>i\<close> is block \<open>i + 1\<close> modulo the count, and \<open>prev\<close> undoes \<open>next\<close>: the links form one ring over exactly
  the blocks of the group.
\<close>

lemma group_irq_ring:
  assumes "0 < count" "unat count \<le> 3" "inj_on blocks {..<unat count}" "i < unat count"
  shows "let (g, h') = pio_sim_group_init RP2350 blocks count g0 h; n = unat count
    in g_count g = count \<and>
       pio_irq_next (st_blk h' (blocks i)) = Some (blocks ((i + 1) mod n)) \<and>
       pio_irq_prev (st_blk h' (blocks ((i + 1) mod n))) = Some (blocks i)"
proof -
  define n where "n = unat count"
  define g where "g = g0\<lparr>g_count := count, g_shared := False,
                g_blk := (\<lambda>i. if i < n then blocks i else g_blk g0 i)\<rparr>"
  have n: "0 < n" "n \<le> 3" "i < n" "n = unat (g_count g)"
    using assms by (simp_all add: n_def g_def word_less_nat_alt)
  have init: "pio_sim_group_init RP2350 blocks count g0 h = (g, fold (link_neighbors g) [0..<n] h)"
    using assms(2) by (simp add: pio_sim_group_init_def Let_def PIO_SIM_NUM_PIO_def g_def n_def)
  have blk: "j < n \<Longrightarrow> g_blk g j = blocks j" for j by (simp add: g_def)
  have inj: "inj_on (g_blk g) {..<n}"
    using assms(3) by (simp add: n_def [symmetric] inj_on_def blk)
  let ?j = "(i + 1) mod n"
  have j: "?j < n" using n by simp
  have wrap_around: "(?j + n - 1) mod n = i"
  proof -
    have "?j = (if i + 1 = n then 0 else i + 1)" using n(3) by auto
    then show ?thesis using n(3) by (cases "i + 1 = n") auto
  qed
  have "pio_irq_next (st_blk (fold (link_neighbors g) [0..<n] h) (blocks i)) = Some (blocks ?j)"
    using fold_link(2) [OF inj n(3,4), of h] unfolding blk [OF n(3)] blk [OF j] .
  moreover have "pio_irq_prev (st_blk (fold (link_neighbors g) [0..<n] h) (blocks ?j)) = Some (blocks i)"
    using fold_link(1) [OF inj j n(4), of h] unfolding wrap_around blk [OF n(3)] blk [OF j] .
  ultimately show ?thesis by (simp add: init n_def [symmetric]) (simp add: g_def)
qed

end
