(* ===== verification/Pio_Clk.thy ===== *)
theory Pio_Clk
  imports Pio_Config
begin

text \<open>
  The clock tree (\<open>lib/src/pio_clk.c\<close>): crystal, PLL and \<open>clk_sys\<close> divider, their validation, the
  resulting frequency, and the conversions between ticks and time.  The code computes in 64-bit
  unsigned integers; the lemmas show that no intermediate result wraps and give the values in the
  natural numbers.
\<close>

section \<open>State and operations\<close>

definition CLK_DIV_FRAC_BITS :: "pio_version \<Rightarrow> nat" where
  "CLK_DIV_FRAC_BITS v = (case v of RP2350 \<Rightarrow> 16 | RP2040 \<Rightarrow> 8)"

definition CLK_DIV_INT_MAX :: "pio_version \<Rightarrow> u32" where
  "CLK_DIV_INT_MAX v = (case v of RP2350 \<Rightarrow> 0xFFFF | RP2040 \<Rightarrow> 0xFFFFFF)"

definition PIO_SIM_CLK_SYS_BOOT_POSTDIV1 :: "pio_version \<Rightarrow> u8" where
  "PIO_SIM_CLK_SYS_BOOT_POSTDIV1 v = (case v of RP2350 \<Rightarrow> 5 | RP2040 \<Rightarrow> 6)"

definition PIO_SIM_PLL_VCO_MIN_HZ :: "pio_version \<Rightarrow> u64" where
  "PIO_SIM_PLL_VCO_MIN_HZ v = (case v of RP2350 \<Rightarrow> 400000000 | RP2040 \<Rightarrow> 750000000)"

abbreviation (input) PIO_SIM_PLL_VCO_MAX_HZ :: u64 where "PIO_SIM_PLL_VCO_MAX_HZ \<equiv> 1600000000"

record pio_clk_tree_t =
  xosc_hz :: u64
  pll_refdiv :: u16
  pll_fbdiv :: u16
  pll_postdiv1 :: u8
  pll_postdiv2 :: u8
  clksys_div_int :: u32
  clksys_div_frac :: u32
  bypass_pll :: bool

datatype pio_clk_err_t =
  PIO_CLK_OK | PIO_CLK_ERR_XOSC_RANGE | PIO_CLK_ERR_REFDIV_RANGE | PIO_CLK_ERR_FBDIV_RANGE
  | PIO_CLK_ERR_VCO_RANGE | PIO_CLK_ERR_POSTDIV_RANGE | PIO_CLK_ERR_DIV_RANGE

definition pio_clk_init_default :: "pio_version \<Rightarrow> pio_clk_tree_t" where
  "pio_clk_init_default v =
     \<lparr>xosc_hz = 12000000, pll_refdiv = 1, pll_fbdiv = 125, pll_postdiv1 = PIO_SIM_CLK_SYS_BOOT_POSTDIV1 v,
      pll_postdiv2 = 2, clksys_div_int = 1, clksys_div_frac = 0, bypass_pll = False\<rparr>"

definition pio_clk_vco_hz :: "pio_clk_tree_t \<Rightarrow> u64" where
  "pio_clk_vco_hz t =
     (if pll_refdiv t = 0 then 0 else (xosc_hz t div ucast (pll_refdiv t)) * ucast (pll_fbdiv t))"

definition pio_clk_validate :: "pio_version \<Rightarrow> pio_clk_tree_t \<Rightarrow> pio_clk_err_t" where
  "pio_clk_validate v t =
     (if xosc_hz t < 1000000 \<or> 15000000 < xosc_hz t then PIO_CLK_ERR_XOSC_RANGE
      else if clksys_div_int t = 0 \<or> CLK_DIV_INT_MAX v < clksys_div_int t \<or>
              drop_bit (CLK_DIV_FRAC_BITS v) (clksys_div_frac t) \<noteq> 0 then PIO_CLK_ERR_DIV_RANGE
      else if bypass_pll t then PIO_CLK_OK
      else if pll_refdiv t < 1 \<or> 63 < pll_refdiv t \<or> xosc_hz t div ucast (pll_refdiv t) < 5000000
        then PIO_CLK_ERR_REFDIV_RANGE
      else if pll_fbdiv t < 16 \<or> 320 < pll_fbdiv t then PIO_CLK_ERR_FBDIV_RANGE
      else let vco = pio_clk_vco_hz t
        in if vco < PIO_SIM_PLL_VCO_MIN_HZ v \<or> PIO_SIM_PLL_VCO_MAX_HZ < vco then PIO_CLK_ERR_VCO_RANGE
           else if pll_postdiv1 t < 1 \<or> 7 < pll_postdiv1 t \<or> pll_postdiv2 t < 1 \<or> 7 < pll_postdiv2 t
             then PIO_CLK_ERR_POSTDIV_RANGE
           else PIO_CLK_OK)"

definition pio_clk_configure_pll ::
  "pio_version \<Rightarrow> pio_clk_tree_t \<Rightarrow> u16 \<Rightarrow> u16 \<Rightarrow> u8 \<Rightarrow> u8 \<Rightarrow> pio_clk_tree_t \<times> pio_clk_err_t" where
  "pio_clk_configure_pll v t refdiv fbdiv postdiv1 postdiv2 =
     (let trial = t\<lparr>pll_refdiv := refdiv, pll_fbdiv := fbdiv, pll_postdiv1 := postdiv1,
                    pll_postdiv2 := postdiv2, bypass_pll := False\<rparr>;
          err = pio_clk_validate v trial
      in (if err = PIO_CLK_OK then trial else t, err))"

definition pio_clk_sys_hz :: "pio_version \<Rightarrow> pio_clk_tree_t \<Rightarrow> u64" where
  "pio_clk_sys_hz v t =
     (if pio_clk_validate v t \<noteq> PIO_CLK_OK then 0
      else let src = (if bypass_pll t then xosc_hz t
                      else pio_clk_vco_hz t div ucast (pll_postdiv1 t) div ucast (pll_postdiv2 t));
               den = push_bit (CLK_DIV_FRAC_BITS v) (ucast (clksys_div_int t)) OR ucast (clksys_div_frac t);
               num = push_bit (CLK_DIV_FRAC_BITS v) src
           in (num + den div 2) div den)"

definition muldiv_round :: "u64 \<Rightarrow> u64 \<Rightarrow> u64 \<Rightarrow> u64" where
  "muldiv_round ticks scale hz =
     (if hz = 0 then 0
      else let whole = (ticks div hz) * scale;
               rest = (ticks mod hz) * scale
           in whole + ((rest + hz div 2) div hz))"

definition muldiv_ceil :: "u64 \<Rightarrow> u64 \<Rightarrow> u64 \<Rightarrow> u64" where
  "muldiv_ceil time hz scale =
     (let whole = (time div scale) * hz;
          rest = (time mod scale) * hz
      in whole + ((rest + scale - 1) div scale))"

definition pio_clk_ticks_to_ns :: "pio_version \<Rightarrow> pio_clk_tree_t \<Rightarrow> u64 \<Rightarrow> u64" where
  "pio_clk_ticks_to_ns v t ticks = muldiv_round ticks 1000000000 (pio_clk_sys_hz v t)"

definition pio_clk_ticks_to_us :: "pio_version \<Rightarrow> pio_clk_tree_t \<Rightarrow> u64 \<Rightarrow> u64" where
  "pio_clk_ticks_to_us v t ticks = muldiv_round ticks 1000000 (pio_clk_sys_hz v t)"

definition pio_clk_ns_to_ticks :: "pio_version \<Rightarrow> pio_clk_tree_t \<Rightarrow> u64 \<Rightarrow> u64" where
  "pio_clk_ns_to_ticks v t ns = muldiv_ceil ns (pio_clk_sys_hz v t) 1000000000"

definition pio_clk_us_to_ticks :: "pio_version \<Rightarrow> pio_clk_tree_t \<Rightarrow> u64 \<Rightarrow> u64" where
  "pio_clk_us_to_ticks v t us = muldiv_ceil us (pio_clk_sys_hz v t) 1000000"

section \<open>Arithmetic without wrap-around\<close>

lemma u64_exact:
  "unat (a div b :: u64) = unat a div unat b" "unat (a mod b :: u64) = unat a mod unat b"
  by (simp_all add: unat_div unat_mod)

lemma u64_mult: "unat a * unat b < 2 ^ 64 \<Longrightarrow> unat (a * b :: u64) = unat a * unat b"
  by (simp add: unat_word_ariths)

lemma u64_add: "unat a + unat b < 2 ^ 64 \<Longrightarrow> unat (a + b :: u64) = unat a + unat b"
  by (simp add: unat_word_ariths)

lemma u64_push: "unat w * 2 ^ f < 2 ^ 64 \<Longrightarrow> unat (push_bit f w :: u64) = unat w * 2 ^ f"
  unfolding unsigned_push_bit_eq by (simp add: push_bit_eq_mult take_bit_nat_eq_self)

text \<open>Splitting a product at a divisor: \<open>t * s = (t div d) * s * d + (t mod d) * s\<close>.\<close>

lemma split_at: "(t div d) * s * d + (t mod d) * s = t * (s :: nat)"
  by (metis add_mult_distrib div_mult_mod_eq mult.assoc mult.commute)

lemma round_div:
  fixes n d :: nat
  assumes "0 < d"
  shows "2 * ((n + d div 2) div d * d) \<le> 2 * n + d" "2 * n \<le> 2 * ((n + d div 2) div d * d) + d"
proof -
  let ?q = "(n + d div 2) div d"
  have "?q * d + (n + d div 2) mod d = n + d div 2" by (rule div_mult_mod_eq)
  moreover have "(n + d div 2) mod d < d" using assms by simp
  moreover have "2 * (d div 2) \<le> d" "d \<le> 2 * (d div 2) + 1" by simp_all
  ultimately show "2 * (?q * d) \<le> 2 * n + d" "2 * n \<le> 2 * (?q * d) + d" by linarith+
qed

lemma ceil_div:
  fixes n d :: nat
  assumes "0 < d"
  shows "n \<le> (n + d - 1) div d * d" "(n + d - 1) div d * d < n + d"
proof -
  have "(n + d - 1) div d * d + (n + d - 1) mod d = n + d - 1" by (rule div_mult_mod_eq)
  moreover have "(n + d - 1) mod d < d" using assms by simp
  ultimately show "n \<le> (n + d - 1) div d * d" "(n + d - 1) div d * d < n + d"
    using assms by linarith+
qed

text \<open>The part of a scaled quotient that the remainder contributes is at most the scale.\<close>

lemma part_quotient:
  fixes n d s e :: nat
  assumes "0 < d" "e < d"
  shows "(n mod d * s + e) div d \<le> s"
proof -
  have "n mod d * s \<le> (d - 1) * s" using mod_less_divisor [OF assms(1), of n] by (intro mult_mono) simp_all
  moreover have "(d - 1) * s + e < d * (s + 1)" using assms by (cases d) simp_all
  ultimately have "n mod d * s + e < d * (s + 1)" by linarith
  then show ?thesis using less_mult_imp_div_less [of "n mod d * s + e" "s + 1" d] by (simp add: mult.commute)
qed

lemma muldiv_round_exact:
  assumes "0 < unat hz" "unat hz < 2 ^ 32" "unat scale \<le> 10 ^ 9"
    and "unat ticks div unat hz * unat scale + unat scale < 2 ^ 64"
  shows "2 * (unat (muldiv_round ticks scale hz) * unat hz) \<le> 2 * (unat ticks * unat scale) + unat hz"
    and "2 * (unat ticks * unat scale) \<le> 2 * (unat (muldiv_round ticks scale hz) * unat hz) + unat hz"
proof -
  let ?d = "unat hz" and ?s = "unat scale"
  define r where "r = unat ticks mod ?d * ?s"
  have "r \<le> (2 ^ 32 - 1) * 10 ^ 9"
    unfolding r_def
    using assms(2,3) mod_less_divisor [OF assms(1), of "unat ticks"] by (intro mult_mono) auto
  moreover have "?d div 2 \<le> ?d" by simp
  ultimately have small: "r + ?d div 2 < 2 ^ 63" using assms(2) by simp
  have q: "(r + ?d div 2) div ?d \<le> ?s"
    unfolding r_def using assms(1) by (intro part_quotient) simp_all
  have rest: "unat (ticks mod hz * scale) = r"
    using small by (subst u64_mult) (simp_all add: u64_exact r_def)
  have "unat (ticks mod hz * scale + hz div 2) = r + ?d div 2"
    using small by (subst u64_add) (simp_all add: rest u64_exact)
  then have quot: "unat ((ticks mod hz * scale + hz div 2) div hz) = (r + ?d div 2) div ?d"
    by (simp add: u64_exact)
  have whole: "unat (ticks div hz * scale) = unat ticks div ?d * ?s"
    using assms(4) by (subst u64_mult) (simp_all add: u64_exact)
  have "unat (muldiv_round ticks scale hz) = unat ticks div ?d * ?s + (r + ?d div 2) div ?d"
    using assms(1,4) q by (simp add: muldiv_round_def Let_def) (subst u64_add, auto simp: quot whole)
  then have v: "unat (muldiv_round ticks scale hz) * ?d =
      unat ticks div ?d * ?s * ?d + (r + ?d div 2) div ?d * ?d" by (simp add: add_mult_distrib)
  have t: "unat ticks * ?s = unat ticks div ?d * ?s * ?d + r" by (simp add: r_def split_at)
  show "2 * (unat (muldiv_round ticks scale hz) * unat hz) \<le> 2 * (unat ticks * unat scale) + unat hz"
    "2 * (unat ticks * unat scale) \<le> 2 * (unat (muldiv_round ticks scale hz) * unat hz) + unat hz"
    using round_div [OF assms(1), of r] unfolding v t by (simp_all add: add_mult_distrib2)
qed

lemma muldiv_ceil_exact:
  assumes "0 < unat scale" "unat scale \<le> 10 ^ 9" "unat hz < 2 ^ 32"
    and "unat time div unat scale * unat hz + unat hz < 2 ^ 64"
  shows "unat time * unat hz \<le> unat (muldiv_ceil time hz scale) * unat scale"
    and "unat (muldiv_ceil time hz scale) * unat scale < unat time * unat hz + unat scale"
proof -
  let ?d = "unat scale" and ?s = "unat hz"
  define r where "r = unat time mod ?d * ?s"
  have "r \<le> 10 ^ 9 * 2 ^ 32"
    unfolding r_def
    using assms(2,3) mod_less_divisor [OF assms(1), of "unat time"] by (intro mult_mono) auto
  then have small: "r + ?d < 2 ^ 63" using assms(2) by simp
  have "r + ?d - 1 = r + (?d - 1)" using assms(1) by simp
  then have q: "(r + ?d - 1) div ?d \<le> ?s"
    unfolding r_def using assms(1) by (simp only:) (intro part_quotient, simp_all)
  have rest: "unat (time mod scale * hz) = r"
    using small by (subst u64_mult) (simp_all add: u64_exact r_def)
  have "unat (time mod scale * hz + scale) = r + ?d"
    using small by (subst u64_add) (simp_all add: rest)
  moreover have "time mod scale * hz + scale \<noteq> 0"
    using calculation assms(1) by (metis add_is_0 less_numeral_extra(3) unat_0)
  ultimately have "unat (time mod scale * hz + scale - 1) = r + ?d - 1" by (simp add: unat_minus_one)
  then have quot: "unat ((time mod scale * hz + scale - 1) div scale) = (r + ?d - 1) div ?d"
    by (simp add: u64_exact)
  have whole: "unat (time div scale * hz) = unat time div ?d * ?s"
    using assms(4) by (subst u64_mult) (simp_all add: u64_exact)
  have "unat (muldiv_ceil time hz scale) = unat time div ?d * ?s + (r + ?d - 1) div ?d"
    unfolding muldiv_ceil_def Let_def using assms(4) q by (subst u64_add) (auto simp: quot whole)
  then have v: "unat (muldiv_ceil time hz scale) * ?d =
      unat time div ?d * ?s * ?d + (r + ?d - 1) div ?d * ?d" by (simp add: add_mult_distrib)
  have t: "unat time * ?s = unat time div ?d * ?s * ?d + r" by (simp add: r_def split_at)
  show "unat time * unat hz \<le> unat (muldiv_ceil time hz scale) * unat scale"
    "unat (muldiv_ceil time hz scale) * unat scale < unat time * unat hz + unat scale"
    using ceil_div [OF assms(1), of r] unfolding v t by simp_all
qed

section \<open>The frequency of a valid tree\<close>

text \<open>The frequency before the \<open>clk_sys\<close> divider, and the divider in units of its least bit.\<close>

definition source_hz :: "pio_clk_tree_t \<Rightarrow> nat" where
  "source_hz t =
     (if bypass_pll t then unat (xosc_hz t)
      else unat (xosc_hz t) div unat (pll_refdiv t) * unat (pll_fbdiv t)
             div unat (pll_postdiv1 t) div unat (pll_postdiv2 t))"

definition divider :: "pio_version \<Rightarrow> pio_clk_tree_t \<Rightarrow> nat" where
  "divider v t = unat (clksys_div_int t) * 2 ^ CLK_DIV_FRAC_BITS v + unat (clksys_div_frac t)"

lemma frac_bits: "CLK_DIV_FRAC_BITS v \<le> 16"
  by (cases v) (simp_all add: CLK_DIV_FRAC_BITS_def)

lemma unat_ucast_le:
  "LENGTH('a) \<le> LENGTH('b) \<Longrightarrow> unat (ucast (w :: 'a::len word) :: 'b::len word) = unat w"
proof -
  assume "LENGTH('a) \<le> LENGTH('b)"
  then have "unat w < 2 ^ LENGTH('b)"
    using unsigned_less [where 'a = nat, of w] power_increasing [of "LENGTH('a)" "LENGTH('b)" "2 :: nat"]
    by linarith
  then show ?thesis by (simp add: unsigned_ucast_eq take_bit_nat_eq_self)
qed

lemma vco_exact:
  assumes "xosc_hz t \<le> 15000000" "pll_refdiv t \<noteq> 0" "pll_fbdiv t \<le> 320"
  shows "unat (pio_clk_vco_hz t) = unat (xosc_hz t) div unat (pll_refdiv t) * unat (pll_fbdiv t)"
proof -
  have "unat (xosc_hz t) div unat (pll_refdiv t) \<le> 15000000"
    using assms(1) by (intro le_trans [OF div_le_dividend]) (simp add: word_le_nat_alt)
  then have "unat (xosc_hz t) div unat (pll_refdiv t) * unat (pll_fbdiv t) \<le> 15000000 * 320"
    using assms(3) by (intro mult_mono) (simp_all add: word_le_nat_alt)
  then show ?thesis
    using assms(2) by (simp add: pio_clk_vco_hz_def u64_mult u64_exact unat_ucast_le)
qed

lemma valid_cases:
  assumes "pio_clk_validate v t = PIO_CLK_OK"
  shows "xosc_hz t \<le> 15000000" "clksys_div_int t \<noteq> 0" "drop_bit (CLK_DIV_FRAC_BITS v) (clksys_div_frac t) = 0"
    "bypass_pll t \<or> (pll_refdiv t \<noteq> 0 \<and> pll_fbdiv t \<le> 320 \<and> pio_clk_vco_hz t \<le> 1600000000)"
  using assms
  by (auto simp: pio_clk_validate_def Let_def not_less word_less_1 split: if_splits)

lemma divider_exact:
  assumes "pio_clk_validate v t = PIO_CLK_OK"
  shows "unat (push_bit (CLK_DIV_FRAC_BITS v) (ucast (clksys_div_int t)) OR ucast (clksys_div_frac t) :: u64) = divider v t"
    and "2 ^ CLK_DIV_FRAC_BITS v \<le> divider v t" "divider v t < 2 ^ 49"
proof -
  let ?f = "CLK_DIV_FRAC_BITS v"
  let ?i = "ucast (clksys_div_int t) :: u64" and ?r = "ucast (clksys_div_frac t) :: u64"
  have int: "0 < unat (clksys_div_int t)" "unat (clksys_div_int t) < 2 ^ 32"
    using valid_cases(2) [OF assms] unsigned_less [where 'a = nat, of "clksys_div_int t"]
    by (simp_all add: unat_gt_0)
  have frac: "unat (clksys_div_frac t) < 2 ^ 32"
    using unsigned_less [where 'a = nat, of "clksys_div_frac t"] by simp
  have f: "(2 :: nat) ^ ?f \<le> 2 ^ 16" using frac_bits by (intro power_increasing) simp_all
  have le: "unat (clksys_div_int t) * 2 ^ ?f \<le> 2 ^ 32 * 2 ^ 16"
    using int(2) f by (intro mult_mono) simp_all
  then have "unat (push_bit ?f ?i) = unat (clksys_div_int t) * 2 ^ ?f"
    by (subst u64_push) (simp_all add: unat_ucast_le)
  moreover have "push_bit ?f ?i AND ?r = 0"
  proof (rule bit_word_eqI)
    fix k
    have "\<not> bit (drop_bit ?f (clksys_div_frac t)) (k - ?f)" using valid_cases(3) [OF assms] by simp
    then have "\<not> bit (clksys_div_frac t) k" if "?f \<le> k" using that by (simp add: bit_drop_bit_eq)
    then show "bit (push_bit ?f ?i AND ?r) k = bit 0 k" by (auto simp: bit_simps)
  qed
  then have "push_bit ?f ?i OR ?r = push_bit ?f ?i + ?r" by (simp add: disjunctive_add_eq_or)
  ultimately show "unat (push_bit ?f ?i OR ?r) = divider v t"
    using le frac by (simp add: u64_add unat_ucast_le divider_def)
  have "1 * 2 ^ ?f \<le> unat (clksys_div_int t) * 2 ^ ?f" using int(1) by (intro mult_mono) simp_all
  then show "2 ^ ?f \<le> divider v t" unfolding divider_def by linarith
  show "divider v t < 2 ^ 49" using le frac unfolding divider_def by simp
qed

lemma source_exact:
  assumes "pio_clk_validate v t = PIO_CLK_OK"
  shows "unat (if bypass_pll t then xosc_hz t
      else pio_clk_vco_hz t div ucast (pll_postdiv1 t) div ucast (pll_postdiv2 t)) = source_hz t"
    and "source_hz t \<le> 1600000000"
proof -
  note v = valid_cases [OF assms]
  show eq: "unat (if bypass_pll t then xosc_hz t
      else pio_clk_vco_hz t div ucast (pll_postdiv1 t) div ucast (pll_postdiv2 t)) = source_hz t"
    using v(1,4) by (auto simp: source_hz_def u64_exact unat_ucast_le vco_exact)
  have "a div b div c \<le> (a :: nat)" for a b c by (meson div_le_dividend le_trans)
  then have "unat (pio_clk_vco_hz t div ucast (pll_postdiv1 t) div ucast (pll_postdiv2 t)) \<le> unat (pio_clk_vco_hz t)"
    by (simp add: u64_exact)
  then show "source_hz t \<le> 1600000000"
    using v(1,4) unfolding eq [symmetric] by (auto simp: word_le_nat_alt)
qed

lemma sys_hz_exact:
  assumes "pio_clk_validate v t = PIO_CLK_OK"
  shows "unat (pio_clk_sys_hz v t) =
      (source_hz t * 2 ^ CLK_DIV_FRAC_BITS v + divider v t div 2) div divider v t"
    and "pio_clk_sys_hz v t \<le> 1600000000"
proof -
  let ?f = "CLK_DIV_FRAC_BITS v"
  let ?src = "if bypass_pll t then xosc_hz t
      else pio_clk_vco_hz t div ucast (pll_postdiv1 t) div ucast (pll_postdiv2 t)"
  let ?den = "push_bit ?f (ucast (clksys_div_int t)) OR ucast (clksys_div_frac t) :: u64"
  note src = source_exact [OF assms] and den = divider_exact [OF assms]
  have f: "(2 :: nat) ^ ?f \<le> 2 ^ 16" using frac_bits by (intro power_increasing) simp_all
  have num: "source_hz t * 2 ^ ?f \<le> 1600000000 * 2 ^ 16" using src(2) f by (intro mult_mono) simp_all
  then have "unat (push_bit ?f ?src) = source_hz t * 2 ^ ?f"
    by (subst u64_push) (simp_all only: src(1), simp)
  then have "unat (push_bit ?f ?src + ?den div 2) = source_hz t * 2 ^ ?f + divider v t div 2"
    using num den(3) by (simp add: u64_add u64_exact den(1))
  then show eq: "unat (pio_clk_sys_hz v t) = (source_hz t * 2 ^ ?f + divider v t div 2) div divider v t"
    using assms by (simp add: pio_clk_sys_hz_def Let_def u64_exact den(1))
  have pos: "0 < divider v t" using den(2) by (metis less_le_trans zero_less_numeral zero_less_power)
  have "source_hz t * 2 ^ ?f \<le> source_hz t * divider v t" using den(2) by simp
  moreover have "divider v t div 2 < divider v t" using pos by simp
  ultimately have "source_hz t * 2 ^ ?f + divider v t div 2 < (source_hz t + 1) * divider v t"
    unfolding add_mult_distrib by linarith
  then have "unat (pio_clk_sys_hz v t) < source_hz t + 1"
    unfolding eq using pos by (simp add: less_mult_imp_div_less)
  then show "pio_clk_sys_hz v t \<le> 1600000000" using src(2) by (simp add: word_le_nat_alt)
qed

section \<open>Properties\<close>

text \<open>
  C29: The frequency of a valid tree is the source frequency times \<open>2 ^ f\<close> over the fractional
  divider, rounded to the nearest integer, and at most 1.6 GHz; no step of the 64-bit computation
  wraps.  An invalid tree has frequency 0.
\<close>

theorem sys_hz_nearest:
  "if pio_clk_validate v t = PIO_CLK_OK
   then let n = int (source_hz t) * 2 ^ CLK_DIV_FRAC_BITS v; d = int (divider v t)
        in 0 < d \<and> 2 * \<bar>uint (pio_clk_sys_hz v t) * d - n\<bar> \<le> d \<and> pio_clk_sys_hz v t \<le> 1600000000
   else pio_clk_sys_hz v t = 0"
proof (cases "pio_clk_validate v t = PIO_CLK_OK")
  case True
  let ?n = "source_hz t * 2 ^ CLK_DIV_FRAC_BITS v" and ?d = "divider v t" and ?r = "unat (pio_clk_sys_hz v t)"
  have pos: "0 < ?d"
    using divider_exact(2) [OF True] by (metis less_le_trans zero_less_numeral zero_less_power)
  have "2 * (?r * ?d) \<le> 2 * ?n + ?d" "2 * ?n \<le> 2 * (?r * ?d) + ?d"
    using round_div [OF pos, of ?n] unfolding sys_hz_exact(1) [OF True] by simp_all
  then have "int (2 * (?r * ?d)) \<le> int (2 * ?n + ?d)" "int (2 * ?n) \<le> int (2 * (?r * ?d) + ?d)"
    by (simp_all only: of_nat_le_iff)
  moreover have near: "2 * \<bar>a - n\<bar> \<le> d" if "2 * a \<le> 2 * n + d" "2 * n \<le> 2 * a + d" for a n d :: int
    using that by (auto simp: abs_if)
  ultimately have "2 * \<bar>uint (pio_clk_sys_hz v t) * int ?d - int (source_hz t) * 2 ^ CLK_DIV_FRAC_BITS v\<bar> \<le> int ?d"
    by (intro near) simp_all
  then show ?thesis using True pos sys_hz_exact(2) [OF True] by (simp add: Let_def)
next
  case False
  then show ?thesis by (simp add: pio_clk_sys_hz_def)
qed

text \<open>
  C30: Timeouts are never short.  For every duration up to ten thousand million seconds, the tick count
  of \<open>pio_clk_ns_to_ticks\<close> is the least that covers it, and converting that count back to
  nanoseconds gives at least the duration asked for.
\<close>

theorem ns_to_ticks_covers:
  assumes "pio_clk_sys_hz v t \<noteq> 0" "unat ns \<le> 10 ^ 19"
  shows "let k = pio_clk_ns_to_ticks v t ns; hz = unat (pio_clk_sys_hz v t)
    in unat ns * hz \<le> unat k * 10 ^ 9 \<and> unat k * 10 ^ 9 < unat ns * hz + 10 ^ 9 \<and>
       ns \<le> pio_clk_ticks_to_ns v t k"
proof -
  let ?hz = "unat (pio_clk_sys_hz v t)"
  define k where "k = pio_clk_ns_to_ticks v t ns"
  have "pio_clk_validate v t = PIO_CLK_OK"
    using assms(1) unfolding pio_clk_sys_hz_def by (rule contrapos_np) simp
  then have hz: "0 < ?hz" "?hz \<le> 1600000000"
    using assms(1) sys_hz_exact(2) by (auto simp: word_le_nat_alt unat_gt_0)
  have "unat ns div 10 ^ 9 * ?hz \<le> 10 ^ 10 * 1600000000"
    using assms(2) hz(2) by (intro mult_mono) simp_all
  then have k: "unat ns * ?hz \<le> unat k * 10 ^ 9" "unat k * 10 ^ 9 < unat ns * ?hz + 10 ^ 9"
    using muldiv_ceil_exact [of 1000000000 "pio_clk_sys_hz v t" ns] hz
    by (simp_all add: k_def pio_clk_ns_to_ticks_def)
  have "unat k div ?hz * 10 ^ 9 * ?hz \<le> unat k * 10 ^ 9"
    by (simp add: mult.commute mult.left_commute)
  also have "\<dots> < (unat ns + 10 ^ 9) * ?hz" using k(2) hz(1) by (simp add: add_mult_distrib)
  finally have "unat k div ?hz * 10 ^ 9 < unat ns + 10 ^ 9" by (rule mult_less_cancel2 [THEN iffD1, THEN conjunct2])
  then have "2 * (unat k * 10 ^ 9) \<le> 2 * (unat (pio_clk_ticks_to_ns v t k) * ?hz) + ?hz"
    using muldiv_round_exact(2) [of "pio_clk_sys_hz v t" 1000000000 k] hz assms(2)
    by (simp add: pio_clk_ticks_to_ns_def)
  then have "2 * unat ns * ?hz \<le> (2 * unat (pio_clk_ticks_to_ns v t k) + 1) * ?hz"
    using k(1) by (simp add: add_mult_distrib)
  then have "2 * unat ns \<le> 2 * unat (pio_clk_ticks_to_ns v t k) + 1" using hz(1) by (simp only: mult_le_cancel2)
  then have "ns \<le> pio_clk_ticks_to_ns v t k" by (simp add: word_le_nat_alt)
  then show ?thesis using k by (simp add: k_def Let_def)
qed

theorem ns_to_ticks_covers_witness:
  "let t = pio_clk_init_default RP2040
   in 1000001 \<le> pio_clk_ticks_to_ns RP2040 t (pio_clk_ns_to_ticks RP2040 t 1000001)"
proof -
  have "pio_clk_sys_hz RP2040 (pio_clk_init_default RP2040) = 125000000" by code_simp
  then show ?thesis using ns_to_ticks_covers [of RP2040 "pio_clk_init_default RP2040" 1000001] by (simp add: Let_def)
qed

end
