(* ===== verification/Pio_Arbiter.thy ===== *)
theory Pio_Arbiter
  imports Pio_Dma
begin

text \<open>
  Which channel the DMA controller serves.  The locale \<open>round_robin\<close> holds the laws of a cyclic scan
  over a fixed number of seats; the controller's channels are an instance.
\<close>

section \<open>Cyclic scans\<close>

text \<open>The steps a scan that starts at seat \<open>r\<close> takes before it reaches \<open>c\<close>.\<close>

definition seat_distance :: "nat \<Rightarrow> nat \<Rightarrow> nat \<Rightarrow> nat" where
  "seat_distance n r c = (c + (n - r mod n)) mod n"

locale round_robin =
  fixes n :: nat
  assumes seats: "0 < n"
begin

lemma distance_less: "seat_distance n r c < n"
  using seats by (simp add: seat_distance_def)

lemma reach: "c < n \<Longrightarrow> (r + seat_distance n r c) mod n = c"
proof -
  assume "c < n"
  have "r mod n < n" using seats by simp
  then have "(r + seat_distance n r c) mod n = (r mod n + (c + (n - r mod n))) mod n"
    unfolding seat_distance_def by (metis mod_add_left_eq mod_add_right_eq)
  also have "r mod n + (c + (n - r mod n)) = c + n" using \<open>r mod n < n\<close> by simp
  finally show ?thesis using \<open>c < n\<close> by simp
qed

lemma distance_of: "i < n \<Longrightarrow> seat_distance n r ((r + i) mod n) = i"
  using reach [of "(r + i) mod n" r] ring_slot_inject [of r "seat_distance n r ((r + i) mod n)" n i]
    distance_less seats by simp

lemma scan_None: "List.find P (map (\<lambda>i. (r + i) mod n) [0..<n]) = None \<longleftrightarrow> (\<forall>c<n. \<not> P c)"
proof -
  have "(\<exists>i<n. P ((r + i) mod n)) \<longleftrightarrow> (\<exists>c<n. P c)"
    using seats reach distance_less by (metis mod_less_divisor)
  then show ?thesis by (auto simp: find_None_iff)
qed

lemma scan_Some:
  assumes "List.find P (map (\<lambda>i. (r + i) mod n) [0..<n]) = Some c"
  shows "c < n" "P c" "c' < n \<Longrightarrow> P c' \<Longrightarrow> seat_distance n r c \<le> seat_distance n r c'"
proof -
  obtain i where i: "i < n" "P ((r + i) mod n)" "c = (r + i) mod n" "\<And>j. j < i \<Longrightarrow> \<not> P ((r + j) mod n)"
    using assms by (auto simp: find_Some_iff)
  show "c < n" "P c" using i seats by simp_all
  show "seat_distance n r c \<le> seat_distance n r c'" if "c' < n" "P c'"
  proof (rule ccontr)
    assume "\<not> ?thesis"
    then have "seat_distance n r c' < i" using distance_of [OF i(1), of r] i(3) by simp
    then show False using i(4) reach [OF that(1), of r] that(2) by metis
  qed
qed

text \<open>Serving another seat first brings the scan strictly closer.\<close>

lemma closer:
  assumes "c < n" "c' < n" "c' \<noteq> c" "seat_distance n r c' \<le> seat_distance n r c"
  shows "seat_distance n ((c' + 1) mod n) c < seat_distance n r c"
proof -
  let ?d = "seat_distance n r c" and ?d' = "seat_distance n r c'"
  have less: "?d' < ?d" using assms reach by (metis le_neq_implies_less)
  have "((c' + 1) mod n + (?d - Suc ?d')) mod n = ((r + ?d') mod n + 1 + (?d - Suc ?d')) mod n"
    unfolding reach [OF assms(2)] by (metis mod_add_left_eq)
  also have "\<dots> = (r + ?d' + (1 + (?d - Suc ?d'))) mod n"
    by (metis add.assoc mod_add_left_eq)
  also have "r + ?d' + (1 + (?d - Suc ?d')) = r + ?d" using less by simp
  finally have "((c' + 1) mod n + (?d - Suc ?d')) mod n = c" using reach [OF assms(1)] by simp
  moreover have "?d - Suc ?d' < n" using distance_less [of r c] by simp
  ultimately have "seat_distance n ((c' + 1) mod n) c = ?d - Suc ?d'" using distance_of by metis
  then show ?thesis using less by simp
qed

end

interpretation channels: round_robin "PIO_SIM_DMA_NUM_CHANNELS v" for v
  by unfold_locales (cases v; simp add: PIO_SIM_DMA_NUM_CHANNELS_def)

section \<open>Arbitration\<close>

abbreviation hp :: "dma_world \<Rightarrow> nat \<Rightarrow> bool" where
  "hp w c \<equiv> dc_high_priority (ch_ctrl (d_ch (w_dma w) c))"

abbreviation seat :: "dma_world \<Rightarrow> nat" where
  "seat w \<equiv> unat (d_rr_next (w_dma w))"

lemma pick_None:
  "dma_pick v w = None \<longleftrightarrow> (\<forall>c<PIO_SIM_DMA_NUM_CHANNELS v. \<not> dma_channel_ready w c)"
proof -
  have "dma_pick v w = None \<longleftrightarrow> dma_scan v w True = None \<and> dma_scan v w False = None"
    by (simp add: dma_pick_def split: option.split)
  then show ?thesis unfolding dma_scan_def channels.scan_None by blast
qed

lemma pick_Some:
  assumes "dma_pick v w = Some c"
  shows "c < PIO_SIM_DMA_NUM_CHANNELS v" "dma_channel_ready w c"
    "c' < PIO_SIM_DMA_NUM_CHANNELS v \<Longrightarrow> dma_channel_ready w c' \<Longrightarrow> hp w c' \<Longrightarrow> hp w c"
    "c' < PIO_SIM_DMA_NUM_CHANNELS v \<Longrightarrow> dma_channel_ready w c' \<Longrightarrow> hp w c' = hp w c \<Longrightarrow>
       seat_distance (PIO_SIM_DMA_NUM_CHANNELS v) (seat w) c \<le> seat_distance (PIO_SIM_DMA_NUM_CHANNELS v) (seat w) c'"
proof -
  consider (high) "dma_scan v w True = Some c" | (low) "dma_scan v w True = None" "dma_scan v w False = Some c"
    using assms by (auto simp: dma_pick_def split: option.splits)
  then show "c < PIO_SIM_DMA_NUM_CHANNELS v" "dma_channel_ready w c"
    "c' < PIO_SIM_DMA_NUM_CHANNELS v \<Longrightarrow> dma_channel_ready w c' \<Longrightarrow> hp w c' \<Longrightarrow> hp w c"
    "c' < PIO_SIM_DMA_NUM_CHANNELS v \<Longrightarrow> dma_channel_ready w c' \<Longrightarrow> hp w c' = hp w c \<Longrightarrow>
       seat_distance (PIO_SIM_DMA_NUM_CHANNELS v) (seat w) c \<le> seat_distance (PIO_SIM_DMA_NUM_CHANNELS v) (seat w) c'"
    unfolding dma_scan_def channels.scan_None
    by (cases; use channels.scan_Some [where v = v] in blast)+
qed

text \<open>Whatever a callback does, the seat after a transfer is the one after the channel served.\<close>

lemma tick_seat:
  assumes "dma_pick v (upd_dma dma_timers_tick w) = Some c"
  shows "seat (fst (pio_dma_tick v cb w)) = (c + 1) mod PIO_SIM_DMA_NUM_CHANNELS v"
proof -
  have "PIO_SIM_DMA_NUM_CHANNELS v \<le> 2 ^ 8" "0 < PIO_SIM_DMA_NUM_CHANNELS v"
    by (cases v; simp add: PIO_SIM_DMA_NUM_CHANNELS_def)+
  then have "unat (word_of_nat ((c + 1) mod PIO_SIM_DMA_NUM_CHANNELS v) :: u8) = (c + 1) mod PIO_SIM_DMA_NUM_CHANNELS v"
    by (intro unat_word_of_nat_mod) simp_all
  moreover have "fst (pio_dma_tick v cb w) =
      upd_dma (\<lambda>d. d\<lparr>d_rr_next := of_nat ((c + 1) mod PIO_SIM_DMA_NUM_CHANNELS v)\<rparr>)
        (dma_transfer_one v cb c (upd_dma dma_timers_tick w))"
    by (simp add: pio_dma_tick_def Let_def assms)
  ultimately show ?thesis by (simp add: upd_dma_def)
qed

lemma seat_timers [simp]: "seat (upd_dma dma_timers_tick w) = seat w"
  by (simp add: upd_dma_def dma_timers_tick_def)

text \<open>
  Arbitration.  A tick moves an element exactly when some channel is ready after the pacing timers
  have advanced; the channel it serves is ready, has high priority if any ready channel has, and
  among the ready channels of its priority is the first in cyclic order from the round-robin seat.
\<close>

lemma dma_arbitration:
  "let w1 = upd_dma dma_timers_tick w; n = PIO_SIM_DMA_NUM_CHANNELS v; ready = (\<lambda>c. c < n \<and> dma_channel_ready w1 c)
   in case dma_pick v w1 of
        None \<Rightarrow> \<not> Ex ready \<and> pio_dma_tick v cb w = (w1, False)
      | Some c \<Rightarrow> ready c \<and> snd (pio_dma_tick v cb w) \<and> \<not> (\<exists>c'. ready c' \<and> hp w1 c' \<and> \<not> hp w1 c) \<and>
          \<not> (\<exists>c'. ready c' \<and> hp w1 c' = hp w1 c \<and> seat_distance n (seat w) c' < seat_distance n (seat w) c)"
proof (cases "dma_pick v (upd_dma dma_timers_tick w)")
  case None
  then show ?thesis using pick_None [of v "upd_dma dma_timers_tick w"] by (auto simp: pio_dma_tick_def Let_def)
next
  case (Some c)
  note p = pick_Some [OF Some, unfolded seat_timers]
  show ?thesis using p(1,2) p(3,4) by (fastforce simp: Some pio_dma_tick_def Let_def not_less)
qed

end
