(* ===== verification/Pio_Transfer.thy ===== *)
theory Pio_Transfer
  imports Pio_Arbiter
begin

text \<open>
  Block transfers of the DMA engine: memory copied element by element, and the fairness of the
  arbitration with such a copy as its instance.
\<close>

section \<open>Triggering\<close>

lemma CH_IDX_of_nat: "c < PIO_SIM_DMA_NUM_CHANNELS v \<Longrightarrow> CH_IDX v (of_nat c) = c"
  by (cases v) (simp_all add: CH_IDX_def PIO_SIM_DMA_NUM_CHANNELS_def unsigned_of_nat take_bit_nat_eq_self)

lemma channel_less: "c < PIO_SIM_DMA_NUM_CHANNELS v \<Longrightarrow> c < 32"
  by (cases v) (simp_all add: PIO_SIM_DMA_NUM_CHANNELS_def)

lemma raise_irq_no_callback:
  "ch_on_complete (d_ch (w_dma w) (CH_IDX v ch)) = None \<Longrightarrow>
   dma_raise_irq v cb ch w = upd_dma (\<lambda>d. d\<lparr>d_intr := d_intr d OR push_bit (CH_IDX v ch) 1\<rparr>) w"
  by (simp add: dma_raise_irq_def Let_def upd_dma_def)

lemma start_one:
  assumes "c < PIO_SIM_DMA_NUM_CHANNELS v"
  shows "pio_dma_start_channel_mask v cb (push_bit c 1) w = start_channel v cb (push_bit c 1) c w"
proof -
  have bits: "bit (2 ^ c :: u32) k \<longleftrightarrow> k = c" for k
    using channel_less [OF assms] by (auto simp: bit_pow2)
  have skip: "c \<notin> set ks \<Longrightarrow> fold (start_channel v cb (2 ^ c)) ks w = w" for ks w
    by (induction ks) (simp_all add: start_channel_def bits Let_def)
  show ?thesis
    unfolding pio_dma_start_channel_mask_def upt_split [OF assms] by (simp add: skip)
qed

text \<open>Triggering one channel, when it has no callback.\<close>

lemma start_no_callback:
  assumes "t < PIO_SIM_DMA_NUM_CHANNELS v" "ch_on_complete (d_ch (w_dma w) t) = None"
  shows "pio_dma_start_channel_mask v cb (push_bit t 1) w =
    (if ch_trans_count_reload (d_ch (w_dma w) t) \<noteq> 0
     then upd_dma (upd_ch t (\<lambda>ch. ch\<lparr>ch_trans_count := ch_trans_count_reload ch, ch_busy := True\<rparr>)) w
     else if dc_irq_quiet (ch_ctrl (d_ch (w_dma w) t)) then upd_dma (\<lambda>d. d\<lparr>d_intr := d_intr d OR push_bit t 1\<rparr>) w
     else w)"
  using raise_irq_no_callback [of w v "of_nat t" cb] assms channel_less [OF assms(1)]
  unfolding start_one [OF assms(1)]
  by (simp add: start_channel_def Let_def CH_IDX_of_nat bit_pow2)

section \<open>Block copies\<close>

lemma byte_at_or: "byte_at (x OR y) i = byte_at x i OR byte_at y i"
  by (rule bit_word_eqI) (simp add: byte_at_def bit_simps)

lemma byte_at_push: "n < 4 \<Longrightarrow> byte_at (push_bit (8 * n) (ucast y)) i = (if i = n then y else 0)"
proof (rule bit_word_eqI)
  fix k
  assume "n < 4" "k < LENGTH(8)"
  have "8 * n \<le> 8 * i + k \<and> 8 * i + k - 8 * n < 8 \<longleftrightarrow> i = n" using \<open>k < LENGTH(8)\<close> by auto
  then show "bit (byte_at (push_bit (8 * n) (ucast y)) i) k = bit (if i = n then y else 0) k"
    using \<open>n < 4\<close> \<open>k < LENGTH(8)\<close> by (auto simp: byte_at_def bit_simps dest: word_bit_lt)
qed

lemma byte_at_0 [simp]: "byte_at 0 i = 0"
  by (simp add: byte_at_def)

lemma byte_at_load: "b \<le> 4 \<Longrightarrow> byte_at (mem_load m a b) i = (if i < b then m (a + of_nat i) else 0)"
proof (induction b)
  case 0
  then show ?case by (simp add: mem_load_def)
next
  case (Suc b)
  have "mem_load m a (Suc b) = mem_load m a b OR push_bit (8 * b) (ucast (m (a + of_nat b)))"
    by (simp add: mem_load_def)
  then show ?case using Suc by (simp add: byte_at_or byte_at_push less_Suc_eq)
qed

lemma unat_diff_eq: "n < 2 ^ 64 \<Longrightarrow> x = a + of_nat n \<longleftrightarrow> unat (x - a) = n" for x a :: u64
proof -
  assume "n < 2 ^ 64"
  then have n: "unat (of_nat n :: u64) = n" by (simp add: unsigned_of_nat take_bit_nat_eq_self)
  have "x = a + of_nat n \<longleftrightarrow> x - a = of_nat n" by (metis add.commute diff_eq_eq)
  also have "\<dots> \<longleftrightarrow> unat (x - a) = n" using n by (metis word_unat_eq_iff)
  finally show ?thesis .
qed

lemma mem_store_at:
  "b \<le> 2 ^ 64 \<Longrightarrow> mem_store a b x m y = (if unat (y - a) < b then byte_at x (unat (y - a)) else m y)"
proof (induction b)
  case 0
  then show ?case by (simp add: mem_store_def)
next
  case (Suc b)
  have "mem_store a (Suc b) x m = (mem_store a b x m)(a + of_nat b := byte_at x b)"
    by (simp add: mem_store_def)
  then show ?case using Suc unat_diff_eq [of b y a] by (auto simp: less_Suc_eq)
qed

text \<open>Memory after \<open>len\<close> bytes at \<open>src\<close> have been copied to \<open>dst\<close>.\<close>

definition copied :: "u64 \<Rightarrow> u64 \<Rightarrow> nat \<Rightarrow> (u64 \<Rightarrow> u8) \<Rightarrow> u64 \<Rightarrow> u8" where
  "copied src dst len m a = (if unat (a - dst) < len then m (src + (a - dst)) else m a)"

definition separate :: "u64 \<Rightarrow> u64 \<Rightarrow> nat \<Rightarrow> bool" where
  "separate src dst len \<longleftrightarrow> unat src + len \<le> 2 ^ 64 \<and> unat dst + len \<le> 2 ^ 64 \<and>
     (unat src + len \<le> unat dst \<or> unat dst + len \<le> unat src)"

lemma store_load_copied: "b \<le> 4 \<Longrightarrow> mem_store dst b (mem_load m src b) m = copied src dst b m"
  by (rule ext) (simp add: mem_store_at byte_at_load copied_def)

lemma unat_sub_less: "(a :: u64) < b \<Longrightarrow> unat (a - b) = 2 ^ 64 + unat a - unat b"
  by (simp add: unat_sub_if' word_le_nat_alt word_less_nat_alt)

lemma separate_dist:
  assumes "separate src dst len" "0 < len"
  shows "len \<le> unat (src - dst)" "unat (src - dst) + len \<le> 2 ^ 64"
proof -
  have le: "unat src < 2 ^ 64" "unat dst < 2 ^ 64"
    using unsigned_less [where 'a = nat, of src] unsigned_less [where 'a = nat, of dst] by simp_all
  show "len \<le> unat (src - dst)" "unat (src - dst) + len \<le> 2 ^ 64"
    using assms le by (auto simp: separate_def unat_sub_if' word_le_nat_alt)
qed

lemma copied_copied:
  assumes "separate src dst (b + len)" "0 < b"
  shows "copied (src + of_nat b) (dst + of_nat b) len (copied src dst b m) = copied src dst (b + len) m"
proof
  fix a
  define x where "x = a - dst"
  have b: "unat (of_nat b :: u64) = b"
  proof -
    have "b < 2 ^ 64"
      using assms(1) unsigned_less [where 'a = nat, of src] unsigned_less [where 'a = nat, of dst]
      by (auto simp: separate_def)
    then show ?thesis by (simp add: unsigned_of_nat take_bit_nat_eq_self)
  qed
  note d = separate_dist [OF assms(1)]
  have x: "a - (dst + of_nat b) = x - of_nat b" "a - dst = x" by (simp_all add: x_def)
  show "copied (src + of_nat b) (dst + of_nat b) len (copied src dst b m) a = copied src dst (b + len) m a"
  proof (cases "unat x < b")
    case True
    then have "unat (x - of_nat b) = 2 ^ 64 + unat x - b" by (simp add: unat_sub_less word_less_nat_alt b)
    then have "\<not> unat (x - of_nat b) < len" using d assms(2) True by simp
    then show ?thesis using True by (simp add: copied_def x)
  next
    case False
    then have sub: "unat (x - of_nat b) = unat x - b" by (simp add: unat_sub word_le_nat_alt b)
    have src: "src + of_nat b + (x - of_nat b) = src + x" by simp
    have "unat (src - dst + x) = unat (src - dst) + unat x" if "unat x < b + len"
      using d assms(2) that unfolding unat_word_ariths(1) by simp
    moreover have "src - dst + x = src + x - dst" by simp
    ultimately have "unat (src + x - dst) = unat (src - dst) + unat x" if "unat x < b + len"
      using that by (simp only:)
    then show ?thesis using False d assms(2) by (auto simp: copied_def x sub src)
  qed
qed

text \<open>Channel \<open>c\<close> is the only busy one, and has \<open>n\<close> elements of a plain memory copy left.\<close>

definition copying :: "pio_version \<Rightarrow> nat \<Rightarrow> u64 \<Rightarrow> u64 \<Rightarrow> nat \<Rightarrow> dma_world \<Rightarrow> bool" where
  "copying v c src dst n w \<longleftrightarrow>
     (let chan = d_ch (w_dma w) c; ctrl = ch_ctrl chan
      in c < PIO_SIM_DMA_NUM_CHANNELS v \<and> ch_en chan \<and> ch_busy chan \<and> unat (ch_trans_count chan) = n \<and>
         ch_on_complete chan = None \<and> dc_treq_sel ctrl = PIO_DMA_TREQ_FORCE \<and> dc_data_size ctrl \<le> 2 \<and>
         dc_incr_read ctrl \<and> dc_incr_write ctrl \<and> dc_ring_size ctrl = 0 \<and> dc_chain_to ctrl = of_nat c \<and>
         \<not> dc_bswap ctrl \<and> \<not> dc_sniff_en ctrl \<and> \<not> dc_irq_quiet ctrl \<and>
         ch_read_addr chan = pio_dma_addr_mem src \<and> ch_write_addr chan = pio_dma_addr_mem dst) \<and>
     (\<forall>c'. c' < PIO_SIM_DMA_NUM_CHANNELS v \<longrightarrow> c' \<noteq> c \<longrightarrow> \<not> ch_busy (d_ch (w_dma w) c'))"

abbreviation chan_bytes :: "dma_world \<Rightarrow> nat \<Rightarrow> nat" where
  "chan_bytes w c \<equiv> elem_bytes (dc_data_size (ch_ctrl (d_ch (w_dma w) c)))"

lemma elem_bytes_small: "sz \<le> 2 \<Longrightarrow> 0 < elem_bytes sz \<and> elem_bytes sz \<le> 4"
proof -
  assume "sz \<le> 2"
  then have "unat sz \<le> 2" by (simp add: word_le_nat_alt)
  then consider "unat sz = 0" | "unat sz = 1" | "unat sz = 2" by linarith
  then show ?thesis by cases (simp_all add: elem_bytes_def)
qed

lemma timers_tick_ch [simp]: "d_ch (w_dma (upd_dma dma_timers_tick w)) = d_ch (w_dma w)"
  "w_mem (upd_dma f w) = w_mem w" "w_store (upd_dma f w) = w_store w"
  by (simp_all add: upd_dma_def dma_timers_tick_def)

lemma copying_ready:
  assumes "copying v c src dst n w" "src \<noteq> 0" "dst \<noteq> 0"
  shows "c' < PIO_SIM_DMA_NUM_CHANNELS v \<Longrightarrow> dma_channel_ready (upd_dma dma_timers_tick w) c' \<longleftrightarrow> c' = c"
    and "dma_pick v (upd_dma dma_timers_tick w) = Some c"
proof -
  let ?w = "upd_dma dma_timers_tick w"
  have c: "c < PIO_SIM_DMA_NUM_CHANNELS v" using assms(1) by (simp add: copying_def Let_def)
  show ready: "dma_channel_ready ?w c' \<longleftrightarrow> c' = c" if "c' < PIO_SIM_DMA_NUM_CHANNELS v" for c'
    using assms that
    by (cases "c' = c") (auto simp: copying_def Let_def dma_channel_ready_def dma_treq_ready_def
        dma_endpoints_ready_def pio_dma_addr_mem_def)
  obtain x where x: "dma_pick v ?w = Some x" using pick_None ready c by blast
  then show "dma_pick v ?w = Some c" using pick_Some(1,2) [OF x] ready by simp
qed

lemma move_copy:
  assumes "copying v c src dst n w"
  shows "move_element c w = w\<lparr>w_mem := copied src dst (chan_bytes w c) (w_mem w)\<rparr>"
  using assms elem_bytes_small [of "dc_data_size (ch_ctrl (d_ch (w_dma w) c))"]
  by (simp add: copying_def Let_def move_element_def read_element_def write_element_def pio_dma_addr_mem_def
      store_load_copied)

lemma advance_copy:
  assumes "copying v c src dst n w" "w_dma w' = w_dma w"
  shows "advance_channel c (w_dma w') = upd_ch c (\<lambda>ch. ch
     \<lparr>ch_read_addr := pio_dma_addr_mem (src + of_nat (chan_bytes w c)),
      ch_write_addr := pio_dma_addr_mem (dst + of_nat (chan_bytes w c)),
      ch_trans_count := ch_trans_count ch - 1\<rparr>) (w_dma w)"
  using assms
  by (simp add: copying_def Let_def advance_channel_def dma_advance_def pio_dma_addr_mem_def treq_timer_def upd_ch_def)

lemma copying_timers [simp]: "copying v c src dst n (upd_dma dma_timers_tick w) = copying v c src dst n w"
  by (simp add: copying_def)

lemma unat_of_nat_ch: "c < PIO_SIM_DMA_NUM_CHANNELS v \<Longrightarrow> unat (of_nat c :: u8) = c"
  by (cases v) (simp_all add: PIO_SIM_DMA_NUM_CHANNELS_def unsigned_of_nat take_bit_nat_eq_self)

lemma copying_step:
  fixes v cb w c
  defines "w' \<equiv> fst (pio_dma_tick v cb w)" and "b \<equiv> chan_bytes w c"
  assumes "copying v c src dst (Suc n) w" "src \<noteq> 0" "dst \<noteq> 0"
  shows "w_mem w' = copied src dst b (w_mem w)" "w_store w' = w_store w" "chan_bytes w' c = b"
    and "0 < n \<Longrightarrow> copying v c (src + of_nat b) (dst + of_nat b) n w'"
    and "n = 0 \<Longrightarrow> \<not> ch_busy (d_ch (w_dma w') c) \<and> bit (d_intr (w_dma w')) c"
proof -
  let ?t = "upd_dma dma_timers_tick w"
  have cp: "copying v c src dst (Suc n) ?t" using assms(3) by simp
  have c: "c < PIO_SIM_DMA_NUM_CHANNELS v" using assms(3) by (simp add: copying_def Let_def)
  define u where "u = upd_dma (advance_channel c) (move_element c ?t)"
  have mv: "move_element c ?t = ?t\<lparr>w_mem := copied src dst b (w_mem w)\<rparr>"
    using move_copy [OF cp] by (simp add: b_def)
  have u_dma: "w_dma u = upd_ch c (\<lambda>ch. ch\<lparr>ch_read_addr := pio_dma_addr_mem (src + of_nat b),
      ch_write_addr := pio_dma_addr_mem (dst + of_nat b), ch_trans_count := ch_trans_count ch - 1\<rparr>) (w_dma ?t)"
    using advance_copy [OF cp, of "move_element c ?t"] unfolding u_def mv upd_dma_def [of "advance_channel c"]
    by (simp add: b_def)
  have u: "w_mem u = copied src dst b (w_mem w)" "w_store u = w_store w"
    by (simp_all add: u_def mv)
  have cnt: "unat (ch_trans_count (d_ch (w_dma u) c)) = n"
  proof -
    have "unat (ch_trans_count (d_ch (w_dma w) c)) = Suc n" using assms(3) by (simp add: copying_def Let_def)
    moreover from this have "ch_trans_count (d_ch (w_dma w) c) \<noteq> 0" by auto
    ultimately show ?thesis by (simp add: u_dma upd_ch_def unat_minus_one)
  qed
  have zero: "ch_trans_count (d_ch (w_dma u) c) = 0 \<longleftrightarrow> n = 0" by (simp add: word_unat_eq_iff cnt)
  have w': "w' = upd_dma (\<lambda>d. d\<lparr>d_rr_next := of_nat ((c + 1) mod PIO_SIM_DMA_NUM_CHANNELS v)\<rparr>)
      (if n = 0 then complete_channel v cb c u else u)"
    unfolding w'_def pio_dma_tick_def Let_def copying_ready(2) [OF assms(3-5)] dma_transfer_one_def
    using zero by (simp add: u_def [symmetric])
  have done_w: "complete_channel v cb c u =
      upd_dma (\<lambda>d. d\<lparr>d_intr := d_intr d OR push_bit c 1\<rparr>) (upd_dma (upd_ch c (\<lambda>ch. ch\<lparr>ch_busy := False\<rparr>)) u)"
    using cp c unat_of_nat_ch [OF c] CH_IDX_of_nat [OF c]
    by (simp add: complete_channel_def Let_def dma_raise_irq_def u_dma upd_dma_def upd_ch_def copying_def)
  show "w_mem w' = copied src dst b (w_mem w)" "w_store w' = w_store w"
    by (simp_all add: w' done_w u)
  show "chan_bytes w' c = b" by (simp add: w' done_w u_dma upd_dma_def upd_ch_def dma_timers_tick_def b_def)
  show "0 < n \<Longrightarrow> copying v c (src + of_nat b) (dst + of_nat b) n w'"
    using cp cnt unfolding copying_def w' by (simp add: upd_dma_def u_dma upd_ch_def dma_timers_tick_def Let_def)
  show "n = 0 \<Longrightarrow> \<not> ch_busy (d_ch (w_dma w') c) \<and> bit (d_intr (w_dma w')) c"
    using channel_less [OF c] by (simp add: w' done_w upd_dma_def upd_ch_def bit_pow2 word_bits)
qed

lemma separate_step:
  assumes "separate src dst (b + len)" "0 < b" "0 < len"
  shows "separate (src + of_nat b) (dst + of_nat b) len" "src + of_nat b \<noteq> 0" "dst + of_nat b \<noteq> 0"
proof -
  have b: "unat (of_nat b :: u64) = b" if "unat x + (b + len) \<le> 2 ^ 64" for x :: u64
    using that assms(3) by (simp add: unsigned_of_nat take_bit_nat_eq_self)
  have add: "unat (x + of_nat b) = unat x + b" if "unat x + (b + len) \<le> 2 ^ 64" for x :: u64
    using that assms(3) b [OF that] by (simp add: unat_word_ariths)
  have le: "unat src + (b + len) \<le> 2 ^ 64" "unat dst + (b + len) \<le> 2 ^ 64"
    using assms(1) by (simp_all add: separate_def)
  show "separate (src + of_nat b) (dst + of_nat b) len"
    using assms(1) unfolding separate_def add [OF le(1)] add [OF le(2)] by auto
  show "src + of_nat b \<noteq> 0" "dst + of_nat b \<noteq> 0"
    using add [OF le(1)] add [OF le(2)] assms(2) by (metis add_is_0 less_numeral_extra(3) unat_0)+
qed

lemma copying_run:
  assumes "copying v c src dst n w" "0 < n" "src \<noteq> 0" "dst \<noteq> 0" "separate src dst (n * chan_bytes w c)"
  shows "let w' = ((\<lambda>w. fst (pio_dma_tick v cb w)) ^^ n) w
    in w_mem w' = copied src dst (n * chan_bytes w c) (w_mem w) \<and> w_store w' = w_store w \<and>
       \<not> ch_busy (d_ch (w_dma w') c) \<and> bit (d_intr (w_dma w')) c"
  using assms
proof (induction n arbitrary: src dst w)
  case 0
  then show ?case by simp
next
  case (Suc n)
  let ?w = "fst (pio_dma_tick v cb w)" and ?b = "chan_bytes w c"
  note step = copying_step [OF Suc.prems(1,3,4), where cb = cb]
  have b: "0 < ?b" using elem_bytes_small Suc.prems(1) by (simp add: copying_def Let_def)
  have run: "((\<lambda>w. fst (pio_dma_tick v cb w)) ^^ Suc n) w = ((\<lambda>w. fst (pio_dma_tick v cb w)) ^^ n) ?w"
    by (simp only: funpow_Suc_right comp_apply)
  show ?case
  proof (cases "n = 0")
    case True
    then show ?thesis using step by (simp add: Let_def)
  next
    case False
    have sep: "separate src dst (?b + n * ?b)" using Suc.prems(5) by (simp add: add.commute)
    note next_sep = separate_step [OF sep b]
    have "let w' = ((\<lambda>w. fst (pio_dma_tick v cb w)) ^^ n) ?w
      in w_mem w' = copied (src + of_nat ?b) (dst + of_nat ?b) (n * ?b) (w_mem ?w) \<and> w_store w' = w_store ?w \<and>
         \<not> ch_busy (d_ch (w_dma w') c) \<and> bit (d_intr (w_dma w')) c"
      using Suc.IH [OF step(4)] next_sep False b step(3) by simp
    then show ?thesis
      unfolding run Let_def step(1,2) copied_copied [OF sep b] by (simp add: add.commute)
  qed
qed

text \<open>The configuration of a memory copy with elements of \<open>2 ^ sz\<close> bytes.\<close>

definition copy_config :: "pio_version \<Rightarrow> u8 \<Rightarrow> u32 \<Rightarrow> dma_channel_config" where
  "copy_config v ch sz = channel_config_set_transfer_data_size sz
     (channel_config_set_write_increment True (pio_dma_channel_get_default_config v ch))"

lemma configure_copy:
  fixes ch src dst cb
  defines "c \<equiv> unat ch"
  assumes "c < PIO_SIM_DMA_NUM_CHANNELS v" "sz \<le> 2" "cnt \<noteq> 0" "ch_on_complete (d_ch (w_dma w) c) = None"
    and "\<And>c'. c' < PIO_SIM_DMA_NUM_CHANNELS v \<Longrightarrow> \<not> ch_busy (d_ch (w_dma w) c')"
  defines "w' \<equiv> pio_dma_channel_configure v cb ch (copy_config v ch sz) (pio_dma_addr_mem dst) (pio_dma_addr_mem src) cnt True w"
  shows "copying v c src dst (unat cnt) w'" "chan_bytes w' c = 2 ^ unat sz" "w_mem w' = w_mem w"
proof -
  have idx: "CH_IDX v ch = c" using assms(2) by (simp add: CH_IDX_def c_def)
  have cfg: "copy_config v ch sz = (pio_dma_channel_get_default_config v ch)\<lparr>dc_incr_write := True, dc_data_size := sz\<rparr>"
    using assms(3) by (auto simp: copy_config_def channel_config_set_transfer_data_size_def channel_config_set_write_increment_def)
  have sz: "elem_bytes sz = 2 ^ unat sz"
  proof -
    have "unat sz \<le> 2" using assms(3) by (simp add: word_le_nat_alt)
    then consider "unat sz = 0" | "unat sz = 1" | "unat sz = 2" by linarith
    then show ?thesis by cases (simp_all add: elem_bytes_def)
  qed
  let ?w1 = "upd_dma (upd_ch c (\<lambda>chan. chan\<lparr>ch_ctrl := copy_config v ch sz, ch_write_addr := pio_dma_addr_mem dst,
         ch_read_addr := pio_dma_addr_mem src, ch_trans_count_reload := cnt, ch_en := True\<rparr>)) w"
  have start: "w' = pio_dma_start_channel_mask v cb (push_bit c 1) ?w1"
    using assms(3) by (auto simp: w'_def pio_dma_channel_configure_def Let_def idx cfg not_less)
  have quiet: "ch_on_complete (d_ch (w_dma ?w1) c) = None" and cnt: "ch_trans_count_reload (d_ch (w_dma ?w1) c) \<noteq> 0"
    using assms(4,5) by (simp_all add: upd_dma_def upd_ch_def)
  have w': "w' = upd_dma (upd_ch c (\<lambda>ch. ch\<lparr>ch_trans_count := ch_trans_count_reload ch, ch_busy := True\<rparr>)) ?w1"
    unfolding start start_no_callback [OF assms(2) quiet] by (rule if_P [OF cnt])
  show "copying v c src dst (unat cnt) w'"
    using assms(2-6) idx
    by (simp add: copying_def w' upd_dma_def upd_ch_def cfg pio_dma_channel_get_default_config_def Let_def)
  show "chan_bytes w' c = 2 ^ unat sz" "w_mem w' = w_mem w"
    by (simp_all add: w' upd_dma_def upd_ch_def cfg sz)
qed

text \<open>
  C13: Block copies.  With every channel idle and no callback on the channel used, configuring and
  triggering a memory-to-memory copy of \<open>cnt\<close> elements of 1, 2 or 4 bytes and ticking \<open>cnt\<close> times
  copies exactly the source bytes to the destination, changes no other memory and no PIO block,
  leaves the channel idle and its completion flag raised.
\<close>

theorem dma_copies_block:
  assumes "unat ch < PIO_SIM_DMA_NUM_CHANNELS v" "sz \<le> 2" "cnt \<noteq> 0" "src \<noteq> 0" "dst \<noteq> 0"
    and "separate src dst (unat cnt * 2 ^ unat sz)"
    and "ch_on_complete (d_ch (w_dma w) (unat ch)) = None"
    and "\<And>c. c < PIO_SIM_DMA_NUM_CHANNELS v \<Longrightarrow> \<not> ch_busy (d_ch (w_dma w) c)"
  shows "let w1 = pio_dma_channel_configure v cb ch (copy_config v ch sz) (pio_dma_addr_mem dst)
                    (pio_dma_addr_mem src) cnt True w;
      w2 = ((\<lambda>w. fst (pio_dma_tick v cb w)) ^^ unat cnt) w1
    in w_mem w2 = copied src dst (unat cnt * 2 ^ unat sz) (w_mem w) \<and> w_store w2 = w_store w1 \<and>
       \<not> pio_dma_channel_is_busy v (w_dma w2) ch \<and> bit (pio_dma_get_intr (w_dma w2)) (unat ch)"
proof -
  note c = configure_copy [OF assms(1,2,3,7,8), where cb = cb and src = src and dst = dst]
  have "0 < unat cnt" using assms(3) by (simp add: unat_gt_0)
  note r = copying_run [OF c(1) this assms(4,5), of cb]
  show ?thesis
    using r assms(1,6)
    by (simp add: Let_def c(2,3) pio_dma_channel_is_busy_def pio_dma_get_intr_def CH_IDX_def)
qed

text \<open>A controller at reset beside an empty store and memory, for the concrete instances.\<close>

definition world_zero :: "pio_version \<Rightarrow> dma_world" where
  "world_zero v = \<lparr>w_store = store_zero, w_mem = (\<lambda>_. 0), w_dma = pio_dma_init v (\<lambda>_. None) 0\<rparr>"

lemma world_zero_idle:
  "\<not> ch_busy (d_ch (w_dma (world_zero v)) c)" "ch_on_complete (d_ch (w_dma (world_zero v)) c) = None"
  by (simp_all add: world_zero_def pio_dma_init_def dma_zero_def Let_def)

theorem dma_copies_block_witness:
  "let w = (world_zero RP2350)\<lparr>w_mem := (\<lambda>a. if a = 0x2003 then 0x5A else 0)\<rparr>;
       w1 = pio_dma_channel_configure RP2350 (\<lambda>_ _ _ w. w) 3 (copy_config RP2350 3 2) (pio_dma_addr_mem 0x3000)
              (pio_dma_addr_mem 0x2000) 4 True w;
       w2 = ((\<lambda>w. fst (pio_dma_tick RP2350 (\<lambda>_ _ _ w. w) w)) ^^ unat (4 :: u32)) w1
   in w_mem w2 0x3003 = 0x5A \<and> bit (pio_dma_get_intr (w_dma w2)) (unat (3 :: u8))"
proof -
  let ?w = "(world_zero RP2350)\<lparr>w_mem := (\<lambda>a. if a = 0x2003 then 0x5A else 0)\<rparr>"
  have idle: "\<not> ch_busy (d_ch (w_dma ?w) c)" "ch_on_complete (d_ch (w_dma ?w) c) = None" for c
    using world_zero_idle by simp_all
  have ok: "unat (3 :: u8) < PIO_SIM_DMA_NUM_CHANNELS RP2350" "(2 :: u32) \<le> 2" "(4 :: u32) \<noteq> 0"
    "(0x2000 :: u64) \<noteq> 0" "(0x3000 :: u64) \<noteq> 0" "separate 0x2000 0x3000 (unat (4 :: u32) * 2 ^ unat (2 :: u32))"
    by (simp_all add: PIO_SIM_DMA_NUM_CHANNELS_def separate_def)
  have "copied 0x2000 0x3000 (unat (4 :: u32) * 2 ^ unat (2 :: u32)) (w_mem ?w) 0x3003 = 0x5A"
    by (simp add: copied_def)
  then show ?thesis
    using dma_copies_block [OF ok idle(2) idle(1), of "\<lambda>_ _ _ w. w"] unfolding Let_def by (simp only:)
qed

lemma copying_prefix:
  assumes "copying v c src dst n w" "src \<noteq> 0" "dst \<noteq> 0" "separate src dst (n * chan_bytes w c)" "k < n"
  shows "\<exists>src' dst'. copying v c src' dst' (n - k) (((\<lambda>w. fst (pio_dma_tick v cb w)) ^^ k) w) \<and> src' \<noteq> 0 \<and> dst' \<noteq> 0"
  using assms
proof (induction k arbitrary: n src dst w)
  case 0
  then show ?case by auto
next
  case (Suc k)
  let ?b = "chan_bytes w c"
  obtain m where m: "n = Suc m" "k < m" using Suc.prems(5) by (cases n) simp_all
  note step = copying_step [OF Suc.prems(1) [unfolded m(1)] Suc.prems(2,3), where cb = cb]
  have b: "0 < ?b" using elem_bytes_small Suc.prems(1) by (simp add: copying_def Let_def)
  have pos: "0 < m * ?b" using m(2) b by simp
  have sep: "separate src dst (?b + m * ?b)" using Suc.prems(4) by (simp add: m(1))
  note next_sep = separate_step [OF sep b pos]
  have "0 < m" using m(2) by simp
  from Suc.IH [OF step(4) [OF this] next_sep(2,3) _ m(2)] show ?case
    using next_sep(1) by (simp add: step(3) m(1) funpow_Suc_right del: funpow.simps)
qed

text \<open>
  C31: Fair service.  A channel that stays ready for as many ticks as there are channels, and is of high
  priority or is never ready together with a high-priority channel, is served in one of them,
  whatever the other channels and the completion callbacks do.
\<close>

theorem dma_fair_service:
  assumes "c < PIO_SIM_DMA_NUM_CHANNELS v"
    and "\<And>k. k < PIO_SIM_DMA_NUM_CHANNELS v \<Longrightarrow>
      let w1 = upd_dma dma_timers_tick (((\<lambda>w. fst (pio_dma_tick v cb w)) ^^ k) w)
      in dma_channel_ready w1 c \<and> (\<forall>c'<PIO_SIM_DMA_NUM_CHANNELS v. dma_channel_ready w1 c' \<longrightarrow> hp w1 c' \<longrightarrow> hp w1 c)"
  shows "\<exists>k<PIO_SIM_DMA_NUM_CHANNELS v.
    dma_pick v (upd_dma dma_timers_tick (((\<lambda>w. fst (pio_dma_tick v cb w)) ^^ k) w)) = Some c"
proof (rule ccontr)
  let ?n = "PIO_SIM_DMA_NUM_CHANNELS v"
  let ?w = "\<lambda>k. ((\<lambda>w. fst (pio_dma_tick v cb w)) ^^ k) w"
  assume never: "\<not> ?thesis"
  have "seat_distance ?n (seat (?w k)) c + k < ?n" if "k \<le> ?n" for k
    using that
  proof (induction k)
    case 0
    then show ?case using channels.distance_less by simp
  next
    case (Suc k)
    let ?w1 = "upd_dma dma_timers_tick (?w k)"
    have k: "k < ?n" using Suc.prems by simp
    have ready: "dma_channel_ready ?w1 c"
      and top: "\<And>c'. c' < ?n \<Longrightarrow> dma_channel_ready ?w1 c' \<Longrightarrow> hp ?w1 c' \<Longrightarrow> hp ?w1 c"
      using assms(2) [OF k] by (auto simp: Let_def)
    obtain c' where c': "dma_pick v ?w1 = Some c'" using pick_None ready assms(1) by blast
    note p = pick_Some [OF c']
    have "c' \<noteq> c" using never c' k by blast
    moreover have "hp ?w1 c = hp ?w1 c'" using p(1,2) p(3) [OF assms(1) ready] top by blast
    then have "seat_distance ?n (seat (?w k)) c' \<le> seat_distance ?n (seat (?w k)) c"
      using p(4) [OF assms(1) ready] by simp
    ultimately have "seat_distance ?n ((c' + 1) mod ?n) c < seat_distance ?n (seat (?w k)) c"
      using channels.closer assms(1) p(1) by blast
    moreover have "seat (?w (Suc k)) = (c' + 1) mod ?n" using tick_seat [OF c'] by simp
    ultimately show ?case using Suc.IH [OF less_imp_le [OF k]] by simp
  qed
  from this [OF order_refl] show False by simp
qed

theorem dma_fair_service_witness:
  "\<exists>k<PIO_SIM_DMA_NUM_CHANNELS RP2040. dma_pick RP2040 (upd_dma dma_timers_tick
     (((\<lambda>w. fst (pio_dma_tick RP2040 (\<lambda>_ _ _ w. w) w)) ^^ k)
       (pio_dma_channel_configure RP2040 (\<lambda>_ _ _ w. w) 5 (copy_config RP2040 5 0) (pio_dma_addr_mem 0x3000)
              (pio_dma_addr_mem 0x2000) 100 True (world_zero RP2040)))) = Some 5"
proof -
  let ?cb = "\<lambda>_ _ _ w. w" and ?n = "PIO_SIM_DMA_NUM_CHANNELS RP2040"
  let ?w = "pio_dma_channel_configure RP2040 ?cb 5 (copy_config RP2040 5 0) (pio_dma_addr_mem 0x3000)
              (pio_dma_addr_mem 0x2000) 100 True (world_zero RP2040)"
  have ok: "unat (5 :: u8) < ?n" "(0 :: u32) \<le> 2" "(100 :: u32) \<noteq> 0" by (simp_all add: PIO_SIM_DMA_NUM_CHANNELS_def)
  have c: "copying RP2040 5 0x2000 0x3000 100 ?w" "chan_bytes ?w 5 = 1"
    using configure_copy(1,2) [OF ok world_zero_idle(2,1), where cb = ?cb and src = "0x2000" and dst = "0x3000"] by simp_all
  have sep: "separate 0x2000 0x3000 (100 * chan_bytes ?w 5)" by (simp add: c(2) separate_def)
  have "let w1 = upd_dma dma_timers_tick (((\<lambda>w. fst (pio_dma_tick RP2040 ?cb w)) ^^ k) ?w)
      in dma_channel_ready w1 5 \<and> (\<forall>c'<?n. dma_channel_ready w1 c' \<longrightarrow> hp w1 c' \<longrightarrow> hp w1 5)" if "k < ?n" for k
  proof -
    have "k < 100" using that by (simp add: PIO_SIM_DMA_NUM_CHANNELS_def)
    then obtain src' dst' where *: "copying RP2040 5 src' dst' (100 - k) (((\<lambda>w. fst (pio_dma_tick RP2040 ?cb w)) ^^ k) ?w)"
      "src' \<noteq> 0" "dst' \<noteq> 0" using copying_prefix [OF c(1) _ _ sep, of k ?cb] by auto
    show ?thesis using copying_ready(1) [OF *] ok(1) by (auto simp: Let_def)
  qed
  then show ?thesis using dma_fair_service [of 5 RP2040 ?cb ?w] ok(1) by simp
qed

end
