(* ===== verification/Pio_Channel.thy ===== *)
theory Pio_Channel
  imports Pio_Transfer
begin

text \<open>
  A single transfer of a DMA channel: FIFO endpoints served without loss, address rings, completion
  and chaining.
\<close>

section \<open>FIFO endpoints\<close>

text \<open>The state machine an endpoint names, and the words its two FIFOs hold.\<close>

definition endpoint :: "dma_world \<Rightarrow> pio_dma_addr_t \<Rightarrow> nat \<times> nat" where
  "endpoint w a = (the (d_pio (w_dma w) (unat (a_pio_index a))), SM_IDX (a_sm a))"

definition tx_words :: "pio_store \<Rightarrow> nat \<times> nat \<Rightarrow> u32 list" where
  "tx_words h e = fifo_words (sm_tx (the_sm h (fst e) (snd e)))"

definition rx_words :: "pio_store \<Rightarrow> nat \<times> nat \<Rightarrow> u32 list" where
  "rx_words h e = fifo_words (sm_rx (the_sm h (fst e) (snd e)))"

text \<open>The flags by which a FIFO access reports that it overran or underran.\<close>

definition debug_flags :: "pio_store \<Rightarrow> nat \<times> nat \<Rightarrow> u8" where
  "debug_flags h e = sm_fdebug (the_sm h (fst e) (snd e))"

definition fifos_wf :: "pio_store \<Rightarrow> bool" where
  "fifos_wf h \<longleftrightarrow> (\<forall>b. \<forall>j<4. fifo_wf (sm_tx (the_sm h b j)) \<and> fifo_wf (sm_rx (the_sm h b j)))"

lemma endpoint_wf:
  assumes "fifos_wf h"
  shows "fifo_wf (sm_tx (the_sm h b (SM_IDX x)))" "fifo_wf (sm_rx (the_sm h b (SM_IDX x)))"
  using assms SM_IDX_less [of x] by (simp_all add: fifos_wf_def)

lemma endpoints_ready_cases:
  assumes "dma_endpoints_ready w chan"
  obtains "a_kind (ch_read_addr chan) = PIO_DMA_ADDR_MEM \<or>
      a_kind (ch_read_addr chan) = PIO_DMA_ADDR_PIO_RXF \<and>
      (\<exists>b. d_pio (w_dma w) (unat (a_pio_index (ch_read_addr chan))) = Some b \<and>
        f_count (sm_rx (the_sm (w_store w) b (SM_IDX (a_sm (ch_read_addr chan))))) \<noteq> 0)"
    and "a_kind (ch_write_addr chan) = PIO_DMA_ADDR_MEM \<or>
      a_kind (ch_write_addr chan) = PIO_DMA_ADDR_PIO_TXF \<and>
      (\<exists>b. d_pio (w_dma w) (unat (a_pio_index (ch_write_addr chan))) = Some b \<and>
        f_count (sm_tx (the_sm (w_store w) b (SM_IDX (a_sm (ch_write_addr chan))))) <
        f_cap (sm_tx (the_sm (w_store w) b (SM_IDX (a_sm (ch_write_addr chan))))))"
  using assms
  by (cases "a_kind (ch_read_addr chan)"; cases "a_kind (ch_write_addr chan)";
      auto simp: dma_endpoints_ready_def Let_def dma_pio_def the_sm_def pio_sim_sm_is_dreq_rx_def
        pio_sim_sm_is_dreq_tx_def pio_sim_sm_is_rx_fifo_empty_def pio_sim_sm_is_tx_fifo_full_def
        split: if_splits option.splits)

lemma read_effect:
  assumes "a_kind r = PIO_DMA_ADDR_MEM \<or> a_kind r = PIO_DMA_ADDR_PIO_RXF \<and>
      (\<exists>b. d_pio (w_dma w) (unat (a_pio_index r)) = Some b \<and> f_count (sm_rx (the_sm (w_store w) b (SM_IDX (a_sm r)))) \<noteq> 0)"
    and "fifos_wf (w_store w)"
  obtains x h where "read_element r bytes w = (x, w\<lparr>w_store := h\<rparr>)"
    and "\<And>e. rx_words (w_store w) e = (if a_kind r = PIO_DMA_ADDR_PIO_RXF \<and> e = endpoint w r then [x] else []) @ rx_words h e"
    and "\<And>b j. sm_tx (the_sm h b j) = sm_tx (the_sm (w_store w) b j)" "\<And>e. debug_flags h e = debug_flags (w_store w) e"
    and "a_kind r = PIO_DMA_ADDR_MEM \<Longrightarrow> x = mem_load (w_mem w) (a_mem r) bytes"
  using assms(1)
proof (elim disjE conjE exE)
  assume "a_kind r = PIO_DMA_ADDR_MEM"
  then show thesis by (intro that [of _ "w_store w"]) (simp_all add: read_element_def)
next
  fix b
  assume r: "a_kind r = PIO_DMA_ADDR_PIO_RXF" "d_pio (w_dma w) (unat (a_pio_index r)) = Some b"
    "f_count (sm_rx (the_sm (w_store w) b (SM_IDX (a_sm r)))) \<noteq> 0"
  let ?s = "the_sm (w_store w) b (SM_IDX (a_sm r))"
  let ?h = "upd_sm b (SM_IDX (a_sm r)) (\<lambda>s. fst (sm_get s)) (w_store w)"
  obtain x where x: "snd (sm_get ?s) = Some x" using r(3) by (auto simp: sm_get_eq fifo_pop_def)
  have words: "fifo_words (sm_rx ?s) = x # fifo_words (sm_rx (fst (sm_get ?s)))"
    using sm_get_words [OF endpoint_wf(2) [OF assms(2), of b "a_sm r"]] by (simp add: x)
  have rest: "sm_tx (fst (sm_get s)) = sm_tx s" for s by (simp add: sm_get_eq)
  have flags: "sm_fdebug (fst (sm_get ?s)) = sm_fdebug ?s" using r(3) by (simp add: sm_get_eq)
  show thesis
  proof (rule that [of x ?h])
    show "read_element r bytes w = (x, w\<lparr>w_store := ?h\<rparr>)"
      using r(1,2) x by (simp add: read_element_def pio_sim_sm_get_def upd_sm_def the_sm_def)
  qed (use r(1,2) words in \<open>auto simp: rx_words_def endpoint_def debug_flags_def rest flags\<close>)
qed

lemma write_effect:
  assumes "a_kind wr = PIO_DMA_ADDR_MEM \<or> a_kind wr = PIO_DMA_ADDR_PIO_TXF \<and>
      (\<exists>b. d_pio (w_dma w) (unat (a_pio_index wr)) = Some b \<and>
        f_count (sm_tx (the_sm (w_store w) b (SM_IDX (a_sm wr)))) < f_cap (sm_tx (the_sm (w_store w) b (SM_IDX (a_sm wr)))))"
    and "\<And>b x. fifo_wf (sm_tx (the_sm (w_store w) b (SM_IDX x)))"
  obtains h where "write_element wr bytes y w = w\<lparr>w_store := h,
      w_mem := if a_kind wr = PIO_DMA_ADDR_MEM then mem_store (a_mem wr) bytes y (w_mem w) else w_mem w\<rparr>"
    and "\<And>e. tx_words h e = tx_words (w_store w) e @ (if a_kind wr = PIO_DMA_ADDR_PIO_TXF \<and> e = endpoint w wr then [y] else [])"
    and "\<And>e. rx_words h e = rx_words (w_store w) e" "\<And>e. debug_flags h e = debug_flags (w_store w) e"
  using assms(1)
proof (elim disjE conjE exE)
  assume "a_kind wr = PIO_DMA_ADDR_MEM"
  then show thesis by (intro that [of "w_store w"]) (simp_all add: write_element_def)
next
  fix b
  assume wr: "a_kind wr = PIO_DMA_ADDR_PIO_TXF" "d_pio (w_dma w) (unat (a_pio_index wr)) = Some b"
    "f_count (sm_tx (the_sm (w_store w) b (SM_IDX (a_sm wr)))) < f_cap (sm_tx (the_sm (w_store w) b (SM_IDX (a_sm wr))))"
  let ?s = "the_sm (w_store w) b (SM_IDX (a_sm wr))"
  let ?h = "upd_sm b (SM_IDX (a_sm wr)) (\<lambda>s. fst (sm_put y s)) (w_store w)"
  have "snd (sm_put y ?s)" using wr(3) by (simp add: sm_put_eq)
  then have words: "fifo_words (sm_tx (fst (sm_put y ?s))) = fifo_words (sm_tx ?s) @ [y]"
    using sm_put_words(1) [OF assms(2), of y] by simp
  have rest: "sm_rx (fst (sm_put y s)) = sm_rx s" for s by (simp add: sm_put_eq)
  have flags: "sm_fdebug (fst (sm_put y ?s)) = sm_fdebug ?s" using wr(3) by (simp add: sm_put_eq not_le [symmetric])
  show thesis
  proof (rule that [of ?h])
    show "write_element wr bytes y w = w\<lparr>w_store := ?h,
        w_mem := if a_kind wr = PIO_DMA_ADDR_MEM then mem_store (a_mem wr) bytes y (w_mem w) else w_mem w\<rparr>"
      using wr(1,2) by (simp add: write_element_def pio_sim_sm_put_def upd_sm_def)
  qed (use wr(1,2) words in \<open>auto simp: tx_words_def rx_words_def endpoint_def debug_flags_def rest flags\<close>)
qed

text \<open>
  What a transfer of channel \<open>c\<close> does to the FIFOs and the memory: \<open>x\<close> is the element, taken from the
  front of the source FIFO or from memory; it goes, with its bytes swapped if so configured, to the end
  of the destination FIFO or to memory; every other FIFO keeps its words, and no flag is raised.
\<close>

definition lossless_move :: "nat \<Rightarrow> dma_world \<Rightarrow> u32 \<Rightarrow> dma_world \<Rightarrow> bool" where
  "lossless_move c w x w' \<longleftrightarrow>
     (let chan = d_ch (w_dma w) c; r = ch_read_addr chan; wr = ch_write_addr chan; bytes = chan_bytes w c;
          y = (if dc_bswap (ch_ctrl chan) then dma_bswap x bytes else x)
      in (a_kind r = PIO_DMA_ADDR_PIO_RXF \<or> a_kind r = PIO_DMA_ADDR_MEM \<and> x = mem_load (w_mem w) (a_mem r) bytes) \<and>
         (a_kind wr = PIO_DMA_ADDR_PIO_TXF \<or> a_kind wr = PIO_DMA_ADDR_MEM) \<and>
         (\<forall>e. rx_words (w_store w) e =
            (if a_kind r = PIO_DMA_ADDR_PIO_RXF \<and> e = endpoint w r then [x] else []) @ rx_words (w_store w') e) \<and>
         (\<forall>e. tx_words (w_store w') e = tx_words (w_store w) e @
            (if a_kind wr = PIO_DMA_ADDR_PIO_TXF \<and> e = endpoint w wr then [y] else [])) \<and>
         (\<forall>e. debug_flags (w_store w') e = debug_flags (w_store w) e) \<and>
         w_mem w' = (if a_kind wr = PIO_DMA_ADDR_MEM then mem_store (a_mem wr) bytes y (w_mem w) else w_mem w))"

lemma move_element_lossless:
  assumes "dma_endpoints_ready w (d_ch (w_dma w) c)" "fifos_wf (w_store w)"
  shows "\<exists>x. lossless_move c w x (move_element c w)"
proof -
  define chan where "chan = d_ch (w_dma w) c"
  define r wr bytes where "r = ch_read_addr chan" and "wr = ch_write_addr chan" and "bytes = elem_bytes (dc_data_size (ch_ctrl chan))"
  note kinds = endpoints_ready_cases [OF assms(1), folded chan_def, folded r_def wr_def]
  obtain x h where read: "read_element r bytes w = (x, w\<lparr>w_store := h\<rparr>)"
    "\<And>e. rx_words (w_store w) e = (if a_kind r = PIO_DMA_ADDR_PIO_RXF \<and> e = endpoint w r then [x] else []) @ rx_words h e"
    "\<And>b j. sm_tx (the_sm h b j) = sm_tx (the_sm (w_store w) b j)" "\<And>e. debug_flags h e = debug_flags (w_store w) e"
    "a_kind r = PIO_DMA_ADDR_MEM \<Longrightarrow> x = mem_load (w_mem w) (a_mem r) bytes"
    by (rule kinds, erule read_effect [OF _ assms(2)]) blast
  define y where "y = (if dc_bswap (ch_ctrl chan) then dma_bswap x bytes else x)"
  define w2 where "w2 = (if sn_en (d_sniff (w_dma w)) \<and> dc_sniff_en (ch_ctrl chan) \<and> unat (sn_chan (d_sniff (w_dma w))) = c
    then upd_dma (dma_sniff y bytes) (w\<lparr>w_store := h\<rparr>) else w\<lparr>w_store := h\<rparr>)"
  have w2: "w_store w2 = h" "w_mem w2 = w_mem w" "d_pio (w_dma w2) = d_pio (w_dma w)"
    by (simp_all add: w2_def upd_dma_def dma_sniff_def)
  have e2: "endpoint w2 a = endpoint w a" for a by (simp add: endpoint_def w2)
  have wf2: "fifo_wf (sm_tx (the_sm (w_store w2) b (SM_IDX z)))" for b z
    using endpoint_wf(1) [OF assms(2)] by (simp add: w2 read(3))
  obtain h' where put: "write_element wr bytes y w2 = w2\<lparr>w_store := h',
      w_mem := if a_kind wr = PIO_DMA_ADDR_MEM then mem_store (a_mem wr) bytes y (w_mem w2) else w_mem w2\<rparr>"
    "\<And>e. tx_words h' e = tx_words (w_store w2) e @ (if a_kind wr = PIO_DMA_ADDR_PIO_TXF \<and> e = endpoint w2 wr then [y] else [])"
    "\<And>e. rx_words h' e = rx_words (w_store w2) e" "\<And>e. debug_flags h' e = debug_flags (w_store w2) e"
    by (rule kinds, rule write_effect [OF _ wf2, of wr]) (auto simp: w2 read(3))
  have "move_element c w = write_element wr bytes y w2"
    by (simp add: move_element_def Let_def split_beta chan_def [symmetric] r_def [symmetric] wr_def [symmetric]
        bytes_def [symmetric] read(1) y_def w2_def)
  moreover have "tx_words h e = tx_words (w_store w) e" for e by (simp add: tx_words_def read(3))
  moreover have "(a_kind r = PIO_DMA_ADDR_PIO_RXF \<or> a_kind r = PIO_DMA_ADDR_MEM) \<and>
      (a_kind wr = PIO_DMA_ADDR_PIO_TXF \<or> a_kind wr = PIO_DMA_ADDR_MEM)"
    by (rule kinds) blast
  ultimately have "lossless_move c w x (move_element c w)"
    unfolding lossless_move_def Let_def chan_def [symmetric] r_def [symmetric] wr_def [symmetric] bytes_def [symmetric]
      y_def [symmetric]
    using read(2,4,5) put by (auto simp: w2 e2)
  then show ?thesis ..
qed

text \<open>A completion callback that leaves the state machines and the memory alone.\<close>

definition keeps_data :: "dma_callback \<Rightarrow> bool" where
  "keeps_data cb \<longleftrightarrow> (\<forall>f ch ctx w. w_store (cb f ch ctx w) = w_store w \<and> w_mem (cb f ch ctx w) = w_mem w)"

abbreviation same_data :: "dma_world \<Rightarrow> dma_world \<Rightarrow> bool" where
  "same_data w w' \<equiv> w_store w' = w_store w \<and> w_mem w' = w_mem w"

lemma upd_dma_data [simp]: "w_store (upd_dma f w) = w_store w" "w_mem (upd_dma f w) = w_mem w"
  by (simp_all add: upd_dma_def)

lemma raise_irq_data: "keeps_data cb \<Longrightarrow> same_data w (dma_raise_irq v cb ch w)"
  by (simp add: dma_raise_irq_def Let_def keeps_data_def split: option.split)

lemma start_data: "keeps_data cb \<Longrightarrow> same_data w (start_channel v cb chans c w)"
  by (simp add: start_channel_def Let_def raise_irq_data)

lemma start_mask_data: "keeps_data cb \<Longrightarrow> same_data w (pio_dma_start_channel_mask v cb chans w)"
proof -
  assume cb: "keeps_data cb"
  have "same_data w (fold (start_channel v cb chans) cs w)" for cs
    by (induction cs arbitrary: w) (simp_all add: start_data [OF cb])
  then show ?thesis unfolding pio_dma_start_channel_mask_def .
qed

lemma transfer_data:
  assumes "keeps_data cb"
  shows "same_data (move_element c w) (dma_transfer_one v cb c w)"
  by (simp add: dma_transfer_one_def complete_channel_def Let_def raise_irq_data [OF assms] start_mask_data [OF assms])

text \<open>
  C32: DMA transfers lose nothing.  Whatever the channels, their data requests and their endpoints, a tick of the
  controller either moves nothing, or moves one element of the channel it picked without loss: the
  oldest word of a source FIFO leaves it, the element is appended to a destination FIFO, all other FIFOs keep
  their words, and neither access overruns or underruns.  The callback of a completed transfer is
  assumed to leave the FIFOs and the memory alone.
\<close>

theorem dma_fifo_lossless:
  assumes "fifos_wf (w_store w)" "keeps_data cb"
  shows "let w1 = upd_dma dma_timers_tick w; w' = fst (pio_dma_tick v cb w)
    in case dma_pick v w1 of
         None \<Rightarrow> w_store w' = w_store w \<and> w_mem w' = w_mem w
       | Some c \<Rightarrow> \<exists>x. lossless_move c w1 x w'"
proof (cases "dma_pick v (upd_dma dma_timers_tick w)")
  case None
  then show ?thesis by (simp add: pio_dma_tick_def Let_def)
next
  case (Some c)
  let ?w1 = "upd_dma dma_timers_tick w"
  have "dma_endpoints_ready ?w1 (d_ch (w_dma ?w1) c)"
    using pick_Some(2) [OF Some] by (simp add: dma_channel_ready_def Let_def)
  then obtain x where "lossless_move c ?w1 x (move_element c ?w1)"
    using move_element_lossless [of ?w1 c] assms(1) by auto
  moreover have "same_data (move_element c ?w1) (fst (pio_dma_tick v cb w))"
    using transfer_data [OF assms(2), where v = v] by (simp add: pio_dma_tick_def Let_def Some)
  ultimately show ?thesis unfolding Let_def Some by (auto simp: lossless_move_def Let_def)
qed

text \<open>A channel that feeds a TX FIFO from memory.\<close>

theorem dma_fifo_lossless_witness:
  "let w = \<lparr>w_store = pio_sim_init RP2040 0 store_zero, w_mem = (\<lambda>_. 0x11),
       w_dma = upd_ch 0 (\<lambda>ch. ch\<lparr>ch_read_addr := pio_dma_addr_mem 0x2000, ch_write_addr := pio_dma_addr_txf 0 1,
           ch_en := True, ch_busy := True\<rparr>)
         (pio_dma_init RP2040 (\<lambda>_. Some 0) 1)\<rparr>;
     w' = fst (pio_dma_tick RP2040 (\<lambda>_ _ _ w. w) w)
   in tx_words (w_store w') (0, SM_IDX 1) = [0x11111111] \<and> debug_flags (w_store w') (0, SM_IDX 1) = 0"
proof -
  define w where "w = \<lparr>w_store = pio_sim_init RP2040 0 store_zero, w_mem = (\<lambda>_. 0x11),
       w_dma = upd_ch 0 (\<lambda>ch. ch\<lparr>ch_read_addr := pio_dma_addr_mem 0x2000, ch_write_addr := pio_dma_addr_txf 0 1,
           ch_en := True, ch_busy := True\<rparr>)
         (pio_dma_init RP2040 (\<lambda>_. Some 0) 1)\<rparr>"
  let ?w1 = "upd_dma dma_timers_tick w"
  have ch: "ch_read_addr (d_ch (w_dma w) 0) = pio_dma_addr_mem 0x2000"
    "ch_write_addr (d_ch (w_dma w) 0) = pio_dma_addr_txf 0 1" "d_pio (w_dma w) 0 = Some 0" "d_pio_count (w_dma w) = 1"
    "chan_bytes w 0 = 4" "dc_bswap (ch_ctrl (d_ch (w_dma w) 0)) = False" "ch_en (d_ch (w_dma w) 0)" "ch_busy (d_ch (w_dma w) 0)"
    "w_store w = pio_sim_init RP2040 0 store_zero" "w_mem w = (\<lambda>_. 0x11)" "dma_treq_ready ?w1 (d_ch (w_dma w) 0)"
    "\<And>c. c \<noteq> 0 \<Longrightarrow> \<not> ch_busy (d_ch (w_dma w) c)"
    by (simp_all add: w_def upd_ch_def pio_dma_init_def dma_zero_def Let_def PIO_SIM_NUM_PIO_def
        pio_dma_channel_get_default_config_def elem_bytes_def dma_treq_ready_def)
  note reset = sm_init_defaults_def sm_reset_exec_def sm_zero_def fifo_zero_def fifo_clear_def
  have sm: "the_sm (pio_sim_init RP2040 0 store_zero) b j = (if b = 0 \<and> j < 4 then sm_init_defaults sm_zero else sm_zero)" for b j
    by (simp add: pio_sim_init_def the_sm_def upd_blk_def store_zero_def blk_zero_def)
  have "fifos_wf (w_store w)"
    using sm_wf_init_defaults by (simp add: fifos_wf_def ch sm sm_wf_def) (simp add: reset fifo_wf_def)
  moreover have "keeps_data (\<lambda>_ _ _ w. w)" by (simp add: keeps_data_def)
  moreover have "dma_pick RP2040 ?w1 = Some 0"
  proof (cases "dma_pick RP2040 ?w1")
    case None
    have "d_pio (w_dma ?w1) = d_pio (w_dma w)" "d_pio_count (w_dma ?w1) = d_pio_count (w_dma w)"
      by (simp_all add: upd_dma_def dma_timers_tick_def)
    then have "dma_endpoints_ready ?w1 (d_ch (w_dma w) 0)"
      using sm [of 0 "SM_IDX 1"] SM_IDX_less [of 1]
      by (simp add: dma_endpoints_ready_def pio_dma_addr_mem_def pio_dma_addr_txf_def dma_pio_def ch
          pio_sim_sm_is_dreq_tx_def pio_sim_sm_is_tx_fifo_full_def the_sm_def reset)
    then have "dma_channel_ready ?w1 0" using ch(7,8,11) by (simp add: dma_channel_ready_def Let_def)
    with None show ?thesis by (simp add: pick_None PIO_SIM_DMA_NUM_CHANNELS_def)
  next
    case (Some c)
    with pick_Some(2) [OF Some] ch(12) [of c] show ?thesis by (auto simp: dma_channel_ready_def Let_def)
  qed
  ultimately have "\<exists>x. lossless_move 0 ?w1 x (fst (pio_dma_tick RP2040 (\<lambda>_ _ _ w. w) w))"
    using dma_fifo_lossless [of w "\<lambda>_ _ _ w. w" RP2040] by (simp add: Let_def)
  then obtain x where x: "lossless_move 0 ?w1 x (fst (pio_dma_tick RP2040 (\<lambda>_ _ _ w. w) w))" ..
  have load: "mem_load (\<lambda>_. 0x11) 0x2000 4 = 0x11111111" by (simp add: mem_load_def upt_rec)
  have kinds: "a_kind (pio_dma_addr_mem 0x2000) = PIO_DMA_ADDR_MEM" "a_mem (pio_dma_addr_mem 0x2000) = 0x2000"
    "a_kind (pio_dma_addr_txf 0 1) = PIO_DMA_ADDR_PIO_TXF" "endpoint ?w1 (pio_dma_addr_txf 0 1) = (0, SM_IDX 1)"
    using ch(3) by (simp_all add: pio_dma_addr_mem_def pio_dma_addr_txf_def endpoint_def dma_timers_tick_def upd_dma_def)
  have before: "tx_words (pio_sim_init RP2040 0 store_zero) (0, SM_IDX 1) = []"
    "debug_flags (pio_sim_init RP2040 0 store_zero) (0, SM_IDX 1) = 0"
    using SM_IDX_less [of 1] by (simp_all add: tx_words_def debug_flags_def sm reset)
  show ?thesis
    using x unfolding Let_def w_def [symmetric] lossless_move_def
    by (simp add: ch kinds load before)
qed

section \<open>Address rings\<close>

lemma ring_step:
  fixes mem :: u64 and r bytes :: nat
  assumes "0 < r" "r < 64"
  defines "m \<equiv> push_bit r 1 - 1"
  defines "low \<equiv> mem AND m"
  defines "mem' \<equiv> mem + (((low + of_nat bytes) AND m) - low)"
  shows "drop_bit r mem' = drop_bit r mem"
    and "unat (take_bit r mem') = (unat (take_bit r mem) + bytes) mod 2 ^ r"
proof -
  have m: "m = mask r" by (simp add: m_def mask_eq_exp_minus_1)
  define nxt where "nxt = take_bit r (low + of_nat bytes)"
  have low: "low = take_bit r mem" by (simp add: low_def m take_bit_eq_mask)
  have "push_bit r (drop_bit r mem) = mem - low"
    unfolding low eq_diff_eq by (rule bits_ident)
  moreover have "mem' = mem - low + nxt"
    unfolding mem'_def nxt_def m take_bit_eq_mask [symmetric] by simp
  ultimately have "mem' = push_bit r (drop_bit r mem) + nxt" by (simp only:)
  moreover have "push_bit r (drop_bit r mem) AND nxt = 0"
    by (rule bit_word_eqI) (auto simp: nxt_def bit_simps)
  ultimately have mem': "mem' = push_bit r (drop_bit r mem) OR nxt" by (simp add: disjunctive_add_eq_or)
  show "drop_bit r mem' = drop_bit r mem"
    unfolding mem' by (rule bit_word_eqI) (auto simp: nxt_def bit_simps dest: word_bit_lt)
  have "take_bit r mem' = nxt"
    unfolding mem' by (rule bit_word_eqI) (auto simp: nxt_def bit_simps)
  moreover have "unat nxt = (unat low + bytes) mod 2 ^ r"
  proof -
    have "unat nxt = unat (low + of_nat bytes) mod 2 ^ r"
      unfolding nxt_def unsigned_take_bit_eq by (simp add: take_bit_eq_mod)
    also have "unat (low + of_nat bytes) = (unat low + bytes) mod 2 ^ 64"
      by (simp add: unat_word_ariths unsigned_of_nat take_bit_eq_mod mod_add_right_eq)
    also have "\<dots> mod 2 ^ r = (unat low + bytes) mod 2 ^ r"
      using assms(2) by (intro mod_mod_cancel le_imp_power_dvd) simp
    finally show ?thesis .
  qed
  ultimately show "unat (take_bit r mem') = (unat (take_bit r mem) + bytes) mod 2 ^ r" by (simp add: low)
qed

lemma ring_advance:
  assumes "a_kind a = PIO_DMA_ADDR_MEM" "0 < r" "r < 64"
  shows "a_kind (dma_advance True r True bytes a) = PIO_DMA_ADDR_MEM"
    and "drop_bit (unat r) (a_mem (dma_advance True r True bytes a)) = drop_bit (unat r) (a_mem a)"
    and "unat (take_bit (unat r) (a_mem (dma_advance True r True bytes a))) =
      (unat (take_bit (unat r) (a_mem a)) + bytes) mod 2 ^ unat r"
proof -
  have r: "0 < unat r" "unat r < 64" using assms(2,3) by (simp_all add: word_less_nat_alt)
  have nz: "r \<noteq> 0" using assms(2) by auto
  show "a_kind (dma_advance True r True bytes a) = PIO_DMA_ADDR_MEM"
    "drop_bit (unat r) (a_mem (dma_advance True r True bytes a)) = drop_bit (unat r) (a_mem a)"
    "unat (take_bit (unat r) (a_mem (dma_advance True r True bytes a))) =
      (unat (take_bit (unat r) (a_mem a)) + bytes) mod 2 ^ unat r"
    using assms nz ring_step [OF r, of "a_mem a" bytes] by (simp_all add: dma_advance_def Let_def)
qed

text \<open>
  C33: Address rings.  With a ring of \<open>2 ^ r\<close> bytes on an incrementing memory endpoint, the cursor stays
  in its naturally aligned window for ever, and after \<open>k\<close> elements its offset in the window is the
  start offset plus \<open>k\<close> elements, modulo the window.
\<close>

theorem dma_ring_wraps:
  assumes "a_kind a = PIO_DMA_ADDR_MEM" "0 < r" "r < 64"
  shows "let a' = (dma_advance True r True bytes ^^ k) a
    in a_kind a' = PIO_DMA_ADDR_MEM \<and> drop_bit (unat r) (a_mem a') = drop_bit (unat r) (a_mem a) \<and>
       unat (take_bit (unat r) (a_mem a')) = (unat (take_bit (unat r) (a_mem a)) + k * bytes) mod 2 ^ unat r"
proof (induction k)
  case 0
  have "unat (take_bit (unat r) (a_mem a)) < 2 ^ unat r"
    by (simp add: unsigned_take_bit_eq take_bit_nat_less_exp)
  then show ?case using assms(1) by simp
next
  case (Suc k)
  let ?a = "(dma_advance True r True bytes ^^ k) a"
  have a: "a_kind ?a = PIO_DMA_ADDR_MEM" using Suc.IH by (simp add: Let_def)
  show ?case
    using Suc.IH ring_advance [OF a assms(2,3), of bytes]
    by (simp add: Let_def mod_add_left_eq add.assoc add.commute [of bytes])
qed

theorem dma_ring_wraps_witness:
  "drop_bit 4 (a_mem ((dma_advance True 4 True 4 ^^ 3) (pio_dma_addr_mem 0x2008))) = 0x200 \<and>
   unat (take_bit 4 (a_mem ((dma_advance True 4 True 4 ^^ 3) (pio_dma_addr_mem 0x2008)))) = 4"
  using dma_ring_wraps [where a = "pio_dma_addr_mem 0x2008" and r = 4 and bytes = 4 and k = 3] by (simp add: Let_def pio_dma_addr_mem_def)

section \<open>Completion\<close>

lemma move_element_dma:
  "d_ch (w_dma (move_element c w)) = d_ch (w_dma w)" "d_intr (w_dma (move_element c w)) = d_intr (w_dma w)"
  by (simp_all add: move_element_def read_element_def write_element_def Let_def upd_dma_def dma_sniff_def
      split: option.split)

lemma advance_channel_dma:
  "d_ch (advance_channel c d) = (d_ch d)(c := d_ch (advance_channel c d) c)"
  "ch_ctrl (d_ch (advance_channel c d) c) = ch_ctrl (d_ch d c)"
  "ch_busy (d_ch (advance_channel c d) c) = ch_busy (d_ch d c)"
  "ch_on_complete (d_ch (advance_channel c d) c) = ch_on_complete (d_ch d c)"
  "ch_trans_count (d_ch (advance_channel c d) c) = ch_trans_count (d_ch d c) - 1"
  "d_intr (advance_channel c d) = d_intr d"
  by (simp_all add: advance_channel_def Let_def upd_ch_def split: option.split)

text \<open>The state between the end of the last transfer and the chaining.\<close>

definition finished :: "nat \<Rightarrow> dma_world \<Rightarrow> dma_world" where
  "finished c u = upd_dma (\<lambda>d. (upd_ch c (\<lambda>ch. ch\<lparr>ch_busy := False\<rparr>) d)
     \<lparr>d_intr := (if dc_irq_quiet (ch_ctrl (d_ch d c)) then d_intr d else d_intr d OR push_bit c 1)\<rparr>) u"

lemma finished_fields:
  assumes "c < 32"
  shows "d_ch (w_dma (finished c u)) k =
      (if k = c then (d_ch (w_dma u) c)\<lparr>ch_busy := False\<rparr> else d_ch (w_dma u) k)"
    and "bit (d_intr (w_dma (finished c u))) k \<longleftrightarrow>
      bit (d_intr (w_dma u)) k \<or> (k = c \<and> \<not> dc_irq_quiet (ch_ctrl (d_ch (w_dma u) c)))"
  using assms by (auto simp: finished_def upd_dma_def upd_ch_def bit_pow2 word_bits)

lemma complete_no_callback:
  assumes "c < PIO_SIM_DMA_NUM_CHANNELS v" "ch_on_complete (d_ch (w_dma u) c) = None"
  shows "complete_channel v cb c u =
    (let t = unat (dc_chain_to (ch_ctrl (d_ch (w_dma u) c)))
     in if t \<noteq> c \<and> t < PIO_SIM_DMA_NUM_CHANNELS v
        then pio_dma_start_channel_mask v cb (push_bit t 1) (finished c u) else finished c u)"
proof -
  let ?u2 = "upd_dma (upd_ch c (\<lambda>ch. ch\<lparr>ch_busy := False\<rparr>)) u"
  have ctrl: "ch_ctrl (d_ch (w_dma ?u2) c) = ch_ctrl (d_ch (w_dma u) c)" "ch_on_complete (d_ch (w_dma ?u2) c) = None"
    using assms(2) by (simp_all add: upd_dma_def upd_ch_def)
  have irq: "dma_raise_irq v cb (of_nat c) ?u2 = upd_dma (\<lambda>d. d\<lparr>d_intr := d_intr d OR push_bit c 1\<rparr>) ?u2"
    using raise_irq_no_callback [of ?u2 v "of_nat c" cb] ctrl(2) by (simp add: CH_IDX_of_nat [OF assms(1)])
  have f: "(if dc_irq_quiet (ch_ctrl (d_ch (w_dma u) c)) then ?u2 else upd_dma (\<lambda>d. d\<lparr>d_intr := d_intr d OR push_bit c 1\<rparr>) ?u2) =
      finished c u"
    by (simp add: finished_def upd_dma_def upd_ch_def)
  have "ch_ctrl (d_ch (w_dma (finished c u)) c) = ch_ctrl (d_ch (w_dma u) c)"
    by (simp add: finished_def upd_dma_def upd_ch_def)
  then show ?thesis unfolding complete_channel_def Let_def irq ctrl(1) f by simp
qed

text \<open>
  C34: Completion and chaining.  Every transfer counts down by one; exactly the one that reaches zero
  makes the channel idle, raises its completion flag unless the channel is quiet, and triggers the
  channel it chains to: that one starts with its reload count, or, when the count is zero, does not
  start and raises its own flag if it is quiet.  No other channel or flag changes.
\<close>

theorem dma_completion:
  assumes "c < PIO_SIM_DMA_NUM_CHANNELS v" "ch_trans_count (d_ch (w_dma w) c) \<noteq> 0"
    and "\<And>c'. ch_on_complete (d_ch (w_dma w) c') = None"
  shows "let chan = d_ch (w_dma w) c; t = unat (dc_chain_to (ch_ctrl chan)); nxt = d_ch (w_dma w) t;
      last = (ch_trans_count chan = 1); chained = (last \<and> t \<noteq> c \<and> t < PIO_SIM_DMA_NUM_CHANNELS v);
      starts = (chained \<and> ch_trans_count_reload nxt \<noteq> 0); d' = w_dma (dma_transfer_one v cb c w)
    in unat (ch_trans_count (d_ch d' c)) = unat (ch_trans_count chan) - 1 \<and>
       ch_busy (d_ch d' k) = (if k = c \<and> last then False else if k = t \<and> starts then True else ch_busy (d_ch (w_dma w) k)) \<and>
       (if starts then ch_trans_count (d_ch d' t) = ch_trans_count_reload nxt else True) \<and>
       bit (d_intr d') k = (bit (d_intr (w_dma w)) k \<or> (k = c \<and> last \<and> \<not> dc_irq_quiet (ch_ctrl chan)) \<or>
         (k = t \<and> chained \<and> ch_trans_count_reload nxt = 0 \<and> dc_irq_quiet (ch_ctrl nxt)))"
proof -
  define u where "u = upd_dma (advance_channel c) (move_element c w)"
  define t where "t = unat (dc_chain_to (ch_ctrl (d_ch (w_dma w) c)))"
  have u: "d_ch (w_dma u) = (d_ch (w_dma w))(c := d_ch (w_dma u) c)" "ch_ctrl (d_ch (w_dma u) c) = ch_ctrl (d_ch (w_dma w) c)"
    "ch_busy (d_ch (w_dma u) c) = ch_busy (d_ch (w_dma w) c)" "ch_on_complete (d_ch (w_dma u) c) = None"
    "ch_trans_count (d_ch (w_dma u) c) = ch_trans_count (d_ch (w_dma w) c) - 1" "d_intr (w_dma u) = d_intr (w_dma w)"
    using advance_channel_dma [of c "w_dma (move_element c w)"] assms(3)
    by (simp_all add: u_def upd_dma_def move_element_dma)
  have other: "d_ch (w_dma u) c' = d_ch (w_dma w) c'" if "c' \<noteq> c" for c'
    using that by (subst u(1)) simp
  have w': "dma_transfer_one v cb c w = (if ch_trans_count (d_ch (w_dma w) c) = 1 then complete_channel v cb c u else u)"
    by (simp add: dma_transfer_one_def Let_def u_def [symmetric] u(5))
  have cnt: "unat (ch_trans_count (d_ch (w_dma w) c) - 1) = unat (ch_trans_count (d_ch (w_dma w) c)) - 1"
    using assms(2) by (simp add: unat_minus_one)
  note f = finished_fields [OF channel_less [OF assms(1)]]
  note complete = complete_no_callback [OF assms(1) u(4), unfolded u(2), folded t_def]
  have start: "pio_dma_start_channel_mask v cb (push_bit t 1) (finished c u) =
      (if ch_trans_count_reload (d_ch (w_dma w) t) \<noteq> 0
       then upd_dma (upd_ch t (\<lambda>ch. ch\<lparr>ch_trans_count := ch_trans_count_reload ch, ch_busy := True\<rparr>)) (finished c u)
       else if dc_irq_quiet (ch_ctrl (d_ch (w_dma w) t)) then upd_dma (\<lambda>d. d\<lparr>d_intr := d_intr d OR push_bit t 1\<rparr>) (finished c u)
       else finished c u)" if "t \<noteq> c" "t < PIO_SIM_DMA_NUM_CHANNELS v"
    using start_no_callback [OF that(2), of "finished c u" cb] that(1) assms(3) by (simp add: f other)
  consider (more) "ch_trans_count (d_ch (w_dma w) c) \<noteq> 1"
    | (alone) "ch_trans_count (d_ch (w_dma w) c) = 1" "\<not> (t \<noteq> c \<and> t < PIO_SIM_DMA_NUM_CHANNELS v)"
    | (chained) "ch_trans_count (d_ch (w_dma w) c) = 1" "t \<noteq> c" "t < PIO_SIM_DMA_NUM_CHANNELS v" by blast
  then show ?thesis
  proof cases
    case more
    then show ?thesis using cnt u(3) other by (cases "k = c") (simp_all add: w' Let_def u(5,6))
  next
    case alone
    then show ?thesis
      unfolding Let_def t_def [symmetric] w' complete
      by (auto simp: f u(2,5,6) other)
  next
    case chained
    then show ?thesis using channel_less [OF chained(3)]
      unfolding Let_def t_def [symmetric] w' complete start [OF chained(2,3)]
      by (auto simp: f u(2,5,6) other upd_dma_def upd_ch_def bit_pow2 word_bits)
  qed
qed

theorem dma_completion_witness:
  "let w = upd_dma (upd_ch 2 (\<lambda>ch. ch\<lparr>ch_trans_count := 1, ch_busy := True\<rparr>)) (world_zero RP2040)
   in \<not> ch_busy (d_ch (w_dma (dma_transfer_one RP2040 (\<lambda>_ _ _ w. w) 2 w)) 2) \<and>
      bit (d_intr (w_dma (dma_transfer_one RP2040 (\<lambda>_ _ _ w. w) 2 w))) 2"
proof -
  define w where "w = upd_dma (upd_ch 2 (\<lambda>ch. ch\<lparr>ch_trans_count := 1, ch_busy := True\<rparr>)) (world_zero RP2040)"
  have w: "ch_trans_count (d_ch (w_dma w) 2) = 1" "\<And>c'. ch_on_complete (d_ch (w_dma w) c') = None"
    "dc_irq_quiet (ch_ctrl (d_ch (w_dma w) 2)) = False"
    by (simp_all add: w_def upd_dma_def upd_ch_def world_zero_def pio_dma_init_def dma_zero_def Let_def
        pio_dma_channel_get_default_config_def)
  have "2 < PIO_SIM_DMA_NUM_CHANNELS RP2040" "ch_trans_count (d_ch (w_dma w) 2) \<noteq> 0"
    by (simp_all add: PIO_SIM_DMA_NUM_CHANNELS_def w(1))
  from dma_completion [OF this w(2), where k = 2] show ?thesis
    unfolding Let_def w_def [symmetric] by (simp add: w)
qed

end
