(* ===== verification/Pio_Chip.thy ===== *)
theory Pio_Chip
  imports Pio_Group Pio_Clk Pio_Channel
begin

text \<open>
  The whole chip (\<open>lib/src/pio_chip.c\<close>): every PIO block of the device on one shared pad set, the DMA
  controller and the clock tree, ticked together.
\<close>

section \<open>State and operations\<close>

text \<open>
  Block \<open>i\<close> of the chip, \<open>&c->blocks[i]\<close>, is block \<open>i\<close> of the store.  The controller is ticked in the
  world it acts on, which also holds the host's memory.
\<close>

record pio_chip_t =
  c_grp :: pio_sim_group_t
  c_world :: dma_world
  c_clk :: pio_clk_tree_t

abbreviation chip_sm :: "pio_chip_t \<Rightarrow> nat \<Rightarrow> nat \<Rightarrow> pio_sm_t" where
  "chip_sm c b j \<equiv> the_sm (w_store (c_world c)) b j"

definition pio_chip_init :: "pio_version \<Rightarrow> pio_chip_t \<Rightarrow> pio_chip_t" where
  "pio_chip_init v c =
     (let n = PIO_SIM_NUM_PIO v;
          h = fold (pio_sim_init v) [0..<n] (w_store (c_world c));
          (g, h) = pio_sim_group_init_shared v (\<lambda>i. i) (of_nat n) (c_grp c) h
      in c\<lparr>c_grp := g,
           c_world := (c_world c)\<lparr>w_store := h, w_dma := pio_dma_init v Some (of_nat n)\<rparr>,
           c_clk := pio_clk_init_default v\<rparr>)"

definition pio_chip_tick :: "pio_version \<Rightarrow> device \<Rightarrow> dma_callback \<Rightarrow> pio_chip_t \<Rightarrow> pio_chip_t" where
  "pio_chip_tick v dev cb c =
     (let w = (c_world c)\<lparr>w_store := pio_sim_group_tick v dev (c_grp c) (w_store (c_world c))\<rparr>
      in c\<lparr>c_world := fst (pio_dma_tick v cb w)\<rparr>)"

definition pio_chip_run :: "pio_version \<Rightarrow> device \<Rightarrow> dma_callback \<Rightarrow> u64 \<Rightarrow> pio_chip_t \<Rightarrow> pio_chip_t" where
  "pio_chip_run v dev cb n c = (pio_chip_tick v dev cb ^^ unat n) c"

definition pio_chip_pio :: "pio_version \<Rightarrow> u8 \<Rightarrow> nat" where
  "pio_chip_pio v index = unat index mod PIO_SIM_NUM_PIO v"

definition pio_chip_ticks_to_ns :: "pio_version \<Rightarrow> pio_chip_t \<Rightarrow> u64 \<Rightarrow> u64" where
  "pio_chip_ticks_to_ns v c ticks = pio_clk_ticks_to_ns v (c_clk c) ticks"

definition pio_chip_ticks_to_us :: "pio_version \<Rightarrow> pio_chip_t \<Rightarrow> u64 \<Rightarrow> u64" where
  "pio_chip_ticks_to_us v c ticks = pio_clk_ticks_to_us v (c_clk c) ticks"

definition pio_chip_ns_to_ticks :: "pio_version \<Rightarrow> pio_chip_t \<Rightarrow> u64 \<Rightarrow> u64" where
  "pio_chip_ns_to_ticks v c ns = pio_clk_ns_to_ticks v (c_clk c) ns"

definition pio_chip_us_to_ticks :: "pio_version \<Rightarrow> pio_chip_t \<Rightarrow> u64 \<Rightarrow> u64" where
  "pio_chip_us_to_ticks v c us = pio_clk_us_to_ticks v (c_clk c) us"

section \<open>Predicates every state machine of the chip keeps\<close>

text \<open>
  A predicate on one state machine survives the ticks of all blocks when the device hooks keep it;
  with the operations of the host on the two FIFOs it survives the DMA controller too.
\<close>

context sm_invariant
begin

lemma tick_any:
  assumes "P (the_sm h b j)"
    and "\<And>f b' ctx h. P (the_sm h b j) \<Longrightarrow> P (the_sm (dev f b' ctx h) b j)"
  shows "P (the_sm (pio_sim_tick v dev b' h) b j)"
proof -
  let ?h = "fold (tick_sm v b') [0..<4] (open_write_window b' h)"
  have "P (the_sm ?h b j)"
    using tick_sms [OF write_window [OF assms(1)]] assms(1)
    by (cases "b = b'") (simp_all add: tick_sms_other write_window_sm)
  then show ?thesis using assms(2)
    by (simp add: pio_sim_tick_def Let_def call_on_tick_def split: option.split)
qed

lemma group_tick:
  assumes "P (the_sm h b j)"
    and "\<And>f b' ctx h. P (the_sm h b j) \<Longrightarrow> P (the_sm (dev f b' ctx h) b j)"
  shows "P (the_sm (pio_sim_group_tick v dev g h) b j)"
proof -
  have window: "P (the_sm (fold (\<lambda>i. open_write_window (g_blk g i)) is h) b j)"
    if "P (the_sm h b j)" for "is" h
    using that
  proof (induction "is" arbitrary: h)
    case (Cons i "is")
    have "P (the_sm (open_write_window (g_blk g i) h) b j)"
      using Cons.prems write_window [of h b j] by (cases "b = g_blk g i") (simp_all add: write_window_sm)
    then show ?case using Cons.IH by simp
  qed simp
  have ticks: "P (the_sm (fold (\<lambda>i. pio_sim_tick v dev (g_blk g i)) is h) b j)"
    if "P (the_sm h b j)" for "is" h
    using that by (induction "is" arbitrary: h) (simp_all add: tick_any assms(2))
  show ?thesis unfolding pio_sim_group_tick_def Let_def by (simp add: ticks window assms(1))
qed

end

locale sm_host_invariant = sm_invariant +
  assumes put: "P s \<Longrightarrow> P (fst (sm_put w s))"
    and get: "P s \<Longrightarrow> P (fst (sm_get s))"
begin

lemma upd_blk_sm:
  "P (the_sm h b j) \<Longrightarrow> (\<And>s. P s \<Longrightarrow> P (f s)) \<Longrightarrow> P (the_sm (upd_blk b' (blk_upd_sm i f) h) b j)"
  by (auto simp: the_sm_def upd_blk_def blk_upd_sm_def)

lemma read_element: "P (the_sm (w_store w) b j) \<Longrightarrow> P (the_sm (w_store (snd (read_element a n w))) b j)"
  by (simp add: read_element_def pio_sim_sm_get_def split_beta Let_def upd_blk_sm get split: option.split)

lemma write_element: "P (the_sm (w_store w) b j) \<Longrightarrow> P (the_sm (w_store (write_element a n x w)) b j)"
  by (simp add: write_element_def pio_sim_sm_put_def split_beta Let_def upd_blk_sm put split: option.split)

lemma move_element: "P (the_sm (w_store w) b j) \<Longrightarrow> P (the_sm (w_store (move_element c w)) b j)"
  using read_element [of w b j] by (auto simp: move_element_def Let_def split_beta upd_dma_def intro!: write_element)

text \<open>A transfer keeps the predicate if the completion callbacks do.\<close>

lemma raise_irq:
  assumes "P (the_sm (w_store w) b j)"
    and cb: "\<And>f ch ctx w. P (the_sm (w_store w) b j) \<Longrightarrow> P (the_sm (w_store (cb f ch ctx w)) b j)"
  shows "P (the_sm (w_store (dma_raise_irq v cb ch w)) b j)"
  using assms(1) by (simp add: dma_raise_irq_def Let_def upd_dma_def cb split: option.split)

lemma start_mask:
  assumes "P (the_sm (w_store w) b j)"
    and cb: "\<And>f ch ctx w. P (the_sm (w_store w) b j) \<Longrightarrow> P (the_sm (w_store (cb f ch ctx w)) b j)"
  shows "P (the_sm (w_store (pio_dma_start_channel_mask v cb m w)) b j)"
proof -
  have "P (the_sm (w_store (start_channel v cb m c w)) b j)" if "P (the_sm (w_store w) b j)" for c w
    using raise_irq [where cb = cb, OF that cb, of v "of_nat c"] that by (simp add: start_channel_def Let_def upd_dma_def)
  then have "P (the_sm (w_store (fold (start_channel v cb m) cs w)) b j)" for cs
    using assms(1) by (induction cs arbitrary: w) simp_all
  then show ?thesis by (simp add: pio_dma_start_channel_mask_def)
qed

lemma dma_tick:
  assumes "P (the_sm (w_store w) b j)"
    and cb: "\<And>f ch ctx w. P (the_sm (w_store w) b j) \<Longrightarrow> P (the_sm (w_store (cb f ch ctx w)) b j)"
  shows "P (the_sm (w_store (fst (pio_dma_tick v cb w))) b j)"
proof -
  have "P (the_sm (w_store (dma_transfer_one v cb c w)) b j)" if "P (the_sm (w_store w) b j)" for c w
    using move_element [OF that, of c]
    by (auto simp: dma_transfer_one_def complete_channel_def Let_def upd_dma_def intro!: start_mask raise_irq cb)
  from this [of "upd_dma dma_timers_tick w"] show ?thesis
    using assms(1) by (auto simp: pio_dma_tick_def Let_def upd_dma_def split: option.split)
qed

lemma chip_run:
  assumes "P (chip_sm c b j)"
    and "\<And>f b' ctx h. P (the_sm h b j) \<Longrightarrow> P (the_sm (dev f b' ctx h) b j)"
    and cb: "\<And>f ch ctx w. P (the_sm (w_store w) b j) \<Longrightarrow> P (the_sm (w_store (cb f ch ctx w)) b j)"
  shows "P (chip_sm (pio_chip_run v dev cb n c) b j)"
proof -
  have "P (chip_sm (pio_chip_tick v dev cb c) b j)" if "P (chip_sm c b j)" for c
    using that by (simp add: pio_chip_tick_def Let_def dma_tick [OF _ cb] group_tick assms(2))
  then have "P (chip_sm ((pio_chip_tick v dev cb ^^ k) c) b j)" for k
    by (induction k) (simp_all add: assms(1))
  then show ?thesis by (simp add: pio_chip_run_def)
qed

end

interpretation wf_host: sm_host_invariant sm_wf
  by unfold_locales (simp_all add: sm_wf_put_get)

section \<open>Reset and running\<close>

text \<open>The blocks of the chip share the pads of the group and have well-formed state machines.\<close>

lemma init_other_block: "b \<noteq> n \<Longrightarrow> the_sm (pio_sim_init v n h) b i = the_sm h b i"
  by (simp add: pio_sim_init_def the_sm_def upd_blk_def)

lemma init_all_sm:
  "i < 4 \<Longrightarrow> b < n \<Longrightarrow> the_sm (fold (pio_sim_init v) [0..<n] h) b i = sm_init_defaults sm_zero"
proof (induction n)
  case (Suc n)
  then show ?case by (cases "b = n") (simp_all add: init_sm init_other_block)
qed simp

lemma link_sm [simp]: "the_sm (fold (link_neighbors g) is h) b i = the_sm h b i"
  by (induction "is" arbitrary: h)
    (simp_all add: link_neighbors_def Let_def the_sm_def upd_blk_def pio_sim_set_irq_neighbors_def)

lemma join_sm [simp]: "the_sm (fold (join_shared g) is h) b i = the_sm h b i"
  by (induction "is" arbitrary: h)
    (simp_all add: join_shared_def the_sm_def upd_blk_def)

lemma init_shared_sm:
  "the_sm (snd (pio_sim_group_init_shared v bs n g h)) b i = the_sm h b i"
  by (simp add: pio_sim_group_init_shared_def pio_sim_group_init_def Let_def split_beta)

lemma chip_init_sm:
  "b < PIO_SIM_NUM_PIO v \<Longrightarrow> i < 4 \<Longrightarrow> chip_sm (pio_chip_init v c) b i = sm_init_defaults sm_zero"
  by (simp add: pio_chip_init_def Let_def split_beta init_shared_sm init_all_sm)

text \<open>
  C20: The chip never leaves its well-formed states.  From reset, after any number of chip ticks, every
  state machine of every block has its program counter and wrap addresses in the 32-word memory, its
  shift counters, thresholds, delay and FIFO indices in range, whatever programs run and whatever
  the DMA channels move; device hooks and completion callbacks are only assumed to keep it.
\<close>

theorem chip_run_keeps_sm_wf:
  assumes "b < PIO_SIM_NUM_PIO v" "j < 4"
    and "\<And>f b' ctx h. sm_wf (the_sm h b j) \<Longrightarrow> sm_wf (the_sm (dev f b' ctx h) b j)"
    and "\<And>f ch ctx w. sm_wf (the_sm (w_store w) b j) \<Longrightarrow> sm_wf (the_sm (w_store (cb f ch ctx w)) b j)"
  shows "sm_wf (chip_sm (pio_chip_run v dev cb n (pio_chip_init v c)) b j)"
proof (rule wf_host.chip_run)
  show "sm_wf (chip_sm (pio_chip_init v c) b j)"
    using assms(1,2) by (simp add: chip_init_sm sm_wf_init_defaults)
qed (fact assms(3,4))+

theorem chip_run_keeps_sm_wf_witness:
  "sm_wf (chip_sm (pio_chip_run RP2350 (\<lambda>_ _ _ h. h) (\<lambda>_ _ _ w. w) 1000 (pio_chip_init RP2350
     \<lparr>c_grp = \<lparr>g_blk = (\<lambda>_. 0), g_count = 0, g_shared = False, g_pads = 0\<rparr>, c_world = world_zero RP2350,
      c_clk = pio_clk_init_default RP2350\<rparr>)) 2 3)"
  by (rule chip_run_keeps_sm_wf) (simp_all add: PIO_SIM_NUM_PIO_def)

subsection \<open>Wiring\<close>

lemma fold_join_ptr:
  "pads_ptr_of (fold (join_shared g) is h) b = (if b \<in> g_blk g ` set is then Shared (g_pads g) else pads_ptr_of h b)"
  by (induction "is" arbitrary: h) (auto simp: join_shared_def upd_blk_def)

lemma fold_join_owners:
  "distinct is \<Longrightarrow> p_owners (get_pads (fold (join_shared g) is h) (Shared (g_pads g))) i =
     (if i \<in> set is then g_blk g i else p_owners (get_pads h (Shared (g_pads g))) i)"
  by (induction "is" arbitrary: h) (auto simp: join_shared_def get_pads_def upd_pads_def upd_blk_def)

lemma fold_join_links:
  "pio_irq_prev (st_blk (fold (join_shared g) is h) b) = pio_irq_prev (st_blk h b)"
  "pio_irq_next (st_blk (fold (join_shared g) is h) b) = pio_irq_next (st_blk h b)"
  by (induction "is" arbitrary: h) (simp_all add: join_shared_def upd_blk_def)

lemma boot_clock:
  "pio_clk_sys_hz v (pio_clk_init_default v) = (if v = RP2040 then 125000000 else 150000000)"
  by (cases v; simp) code_simp+

lemma num_pio_u8: "unat (of_nat (PIO_SIM_NUM_PIO v) :: u8) = PIO_SIM_NUM_PIO v"
  by (cases v) (simp_all add: PIO_SIM_NUM_PIO_def)

text \<open>The group that \<open>pio_chip_init\<close> makes, and the store it makes from the reset blocks.\<close>

lemma chip_init_group:
  fixes v g
  defines "n \<equiv> PIO_SIM_NUM_PIO v"
  defines "g' \<equiv> g\<lparr>g_count := of_nat n, g_shared := True, g_blk := (\<lambda>i. if i < n then i else g_blk g i)\<rparr>"
  shows "pio_sim_group_init_shared v (\<lambda>i. i) (of_nat n) g h =
    (g', upd_pads (Shared (g_pads g)) (\<lambda>p. p\<lparr>p_owner_count := of_nat n\<rparr>)
      (fold (join_shared g') [0..<n] (upd_pads (Shared (g_pads g)) (\<lambda>_. pio_pads_init_defaults v pads_zero)
        (if v = RP2350 then fold (link_neighbors (g'\<lparr>g_shared := False\<rparr>)) [0..<n] h else h))))"
  unfolding pio_sim_group_init_shared_def pio_sim_group_init_def Let_def
  by (cases g; cases v) (simp_all add: num_pio_u8 n_def g'_def)

text \<open>
  Reset wires the chip.  All blocks use the one shared pad set, in which owner slot \<open>i\<close> is block \<open>i\<close>;
  slot \<open>i\<close> of the DMA controller is block \<open>i\<close> too; on the RP2350 the blocks form one IRQ ring; and
  \<open>clk_sys\<close> runs at 125 MHz on the RP2040 and at 150 MHz on the RP2350.
\<close>

lemma chip_init_wiring:
  "let c' = pio_chip_init v c; n = PIO_SIM_NUM_PIO v; h = w_store (c_world c'); pads = get_pads h (Shared (g_pads (c_grp c)))
   in g_count (c_grp c') = of_nat n \<and> g_shared (c_grp c') \<and> p_owner_count pads = of_nat n \<and>
      (if i < n
       then g_blk (c_grp c') i = i \<and> pads_ptr_of h i = Shared (g_pads (c_grp c)) \<and> p_owners pads i = i \<and>
         dma_pio (w_dma (c_world c')) (of_nat i) = Some i \<and>
         (if v = RP2350 then pio_irq_next (st_blk h i) = Some ((i + 1) mod n) \<and>
            pio_irq_prev (st_blk h i) = Some ((i + n - 1) mod n) else True)
       else dma_pio (w_dma (c_world c')) (of_nat i) = None \<or> 256 \<le> i) \<and>
      pio_clk_sys_hz v (c_clk c') = (if v = RP2040 then 125000000 else 150000000)"
proof -
  let ?n = "PIO_SIM_NUM_PIO v"
  define g where "g = (c_grp c)\<lparr>g_count := of_nat ?n, g_shared := True,
    g_blk := (\<lambda>i. if i < ?n then i else g_blk (c_grp c) i)\<rparr>"
  define h0 where "h0 = upd_pads (Shared (g_pads (c_grp c))) (\<lambda>_. pio_pads_init_defaults v pads_zero)
    (if v = RP2350 then fold (link_neighbors (g\<lparr>g_shared := False\<rparr>)) [0..<?n]
       (fold (pio_sim_init v) [0..<?n] (w_store (c_world c)))
     else fold (pio_sim_init v) [0..<?n] (w_store (c_world c)))"
  define h where "h = upd_pads (Shared (g_pads (c_grp c))) (\<lambda>p. p\<lparr>p_owner_count := of_nat ?n\<rparr>)
    (fold (join_shared g) [0..<?n] h0)"
  have init: "pio_chip_init v c = c\<lparr>c_grp := g,
      c_world := (c_world c)\<lparr>w_store := h, w_dma := pio_dma_init v Some (of_nat ?n)\<rparr>, c_clk := pio_clk_init_default v\<rparr>"
    unfolding pio_chip_init_def Let_def by (simp add: chip_init_group g_def h_def h0_def)
  have g: "g_pads g = g_pads (c_grp c)" "g_count g = of_nat ?n" "g_shared g" by (simp_all add: g_def)
  have blk: "g_blk g k = k" if "k < ?n" for k using that by (simp add: g_def)
  have pads: "p_owners (get_pads h (Shared (g_pads (c_grp c)))) k = k" "pads_ptr_of h k = Shared (g_pads (c_grp c))"
    if "k < ?n" for k
    using that fold_join_owners [of "[0..<?n]" g h0 k] fold_join_ptr [of g "[0..<?n]" h0 k] blk
    by (simp_all add: h_def g(1))
  have dma: "dma_pio (pio_dma_init v Some (of_nat ?n)) (of_nat k) = (if k < ?n then Some k else None)" if "k < 256" for k
    using that by (cases v)
      (auto simp: dma_pio_def pio_dma_init_def Let_def dma_zero_def PIO_SIM_NUM_PIO_def word_le_nat_alt unat_of_nat)
  have ring: "pio_irq_next (st_blk h k) = Some ((k + 1) mod ?n) \<and> pio_irq_prev (st_blk h k) = Some ((k + ?n - 1) mod ?n)"
    if "k < ?n" "v = RP2350" for k
    using that fold_link [of "g\<lparr>g_shared := False\<rparr>" ?n k] blk
    by (simp add: h_def h0_def fold_join_links num_pio_u8 g(2) inj_on_def)
  have "?n < 256" by (cases v) (simp_all add: PIO_SIM_NUM_PIO_def)
  then show ?thesis
    using blk [of i] pads [of i] dma [of i] ring [of i]
    by (simp add: init Let_def g boot_clock not_less) (auto simp: h_def)
qed

end
