(* ===== verification/Pio_Float.thy ===== *)
theory Pio_Float
  imports Complex_Main "HOL-Library.Log_Nat" Pio_Sm
begin

text \<open>
  The floating-point clock divider (\<open>sm_config_set_clkdiv\<close> of \<open>lib/src/pio_sim.c\<close>).  C's \<open>float\<close> is
  binary32 of IEEE 754 with rounding to nearest, ties to even: every operation is the exact one,
  rounded.
\<close>

section \<open>Binary32\<close>

text \<open>A C \<open>double\<close> or \<open>float\<close>; the two zeros are one, no operation here tells them apart.\<close>

datatype c_double = Not_a_number | Infinite bool | Finite rat

definition half_even :: "rat \<Rightarrow> int" where
  "half_even q = (let n = \<lfloor>q\<rfloor>; d = q - of_int n in if d < 1 / 2 \<or> (d = 1 / 2 \<and> even n) then n else n + 1)"

text \<open>The exponent of the leading bit of a positive number.\<close>

definition rat_log2 :: "rat \<Rightarrow> int" where
  "rat_log2 q = (if 1 \<le> q then int (floorlog 2 (nat \<lfloor>q\<rfloor>)) - 1 else - int (floorlog 2 (nat (\<lceil>1 / q\<rceil> - 1))))"

text \<open>The unit in the last place, with the fixed unit of the subnormal range.\<close>

definition unit32 :: "rat \<Rightarrow> rat" where
  "unit32 q = 2 powi (max (rat_log2 \<bar>q\<bar>) (- 126) - 23)"

definition round32 :: "rat \<Rightarrow> rat" where
  "round32 q = (if q = 0 then 0 else of_int (half_even (q / unit32 q)) * unit32 q)"

text \<open>The conversion \<open>(float)x\<close> of a \<open>double\<close>.\<close>

definition to_float :: "c_double \<Rightarrow> c_double" where
  "to_float x = (case x of Finite q \<Rightarrow> if 2 ^ 128 \<le> \<bar>round32 q\<bar> then Infinite (q < 0) else Finite (round32 q) | _ \<Rightarrow> x)"

section \<open>The divider\<close>

definition CLKDIV_MAX :: rat where
  "CLKDIV_MAX = round32 (6553599 / 100)"

definition clamp_clkdiv :: "c_double \<Rightarrow> rat" where
  "clamp_clkdiv dv =
     (case dv of
        Not_a_number \<Rightarrow> 1
      | Infinite neg \<Rightarrow> if neg then 1 else CLKDIV_MAX
      | Finite q \<Rightarrow> if \<not> 1 \<le> q then 1 else if CLKDIV_MAX < q then CLKDIV_MAX else q)"

text \<open>The values stay below \<open>2 ^ 17\<close>, so that no operation overflows.\<close>

definition sm_config_set_clkdiv :: "c_double \<Rightarrow> pio_sm_config \<Rightarrow> pio_sm_config" where
  "sm_config_set_clkdiv dv c =
     (let d = round32 (clamp_clkdiv dv + round32 (1 / 2 / 256));
          whole = (word_of_int \<lfloor>d\<rfloor> :: u16);
          frac = (word_of_int \<lfloor>round32 (round32 (d - of_int (uint whole)) * 256)\<rfloor> :: u8)
      in c\<lparr>c_clkdiv_int := whole, c_clkdiv_frac := frac\<rparr>)"

lemma config_wf_clkdiv: "config_wf c \<Longrightarrow> config_wf (sm_config_set_clkdiv d c)"
  by (simp add: config_wf_def sm_config_set_clkdiv_def Let_def)

section \<open>Exact operations\<close>

lemma rat_log2_less:
  assumes "0 < q" "q < 2 powi n"
  shows "rat_log2 q < n"
proof (cases "1 \<le> q")
  case True
  have "0 < n"
  proof (rule ccontr)
    assume "\<not> 0 < n"
    then have "(2 :: rat) powi n \<le> 2 powi 0" by (intro power_int_increasing) auto
    then show False using True assms(2) by simp
  qed
  then have "q < 2 ^ nat n" using assms(2) by (simp add: power_int_def)
  then have "\<lfloor>q\<rfloor> < 2 ^ nat n" by (simp add: floor_less_iff)
  then have "nat \<lfloor>q\<rfloor> < 2 ^ nat n" using True by (simp add: nat_less_iff)
  then have "floorlog 2 (nat \<lfloor>q\<rfloor>) \<le> nat n" by (simp add: floorlog_leI)
  then show ?thesis using True \<open>0 < n\<close> by (simp add: rat_log2_def)
next
  case False
  show ?thesis
  proof (cases "0 < n")
    case n: False
    let ?k = "nat (- n)"
    have "q * 2 ^ ?k < 1" using assms n by (simp add: power_int_def power_divide field_simps split: if_splits)
    then have "of_int (2 ^ ?k) < 1 / q" using assms(1) by (simp add: field_simps)
    then have "2 ^ ?k < \<lceil>1 / q\<rceil>" by (simp add: less_ceiling_iff)
    then have "2 ^ ?k \<le> nat (\<lceil>1 / q\<rceil> - 1)" by (simp add: le_nat_iff)
    then have "Suc ?k \<le> floorlog 2 (nat (\<lceil>1 / q\<rceil> - 1))" by (simp add: floorlog_ge_SucI)
    then show ?thesis using False n by (simp add: rat_log2_def)
  qed (use False in \<open>simp add: rat_log2_def\<close>)
qed

lemma rat_log2_ge:
  assumes "0 < q" "2 powi n \<le> q"
  shows "n \<le> rat_log2 q"
proof (cases "1 \<le> q")
  case True
  have "2 ^ 0 \<le> nat \<lfloor>q\<rfloor>" using True by (simp add: Suc_le_eq)
  from floorlog_ge_SucI [OF this] have one: "1 \<le> floorlog 2 (nat \<lfloor>q\<rfloor>)" by simp
  show ?thesis
  proof (cases "0 < n")
    case n: True
    then have "2 ^ nat n \<le> q" using assms(2) by (simp add: power_int_def)
    then have "2 ^ nat n \<le> nat \<lfloor>q\<rfloor>" by (simp add: le_nat_iff le_floor_iff)
    then have "Suc (nat n) \<le> floorlog 2 (nat \<lfloor>q\<rfloor>)" by (simp add: floorlog_ge_SucI)
    then show ?thesis using True n by (simp add: rat_log2_def)
  qed (use True one in \<open>simp add: rat_log2_def\<close>)
next
  case False
  have n: "n < 0"
  proof (rule ccontr)
    assume "\<not> n < 0"
    then have "(2 :: rat) powi 0 \<le> 2 powi n" by (intro power_int_increasing) auto
    then show False using False assms(2) by simp
  qed
  let ?k = "nat (- n)"
  have "1 \<le> q * 2 ^ ?k" using assms n by (simp add: power_int_def power_divide field_simps)
  then have "1 / q \<le> of_int (2 ^ ?k)" using assms(1) by (simp add: field_simps)
  then have "\<lceil>1 / q\<rceil> \<le> 2 ^ ?k" by (simp only: ceiling_le_iff)
  then have "nat (\<lceil>1 / q\<rceil> - 1) < 2 ^ ?k" by (simp add: nat_less_iff)
  then have "floorlog 2 (nat (\<lceil>1 / q\<rceil> - 1)) \<le> ?k" by (simp add: floorlog_leI)
  then show ?thesis using False n by (simp add: rat_log2_def)
qed

lemma rat_log2_eq: "0 < q \<Longrightarrow> 2 powi n \<le> q \<Longrightarrow> q < 2 powi (n + 1) \<Longrightarrow> rat_log2 q = n"
  using rat_log2_ge [of q n] rat_log2_less [of q "n + 1"] by simp

lemma half_even_of_int: "half_even (of_int n) = n"
  by (simp add: half_even_def)

text \<open>A number of at most 24 bits on the grid of the format is not changed by rounding.\<close>

lemma round32_exact:
  assumes "q = of_int m * 2 powi e" "\<bar>m\<bar> < 2 ^ 24" "- 149 \<le> e"
  shows "round32 q = q"
proof (cases "q = 0")
  case False
  define k where "k = max (rat_log2 \<bar>q\<bar>) (- 126) - 23"
  have "\<bar>q\<bar> = of_int \<bar>m\<bar> * 2 powi e" using assms(1) by (simp add: abs_mult)
  also have "\<dots> < of_int (2 ^ 24) * 2 powi e" using assms(2) by (intro mult_strict_right_mono) (simp_all only: of_int_less_iff zero_less_power_int zero_less_numeral)
  also have "\<dots> = 2 powi (e + 24)" by (simp add: power_int_add)
  finally have "rat_log2 \<bar>q\<bar> < e + 24" using False by (intro rat_log2_less) auto
  then have "k \<le> e" using assms(3) by (simp add: k_def)
  then have "q = of_int (m * 2 ^ nat (e - k)) * 2 powi k"
    using assms(1) power_int_add [of "2 :: rat" "e - k" k] by (simp add: power_int_def)
  then have "q / 2 powi k = of_int (m * 2 ^ nat (e - k))" by simp
  then show ?thesis using False by (simp add: round32_def unit32_def k_def [symmetric] half_even_of_int del: of_int_mult) (simp add: field_simps)
qed (simp add: round32_def)

lemma round32_dyadic: "q = of_int m / 2 ^ k \<Longrightarrow> \<bar>m\<bar> < 2 ^ 24 \<Longrightarrow> k \<le> 149 \<Longrightarrow> round32 q = q"
  by (rule round32_exact [of q m "- int k"]) (simp_all add: power_int_def power_divide)

lemma unit32_15:
  assumes "2 ^ 15 \<le> q" "q < 2 ^ 16"
  shows "unit32 q = 1 / 256"
proof -
  have "rat_log2 q = 15" using assms by (intro rat_log2_eq) (simp_all add: power_int_def)
  then show ?thesis using assms(1) by (simp add: unit32_def power_int_def power_divide)
qed

lemma CLKDIV_MAX_eq: "CLKDIV_MAX = 65535 + 253 / 256"
proof -
  have "unit32 (6553599 / 100) = 1 / 256" by (rule unit32_15) simp_all
  moreover have "\<lfloor>6553599 / 100 / (1 / 256) :: rat\<rfloor> = 16777213" by (rule floor_unique) simp_all
  then have "half_even (6553599 / 100 / (1 / 256)) = 16777213" unfolding half_even_def Let_def by simp
  ultimately show ?thesis by (simp only: CLKDIV_MAX_def round32_def) simp
qed

section \<open>What the divider becomes\<close>

text \<open>
  The floating-point divider is exact where \<open>float\<close> is fine enough.  Every divider below 32768 that the hardware
  can hold (an integer part and a number of 256ths) is encoded as exactly that integer part and
  fraction, as \<open>sm_config_set_clkdiv_int_frac\<close> does: the rounding term that is added loses nothing.
\<close>

lemma clkdiv_exact:
  assumes "1 \<le> i" "i < 32768"
  shows "sm_config_set_clkdiv (Finite (of_nat (unat i) + of_nat (unat f) / 256)) c = sm_config_set_clkdiv_int_frac i f c"
proof -
  define a b where "a = uint i" and "b = uint f"
  have ab: "1 \<le> a" "a < 32768" "0 \<le> b" "b < 256"
    using assms unsigned_less [of f, where 'a = int] unfolding a_def b_def word_le_def word_less_def by simp_all
  let ?q = "of_int a + of_int b / 256 :: rat"
  have half: "round32 (1 / 2 / 256) = 1 / 512" by (subst round32_dyadic [of _ 1 9]) simp_all
  have clamp: "clamp_clkdiv (Finite ?q) = ?q"
  proof -
    have "(of_int b :: rat) < of_int 256" "0 \<le> (of_int b :: rat)" "(of_int a :: rat) < of_int 32768" "of_int 1 \<le> (of_int a :: rat)"
      using ab by (simp_all only: of_int_less_iff of_int_le_iff of_int_0_le_iff)
    then have "1 \<le> ?q" "?q \<le> 65535 + 253 / 256" by (simp_all add: field_simps)
    then show ?thesis by (simp add: clamp_clkdiv_def CLKDIV_MAX_eq)
  qed
  have sum: "round32 (?q + 1 / 512) = ?q + 1 / 512" using ab by (intro round32_dyadic [of _ "512 * a + 2 * b + 1" 9]) (simp_all add: field_simps)
  have part: "?q + 1 / 512 - of_int a = of_int (2 * b + 1) / 512" by (simp add: field_simps)
  have r1: "round32 (of_int (2 * b + 1) / 512) = of_int (2 * b + 1) / 512" using ab by (intro round32_dyadic [of _ "2 * b + 1" 9]) simp_all
  have r2: "round32 (of_int (2 * b + 1) / 512 * 256) = of_int (2 * b + 1) / 2" using ab by (subst round32_dyadic [of _ "2 * b + 1" 1]) simp_all
  have "0 \<le> (of_int b :: rat)" "(of_int b :: rat) \<le> of_int 255" using ab by (simp_all only: of_int_le_iff of_int_0_le_iff)
  then have "\<lfloor>?q + 1 / 512\<rfloor> = a" by (intro floor_unique) simp_all
  moreover have "\<lfloor>of_int (2 * b + 1) / 2 :: rat\<rfloor> = b"
    by (intro floor_unique) (simp_all add: field_simps)
  moreover have "word_of_int a = i" "word_of_int b = f" "uint i = a" by (simp_all add: a_def b_def)
  ultimately have "sm_config_set_clkdiv (Finite ?q) c = sm_config_set_clkdiv_int_frac i f c"
    by (simp only: sm_config_set_clkdiv_def Let_def clamp half sum part r1 r2 sm_config_set_clkdiv_int_frac_def)
  then show ?thesis by (simp add: a_def b_def)
qed

text \<open>
  C40: The floating-point divider is off by one above.  From 32768 on a \<open>float\<close> has no digits below a 256th, so the
  half 256th that is added to round to nearest is always a tie, which goes to the even neighbour.  For every divider of
  \<open>n\<close> 256ths in this range that the registers can hold, an even \<open>n\<close> is encoded as it is and an odd \<open>n\<close>, which \<open>float\<close> and
  the hardware both hold exactly, as \<open>n + 1\<close>; above the clamp at 65535.99 it is the clamp, 16777213, that is rounded up.
\<close>

theorem clkdiv_float_tie:
  fixes i :: u16 and f :: u8
  assumes "32768 \<le> i"
  shows "sm_config_set_clkdiv (Finite (of_nat (unat i) + of_nat (unat f) / 256)) c =
    (let n = min (256 * unat i + unat f) 16777213; m = (if even n then n else n + 1)
     in sm_config_set_clkdiv_int_frac (of_nat (m div 256)) (of_nat (m mod 256)) c)"
proof -
  define k where "k = min (256 * unat i + unat f) 16777213"
  define m where "m = (if even k then k else k + 1)"
  have f: "unat f < 256" using unsigned_less [of f, where 'a = nat] by simp
  have i: "32768 \<le> unat i" using assms by (simp add: word_le_nat_alt)
  have k: "8388608 \<le> k" "k \<le> 16777213" using i by (simp_all add: k_def)
  have m: "8388608 \<le> m" "m \<le> 16777214" using k by (auto simp: m_def)
  have q: "of_nat (unat i) + of_nat (unat f) / 256 = (of_nat (256 * unat i + unat f) / 256 :: rat)" by (simp add: field_simps)
  have clamp: "clamp_clkdiv (Finite (of_nat (unat i) + of_nat (unat f) / 256)) = of_nat k / 256"
  proof -
    have "(of_nat 256 :: rat) \<le> of_nat (256 * unat i + unat f)" using i by (simp only: of_nat_le_iff)
    then have "(1 :: rat) \<le> of_nat (256 * unat i + unat f) / 256" by simp
    moreover have "CLKDIV_MAX < of_nat (256 * unat i + unat f) / 256 \<longleftrightarrow> 16777213 < 256 * unat i + unat f"
    proof -
      have e: "CLKDIV_MAX = of_nat 16777213 / 256" by (simp add: CLKDIV_MAX_eq)
      have "(0 :: rat) < 256" by simp
      then show ?thesis unfolding e by (simp only: divide_less_cancel of_nat_less_iff) simp
    qed
    ultimately show ?thesis unfolding q clamp_clkdiv_def c_double.case by (simp add: k_def min_def CLKDIV_MAX_eq)
  qed
  have half: "round32 (1 / 2 / 256) = 1 / 512" by (subst round32_dyadic [of _ 1 9]) simp_all
  have bounds: "(of_nat 8388608 :: rat) \<le> of_nat k" "(of_nat k :: rat) \<le> of_nat 16777213" using k by (simp_all only: of_nat_le_iff)
  have sum: "round32 (of_nat k / 256 + 1 / 512) = of_nat m / 256"
  proof -
    have "unit32 (of_nat k / 256 + 1 / 512) = 1 / 256" by (rule unit32_15) (use bounds in \<open>simp_all add: field_simps\<close>)
    moreover have "(of_nat k / 256 + 1 / 512) / (1 / 256) = (of_int (int k) + 1 / 2 :: rat)" by (simp add: field_simps)
    moreover have "\<lfloor>of_int (int k) + 1 / 2 :: rat\<rfloor> = int k" by (rule floor_unique) simp_all
    then have "half_even (of_int (int k) + 1 / 2) = int m" by (simp add: half_even_def m_def)
    moreover have "of_nat k / 256 + 1 / 512 \<noteq> (0 :: rat)" using bounds by simp
    ultimately show ?thesis by (simp only: round32_def) simp
  qed
  have whole: "\<lfloor>of_nat m / 256 :: rat\<rfloor> = int (m div 256)"
    using floor_divide_of_nat_eq [of m 256, where 'a = rat] by simp
  have w: "uint (word_of_int (int (m div 256)) :: u16) = int (m div 256)"
  proof -
    have "m div 256 < 2 ^ 16" using m by (simp add: div_less_iff_less_mult)
    then have "take_bit 16 (int (m div 256)) = int (m div 256)" by (intro take_bit_int_eq_self) (simp_all add: nat_less_iff)
    then show ?thesis by (simp only: unsigned_of_int) simp
  qed
  have part: "of_nat m / 256 - of_int (int (m div 256)) = (of_int (int (m mod 256)) / 2 ^ 8 :: rat)"
  proof -
    have "(of_nat m :: rat) = of_nat (256 * (m div 256) + m mod 256)" by (simp only: mult_div_mod_eq)
    then have "(of_nat m :: rat) = 256 * of_nat (m div 256) + of_nat (m mod 256)" by (simp only: of_nat_add of_nat_mult of_nat_numeral)
    moreover have "(x :: rat) = 256 * y + z \<Longrightarrow> x / 256 - y = z / 2 ^ 8" for x y z by (simp add: field_simps)
    ultimately show ?thesis by simp
  qed
  have r1: "round32 (of_int (int (m mod 256)) / 2 ^ 8) = of_int (int (m mod 256)) / 2 ^ 8"
    by (rule round32_dyadic [of _ "int (m mod 256)" 8]) simp_all
  have r2: "round32 (of_int (int (m mod 256)) / 2 ^ 8 * 256) = of_int (int (m mod 256))"
    by (subst round32_dyadic [of _ "int (m mod 256)" 0]) simp_all
  have "sm_config_set_clkdiv (Finite (of_nat (unat i) + of_nat (unat f) / 256)) c =
      sm_config_set_clkdiv_int_frac (of_nat (m div 256)) (of_nat (m mod 256)) c"
    unfolding sm_config_set_clkdiv_def sm_config_set_clkdiv_int_frac_def Let_def clamp half sum whole w part r1 r2 by simp
  then show ?thesis by (simp only: Let_def m_def k_def)
qed

theorem clkdiv_float_tie_witness:
  "sm_config_set_clkdiv (Finite (32768 + 1 / 256)) pio_get_default_sm_config =
     sm_config_set_clkdiv_int_frac 32768 2 pio_get_default_sm_config"
  using clkdiv_float_tie [of 32768 1 pio_get_default_sm_config] by simp

end
