(* ===== verification/Pio_Api.thy ===== *)
theory Pio_Api
  imports Pio_Gpio Pio_Chip Pio_Float
begin

text \<open>
  The programming interface as a whole.  A host program (a test, a device hook) reaches the simulator
  only by calling the functions of \<open>lib/include/pio_sim.h\<close> and \<open>lib/include/pio_gpio.h\<close>; the theory
  states which calls there are as step relations, on a configuration (\<open>config_built\<close>), on one block
  (\<open>block_call\<close>), on the store (\<open>api_call\<close>), and with the ticks on top (\<open>host_step\<close>), and shows by rule
  induction that no sequence of calls leaves the well-formed states \<open>block_wf\<close>.
\<close>

section \<open>The calls\<close>

text \<open>The configurations a host can build: the default one, changed by the \<open>sm_config_set_*\<close> functions.\<close>

inductive config_built :: "pio_sm_config \<Rightarrow> bool" where
  default: "config_built pio_get_default_sm_config"
| out_pins: "config_built c \<Longrightarrow> config_built (sm_config_set_out_pins a n c)"
| out_pin_base: "config_built c \<Longrightarrow> config_built (sm_config_set_out_pin_base a c)"
| out_pin_count: "config_built c \<Longrightarrow> config_built (sm_config_set_out_pin_count n c)"
| set_pins: "config_built c \<Longrightarrow> config_built (sm_config_set_set_pins a n c)"
| set_pin_base: "config_built c \<Longrightarrow> config_built (sm_config_set_set_pin_base a c)"
| set_pin_count: "config_built c \<Longrightarrow> config_built (sm_config_set_set_pin_count n c)"
| in_pins: "config_built c \<Longrightarrow> config_built (sm_config_set_in_pins a c)"
| in_pin_base: "config_built c \<Longrightarrow> config_built (sm_config_set_in_pin_base a c)"
| in_pin_count: "config_built c \<Longrightarrow> config_built (sm_config_set_in_pin_count n c)"
| sideset_pins: "config_built c \<Longrightarrow> config_built (sm_config_set_sideset_pins a c)"
| sideset: "config_built c \<Longrightarrow> config_built (sm_config_set_sideset n opt dirs c)"
| wrap: "config_built c \<Longrightarrow> config_built (sm_config_set_wrap target wrap_at c)"
| clkdiv: "config_built c \<Longrightarrow> config_built (sm_config_set_clkdiv d c)"
| clkdiv_int_frac: "config_built c \<Longrightarrow> config_built (sm_config_set_clkdiv_int_frac i f c)"
| out_shift: "config_built c \<Longrightarrow> config_built (sm_config_set_out_shift r autopull n c)"
| in_shift: "config_built c \<Longrightarrow> config_built (sm_config_set_in_shift r autopush n c)"
| fifo_join: "config_built c \<Longrightarrow> config_built (sm_config_set_fifo_join j c)"
| mov_status: "config_built c \<Longrightarrow> config_built (sm_config_set_mov_status sel n c)"
| jmp_pin: "config_built c \<Longrightarrow> config_built (sm_config_set_jmp_pin a c)"
| out_special: "config_built c \<Longrightarrow> config_built (sm_config_set_out_special sticky en a c)"

text \<open>The calls that write one block only; three of them exist in the RP2350 build only.\<close>

inductive block_call :: "pio_version \<Rightarrow> pio_sim_t \<Rightarrow> pio_sim_t \<Rightarrow> bool" for v where
  load: "block_call v p (pio_sim_load offset insns p)"
| restart: "block_call v p (pio_sim_sm_restart sm p)"
| clkdiv_restart: "block_call v p (pio_sim_sm_clkdiv_restart sm p)"
| clkdiv_restart_mask: "block_call v p (pio_sim_clkdiv_restart_sm_mask m p)"
| set_pc: "block_call v p (pio_sim_sm_set_pc sm pc p)"
| set_status: "block_call v p (pio_sim_sm_set_status_value sm val p)"
| clear_status: "block_call v p (pio_sim_sm_clear_status_value sm p)"
| sm_init: "config_built c \<Longrightarrow> block_call v p (pio_sim_sm_init v sm pc c p)"
| set_config: "config_built c \<Longrightarrow> block_call v p (pio_sim_sm_set_config v sm c p)"
| set_device: "block_call v p (pio_sim_set_device hook ctx p)"
| set_trace: "block_call v p (pio_sim_set_trace hook ctx p)"
| neighbors: "PIO_SIM_HAS_IRQ_PREVNEXT v \<Longrightarrow> block_call v p (pio_sim_set_irq_neighbors prev nxt p)"
| gpio_base: "PIO_SIM_HAS_GPIO_BASE v \<Longrightarrow> block_call v p (pio_sim_set_gpio_base base p)"
| put: "block_call v p (fst (pio_sim_sm_put sm word p))"
| get: "block_call v p (fst (pio_sim_sm_get sm p))"
| clear_fifos: "block_call v p (pio_sim_sm_clear_fifos sm p)"
| rxfifo_put: "v = RP2350 \<Longrightarrow> block_call v p (pio_sim_sm_rxfifo_put sm index word p)"
| clear_fdebug: "block_call v p (pio_sim_sm_clear_fdebug sm m8 p)"
| irq_clear: "block_call v p (pio_sim_irq_clear irq p)"
| irq_force: "block_call v p (pio_sim_irq_force irq on p)"
| source_mask: "block_call v p (pio_sim_set_irqn_source_mask_enabled v line m32 on p)"
| source: "block_call v p (pio_sim_set_irqn_source_enabled v line m32 on p)"
| set_intf: "block_call v p (pio_sim_set_intf v line m32 on p)"

text \<open>The calls that follow a pointer out of the block: lifecycle, pins, GPIO and pad registers, groups.\<close>

inductive api_call :: "pio_version \<Rightarrow> pio_store \<Rightarrow> pio_store \<Rightarrow> bool" for v where
  block: "block_call v (st_blk h b) p \<Longrightarrow> api_call v h (upd_blk b (\<lambda>_. p) h)"
| init: "api_call v h (pio_sim_init v b h)"
| set_enabled: "api_call v h (pio_sim_sm_set_enabled b sm on h)"
| mask_enabled: "api_call v h (pio_sim_set_sm_mask_enabled b m8 on h)"
| in_sync: "api_call v h (pio_sim_enable_sm_mask_in_sync b m8 h)"
| pindirs: "api_call v h (pio_sim_sm_set_consecutive_pindirs v b sm base count is_out h)"
| sm_exec: "api_call v h (pio_sim_sm_exec v b sm insn h)"
| settle: "api_call v h (pio_sim_sync_settle v b h)"
| pull_level: "api_call v h (pio_sim_set_pull_level b m level h)"
| bypass: "api_call v h (pio_sim_set_input_sync_bypass b m h)"
| set_pin: "api_call v h (pio_sim_set_pin v b pin level h)"
| release_pin: "api_call v h (pio_sim_release_pin v b pin h)"
| set_function: "api_call v h (pio_sim_gpio_set_function v b pin f h)"
| outover: "api_call v h (pio_sim_gpio_set_outover v b pin ov h)"
| oeover: "api_call v h (pio_sim_gpio_set_oeover v b pin ov h)"
| inover: "api_call v h (pio_sim_gpio_set_inover v b pin ov h)"
| periph: "api_call v h (pio_sim_gpio_set_periph_output v b pin oe level h)"
| input_enable: "api_call v h (pio_sim_pad_set_input_enable v b pin on h)"
| output_disable: "api_call v h (pio_sim_pad_set_output_disable v b pin on h)"
| pulls: "api_call v h (pio_sim_pad_set_pulls v b pin up down h)"
| drive: "api_call v h (pio_sim_pad_set_drive v b pin strength h)"
| slew: "api_call v h (pio_sim_pad_set_slew_fast v b pin on h)"
| schmitt: "api_call v h (pio_sim_pad_set_schmitt v b pin on h)"
| isolate: "PIO_SIM_HAS_PAD_ISO v \<Longrightarrow> api_call v h (pio_sim_pad_set_iso b pin on h)"
| reset_hw: "api_call v h (pio_sim_pads_reset_hw v b h)"
| group_init: "api_call v h (snd (pio_sim_group_init v blocks n g h))"
| group_init_shared: "api_call v h (snd (pio_sim_group_init_shared v blocks n g h))"
| group_in_sync: "api_call v h (pio_sim_group_enable_sm_mask_in_sync g masks h)"

text \<open>
  What the host does: calls, and clock ticks of a block or a group.  The run functions are repeated
  ticks.  A device hook is host code too: it may make any calls but does not tick.
\<close>

inductive host_step :: "pio_version \<Rightarrow> device \<Rightarrow> pio_store \<Rightarrow> pio_store \<Rightarrow> bool" for v dev where
  call: "api_call v h h' \<Longrightarrow> host_step v dev h h'"
| tick: "host_step v dev h (pio_sim_tick v dev b h)"
| group_tick: "host_step v dev h (pio_sim_group_tick v dev g h)"

definition hooks_call_api :: "pio_version \<Rightarrow> device \<Rightarrow> bool" where
  "hooks_call_api v dev \<longleftrightarrow> (\<forall>f b ctx h. (api_call v)\<^sup>*\<^sup>* h (dev f b ctx h))"

section \<open>Well-formed blocks\<close>

text \<open>
  The registers of a block are in the ranges the code relies on when it indexes and shifts by them,
  and so is the number of owners of the pads it is wired to, which bounds the loops of the resolution.
\<close>

definition regs_wf :: "pio_version \<Rightarrow> pio_sim_t \<Rightarrow> bool" where
  "regs_wf v p \<longleftrightarrow> (\<forall>j<4. sm_wf (pio_sm p j)) \<and> gpio_base_wf p \<and> ints_wf v p"

definition owners_wf :: "pio_version \<Rightarrow> pio_pads_t \<Rightarrow> bool" where
  "owners_wf v p \<longleftrightarrow> unat (p_owner_count p) \<le> PIO_SIM_NUM_PIO v"

definition block_wf :: "pio_version \<Rightarrow> nat \<Rightarrow> pio_store \<Rightarrow> bool" where
  "block_wf v b h \<longleftrightarrow> regs_wf v (st_blk h b) \<and> owners_wf v (pads_of h b)"

lemma config_built_wf: "config_built c \<Longrightarrow> config_wf c"
  by (induction rule: config_built.induct)
    (simp_all add: config_wf_default config_wf_mutators config_wf_clkdiv)

subsection \<open>Calls on one block\<close>

text \<open>A call that writes one state machine, and one that writes no register of the invariant.\<close>

lemma regs_wf_sm: "regs_wf v p \<Longrightarrow> (\<And>s. sm_wf s \<Longrightarrow> sm_wf (f s)) \<Longrightarrow> regs_wf v (blk_upd_sm i f p)"
  by (simp add: regs_wf_def gpio_base_wf_def ints_wf_def) (simp add: blk_upd_sm_def)

lemma regs_wf_same:
  assumes "regs_wf v p" "pio_sm p' = pio_sm p" "pio_gpio_base p' = pio_gpio_base p"
    "pio_irq_inte p' = pio_irq_inte p" "pio_irq_intf p' = pio_irq_intf p"
  shows "regs_wf v p'"
  using assms by (simp add: regs_wf_def gpio_base_wf_def ints_wf_def)

lemma load_regs:
  "pio_sm (pio_sim_load_from a ws p) = pio_sm p" "pio_gpio_base (pio_sim_load_from a ws p) = pio_gpio_base p"
  "pio_irq_inte (pio_sim_load_from a ws p) = pio_irq_inte p"
  "pio_irq_intf (pio_sim_load_from a ws p) = pio_irq_intf p"
  "pio_pads (pio_sim_load_from a ws p) = pio_pads p"
  "pio_pads_embedded (pio_sim_load_from a ws p) = pio_pads_embedded p"
  by (induction a ws p rule: pio_sim_load_from.induct) simp_all

lemma sm_wf_host [wf_intros]:
  assumes "sm_wf s"
  shows "sm_wf (s\<lparr>sm_status_value := val, sm_status_override := on\<rparr>)" "sm_wf (s\<lparr>sm_status_override := on\<rparr>)"
    "sm_wf (s\<lparr>sm_enabled := on\<rparr>)" "sm_wf (s\<lparr>sm_pc := pc mod 32\<rparr>)"
    "sm_wf (s\<lparr>sm_tx := fifo_clear (sm_tx s), sm_rx := fifo_clear (sm_rx s)\<rparr>)"
  using assms by (simp_all add: sm_wf_def fifo_clear_wf u8_mod_less)

lemma regs_wf_restart_mask: "regs_wf v p \<Longrightarrow> regs_wf v (pio_sim_clkdiv_restart_sm_mask m p)"
proof -
  have "regs_wf v p \<Longrightarrow>
    regs_wf v (fold (\<lambda>i p. if bit m i then blk_upd_sm i (\<lambda>s. s\<lparr>sm_clk_accum := 0\<rparr>) p else p) is p)" for "is"
    by (induction "is" arbitrary: p) (simp_all add: regs_wf_sm wf.accum)
  then show "regs_wf v p \<Longrightarrow> regs_wf v (pio_sim_clkdiv_restart_sm_mask m p)"
    by (simp add: pio_sim_clkdiv_restart_sm_mask_def)
qed

lemma regs_wf_ints:
  assumes "regs_wf v p"
  shows "regs_wf v (pio_sim_set_irqn_source_mask_enabled v line m on p)" "regs_wf v (pio_sim_set_intf v line m on p)"
  using assms ints_wf_set [of v p line m on]
  by (auto simp: regs_wf_def gpio_base_wf_def pio_sim_set_irqn_source_mask_enabled_def pio_sim_set_intf_def Let_def)

lemma block_call_wf: "block_call v p p' \<Longrightarrow> regs_wf v p \<Longrightarrow> regs_wf v p'"
proof (induction rule: block_call.induct)
  case (gpio_base p base)
  then show ?case using gpio_base_wf_set [of base p]
    by (simp add: regs_wf_def ints_wf_def) (simp add: pio_sim_set_gpio_base_def)
qed (simp_all add: regs_wf_sm wf_intros wf_updates config_built_wf regs_wf_restart_mask regs_wf_ints
    pio_sim_sm_restart_def pio_sim_sm_clkdiv_restart_def pio_sim_sm_set_pc_def
    pio_sim_sm_set_status_value_def pio_sim_sm_clear_status_value_def pio_sim_sm_init_def
    pio_sim_sm_set_config_def pio_sim_sm_put_def pio_sim_sm_get_def pio_sim_sm_clear_fifos_def
    pio_sim_sm_rxfifo_put_def pio_sim_sm_clear_fdebug_def pio_sim_set_irqn_source_enabled_def
    regs_wf_same [where p = p for p] pio_sim_load_def load_regs pio_sim_set_device_def pio_sim_set_trace_def
    pio_sim_set_irq_neighbors_def pio_sim_irq_clear_def pio_sim_irq_force_def)


lemma block_call_frame:
  "block_call v p p' \<Longrightarrow> pio_pads p' = pio_pads p \<and> pio_pads_embedded p' = pio_pads_embedded p"
proof (induction rule: block_call.induct)
  case (clkdiv_restart_mask p m)
  have "pio_pads (fold (\<lambda>i p. if bit m i then blk_upd_sm i (\<lambda>s. s\<lparr>sm_clk_accum := 0\<rparr>) p else p) is p) = pio_pads p \<and>
    pio_pads_embedded (fold (\<lambda>i p. if bit m i then blk_upd_sm i (\<lambda>s. s\<lparr>sm_clk_accum := 0\<rparr>) p else p) is p) =
      pio_pads_embedded p" for "is"
    by (induction "is" arbitrary: p) (simp_all add: blk_upd_sm_def)
  then show ?case by (simp add: pio_sim_clkdiv_restart_sm_mask_def)
qed (simp_all add: blk_upd_sm_def Let_def pio_sim_sm_restart_def pio_sim_sm_clkdiv_restart_def pio_sim_sm_set_pc_def
    pio_sim_sm_set_status_value_def pio_sim_sm_clear_status_value_def pio_sim_sm_init_def
    pio_sim_sm_set_config_def pio_sim_sm_put_def pio_sim_sm_get_def pio_sim_sm_clear_fifos_def
    pio_sim_sm_rxfifo_put_def pio_sim_sm_clear_fdebug_def pio_sim_set_irqn_source_enabled_def
    pio_sim_load_def load_regs pio_sim_set_device_def pio_sim_set_trace_def pio_sim_set_gpio_base_def
    pio_sim_set_irq_neighbors_def pio_sim_irq_clear_def pio_sim_irq_force_def
    pio_sim_set_irqn_source_mask_enabled_def pio_sim_set_intf_def)

subsection \<open>Calls on the store\<close>

lemma block_wf_upd_blk:
  assumes "block_wf v b h" "regs_wf v (st_blk h b') \<Longrightarrow> regs_wf v (f (st_blk h b'))"
    and "pio_pads (f (st_blk h b')) = pads_ptr_of h b'"
    and "pio_pads_embedded (f (st_blk h b')) = pio_pads_embedded (st_blk h b')"
  shows "block_wf v b (upd_blk b' f h)"
proof -
  have "get_pads (upd_blk b' f h) q = get_pads h q" for q
    using assms(4) by (simp add: get_pads_def upd_blk_def split: pads_ptr.split)
  then show ?thesis using assms by (cases "b = b'") (simp_all add: block_wf_def, simp_all add: upd_blk_def)
qed

lemma block_wf_upd_sm:
  "block_wf v b h \<Longrightarrow> (\<And>s. sm_wf s \<Longrightarrow> sm_wf (f s)) \<Longrightarrow> block_wf v b (upd_sm b' i f h)"
  unfolding upd_sm_def by (rule block_wf_upd_blk) (simp_all add: regs_wf_sm, simp_all add: blk_upd_sm_def)

lemma block_wf_upd_pads:
  assumes "block_wf v b h" "\<And>p. p_owner_count (f p) = p_owner_count p"
  shows "block_wf v b (upd_pads q f h)"
proof -
  have "regs_wf v (st_blk (upd_pads q f h) b)"
    using assms(1) by (auto simp: block_wf_def intro: regs_wf_same)
  then show ?thesis using assms by (auto simp: block_wf_def owners_wf_def)
qed

lemma block_wf_resolve: "block_wf v b h \<Longrightarrow> block_wf v b (pio_pads_resolve q h)"
  by (subst resolve_eq) (rule block_wf_upd_pads, simp_all)

text \<open>An instruction or a cycle of a state machine keeps the invariant, as its footprint is small.\<close>

lemma block_wf_cycle:
  assumes "block_wf v b h" "cycle_frame b' i h h'" "sm_wf (the_sm h b' i) \<Longrightarrow> sm_wf (the_sm h' b' i)"
  shows "block_wf v b h'"
proof -
  have "sm_wf (pio_sm (st_blk h' b) j)" if "j < 4" for j
    using assms that by (cases "(b, j) = (b', i)") (auto simp: block_wf_def regs_wf_def cycle_frame_def the_sm_def)
  moreover have "p_owner_count (get_pads h' q) = p_owner_count (get_pads h q)" for q
  proof (cases "q = pads_ptr_of h b'")
    case True
    then have "pads_frame (get_pads h' q) = pads_frame (get_pads h q)"
      using assms(2) cycle_frame_fields(3) [OF assms(2), of b'] by (simp add: cycle_frame_def)
    then show ?thesis by (cases "get_pads h' q"; cases "get_pads h q") (simp add: pads_frame_def)
  qed (use assms(2) in \<open>simp add: cycle_frame_def\<close>)
  ultimately show ?thesis
    using assms(1) cycle_frame_fields(3,4,10,11) [OF assms(2), of b]
    by (simp add: block_wf_def regs_wf_def owners_wf_def gpio_base_wf_def ints_wf_def)
qed

lemma cycle_frame_sm_exec: "cycle_frame b (SM_IDX sm) h (pio_sim_sm_exec v b sm insn h)"
  unfolding pio_sim_sm_exec_def Let_def split_beta
  by (auto intro!: cycle_frame_trans [OF _ cycle_frame_upd_sm] cycle_frame_trans [OF _ cycle_frame_on_insn]
      cycle_frame_trans [OF _ cycle_frame_exec [OF exec_frame_one]] split: option.split)

lemma block_wf_fold:
  "(\<And>x h. block_wf v b h \<Longrightarrow> block_wf v b (f x h)) \<Longrightarrow> block_wf v b h \<Longrightarrow> block_wf v b (fold f xs h)"
  by (induction xs arbitrary: h) simp_all

lemma regs_wf_init: "regs_wf v (st_blk (pio_sim_init v b h) b)"
  by (simp add: regs_wf_def gpio_base_wf_def ints_wf_def pio_sim_init_def upd_blk_def blk_zero_def
      sm_wf_init_defaults)

lemma num_pio_pos: "1 \<le> PIO_SIM_NUM_PIO v" "PIO_SIM_NUM_PIO v < 256"
  by (cases v; simp add: PIO_SIM_NUM_PIO_def)+

lemma block_wf_init: "block_wf v b (pio_sim_init v b h)"
  using num_pio_pos(1) [of v] regs_wf_init [of v b h]
  by (simp add: block_wf_def owners_wf_def init_pads pio_pads_init_defaults_def)

lemma block_wf_init_any:
  assumes "block_wf v b h" shows "block_wf v b (pio_sim_init v b' h)"
proof (cases "b = b'")
  case False
  then have "st_blk (pio_sim_init v b' h) b = st_blk h b" by (simp add: pio_sim_init_def upd_blk_def)
  moreover have "owners_wf v (get_pads (pio_sim_init v b' h) q)" if "owners_wf v (get_pads h q)" for q
    using that num_pio_pos(1) [of v]
    by (auto simp: get_pads_def owners_wf_def pio_sim_init_def upd_blk_def pio_pads_init_defaults_def
        split: pads_ptr.splits)
  ultimately show ?thesis using assms by (simp add: block_wf_def)
qed (simp add: block_wf_init)


subsection \<open>Groups\<close>

lemma block_wf_link: "block_wf v b h \<Longrightarrow> block_wf v b (link_neighbors g i h)"
  unfolding link_neighbors_def Let_def
  by (rule block_wf_upd_blk) (auto simp: pio_sim_set_irq_neighbors_def intro: regs_wf_same)

lemma block_wf_group_init: "block_wf v b h \<Longrightarrow> block_wf v b (snd (pio_sim_group_init v blocks n g h))"
  by (auto simp: pio_sim_group_init_def Let_def intro: block_wf_fold block_wf_link)

lemma group_init_count: "unat (g_count (fst (pio_sim_group_init v blocks n g h))) \<le> PIO_SIM_NUM_PIO v"
  using num_pio_pos(2) [of v] by (simp add: pio_sim_group_init_def Let_def unsigned_of_nat take_bit_nat_eq_self)

lemma join_regs: "regs_wf v (st_blk (fold (join_shared g) is h) b) = regs_wf v (st_blk h b)"
  by (induction "is" arbitrary: h)
    (simp_all add: join_shared_def regs_wf_def gpio_base_wf_def ints_wf_def upd_blk_def)

lemma join_other_pads:
  "q \<noteq> Shared (g_pads g) \<Longrightarrow> get_pads (fold (join_shared g) is h) q = get_pads h q"
  by (induction "is" arbitrary: h) (simp_all add: join_shared_def, simp add: get_pads_def upd_blk_def split: pads_ptr.split)

lemma block_wf_group_shared:
  assumes "block_wf v b h"
  shows "block_wf v b (snd (pio_sim_group_init_shared v blocks n g h))"
proof -
  define g' h1 where "g' = (fst (pio_sim_group_init v blocks n g h))\<lparr>g_shared := True\<rparr>"
    and "h1 = snd (pio_sim_group_init v blocks n g h)"
  let ?q = "Shared (g_pads g')"
  define h2 where "h2 = upd_pads ?q (\<lambda>_. pio_pads_init_defaults v pads_zero) h1"
  define h3 where "h3 = fold (join_shared g') [0..<unat (g_count g')] h2"
  have eq: "snd (pio_sim_group_init_shared v blocks n g h) = upd_pads ?q (\<lambda>p. p\<lparr>p_owner_count := g_count g'\<rparr>) h3"
    by (simp add: pio_sim_group_init_shared_def Let_def split_beta g'_def h1_def h2_def h3_def)
  have wf: "block_wf v b h1" using assms by (simp add: h1_def block_wf_group_init)
  have "regs_wf v (st_blk h3 b)"
    unfolding h3_def join_regs h2_def using wf by (auto simp: block_wf_def intro: regs_wf_same)
  moreover have "pads_ptr_of h3 b = ?q \<or> pads_ptr_of h3 b = pads_ptr_of h1 b"
    by (simp add: h3_def h2_def fold_join_ptr)
  moreover have "get_pads h3 q = get_pads h1 q" if "q \<noteq> ?q" for q
    using that by (simp add: h3_def h2_def join_other_pads)
  moreover have "unat (g_count g') \<le> PIO_SIM_NUM_PIO v" using group_init_count by (simp add: g'_def)
  ultimately show ?thesis
    using wf unfolding eq by (auto simp: block_wf_def owners_wf_def intro: regs_wf_same)
qed

subsection \<open>Every call\<close>

lemma block_wf_mask_enabled: "block_wf v b h \<Longrightarrow> block_wf v b (pio_sim_set_sm_mask_enabled b' m on h)"
  unfolding pio_sim_set_sm_mask_enabled_def Let_def
  by (intro block_wf_resolve block_wf_fold) (simp_all add: block_wf_upd_sm sm_wf_host)

lemma block_wf_in_sync: "block_wf v b h \<Longrightarrow> block_wf v b (pio_sim_enable_sm_mask_in_sync b' m h)"
  unfolding pio_sim_enable_sm_mask_in_sync_def
  using block_call_frame [OF block_call.clkdiv_restart_mask]
  by (intro block_wf_upd_blk block_wf_mask_enabled) (simp_all add: regs_wf_restart_mask)

lemma sm_wf_pindirs: "sm_wf s \<Longrightarrow> sm_wf (fold (\<lambda>i. set_pindir_bit (m i) on) is s)"
  by (induction "is" arbitrary: s) (simp_all add: set_pindir_bit_def wf_updates)

lemma owner_count_route [simp]: "p_owner_count (route_pins v p) = p_owner_count p"
proof -
  have "p_owner_count (fold (route_pin v) is p) = p_owner_count p" for "is" p
    by (induction "is" arbitrary: p) (simp_all add: route_pin_def Let_def)
  then show ?thesis by (simp add: route_pins_def)
qed

lemma owner_count_clock [simp]: "p_owner_count (pads_clock v p) = p_owner_count p"
  by (simp add: pads_clock_def pads_update_keeper_def Let_def split_beta)

lemma api_call_wf: "api_call v h h' \<Longrightarrow> block_wf v b h \<Longrightarrow> block_wf v b h'"
proof (induction rule: api_call.induct)
  case (block h b' p)
  then show ?case using block_call_frame [OF block(1)] by (intro block_wf_upd_blk) (auto dest: block_call_wf)
next
  case (sm_exec h b' sm insn)
  then show ?case by (rule block_wf_cycle [OF _ cycle_frame_sm_exec]) (simp add: wf.sm_exec)
next
  case (group_in_sync h g masks)
  then show ?case by (simp add: pio_sim_group_enable_sm_mask_in_sync_def block_wf_fold block_wf_in_sync)
qed (simp_all add: block_wf_init_any block_wf_group_init block_wf_group_shared block_wf_mask_enabled
    block_wf_in_sync block_wf_resolve block_wf_upd_sm block_wf_upd_pads sm_wf_host sm_wf_pindirs Let_def split_beta
    pio_sim_sm_set_enabled_def pio_sim_sm_set_consecutive_pindirs_def pio_sim_sync_settle_def
    pio_sim_set_pull_level_def pio_sim_set_input_sync_bypass_def pio_sim_set_pin_def pio_sim_release_pin_def
    pio_sim_gpio_set_function_def pio_pads_apply_funcsel_def pio_sim_gpio_set_outover_def
    pio_sim_gpio_set_oeover_def pio_sim_gpio_set_inover_def pio_sim_gpio_set_periph_output_def
    pio_sim_pad_set_input_enable_def pio_sim_pad_set_output_disable_def pio_sim_pad_set_pulls_def
    pio_sim_pad_set_drive_def pio_sim_pad_set_slew_fast_def pio_sim_pad_set_schmitt_def upd_pad_cfg_def
    pio_sim_pad_set_iso_def pio_sim_pads_reset_hw_def)

lemma api_calls_wf: "(api_call v)\<^sup>*\<^sup>* h h' \<Longrightarrow> block_wf v b h \<Longrightarrow> block_wf v b h'"
  by (induction rule: rtranclp_induct) (auto dest: api_call_wf)

section \<open>Ticks\<close>

lemma block_wf_window: "block_wf v b h \<Longrightarrow> block_wf v b (open_write_window b' h)"
  unfolding open_write_window_def by (rule block_wf_fold) (simp_all add: block_wf_upd_sm wf.wrote)

lemma block_wf_tick_sm: "block_wf v b h \<Longrightarrow> block_wf v b (tick_sm v b' i h)"
  by (rule block_wf_cycle [OF _ cycle_frame_tick_sm]) (simp_all add: wf.tick_sm_self)

lemma block_wf_hook: "block_wf v b h \<Longrightarrow> hooks_call_api v dev \<Longrightarrow> block_wf v b (call_on_tick dev b' h)"
  unfolding call_on_tick_def hooks_call_api_def
  by (cases "pio_on_tick (st_blk h b')") (auto intro: api_calls_wf [of v h])

lemma block_wf_tick:
  assumes "hooks_call_api v dev" "block_wf v b h"
  shows "block_wf v b (pio_sim_tick v dev b' h)"
proof -
  let ?h = "fold (tick_sm v b') [0..<4] (open_write_window b' h)"
  let ?h1 = "call_on_tick dev b' (pio_pads_resolve (pads_ptr_of ?h b') ?h)"
  have "block_wf v b (pio_pads_resolve (pads_ptr_of ?h b') ?h)"
    by (intro block_wf_resolve block_wf_fold block_wf_tick_sm block_wf_window assms)
  then have "block_wf v b ?h1" using assms(1) by (rule block_wf_hook)
  then have "block_wf v b (if pads_ptr_of ?h1 b' = Embedded b' then upd_pads (Embedded b') (pads_clock v) ?h1 else ?h1)"
    by (simp add: block_wf_upd_pads)
  then show ?thesis
    unfolding pio_sim_tick_def Let_def by (rule block_wf_upd_blk) (auto intro: regs_wf_same)
qed

lemma block_wf_group_tick:
  assumes "hooks_call_api v dev" "block_wf v b h"
  shows "block_wf v b (pio_sim_group_tick v dev g h)"
  using assms
  by (simp add: pio_sim_group_tick_def Let_def block_wf_fold block_wf_window block_wf_tick block_wf_upd_pads)

section \<open>Runs\<close>

text \<open>The run functions are made of ticks and calls.\<close>

lemma steps_funpow: "(\<And>h. r h (f h)) \<Longrightarrow> r\<^sup>*\<^sup>* h ((f ^^ n) h)"
  by (induction n) (auto intro: rtranclp.rtrancl_into_rtrancl)

lemma steps_run_while: "(\<And>h. r h (f h)) \<Longrightarrow> r\<^sup>*\<^sup>* h (fst (run_while go f n h))"
  by (simp add: run_while_eq Let_def steps_funpow)

lemma runs_are_steps:
  "(host_step v dev)\<^sup>*\<^sup>* h (pio_sim_run v dev b n h)" "(host_step v dev)\<^sup>*\<^sup>* h (pio_sim_group_run v dev g n h)"
  "(host_step v dev)\<^sup>*\<^sup>* h (fst (pio_sim_run_until_rx v dev b sm n h))"
  "(host_step v dev)\<^sup>*\<^sup>* h (fst (pio_sim_run_until_tx_empty v dev b sm n h))"
  "(host_step v dev)\<^sup>*\<^sup>* h (fst (pio_sim_run_until_tx_drained v dev b sm n h))"
proof -
  note tick = host_step.tick [of v dev _ b]
  show "(host_step v dev)\<^sup>*\<^sup>* h (pio_sim_run v dev b n h)" "(host_step v dev)\<^sup>*\<^sup>* h (pio_sim_group_run v dev g n h)"
    "(host_step v dev)\<^sup>*\<^sup>* h (fst (pio_sim_run_until_rx v dev b sm n h))"
    "(host_step v dev)\<^sup>*\<^sup>* h (fst (pio_sim_run_until_tx_empty v dev b sm n h))"
    by (simp_all add: pio_sim_run_def pio_sim_group_run_def pio_sim_run_until_rx_def pio_sim_run_until_tx_empty_def
        split_beta steps_funpow steps_run_while tick host_step.group_tick)
  have "host_step v dev h (upd_blk b (\<lambda>_. pio_sim_sm_clear_fdebug sm PIO_FDEBUG_TXSTALL (st_blk h b)) h)"
    by (intro host_step.call api_call.block block_call.clear_fdebug)
  then have "host_step v dev h (upd_blk b (pio_sim_sm_clear_fdebug sm PIO_FDEBUG_TXSTALL) h)"
    by (simp add: upd_blk_def)
  then show "(host_step v dev)\<^sup>*\<^sup>* h (fst (pio_sim_run_until_tx_drained v dev b sm n h))"
    by (rule converse_rtranclp_into_rtranclp)
      (simp add: pio_sim_run_until_tx_drained_def Let_def split_beta steps_run_while tick)
qed

text \<open>
  C2: No sequence of API calls and clock ticks leaves the well-formed states.  From the initialisation
  of a block on, whatever programs are loaded, whatever configurations are built and applied, whatever
  registers the host or a device hook writes (on this or any other block), and however the clock is
  run, all state machines of the block have program counter, wrap addresses, shift counters,
  thresholds, pin counts, delay and FIFO indices in range, the pin window is at 0 or 16, the interrupt
  registers hold no bit without a source, and the pads it is wired to have no more owners than there
  are blocks.
\<close>

theorem api_keeps_block_wf:
  assumes "hooks_call_api v dev" "(host_step v dev)\<^sup>*\<^sup>* (pio_sim_init v b h) h'"
  shows "block_wf v b h'"
  using assms(2)
proof (induction rule: rtranclp_induct)
  case base
  show ?case by (rule block_wf_init)
next
  case (step h1 h2)
  from step.hyps(2) step.IH assms(1) show ?case
    by (cases rule: host_step.cases) (auto intro: api_call_wf block_wf_tick block_wf_group_tick)
qed

theorem api_keeps_block_wf_witness:
  "let feed = (\<lambda>f b ctx h. upd_blk b (\<lambda>_. fst (pio_sim_sm_put 1 0xFF (st_blk h b))) h);
       h0 = pio_sim_init RP2350 2 store_zero;
       c = sm_config_set_wrap 3 200 (sm_config_set_fifo_join PIO_FIFO_JOIN_TX pio_get_default_sm_config);
       h1 = upd_blk 2 (\<lambda>_. pio_sim_sm_init RP2350 1 40 c (st_blk h0 2)) h0;
       h2 = upd_blk 2 (\<lambda>_. pio_sim_set_device (Some 7) 0 (st_blk h1 2)) h1;
       h3 = pio_sim_sm_set_enabled 2 1 True h2
   in block_wf RP2350 2 (pio_sim_run RP2350 feed 2 100 h3)"
proof -
  define feed :: device where "feed = (\<lambda>f b ctx h. upd_blk b (\<lambda>_. fst (pio_sim_sm_put 1 0xFF (st_blk h b))) h)"
  define c h0 where "c = sm_config_set_wrap 3 200 (sm_config_set_fifo_join PIO_FIFO_JOIN_TX pio_get_default_sm_config)"
    and "h0 = pio_sim_init RP2350 2 store_zero"
  define h1 where "h1 = upd_blk 2 (\<lambda>_. pio_sim_sm_init RP2350 1 40 c (st_blk h0 2)) h0"
  define h2 where "h2 = upd_blk 2 (\<lambda>_. pio_sim_set_device (Some 7) 0 (st_blk h1 2)) h1"
  have hooks: "hooks_call_api RP2350 feed"
    unfolding hooks_call_api_def feed_def by (blast intro: api_call.block block_call.put)
  have "config_built c" unfolding c_def by (intro config_built.intros)
  then have s1: "host_step RP2350 feed h0 h1"
    unfolding h1_def by (intro host_step.call api_call.block block_call.sm_init)
  have s2: "host_step RP2350 feed h1 h2"
    unfolding h2_def by (intro host_step.call api_call.block block_call.set_device)
  have s3: "host_step RP2350 feed h2 (pio_sim_sm_set_enabled 2 1 True h2)"
    by (intro host_step.call api_call.set_enabled)
  have "(host_step RP2350 feed)\<^sup>*\<^sup>* h0 (pio_sim_run RP2350 feed 2 100 (pio_sim_sm_set_enabled 2 1 True h2))"
    using s1 s2 s3 runs_are_steps(1) by (meson converse_rtranclp_into_rtranclp)
  from api_keeps_block_wf [OF hooks this [unfolded h0_def]]
  show ?thesis by (simp only: Let_def feed_def c_def h2_def h1_def h0_def)
qed

end
