(* ===== verification/Asm_Lex.thy ===== *)
theory Asm_Lex
  imports Pio_Prelude "HOL-Library.Char_ord"
begin

text \<open>
  The string helpers of the assembler (\<open>lib/src/pio_asm.c\<close>): case-insensitive comparison, integer
  literals, tokens, and the cleaning of a source line.  A C string is the list of its characters
  before the terminating NUL; a \<open>char\<close> is only ever compared with ASCII characters, so that its
  signedness does not matter.
\<close>

section \<open>Strings\<close>

text \<open>The character \<open>*p\<close> at the start of a string, NUL at its end.\<close>

definition chr_at :: "string \<Rightarrow> char" where
  "chr_at s = (case s of [] \<Rightarrow> CHR 0x00 | c # _ \<Rightarrow> c)"

definition lower_ascii :: "char \<Rightarrow> char" where
  "lower_ascii c = (if CHR ''A'' \<le> c \<and> c \<le> CHR ''Z'' then char_of (of_char c + 32 :: nat) else c)"

fun ieq :: "string \<Rightarrow> string \<Rightarrow> bool" where
  "ieq (a # as) (b # bs) \<longleftrightarrow> lower_ascii a = lower_ascii b \<and> ieq as bs"
| "ieq [] [] \<longleftrightarrow> True"
| "ieq _ _ \<longleftrightarrow> False"

lemma ieq_lower: "ieq s t \<longleftrightarrow> map lower_ascii s = map lower_ascii t"
  by (induction s t rule: ieq.induct) auto

section \<open>Integer literals\<close>

text \<open>The digit a character stands for, in the bases the literals are written in.\<close>

definition digit_value :: "u32 \<Rightarrow> char \<Rightarrow> u32 option" where
  "digit_value base c =
     (if base = 2 \<and> (c = CHR ''0'' \<or> c = CHR ''1'') then Some (of_nat (of_char c - 48))
      else if base \<noteq> 2 \<and> CHR ''0'' \<le> c \<and> c \<le> CHR ''9'' then Some (of_nat (of_char c - 48))
      else if base = 16 \<and> CHR ''a'' \<le> c \<and> c \<le> CHR ''f'' then Some (of_nat (of_char c - 97) + 10)
      else if base = 16 \<and> CHR ''A'' \<le> c \<and> c \<le> CHR ''F'' then Some (of_nat (of_char c - 65) + 10)
      else None)"

fun parse_digits :: "u32 \<Rightarrow> u32 \<Rightarrow> string \<Rightarrow> u32 option" where
  "parse_digits base v [] = Some v"
| "parse_digits base v (c # s) =
     (case digit_value base c of
        None \<Rightarrow> None
      | Some digit \<Rightarrow>
          if (0xFFFFFFFF - digit) div base < v then None
          else parse_digits base (v * base + digit) s)"

definition parse_uint :: "string \<Rightarrow> u32 option" where
  "parse_uint s =
     (if s = [] then None
      else if take 2 s = ''0x'' \<or> take 2 s = ''0X''
      then (if drop 2 s = [] then None else parse_digits 16 0 (drop 2 s))
      else if take 2 s = ''0b'' \<or> take 2 s = ''0B''
      then (if drop 2 s = [] then None else parse_digits 2 0 (drop 2 s))
      else parse_digits 10 0 s)"

section \<open>Tokens\<close>

definition token_sep :: "char \<Rightarrow> bool" where
  "token_sep c \<longleftrightarrow> c = CHR '' '' \<or> c = CHR 0x09 \<or> c = CHR '',''"

text \<open>The loop of \<open>tokenize\<close> after \<open>n\<close> tokens: the tokens that follow, and whether some were left out.\<close>

function tokenize_from :: "nat \<Rightarrow> nat \<Rightarrow> string \<Rightarrow> string list \<times> bool" where
  "tokenize_from limit n line =
     (let p = dropWhile token_sep line
      in if p = [] then ([], False)
         else if limit \<le> n then ([], True)
         else let (ts, truncated) = tokenize_from limit (n + 1) (tl (dropWhile (\<lambda>c. \<not> token_sep c) p))
           in (takeWhile (\<lambda>c. \<not> token_sep c) p # ts, truncated))"
  by auto
termination
proof (relation "measure (\<lambda>(limit, n, line). length line)")
  fix limit n line p
  assume p: "p = dropWhile token_sep line" "p \<noteq> []"
  have "length (dropWhile (\<lambda>c. \<not> token_sep c) p) \<le> length p" by (rule length_dropWhile_le)
  moreover have "length p \<le> length line" unfolding p(1) by (rule length_dropWhile_le)
  moreover have "0 < length p" using p(2) by simp
  ultimately have "length (tl (dropWhile (\<lambda>c. \<not> token_sep c) p)) < length line"
    unfolding length_tl by linarith
  then show "((limit, n + 1, tl (dropWhile (\<lambda>c. \<not> token_sep c) p)), limit, n, line)
      \<in> measure (\<lambda>(limit, n, line). length line)" by simp
qed simp

definition tokenize :: "nat \<Rightarrow> string \<Rightarrow> string list \<times> bool" where
  "tokenize limit line = tokenize_from limit 0 line"

declare tokenize_from.simps [simp del]

text \<open>The copy loop of \<open>join_tokens\<close>, with \<open>buf\<close> written so far.\<close>

fun join_from :: "nat \<Rightarrow> string \<Rightarrow> string list \<Rightarrow> string option" where
  "join_from bufsz buf [] = Some buf"
| "join_from bufsz buf (t # ts) =
     (if bufsz \<le> length buf + length t + 2 then None
      else join_from bufsz ((if buf \<noteq> [] then buf @ '' '' else buf) @ t) ts)"

definition join_tokens :: "string list \<Rightarrow> nat \<Rightarrow> string option" where
  "join_tokens tok bufsz =
     (case join_from bufsz [] tok of None \<Rightarrow> None | Some buf \<Rightarrow> if buf = [] then None else Some buf)"

section \<open>Source lines\<close>

fun strip_block_comments :: "string \<Rightarrow> bool \<Rightarrow> string \<times> bool" where
  "strip_block_comments [] in_block = ([], in_block)"
| "strip_block_comments (c # p) in_block =
     (if in_block
      then if c = CHR ''*'' \<and> chr_at p = CHR ''/''
           then let (q, b) = strip_block_comments (tl p) False in (CHR '' '' # CHR '' '' # q, b)
           else let (q, b) = strip_block_comments p True in (CHR '' '' # q, b)
      else if c = CHR ''/'' \<and> chr_at p = CHR ''*''
      then let (q, b) = strip_block_comments (tl p) True in (CHR '' '' # CHR '' '' # q, b)
      else if c = CHR '';'' \<or> (c = CHR ''/'' \<and> chr_at p = CHR ''/'') then (c # p, False)
      else let (q, b) = strip_block_comments p False in (c # q, b))"

text \<open>Cutting at the earliest of a \<open>;\<close> and a \<open>//\<close> comment.\<close>

fun cut_comment :: "string \<Rightarrow> string" where
  "cut_comment [] = []"
| "cut_comment (c # p) =
     (if c = CHR '';'' \<or> (c = CHR ''/'' \<and> chr_at p = CHR ''/'') then [] else c # cut_comment p)"

definition line_space :: "char \<Rightarrow> bool" where
  "line_space c \<longleftrightarrow> c = CHR '' '' \<or> c = CHR 0x09 \<or> c = CHR 0x0D \<or> c = CHR 0x0A"

definition clean_line :: "string \<Rightarrow> string" where
  "clean_line line = rev (dropWhile line_space (rev (dropWhile line_space (cut_comment line))))"

section \<open>What a literal means\<close>

text \<open>
  The digit a character stands for, by its place in the alphabet of digits, in either case; the value of a string of
  digits over the natural numbers, with no bound.
\<close>

definition digit_of :: "nat \<Rightarrow> char \<Rightarrow> nat option" where
  "digit_of base c = List.find (\<lambda>d. c = ''0123456789abcdef'' ! d \<or> c = ''0123456789ABCDEF'' ! d) [0..<base]"

fun digits_value :: "nat \<Rightarrow> nat \<Rightarrow> string \<Rightarrow> nat option" where
  "digits_value base v [] = Some v"
| "digits_value base v (c # s) =
     (case digit_of base c of None \<Rightarrow> None | Some d \<Rightarrow> digits_value base (v * base + d) s)"

lemma char_between: "char_of m \<le> c \<and> c \<le> char_of n \<longleftrightarrow> c \<in> set (map char_of [m..<Suc n])" if "n < 256" "m < 256" for c :: char and m n :: nat
proof -
  have "char_of m \<le> c \<and> c \<le> char_of n \<longleftrightarrow> m \<le> of_char c \<and> of_char c \<le> n"
    using that by (simp add: less_eq_char_def)
  also have "\<dots> \<longleftrightarrow> c \<in> char_of ` {m..<Suc n}"
  proof
    assume "m \<le> of_char c \<and> of_char c \<le> n"
    then show "c \<in> char_of ` {m..<Suc n}" by (intro image_eqI [of _ _ "of_char c"]) simp_all
  qed (use that in auto)
  finally show ?thesis by (simp only: set_map set_upt)
qed

lemma digit_ranges:
  "CHR ''0'' \<le> c \<and> c \<le> CHR ''9'' \<longleftrightarrow> c \<in> set ''0123456789''"
  "CHR ''a'' \<le> c \<and> c \<le> CHR ''f'' \<longleftrightarrow> c \<in> set ''abcdef''"
  "CHR ''A'' \<le> c \<and> c \<le> CHR ''F'' \<longleftrightarrow> c \<in> set ''ABCDEF''"
proof -
  have "map char_of [48..<Suc 57] = ''0123456789''" "map char_of [97..<Suc 102] = ''abcdef''" "map char_of [65..<Suc 70] = ''ABCDEF''"
    "char_of (48 :: nat) = CHR ''0''" "char_of (57 :: nat) = CHR ''9''" "char_of (97 :: nat) = CHR ''a''"
    "char_of (102 :: nat) = CHR ''f''" "char_of (65 :: nat) = CHR ''A''" "char_of (70 :: nat) = CHR ''F''"
    by code_simp+
  note e = this
  show "CHR ''0'' \<le> c \<and> c \<le> CHR ''9'' \<longleftrightarrow> c \<in> set ''0123456789''"
    using char_between [of 57 48 c] unfolding e by simp
  show "CHR ''a'' \<le> c \<and> c \<le> CHR ''f'' \<longleftrightarrow> c \<in> set ''abcdef''"
    using char_between [of 102 97 c] unfolding e by simp
  show "CHR ''A'' \<le> c \<and> c \<le> CHR ''F'' \<longleftrightarrow> c \<in> set ''ABCDEF''"
    using char_between [of 70 65 c] unfolding e by simp
qed

lemma find_outside:
  "list_all (\<lambda>d. f d \<in> T \<and> g d \<in> T) [0..<m] \<Longrightarrow> c \<notin> T \<Longrightarrow> n \<le> m \<Longrightarrow> List.find (\<lambda>d. c = f d \<or> c = g d) [0..<n] = None"
  by (auto simp: find_None_iff list_all_iff)

lemma digit_value_of:
  assumes "base \<in> {2, 10, 16}"
  shows "digit_value (of_nat base) c = map_option of_nat (digit_of base c)" "digit_of base c = Some d \<Longrightarrow> d < base"
proof -
  show "digit_value (of_nat base) c = map_option of_nat (digit_of base c)"
  proof (cases "c \<in> set ''0123456789abcdefABCDEF''")
    case True
    have "list_all (\<lambda>c. digit_value (of_nat 2) c = map_option of_nat (digit_of 2 c)) ''0123456789abcdefABCDEF''"
      "list_all (\<lambda>c. digit_value (of_nat 10) c = map_option of_nat (digit_of 10 c)) ''0123456789abcdefABCDEF''"
      "list_all (\<lambda>c. digit_value (of_nat 16) c = map_option of_nat (digit_of 16 c)) ''0123456789abcdefABCDEF''"
      by code_simp+
    then show ?thesis using True assms unfolding list_all_iff by blast
  next
    case False
    have "list_all (\<lambda>d. ''0123456789abcdef'' ! d \<in> set ''0123456789abcdefABCDEF'' \<and> ''0123456789ABCDEF'' ! d \<in> set ''0123456789abcdefABCDEF'') [0..<16]"
      by code_simp
    then have "digit_of base c = None"
      unfolding digit_of_def by (rule find_outside [OF _ False]) (use assms in auto)
    moreover have "digit_value (of_nat base) c = None" using False by (auto simp: digit_value_def digit_ranges)
    ultimately show ?thesis by simp
  qed
  show "digit_of base c = Some d \<Longrightarrow> d < base" by (auto simp: digit_of_def find_Some_iff)
qed

lemma digits_value_ge: "digits_value base v s = Some n \<Longrightarrow> 2 \<le> base \<Longrightarrow> v \<le> n"
proof (induction base v s rule: digits_value.induct)
  case (2 base v c s)
  then obtain d where "digit_of base c = Some d" "v * base + d \<le> n"
    by (auto split: option.splits)
  moreover have "v \<le> v * base" using "2.prems"(2) by simp
  ultimately show ?case by linarith
qed simp

text \<open>The overflow check is exact: the loop fails exactly when the value needs more than 32 bits.\<close>

lemma parse_digits_exact:
  assumes "base \<in> {2, 10, 16}"
  shows "parse_digits (of_nat base) v s =
    (case digits_value base (unat v) s of
       None \<Rightarrow> None | Some n \<Rightarrow> if n < 2 ^ 32 then Some (of_nat n) else None)"
proof (induction s arbitrary: v)
  case Nil
  then show ?case using unsigned_less [where 'a = nat, of v] by simp
next
  case (Cons c s)
  have base: "unat (of_nat base :: u32) = base" "0 < base" "2 \<le> base" using assms by auto
  show ?case
  proof (cases "digit_of base c")
    case (Some e)
    define d where "d = (of_nat e :: u32)"
    have "e < base" using digit_value_of(2) [OF assms Some] .
    then have e: "unat d = e" using assms by (auto simp: d_def unsigned_of_nat take_bit_nat_eq_self)
    have Some: "digit_of base c = Some e" "digit_value (of_nat base) c = Some d"
      using Some digit_value_of(1) [OF assms, of c] by (simp_all add: d_def)
    have d: "unat d < 2 ^ 32" using unsigned_less [where 'a = nat, of d] by simp
    have sub: "unat (0xFFFFFFFF - d) = 2 ^ 32 - 1 - unat d"
      using d by (subst unat_sub) (simp_all add: word_le_nat_alt)
    have "(0xFFFFFFFF - d) div of_nat base < v \<longleftrightarrow> (2 ^ 32 - 1 - unat d) div base < unat v"
      by (simp add: word_less_nat_alt unat_div base sub)
    also have "\<dots> \<longleftrightarrow> 2 ^ 32 \<le> unat v * base + unat d"
      using d base(2) by (simp add: div_less_iff_less_mult) linarith
    finally have over: "(0xFFFFFFFF - d) div of_nat base < v \<longleftrightarrow> 2 ^ 32 \<le> unat v * base + unat d" .
    show ?thesis
    proof (cases "2 ^ 32 \<le> unat v * base + unat d")
      case True
      then show ?thesis
        using Some over digits_value_ge [OF _ base(3), of "unat v * base + unat d" s] e
        by (auto split: option.split)
    next
      case False
      then have "unat (v * of_nat base + d) = unat v * base + unat d"
        by (simp add: unat_word_ariths base)
      then show ?thesis using Some over False Cons.IH [of "v * of_nat base + d"] e by simp
    qed
  qed (simp add: digit_value_of(1) [OF assms])
qed

text \<open>
  C39: Literals.  For every string \<open>parse_uint\<close> gives the number that is written, in hexadecimal after \<open>0x\<close> or \<open>0X\<close>, in binary
  after \<open>0b\<close> or \<open>0B\<close> and in decimal otherwise, with digits in either case, when it fits in 32 bits; it refuses
  a larger number, a character that is no digit of the base, and a literal without digits.
\<close>

theorem parse_uint_literals:
  "parse_uint s =
    (let base = (if take 2 s \<in> {''0x'', ''0X''} then 16 else if take 2 s \<in> {''0b'', ''0B''} then 2 else 10);
         digits = (if base = 10 then s else drop 2 s)
     in if digits = [] then None
        else case digits_value base 0 digits of
          None \<Rightarrow> None
        | Some n \<Rightarrow> if n < 2 ^ 32 then Some (of_nat n) else None)"
  using parse_digits_exact [of 2 0 "drop 2 s"] parse_digits_exact [of 10 0 s] parse_digits_exact [of 16 0 "drop 2 s"]
  by (auto simp: parse_uint_def)

section \<open>What the tokens are\<close>

text \<open>Tokens are the maximal runs of characters other than separators, of which the first ones are kept.\<close>

fun split_runs :: "string \<Rightarrow> string list" where
  "split_runs [] = [[]]"
| "split_runs (c # s) = (if token_sep c then [] # split_runs s else (c # hd (split_runs s)) # tl (split_runs s))"

definition all_tokens :: "string \<Rightarrow> string list" where
  "all_tokens line = filter (\<lambda>t. t \<noteq> []) (split_runs line)"

lemma split_runs_not_Nil [simp]: "split_runs s \<noteq> []"
  by (cases s) auto

lemma split_runs_token:
  "split_runs p = takeWhile (\<lambda>c. \<not> token_sep c) p #
     (if dropWhile (\<lambda>c. \<not> token_sep c) p = [] then [] else split_runs (tl (dropWhile (\<lambda>c. \<not> token_sep c) p)))"
  by (induction p) auto

lemma all_tokens_sep: "all_tokens (dropWhile token_sep p) = all_tokens p"
  by (induction p) (auto simp: all_tokens_def)

lemma all_tokens_step:
  assumes "p \<noteq> []" "\<not> token_sep (hd p)"
  shows "all_tokens p = takeWhile (\<lambda>c. \<not> token_sep c) p # all_tokens (tl (dropWhile (\<lambda>c. \<not> token_sep c) p))"
proof -
  have "takeWhile (\<lambda>c. \<not> token_sep c) p \<noteq> []" using assms by (cases p) auto
  then show ?thesis
    unfolding all_tokens_def split_runs_token [of p]
    by (cases "dropWhile (\<lambda>c. \<not> token_sep c) p = []") (simp_all only: if_True if_False filter.simps split_runs.simps list.sel, simp_all)
qed

lemma tokenize_from_all:
  "tokenize_from limit n line = (take (limit - n) (all_tokens line), limit - n < length (all_tokens line))"
proof (induction limit n line rule: tokenize_from.induct)
  case (1 limit n line)
  let ?p = "dropWhile token_sep line"
  show ?case
  proof (cases "?p = []")
    case True
    then have "all_tokens line = []"
      using all_tokens_sep [of line] unfolding True by (simp add: all_tokens_def)
    then show ?thesis using True by (simp add: tokenize_from.simps [of limit n line])
  next
    case False
    then have "all_tokens line = takeWhile (\<lambda>c. \<not> token_sep c) ?p #
        all_tokens (tl (dropWhile (\<lambda>c. \<not> token_sep c) ?p))"
      using all_tokens_step [OF False] hd_dropWhile [OF False] all_tokens_sep [of line] by simp
    moreover have "limit - n = Suc (limit - Suc n)" if "\<not> limit \<le> n" using that by simp
    ultimately show ?thesis
      using "1.IH" [OF refl False] False
      by (cases "limit \<le> n") (simp_all add: tokenize_from.simps [of limit n line] Let_def split_beta)
  qed
qed

end
