(* ===== verification/Asm_Expr.thy ===== *)
theory Asm_Expr
  imports Asm_Lex Pio_Float "HOL-Library.Signed_Division"
begin

text \<open>
  The state of the assembler and its expression evaluator (\<open>lib/src/pio_asm.c\<close>).  An expression may
  refer to a \<open>.define\<close>, whose own expression is evaluated on first use, so the evaluator and the
  resolution of defines call each other; they are defined by recursion on fuel, with \<open>None\<close> for
  running out of it, and \<open>Asm_Eval\<close> shows how much is enough.
\<close>

section \<open>State\<close>

record pio_public_label_t =
  pl_name :: string
  pl_index :: u8

record shift_cfg =
  sc_set :: bool
  sc_count :: u8
  sc_dir :: pio_shift_dir_t
  sc_autoshift :: bool
  sc_threshold :: u8

record pio_program_t =
  pg_insns :: "nat \<Rightarrow> u16"
  pg_count :: u8
  pg_sideset_bits :: u8
  pg_sideset_opt :: bool
  pg_sideset_pindirs :: bool
  pg_wrap_bottom :: u8
  pg_wrap_top :: u8
  pg_public_labels :: "pio_public_label_t list"
  pg_name :: string
  pg_has_origin :: bool
  pg_origin :: u8
  pg_pio_version :: int
  pg_has_clock_div :: bool
  pg_clock_div :: c_double
  pg_has_fifo_join :: bool
  pg_fifo_join :: u8
  pg_has_mov_status :: bool
  pg_mov_status_sel :: u8
  pg_mov_status_n :: u8
  pg_in_cfg :: shift_cfg
  pg_out_cfg :: shift_cfg
  pg_set_cfg :: shift_cfg
  pg_ok :: bool
  pg_error_line :: nat
  pg_error :: string

record label_t =
  lb_name :: string
  lb_index :: u8
  lb_is_public :: bool

record define_t =
  df_name :: string
  df_expr :: string
  df_value :: u32
  df_line :: nat
  df_resolved :: bool
  df_visiting :: bool

text \<open>
  The tables are lists: \<open>label_count\<close>, \<open>define_count\<close> and \<open>public_count\<close> are their lengths.
\<close>

record asm_ctx_t =
  cx_out :: pio_program_t
  cx_labels :: "label_t list"
  cx_defines :: "define_t list"
  cx_line_no :: nat

abbreviation (input) MAX_LABELS :: nat where "MAX_LABELS \<equiv> 32"
abbreviation (input) MAX_DEFINES :: nat where "MAX_DEFINES \<equiv> 32"
abbreviation (input) MAX_LINE :: nat where "MAX_LINE \<equiv> 256"
abbreviation (input) MAX_TOKENS :: nat where "MAX_TOKENS \<equiv> 16"
abbreviation (input) PIO_ASM_ERR_LEN :: nat where "PIO_ASM_ERR_LEN \<equiv> 128"
abbreviation (input) PIO_ASM_MAX_PUBLIC :: nat where "PIO_ASM_MAX_PUBLIC \<equiv> 8"
abbreviation (input) EXPR_MAX_DEPTH :: nat where "EXPR_MAX_DEPTH \<equiv> 64"

section \<open>Errors and symbols\<close>

definition pa_set_error :: "string \<Rightarrow> asm_ctx_t \<Rightarrow> asm_ctx_t" where
  "pa_set_error msg ctx =
     (if pg_ok (cx_out ctx)
      then ctx\<lparr>cx_out := (cx_out ctx)\<lparr>pg_ok := False, pg_error_line := cx_line_no ctx,
             pg_error := take (PIO_ASM_ERR_LEN - 1) msg\<rparr>\<rparr>
      else ctx)"

definition find_label :: "asm_ctx_t \<Rightarrow> string \<Rightarrow> u8 option" where
  "find_label ctx name = map_option lb_index (List.find (\<lambda>l. lb_name l = name) (cx_labels ctx))"

definition define_declared :: "asm_ctx_t \<Rightarrow> string \<Rightarrow> bool" where
  "define_declared ctx name \<longleftrightarrow> list_ex (\<lambda>d. df_name d = name) (cx_defines ctx)"

text \<open>The position of the first define with a name.\<close>

fun define_index :: "string \<Rightarrow> define_t list \<Rightarrow> nat option" where
  "define_index name [] = None"
| "define_index name (d # ds) = (if df_name d = name then Some 0 else map_option Suc (define_index name ds))"

definition upd_define :: "nat \<Rightarrow> (define_t \<Rightarrow> define_t) \<Rightarrow> asm_ctx_t \<Rightarrow> asm_ctx_t" where
  "upd_define i f ctx = ctx\<lparr>cx_defines := (cx_defines ctx)[i := f (cx_defines ctx ! i)]\<rparr>"

section \<open>Expressions\<close>

record expr_t =
  e_ctx :: asm_ctx_t
  e_p :: string
  e_ok :: bool
  e_depth :: nat

definition expr_skip_ws :: "expr_t \<Rightarrow> expr_t" where
  "expr_skip_ws e = e\<lparr>e_p := dropWhile (\<lambda>c. c = CHR '' '' \<or> c = CHR 0x09) (e_p e)\<rparr>"

definition e_skip :: "nat \<Rightarrow> expr_t \<Rightarrow> expr_t" where
  "e_skip k e = e\<lparr>e_p := drop k (e_p e)\<rparr>"

definition e_fail :: "expr_t \<Rightarrow> expr_t" where
  "e_fail e = e\<lparr>e_ok := False\<rparr>"

definition num_char :: "char \<Rightarrow> bool" where
  "num_char c \<longleftrightarrow> (CHR ''0'' \<le> c \<and> c \<le> CHR ''9'') \<or> (CHR ''a'' \<le> c \<and> c \<le> CHR ''f'') \<or>
     (CHR ''A'' \<le> c \<and> c \<le> CHR ''F'') \<or> c = CHR ''x'' \<or> c = CHR ''X''"

definition id_start :: "char \<Rightarrow> bool" where
  "id_start c \<longleftrightarrow> (CHR ''a'' \<le> c \<and> c \<le> CHR ''z'') \<or> (CHR ''A'' \<le> c \<and> c \<le> CHR ''Z'') \<or> c = CHR ''_''"

definition id_char :: "char \<Rightarrow> bool" where
  "id_char c \<longleftrightarrow> id_start c \<or> (CHR ''0'' \<le> c \<and> c \<le> CHR ''9'')"

text \<open>The literal branch of \<open>expr_primary\<close>: only 33 characters of it are kept.\<close>

definition expr_literal :: "expr_t \<Rightarrow> u64 \<times> expr_t" where
  "expr_literal e =
     (let num = takeWhile num_char (e_p e); e = e_skip (length num) e
      in case parse_uint (take 33 num) of None \<Rightarrow> (0, e_fail e) | Some u \<Rightarrow> (ucast u, e))"

definition bit_op :: "char \<Rightarrow> u64 \<Rightarrow> u64 \<Rightarrow> u64" where
  "bit_op c x r = (if c = CHR ''&'' then x AND r else if c = CHR ''|'' then x OR r else x XOR r)"

text \<open>Signed division truncates towards zero; the two cases that are undefined in C are caught.\<close>

definition expr_do_div :: "expr_t \<Rightarrow> u64 \<Rightarrow> u64 \<Rightarrow> u64 \<times> expr_t" where
  "expr_do_div e x r =
     (if r = 0 then (x, e_fail e)
      else if x = 0x8000000000000000 \<and> r = - 1 then (x, e)
      else (word_of_int (sint x sdiv sint r), e))"

definition expr_do_shift :: "expr_t \<Rightarrow> u64 \<Rightarrow> u64 \<Rightarrow> bool \<Rightarrow> u64 \<times> expr_t" where
  "expr_do_shift e x k left =
     (if sint k < 0 \<or> 63 < sint k then (0, e_fail e)
      else (if left then push_bit (unat k) x else drop_bit (unat k) x, e))"

text \<open>
  The tiers of the grammar, tightest first.  Every function below takes \<open>prim\<close>, the recursive call of
  \<open>expr_primary\<close>, which is \<open>None\<close> when it runs out of fuel.  An iteration of a loop consumes an
  operator, so the number of characters left bounds the iterations.
\<close>

type_synonym evaluator = "expr_t \<Rightarrow> (u64 \<times> expr_t) option"

fun expr_bit_loop :: "nat \<Rightarrow> evaluator \<Rightarrow> u64 \<Rightarrow> evaluator" where
  "expr_bit_loop 0 prim x e = None"
| "expr_bit_loop (Suc k) prim x e =
     (let e = expr_skip_ws e; c = chr_at (e_p e)
      in if c = CHR ''&'' \<or> c = CHR ''|'' \<or> c = CHR ''^''
         then Option.bind (prim (e_skip 1 e)) (\<lambda>(r, e). expr_bit_loop k prim (bit_op c x r) e)
         else Some (x, e))"

definition expr_bit :: "evaluator \<Rightarrow> evaluator" where
  "expr_bit prim e = Option.bind (prim e) (\<lambda>(x, e). expr_bit_loop (length (e_p e) + 1) prim x e)"

fun expr_mul_loop :: "nat \<Rightarrow> evaluator \<Rightarrow> u64 \<Rightarrow> evaluator" where
  "expr_mul_loop 0 prim x e = None"
| "expr_mul_loop (Suc k) prim x e =
     (let e = expr_skip_ws e; c = chr_at (e_p e)
      in if c = CHR ''*''
         then Option.bind (expr_bit prim (e_skip 1 e)) (\<lambda>(r, e). expr_mul_loop k prim (x * r) e)
         else if c = CHR ''/''
         then Option.bind (expr_bit prim (e_skip 1 e)) (\<lambda>(r, e).
           let (x, e) = expr_do_div e x r in expr_mul_loop k prim x e)
         else Some (x, e))"

definition expr_mul :: "evaluator \<Rightarrow> evaluator" where
  "expr_mul prim e = Option.bind (expr_bit prim e) (\<lambda>(x, e). expr_mul_loop (length (e_p e) + 1) prim x e)"

fun expr_add_loop :: "nat \<Rightarrow> evaluator \<Rightarrow> u64 \<Rightarrow> evaluator" where
  "expr_add_loop 0 prim x e = None"
| "expr_add_loop (Suc k) prim x e =
     (let e = expr_skip_ws e; c = chr_at (e_p e)
      in if c = CHR ''+''
         then Option.bind (expr_mul prim (e_skip 1 e)) (\<lambda>(r, e). expr_add_loop k prim (x + r) e)
         else if c = CHR ''-''
         then Option.bind (expr_mul prim (e_skip 1 e)) (\<lambda>(r, e). expr_add_loop k prim (x - r) e)
         else Some (x, e))"

definition expr_add :: "evaluator \<Rightarrow> evaluator" where
  "expr_add prim e = Option.bind (expr_mul prim e) (\<lambda>(x, e). expr_add_loop (length (e_p e) + 1) prim x e)"

fun expr_shift_loop :: "nat \<Rightarrow> evaluator \<Rightarrow> u64 \<Rightarrow> evaluator" where
  "expr_shift_loop 0 prim x e = None"
| "expr_shift_loop (Suc k) prim x e =
     (let e = expr_skip_ws e
      in if take 2 (e_p e) = ''<<''
         then Option.bind (expr_add prim (e_skip 2 e)) (\<lambda>(r, e).
           let (x, e) = expr_do_shift e x r True in expr_shift_loop k prim x e)
         else if take 2 (e_p e) = ''>>''
         then Option.bind (expr_add prim (e_skip 2 e)) (\<lambda>(r, e).
           let (x, e) = expr_do_shift e x r False in expr_shift_loop k prim x e)
         else Some (x, e))"

definition expr_shift :: "evaluator \<Rightarrow> evaluator" where
  "expr_shift prim e = Option.bind (expr_add prim e) (\<lambda>(x, e). expr_shift_loop (length (e_p e) + 1) prim x e)"

text \<open>A chain of \<open>::\<close> ends at the depth limit, so one unit of fuel per level is enough.\<close>

fun expr_reverse_from :: "nat \<Rightarrow> evaluator \<Rightarrow> evaluator" where
  "expr_reverse_from 0 prim e = None"
| "expr_reverse_from (Suc k) prim e =
     (if EXPR_MAX_DEPTH < e_depth e + 1 then Some (0, e_fail e)
      else let e = expr_skip_ws (e\<lparr>e_depth := e_depth e + 1\<rparr>)
        in map_option (\<lambda>(x, e). (x, e\<lparr>e_depth := e_depth e - 1\<rparr>))
             (if take 2 (e_p e) = ''::''
              then map_option (\<lambda>(x, e). (ucast (pio_reverse32 (ucast x)), e))
                     (expr_reverse_from k prim (e_skip 2 e))
              else expr_shift prim e))"

definition expr_reverse :: "evaluator \<Rightarrow> evaluator" where
  "expr_reverse prim e = expr_reverse_from (EXPR_MAX_DEPTH + 1) prim e"

text \<open>\<open>None\<close> is running out of fuel; otherwise the value, if the whole string is one, and the new state.\<close>

definition resolve_uint :: "evaluator \<Rightarrow> asm_ctx_t \<Rightarrow> string \<Rightarrow> (u32 option \<times> asm_ctx_t) option" where
  "resolve_uint prim ctx s =
     map_option (\<lambda>(x, e). let e = expr_skip_ws e
         in (if \<not> e_ok e \<or> e_p e \<noteq> [] then None else Some (ucast x), e_ctx e))
       (expr_reverse prim \<lparr>e_ctx = ctx, e_p = s, e_ok = True, e_depth = 0\<rparr>)"

definition resolve_define_value :: "evaluator \<Rightarrow> asm_ctx_t \<Rightarrow> string \<Rightarrow> (u32 option \<times> asm_ctx_t) option" where
  "resolve_define_value prim ctx name =
     (case define_index name (cx_defines ctx) of
        None \<Rightarrow> Some (None, ctx)
      | Some i \<Rightarrow>
          let d = cx_defines ctx ! i
          in if df_resolved d then Some (Some (df_value d), ctx)
             else if df_visiting d
             then Some (None, pa_set_error (''circular .define reference: '' @ CHR 0x27 # df_name d @ [CHR 0x27])
                          (ctx\<lparr>cx_line_no := df_line d\<rparr>))
             else map_option (\<lambda>(r, ctx).
                 let ctx = upd_define i (\<lambda>d. d\<lparr>df_visiting := False\<rparr>) ctx
                 in case r of
                      None \<Rightarrow> (None, pa_set_error
                        (''unresolvable .define '' @ CHR 0x27 # df_name d @ CHR 0x27 # '' (undefined symbol)'')
                        (ctx\<lparr>cx_line_no := df_line d\<rparr>))
                    | Some x \<Rightarrow> (Some x, upd_define i (\<lambda>d. d\<lparr>df_value := x, df_resolved := True\<rparr>) ctx))
               (resolve_uint prim (upd_define i (\<lambda>d. d\<lparr>df_visiting := True\<rparr>) ctx) (df_expr d)))"

text \<open>The identifier branch of \<open>expr_primary\<close>.\<close>

definition expr_symbol :: "evaluator \<Rightarrow> evaluator" where
  "expr_symbol prim e =
     (let name = takeWhile id_char (e_p e)
      in if 31 < length name then Some (0, e_fail (e_skip 31 e))
         else let e = e_skip (length name) e
           in if define_declared (e_ctx e) name
              then map_option (\<lambda>(r, ctx). case r of
                       None \<Rightarrow> (0, e_fail (e\<lparr>e_ctx := ctx\<rparr>)) | Some dv \<Rightarrow> (ucast dv, e\<lparr>e_ctx := ctx\<rparr>))
                     (resolve_define_value prim (e_ctx e) name)
              else case find_label (e_ctx e) name of
                  None \<Rightarrow> Some (0, e_fail e) | Some lbl \<Rightarrow> Some (ucast lbl, e))"

definition expr_primary :: "evaluator \<Rightarrow> evaluator" where
  "expr_primary prim e =
     (let e = expr_skip_ws e; c = chr_at (e_p e)
      in if c = CHR ''-'' then map_option (\<lambda>(x, e). (0 - x, e)) (expr_mul prim (e_skip 1 e))
         else if c = CHR ''('' then
           map_option (\<lambda>(x, e). let e = expr_skip_ws e
               in (x, if chr_at (e_p e) = CHR '')'' then e_skip 1 e else e_fail e))
             (expr_reverse prim (e_skip 1 e))
         else if CHR ''0'' \<le> c \<and> c \<le> CHR ''9'' then Some (expr_literal e)
         else if id_start c then expr_symbol prim e
         else Some (0, e_fail e))"

fun eval_primary :: "nat \<Rightarrow> evaluator" where
  "eval_primary 0 e = None"
| "eval_primary (Suc n) e = expr_primary (eval_primary n) e"

text \<open>
  A nested operand starts after a \<open>-\<close> or a \<open>(\<close> of the same string, which has less than \<open>MAX_LINE\<close>
  characters, or in the expression of a define that is not being resolved yet, of which there are
  at most \<open>MAX_DEFINES\<close>.
\<close>

definition expr_fuel :: nat where
  "expr_fuel = (MAX_DEFINES + 1) * (MAX_LINE + 1)"

text \<open>The call \<open>resolve_uint(ctx, s, &out)\<close>.\<close>

definition eval_uint :: "asm_ctx_t \<Rightarrow> string \<Rightarrow> u32 option \<times> asm_ctx_t" where
  "eval_uint ctx s =
     (case resolve_uint (eval_primary expr_fuel) ctx s of None \<Rightarrow> (None, ctx) | Some r \<Rightarrow> r)"

definition resolve_uint_join :: "asm_ctx_t \<Rightarrow> string list \<Rightarrow> u32 option \<times> asm_ctx_t" where
  "resolve_uint_join ctx tok =
     (case join_tokens tok MAX_LINE of None \<Rightarrow> (None, ctx) | Some buf \<Rightarrow> eval_uint ctx buf)"

definition declare_define :: "string \<Rightarrow> string \<Rightarrow> nat \<Rightarrow> asm_ctx_t \<Rightarrow> asm_ctx_t option" where
  "declare_define name expr line ctx =
     (if 32 \<le> length name \<or> MAX_LINE \<le> length expr then None
      else if define_declared ctx name then None
      else if MAX_DEFINES \<le> length (cx_defines ctx) then None
      else Some (ctx\<lparr>cx_defines := cx_defines ctx @
        [\<lparr>df_name = name, df_expr = expr, df_value = 0, df_line = line, df_resolved = False, df_visiting = False\<rparr>]\<rparr>))"

end
