(* ===== verification/Asm_Eval.thy ===== *)
theory Asm_Eval
  imports Asm_Expr
begin

text \<open>
  The expression evaluator returns: the fuel of \<open>eval_uint\<close> is always enough, whatever the expression and
  whatever cycles the defines have, and more fuel never changes a result.
\<close>

section \<open>What an evaluation leaves alone\<close>

text \<open>An evaluation may memoise values and set the error; the symbols themselves stay.\<close>

definition symbol_view :: "define_t \<Rightarrow> string \<times> string \<times> nat \<times> bool" where
  "symbol_view d = (df_name d, df_expr d, df_line d, df_visiting d)"

definition same_symbols :: "asm_ctx_t \<Rightarrow> asm_ctx_t \<Rightarrow> bool" where
  "same_symbols ctx ctx' \<longleftrightarrow>
     cx_labels ctx' = cx_labels ctx \<and> map symbol_view (cx_defines ctx') = map symbol_view (cx_defines ctx)"

definition advances :: "expr_t \<Rightarrow> expr_t \<Rightarrow> bool" where
  "advances e e' \<longleftrightarrow>
     same_symbols (e_ctx e) (e_ctx e') \<and> e_depth e' = e_depth e \<and> length (e_p e') \<le> length (e_p e)"

definition symbols_ok :: "asm_ctx_t \<Rightarrow> bool" where
  "symbols_ok ctx \<longleftrightarrow> length (cx_defines ctx) \<le> MAX_DEFINES \<and>
     list_all (\<lambda>d. length (df_expr d) < MAX_LINE) (cx_defines ctx)"

text \<open>The defines that are not on the resolution stack, and the fuel an expression may need.\<close>

definition idle_defines :: "asm_ctx_t \<Rightarrow> nat" where
  "idle_defines ctx = length (filter (\<lambda>d. \<not> df_visiting d) (cx_defines ctx))"

definition rank :: "expr_t \<Rightarrow> nat" where
  "rank e = idle_defines (e_ctx e) * (MAX_LINE + 1) + length (e_p e)"

lemma same_symbols_refl [simp]: "same_symbols ctx ctx"
  by (simp add: same_symbols_def)

lemma same_symbols_trans: "same_symbols a b \<Longrightarrow> same_symbols b c \<Longrightarrow> same_symbols a c"
  by (simp add: same_symbols_def)

lemma idle_defines_view:
  "idle_defines ctx = length (filter (\<lambda>(_, _, _, v). \<not> v) (map symbol_view (cx_defines ctx)))"
  by (simp add: idle_defines_def filter_map comp_def symbol_view_def)

lemma symbols_ok_view:
  "symbols_ok ctx \<longleftrightarrow> length (map symbol_view (cx_defines ctx)) \<le> MAX_DEFINES \<and>
     list_all (\<lambda>(_, t, _). length t < MAX_LINE) (map symbol_view (cx_defines ctx))"
  by (simp add: symbols_ok_def list.pred_map comp_def symbol_view_def)

lemma same_symbols_ok: "same_symbols ctx ctx' \<Longrightarrow> symbols_ok ctx' = symbols_ok ctx"
  by (simp only: symbols_ok_view same_symbols_def)

lemma same_symbols_idle: "same_symbols ctx ctx' \<Longrightarrow> idle_defines ctx' = idle_defines ctx"
  by (simp only: idle_defines_view same_symbols_def)

lemma advances_refl [simp]: "advances e e"
  by (simp add: advances_def)

lemma advances_trans [trans]: "advances a b \<Longrightarrow> advances b c \<Longrightarrow> advances a c"
  using same_symbols_trans by (fastforce simp: advances_def)

lemma advances_rank: "advances e e' \<Longrightarrow> rank e' \<le> rank e"
  using same_symbols_idle by (auto simp: advances_def rank_def)

lemma advances_ok: "advances e e' \<Longrightarrow> symbols_ok (e_ctx e') = symbols_ok (e_ctx e)"
  by (simp add: advances_def same_symbols_ok)

lemma advances_steps [simp, intro]:
  "advances e (expr_skip_ws e)" "advances e (e_skip k e)" "advances e (e_fail e)"
  by (simp_all add: advances_def expr_skip_ws_def e_skip_def e_fail_def length_dropWhile_le)

lemma advances_literal: "advances e (snd (expr_literal e))"
  by (simp add: expr_literal_def Let_def advances_def e_skip_def e_fail_def split: option.split)

lemma advances_arith: "advances e (snd (expr_do_div e x r))" "advances e (snd (expr_do_shift e x r l))"
  by (simp_all add: expr_do_div_def expr_do_shift_def)

lemma chr_at_nonempty: "chr_at p \<noteq> CHR 0x00 \<Longrightarrow> p \<noteq> []"
  by (auto simp: chr_at_def)

lemma skip_shorter: "e_p e \<noteq> [] \<Longrightarrow> 0 < k \<Longrightarrow> length (e_p (e_skip k e)) < length (e_p e)"
  by (simp add: e_skip_def)

lemma skip_ws_shorter: "length (e_p (expr_skip_ws e)) \<le> length (e_p e)"
  by (simp add: expr_skip_ws_def length_dropWhile_le)

section \<open>Enough fuel\<close>

definition gives :: "(u64 \<times> expr_t) option \<Rightarrow> expr_t \<Rightarrow> bool" where
  "gives r e \<longleftrightarrow> (\<exists>x e'. r = Some (x, e') \<and> advances e e')"

lemma gives_Some [simp]: "gives (Some (x, e')) e = advances e e'"
  by (simp add: gives_def)

lemma gives_bind:
  "gives r e1 \<Longrightarrow> advances e e1 \<Longrightarrow> (\<And>x e2. advances e1 e2 \<Longrightarrow> gives (g x e2) e2) \<Longrightarrow>
   gives (Option.bind r (\<lambda>(x, e). g x e)) e"
  unfolding gives_def by (fastforce intro: advances_trans)

lemma gives_map:
  "gives r e1 \<Longrightarrow> advances e e1 \<Longrightarrow> (\<And>x e2. advances e1 e2 \<Longrightarrow> advances e2 (snd (g (x, e2)))) \<Longrightarrow>
   gives (map_option g r) e"
  unfolding gives_def by (fastforce intro: advances_trans simp: prod_eq_iff)

text \<open>The state after an operator of a loop: there are characters left, so it is shorter.\<close>

lemma after_operator:
  assumes "e_p (expr_skip_ws e) \<noteq> []" "0 < m"
  shows "advances e (e_skip m (expr_skip_ws e))" "length (e_p (e_skip m (expr_skip_ws e))) < length (e_p e)"
  using assms skip_shorter [of "expr_skip_ws e" m] skip_ws_shorter [of e]
  by (auto intro: advances_trans)

text \<open>What the tiers rely on of the operands: below a rank, they return.\<close>

locale operand_evaluator =
  fixes prim :: evaluator and bound :: nat
  assumes prim_gives: "symbols_ok (e_ctx e) \<Longrightarrow> rank e < bound \<Longrightarrow> gives (prim e) e"
begin

text \<open>An operator, its operand \<open>f\<close>, and the rest of the loop.\<close>

lemma loop_step:
  assumes operand: "\<And>e. symbols_ok (e_ctx e) \<Longrightarrow> rank e < bound \<Longrightarrow> gives (f e) e"
    and rest: "\<And>r e. symbols_ok (e_ctx e) \<Longrightarrow> rank e < bound \<Longrightarrow> length (e_p e) < k \<Longrightarrow> gives (g r e) e"
    and e: "symbols_ok (e_ctx e)" "rank e < bound" "length (e_p e) < Suc k"
    and op: "e_p (expr_skip_ws e) \<noteq> []" "0 < m"
  shows "gives (Option.bind (f (e_skip m (expr_skip_ws e))) (\<lambda>(r, e). g r e)) e"
proof -
  let ?e = "e_skip m (expr_skip_ws e)"
  note adv = after_operator [OF op]
  have "gives (f ?e) ?e"
    using operand [of ?e] e(1,2) advances_ok [OF adv(1)] advances_rank [OF adv(1)] by simp
  then show ?thesis
  proof (rule gives_bind [OF _ adv(1)])
    fix r e' assume adv': "advances ?e e'"
    then have "length (e_p e') < k" using adv(2) e(3) by (simp add: advances_def)
    moreover have "rank e' < bound" using advances_rank [OF advances_trans [OF adv(1) adv']] e(2) by simp
    moreover have "symbols_ok (e_ctx e')" using advances_ok [OF advances_trans [OF adv(1) adv']] e(1) by simp
    ultimately show "gives (g r e') e'" using rest by simp
  qed
qed

text \<open>Continuing a loop in a state the last operator has only marked as failed.\<close>

lemma continue:
  assumes "\<And>x e. symbols_ok (e_ctx e) \<Longrightarrow> rank e < bound \<Longrightarrow> length (e_p e) < k \<Longrightarrow> gives (g x e) e"
    and "symbols_ok (e_ctx e)" "rank e < bound" "length (e_p e) < k" "advances e (snd r)"
  shows "gives (let (x, e) = r in g x e) e"
proof -
  have "gives (g (fst r) (snd r)) (snd r)"
    using assms advances_ok [OF assms(5)] advances_rank [OF assms(5)] by (simp add: advances_def)
  then show ?thesis using assms(5) unfolding gives_def split_beta Let_def by (auto intro: advances_trans)
qed

text \<open>A tier is an operand followed by its loop.\<close>

lemma tier:
  assumes operand: "\<And>e. symbols_ok (e_ctx e) \<Longrightarrow> rank e < bound \<Longrightarrow> gives (f e) e"
    and loop: "\<And>x e. symbols_ok (e_ctx e) \<Longrightarrow> rank e < bound \<Longrightarrow> gives (l (length (e_p e) + 1) x e) e"
    and e: "symbols_ok (e_ctx e)" "rank e < bound"
  shows "gives (Option.bind (f e) (\<lambda>(x, e). l (length (e_p e) + 1) x e)) e"
proof (rule gives_bind [OF operand [OF e] advances_refl])
  fix x e' assume "advances e e'"
  then show "gives (l (length (e_p e') + 1) x e') e'"
    using e loop [of e'] advances_ok [of e e'] advances_rank [of e e'] by simp
qed

lemma bit_loop:
  "symbols_ok (e_ctx e) \<Longrightarrow> rank e < bound \<Longrightarrow> length (e_p e) < k \<Longrightarrow> gives (expr_bit_loop k prim x e) e"
proof (induction k arbitrary: x e)
  case (Suc k)
  let ?c = "chr_at (e_p (expr_skip_ws e))"
  have "gives (Option.bind (prim (e_skip 1 (expr_skip_ws e)))
      (\<lambda>(r, e). expr_bit_loop k prim (bit_op ?c x r) e)) e" if "?c \<noteq> CHR 0x00"
    by (rule loop_step [OF prim_gives Suc.IH Suc.prems chr_at_nonempty [OF that]]) simp_all
  then show ?case by (auto simp: Let_def)
qed simp

lemma bit: "symbols_ok (e_ctx e) \<Longrightarrow> rank e < bound \<Longrightarrow> gives (expr_bit prim e) e"
  unfolding expr_bit_def by (rule tier [OF prim_gives]) (simp_all del: expr_bit_loop.simps add: bit_loop)

lemma mul_loop:
  "symbols_ok (e_ctx e) \<Longrightarrow> rank e < bound \<Longrightarrow> length (e_p e) < k \<Longrightarrow> gives (expr_mul_loop k prim x e) e"
proof (induction k arbitrary: x e)
  case (Suc k)
  let ?c = "chr_at (e_p (expr_skip_ws e))" and ?o = "expr_bit prim (e_skip 1 (expr_skip_ws e))"
  have "gives (Option.bind ?o (\<lambda>(r, e). expr_mul_loop k prim (x * r) e)) e" if "?c \<noteq> CHR 0x00"
    by (rule loop_step [OF bit Suc.IH Suc.prems chr_at_nonempty [OF that]]) simp_all
  moreover have "gives (Option.bind ?o (\<lambda>(r, e). let (x, e) = expr_do_div e x r in expr_mul_loop k prim x e)) e"
    if "?c \<noteq> CHR 0x00"
    by (rule loop_step [OF bit continue [OF Suc.IH] Suc.prems chr_at_nonempty [OF that]]) (simp_all add: advances_arith)
  ultimately show ?case by (auto simp: Let_def)
qed simp

lemma mul: "symbols_ok (e_ctx e) \<Longrightarrow> rank e < bound \<Longrightarrow> gives (expr_mul prim e) e"
  unfolding expr_mul_def by (rule tier [OF bit]) (simp_all del: expr_mul_loop.simps add: mul_loop)

lemma add_loop:
  "symbols_ok (e_ctx e) \<Longrightarrow> rank e < bound \<Longrightarrow> length (e_p e) < k \<Longrightarrow> gives (expr_add_loop k prim x e) e"
proof (induction k arbitrary: x e)
  case (Suc k)
  let ?c = "chr_at (e_p (expr_skip_ws e))" and ?o = "expr_mul prim (e_skip 1 (expr_skip_ws e))"
  have "gives (Option.bind ?o (\<lambda>(r, e). expr_add_loop k prim (f r) e)) e" if "?c \<noteq> CHR 0x00" for f
    by (rule loop_step [OF mul Suc.IH Suc.prems chr_at_nonempty [OF that]]) simp_all
  then show ?case by (auto simp: Let_def)
qed simp

lemma add: "symbols_ok (e_ctx e) \<Longrightarrow> rank e < bound \<Longrightarrow> gives (expr_add prim e) e"
  unfolding expr_add_def by (rule tier [OF mul]) (simp_all del: expr_add_loop.simps add: add_loop)

lemma shift_loop:
  "symbols_ok (e_ctx e) \<Longrightarrow> rank e < bound \<Longrightarrow> length (e_p e) < k \<Longrightarrow> gives (expr_shift_loop k prim x e) e"
proof (induction k arbitrary: x e)
  case (Suc k)
  have "gives (Option.bind (expr_add prim (e_skip 2 (expr_skip_ws e))) (\<lambda>(r, e).
      let (x, e) = expr_do_shift e x r l in expr_shift_loop k prim x e)) e"
    if "e_p (expr_skip_ws e) \<noteq> []" for l
    by (rule loop_step [OF add continue [OF Suc.IH] Suc.prems that]) (simp_all add: advances_arith)
  then show ?case by (cases "e_p (expr_skip_ws e) = []") (auto simp: Let_def)
qed simp

lemma shift: "symbols_ok (e_ctx e) \<Longrightarrow> rank e < bound \<Longrightarrow> gives (expr_shift prim e) e"
  unfolding expr_shift_def by (rule tier [OF add]) (simp_all del: expr_shift_loop.simps add: shift_loop)

lemma reverse_from:
  "symbols_ok (e_ctx e) \<Longrightarrow> rank e < bound \<Longrightarrow> EXPR_MAX_DEPTH < e_depth e + k \<Longrightarrow> 0 < k \<Longrightarrow>
   gives (expr_reverse_from k prim e) e"
proof (induction k arbitrary: e)
  case (Suc k)
  let ?e = "expr_skip_ws (e\<lparr>e_depth := e_depth e + 1\<rparr>)"
  have le: "length (e_p ?e) \<le> length (e_p e)"
    by (simp add: expr_skip_ws_def length_dropWhile_le)
  have e: "e_ctx ?e = e_ctx e" "e_depth ?e = e_depth e + 1" by (simp_all add: expr_skip_ws_def)
  have rank: "rank ?e < bound" "rank (e_skip 2 ?e) < bound"
    using Suc.prems(2) le e(1) by (simp_all add: rank_def e_skip_def)
  let ?r = "if take 2 (e_p ?e) = ''::''
    then map_option (\<lambda>(x, e). (ucast (pio_reverse32 (ucast x)), e)) (expr_reverse_from k prim (e_skip 2 ?e))
    else expr_shift prim ?e"
  have "gives ?r ?e" if "\<not> EXPR_MAX_DEPTH < e_depth e + 1"
  proof (cases "take 2 (e_p ?e) = ''::''")
    case True
    have "gives (expr_reverse_from k prim (e_skip 2 ?e)) (e_skip 2 ?e)"
      by (rule Suc.IH) (use Suc.prems that e rank in \<open>auto simp: e_skip_def\<close>)
    then show ?thesis using True by (auto intro!: gives_map [where ?e1.0 = "e_skip 2 ?e"])
  next
    case False
    then show ?thesis using shift [of ?e] Suc.prems(1) e rank(1) by simp
  qed
  then show ?case
    using le e by (auto simp: Let_def gives_def advances_def e_fail_def)
qed simp

lemma reverse: "symbols_ok (e_ctx e) \<Longrightarrow> rank e < bound \<Longrightarrow> gives (expr_reverse prim e) e"
  unfolding expr_reverse_def by (rule reverse_from) simp_all

text \<open>A string below the bound has a value or not, and the symbols stay what they were.\<close>

lemma resolve_uint:
  assumes "symbols_ok ctx" "idle_defines ctx * (MAX_LINE + 1) + length s < bound"
  shows "\<exists>r ctx'. resolve_uint prim ctx s = Some (r, ctx') \<and> same_symbols ctx ctx'"
proof -
  let ?e = "\<lparr>e_ctx = ctx, e_p = s, e_ok = True, e_depth = 0\<rparr>"
  obtain x e' where "expr_reverse prim ?e = Some (x, e')" "same_symbols ctx (e_ctx e')"
    using reverse [of ?e] assms by (auto simp: rank_def gives_def advances_def)
  then show ?thesis by (simp add: resolve_uint_def Let_def expr_skip_ws_def)
qed

end

subsection \<open>Defines\<close>

lemma define_index_Some:
  "define_index name ds = Some i \<Longrightarrow> i < length ds \<and> df_name (ds ! i) = name"
  by (induction ds arbitrary: i) (auto split: if_splits)

lemma define_index_declared: "define_declared ctx name \<longleftrightarrow> (\<exists>i. define_index name (cx_defines ctx) = Some i)"
proof -
  have "list_ex (\<lambda>d. df_name d = name) ds \<longleftrightarrow> (\<exists>i. define_index name ds = Some i)" for ds
    by (induction ds) auto
  then show ?thesis by (simp add: define_declared_def)
qed

lemma set_error_symbols [simp]:
  "cx_labels (pa_set_error msg ctx) = cx_labels ctx" "cx_defines (pa_set_error msg ctx) = cx_defines ctx"
  by (simp_all add: pa_set_error_def)

lemma upd_define_symbols [simp]:
  "cx_labels (upd_define i f ctx) = cx_labels ctx"
  "cx_defines (upd_define i f ctx) = (cx_defines ctx)[i := f (cx_defines ctx ! i)]"
  by (simp_all add: upd_define_def)

lemma map_update_same: "(map f xs)[i := f (xs ! i)] = map f xs"
  by (metis list_update_id map_update)

text \<open>Marking an idle define takes one off the idle ones, and unmarking it restores the symbols.\<close>

lemma idle_mark:
  assumes "i < length (cx_defines ctx)" "\<not> df_visiting (cx_defines ctx ! i)"
  shows "Suc (idle_defines (upd_define i (\<lambda>d. d\<lparr>df_visiting := True\<rparr>) ctx)) = idle_defines ctx"
proof -
  have "Suc (length (filter (\<lambda>d. \<not> df_visiting d) (ds[i := (ds ! i)\<lparr>df_visiting := True\<rparr>]))) =
      length (filter (\<lambda>d. \<not> df_visiting d) ds)"
    if "i < length ds" "\<not> df_visiting (ds ! i)" for ds
    using that by (induction ds arbitrary: i) (auto simp: nth_Cons split: nat.split)
  then show ?thesis using assms by (simp add: idle_defines_def)
qed

lemma same_symbols_unmark:
  assumes "i < length (cx_defines ctx)" "\<not> df_visiting (cx_defines ctx ! i)"
    and "same_symbols (upd_define i (\<lambda>d. d\<lparr>df_visiting := True\<rparr>) ctx) ctx'"
  shows "same_symbols ctx (upd_define i (\<lambda>d. d\<lparr>df_visiting := False\<rparr>) ctx')"
proof -
  let ?d = "cx_defines ctx ! i"
  have view: "map symbol_view (cx_defines ctx') = (map symbol_view (cx_defines ctx))[i := (df_name ?d, df_expr ?d, df_line ?d, True)]"
    and labels: "cx_labels ctx' = cx_labels ctx"
    using assms(3) by (auto simp: same_symbols_def map_update symbol_view_def)
  have len: "length (cx_defines ctx') = length (cx_defines ctx)" using map_eq_imp_length_eq [OF assms(3) [unfolded same_symbols_def, THEN conjunct2]] by simp
  have "symbol_view (cx_defines ctx' ! i) = (df_name ?d, df_expr ?d, df_line ?d, True)"
    using arg_cong [OF view, of "\<lambda>l. l ! i"] assms(1) len by simp
  then have "symbol_view ((cx_defines ctx' ! i)\<lparr>df_visiting := False\<rparr>) = symbol_view ?d"
    using assms(2) by (simp add: symbol_view_def)
  then have "map symbol_view (cx_defines (upd_define i (\<lambda>d. d\<lparr>df_visiting := False\<rparr>) ctx')) =
      map symbol_view (cx_defines ctx)"
    by (simp add: map_update view map_update_same)
  then show ?thesis using labels by (simp add: same_symbols_def)
qed

lemma same_symbols_memo:
  "same_symbols ctx ctx' \<Longrightarrow> same_symbols ctx (upd_define i (\<lambda>d. d\<lparr>df_value := x, df_resolved := True\<rparr>) ctx')"
  "same_symbols ctx ctx' \<Longrightarrow> same_symbols ctx (pa_set_error msg (ctx'\<lparr>cx_line_no := l\<rparr>))"
proof -
  have "symbol_view (d\<lparr>df_value := x, df_resolved := True\<rparr>) = symbol_view d" for d
    by (simp add: symbol_view_def)
  then have "map symbol_view (cx_defines (upd_define i (\<lambda>d. d\<lparr>df_value := x, df_resolved := True\<rparr>) ctx')) =
      map symbol_view (cx_defines ctx')"
    by (simp add: map_update map_update_same)
  then show "same_symbols ctx ctx' \<Longrightarrow> same_symbols ctx (upd_define i (\<lambda>d. d\<lparr>df_value := x, df_resolved := True\<rparr>) ctx')"
    by (simp only: same_symbols_def upd_define_symbols(1))
qed (simp add: same_symbols_def)

context operand_evaluator
begin

lemma resolve_define:
  assumes ctx: "symbols_ok ctx" and bound: "idle_defines ctx * (MAX_LINE + 1) \<le> bound"
  shows "\<exists>r ctx'. resolve_define_value prim ctx name = Some (r, ctx') \<and> same_symbols ctx ctx'"
proof (cases "define_index name (cx_defines ctx)")
  case None
  then show ?thesis by (simp add: resolve_define_value_def)
next
  case (Some i)
  then have i: "i < length (cx_defines ctx)" using define_index_Some by blast
  let ?d = "cx_defines ctx ! i" and ?ctx = "upd_define i (\<lambda>d. d\<lparr>df_visiting := True\<rparr>) ctx"
  show ?thesis
  proof (cases "df_resolved ?d \<or> df_visiting ?d")
    case True
    then show ?thesis using Some by (auto simp: resolve_define_value_def Let_def same_symbols_memo)
  next
    case False
    have "length (df_expr ?d) < MAX_LINE" using ctx i by (simp add: symbols_ok_def list_all_length)
    then have rank: "idle_defines ?ctx * (MAX_LINE + 1) + length (df_expr ?d) < bound"
      using idle_mark [of i ctx] i False bound by (simp flip: idle_mark)
    have "symbols_ok ?ctx"
      using ctx i by (auto simp: symbols_ok_def list_all_length nth_list_update)
    from resolve_uint [OF this rank] obtain r ctx' where
      *: "resolve_uint prim ?ctx (df_expr ?d) = Some (r, ctx')" "same_symbols ?ctx ctx'" by blast
    then have "same_symbols ctx (upd_define i (\<lambda>d. d\<lparr>df_visiting := False\<rparr>) ctx')"
      using i False by (simp add: same_symbols_unmark)
    then show ?thesis using Some False *(1)
      by (cases r) (auto simp: resolve_define_value_def Let_def intro!: same_symbols_memo)
  qed
qed

lemma symbol:
  assumes "symbols_ok (e_ctx e)" "idle_defines (e_ctx e) * (MAX_LINE + 1) \<le> bound"
  shows "gives (expr_symbol prim e) e"
proof -
  let ?name = "takeWhile id_char (e_p e)"
  obtain r ctx where "resolve_define_value prim (e_ctx e) ?name = Some (r, ctx)" "same_symbols (e_ctx e) ctx"
    using resolve_define [OF assms] by blast
  then show ?thesis
    by (auto simp: expr_symbol_def Let_def gives_def advances_def e_skip_def e_fail_def split: option.split)
qed

text \<open>One more unit of fuel raises the bound by one.\<close>

lemma primary:
  assumes "symbols_ok (e_ctx e)" "rank e < Suc bound"
  shows "gives (expr_primary prim e) e"
proof -
  let ?e = "expr_skip_ws e" let ?c = "chr_at (e_p ?e)"
  have adv: "advances e ?e" by simp
  have e: "symbols_ok (e_ctx ?e)" "rank ?e < Suc bound"
    using assms advances_ok [OF adv] advances_rank [OF adv] by auto
  have operand: "symbols_ok (e_ctx (e_skip 1 ?e))" "rank (e_skip 1 ?e) < bound" if "?c \<noteq> CHR 0x00"
  proof -
    have "e_ctx (e_skip 1 ?e) = e_ctx ?e" by (simp add: e_skip_def)
    moreover have "length (e_p (e_skip 1 ?e)) < length (e_p ?e)"
      by (rule skip_shorter [OF chr_at_nonempty [OF that]]) simp
    ultimately show "symbols_ok (e_ctx (e_skip 1 ?e))" "rank (e_skip 1 ?e) < bound"
      using e by (simp_all add: rank_def)
  qed
  have skip: "advances e (e_skip 1 ?e)" by (rule advances_trans [OF adv]) simp
  have "gives (map_option (\<lambda>(x, e). (0 - x, e)) (expr_mul prim (e_skip 1 ?e))) e" if "?c \<noteq> CHR 0x00"
    by (rule gives_map [OF mul [OF operand [OF that]] skip]) simp
  moreover have "gives (map_option (\<lambda>(x, e). let e = expr_skip_ws e
      in (x, if chr_at (e_p e) = CHR '')'' then e_skip 1 e else e_fail e)) (expr_reverse prim (e_skip 1 ?e))) e"
    if "?c \<noteq> CHR 0x00"
    by (rule gives_map [OF reverse [OF operand [OF that]] skip]) (auto simp: Let_def intro: advances_trans)
  moreover have "gives (expr_symbol prim ?e) e"
    using symbol [OF e(1)] e(2) advances_trans [OF adv] by (auto simp: rank_def gives_def)
  moreover have "gives (Some (expr_literal ?e)) e" "advances e (e_fail ?e)"
    using advances_literal [of ?e] advances_trans [OF adv] by (auto simp: gives_def prod_eq_iff)
  ultimately show ?thesis
    unfolding expr_primary_def Let_def by (cases "?c = CHR 0x00") simp_all
qed

end

interpretation eval: operand_evaluator "eval_primary n" n for n
proof
  show "gives (eval_primary n e) e" if "symbols_ok (e_ctx e)" "rank e < n" for e
    using that
  proof (induction n arbitrary: e)
    case (Suc n)
    have "operand_evaluator (eval_primary n) n" using Suc.IH by unfold_locales
    then show ?case using Suc.prems by (simp add: operand_evaluator.primary)
  qed simp
qed

lemma idle_le: "symbols_ok ctx \<Longrightarrow> idle_defines ctx \<le> MAX_DEFINES"
  using length_filter_le [of "\<lambda>d. \<not> df_visiting d" "cx_defines ctx"]
  unfolding idle_defines_def symbols_ok_def by linarith

lemma resolve_uint_returns:
  assumes "symbols_ok ctx" "length s < MAX_LINE"
  shows "\<exists>r ctx'. resolve_uint (eval_primary expr_fuel) ctx s = Some (r, ctx') \<and> same_symbols ctx ctx'"
proof (rule eval.resolve_uint [OF assms(1)])
  show "idle_defines ctx * (MAX_LINE + 1) + length s < expr_fuel"
    using idle_le [OF assms(1)] assms(2) by (simp add: expr_fuel_def)
qed

section \<open>More fuel\<close>

text \<open>A result that more fuel can only turn from missing to present.\<close>

definition extends :: "'a option \<Rightarrow> 'a option \<Rightarrow> bool" where
  "extends r r' \<longleftrightarrow> r = None \<or> r' = r"

lemma extends_refl [simp, intro]: "extends r r" "extends None r"
  by (simp_all add: extends_def)

lemma extends_bind:
  "extends r r' \<Longrightarrow> (\<And>x. extends (h x) (h' x)) \<Longrightarrow> extends (Option.bind r h) (Option.bind r' h')"
  by (cases r) (auto simp: extends_def)

lemma extends_bind_pair:
  "extends r r' \<Longrightarrow> (\<And>x e. extends (h x e) (h' x e)) \<Longrightarrow>
   extends (Option.bind r (\<lambda>(x, e). h x e)) (Option.bind r' (\<lambda>(x, e). h' x e))"
  by (rule extends_bind) auto

lemma extends_map: "extends r r' \<Longrightarrow> extends (map_option h r) (map_option h r')"
  by (auto simp: extends_def)

lemma extends_case_pair:
  "(\<And>x e. extends (h x e) (h' x e)) \<Longrightarrow> extends (case p of (x, e) \<Rightarrow> h x e) (case p of (x, e) \<Rightarrow> h' x e)"
  by (simp add: split_beta)

lemmas extends_intros = extends_bind_pair extends_map extends_case_pair

locale more_fuel =
  fixes f g :: evaluator
  assumes prim_more: "extends (f e) (g e)"
begin

lemma bit_more: "extends (expr_bit f e) (expr_bit g e)"
proof -
  have "extends (expr_bit_loop k f x e) (expr_bit_loop k g x e)" for k x e
    by (induction k arbitrary: x e) (auto simp: Let_def intro!: extends_intros prim_more)
  then show ?thesis unfolding expr_bit_def by (intro extends_intros prim_more)
qed

lemma mul_more: "extends (expr_mul f e) (expr_mul g e)"
proof -
  have "extends (expr_mul_loop k f x e) (expr_mul_loop k g x e)" for k x e
    by (induction k arbitrary: x e) (auto simp: Let_def intro!: extends_intros bit_more)
  then show ?thesis unfolding expr_mul_def by (intro extends_intros bit_more)
qed

lemma add_more: "extends (expr_add f e) (expr_add g e)"
proof -
  have "extends (expr_add_loop k f x e) (expr_add_loop k g x e)" for k x e
    by (induction k arbitrary: x e) (auto simp: Let_def intro!: extends_intros mul_more)
  then show ?thesis unfolding expr_add_def by (intro extends_intros mul_more)
qed

lemma shift_more: "extends (expr_shift f e) (expr_shift g e)"
proof -
  have "extends (expr_shift_loop k f x e) (expr_shift_loop k g x e)" for k x e
    by (induction k arbitrary: x e) (auto simp: Let_def intro!: extends_intros add_more)
  then show ?thesis unfolding expr_shift_def by (intro extends_intros add_more)
qed

lemma reverse_more: "extends (expr_reverse f e) (expr_reverse g e)"
proof -
  have "extends (expr_reverse_from k f e) (expr_reverse_from k g e)" for k e
    by (induction k arbitrary: e) (auto simp: Let_def intro!: extends_map shift_more)
  then show ?thesis by (simp add: expr_reverse_def)
qed

lemma resolve_uint_more: "extends (resolve_uint f ctx s) (resolve_uint g ctx s)"
  unfolding resolve_uint_def by (intro extends_map reverse_more)

lemma primary_more: "extends (expr_primary f e) (expr_primary g e)"
proof -
  have "extends (resolve_define_value f ctx name) (resolve_define_value g ctx name)" for ctx name
    unfolding resolve_define_value_def Let_def by (auto intro!: extends_map resolve_uint_more split: option.split)
  then have "extends (expr_symbol f e) (expr_symbol g e)" for e
    unfolding expr_symbol_def Let_def by (auto intro!: extends_map)
  then show ?thesis
    unfolding expr_primary_def Let_def by (auto intro!: extends_map mul_more reverse_more)
qed

end

interpretation fuel: more_fuel "eval_primary n" "eval_primary (n + k)" for n k
proof
  show "extends (eval_primary n e) (eval_primary (n + k) e)" for e
  proof (induction n arbitrary: e)
    case (Suc n)
    then have "more_fuel (eval_primary n) (eval_primary (n + k))" by unfold_locales
    then show ?case by (simp add: more_fuel.primary_more)
  qed simp
qed

text \<open>A result found with little fuel is the result.\<close>

lemma eval_uint_from:
  assumes "resolve_uint (eval_primary n) ctx s = Some r" "n \<le> expr_fuel"
  shows "eval_uint ctx s = r"
proof -
  have "n + (expr_fuel - n) = expr_fuel" using assms(2) by simp
  then have "resolve_uint (eval_primary expr_fuel) ctx s = Some r"
    using assms(1) fuel.resolve_uint_more [of n ctx s "expr_fuel - n"] by (simp add: extends_def)
  then show ?thesis by (simp add: eval_uint_def)
qed

text \<open>For evaluation, a little fuel is tried first.\<close>

lemma eval_uint_code [code]:
  "eval_uint ctx s =
     (case resolve_uint (eval_primary 20) ctx s of
        Some r \<Rightarrow> r
      | None \<Rightarrow> (case resolve_uint (eval_primary expr_fuel) ctx s of None \<Rightarrow> (None, ctx) | Some r \<Rightarrow> r))"
  using eval_uint_from [of 20 ctx s] by (auto simp: eval_uint_def [of ctx s] expr_fuel_def split: option.split)

lemma eval_uint_symbols:
  "symbols_ok ctx \<Longrightarrow> length s < MAX_LINE \<Longrightarrow> same_symbols ctx (snd (eval_uint ctx s))"
  using resolve_uint_returns [of ctx s] by (auto simp: eval_uint_def)

section \<open>The evaluator returns\<close>

text \<open>The state of the assembler as it starts, and one with two defines that refer to each other.\<close>

definition shift_zero :: shift_cfg where
  "shift_zero = \<lparr>sc_set = False, sc_count = 0, sc_dir = PIO_SHIFT_LEFT, sc_autoshift = False, sc_threshold = 0\<rparr>"

definition program_zero :: pio_program_t where
  "program_zero = \<lparr>pg_insns = (\<lambda>_. 0), pg_count = 0, pg_sideset_bits = 0, pg_sideset_opt = False,
     pg_sideset_pindirs = False, pg_wrap_bottom = 0, pg_wrap_top = 0, pg_public_labels = [],
     pg_name = [], pg_has_origin = False, pg_origin = 0, pg_pio_version = 0, pg_has_clock_div = False,
     pg_clock_div = Finite 0, pg_has_fifo_join = False, pg_fifo_join = 0, pg_has_mov_status = False,
     pg_mov_status_sel = 0, pg_mov_status_n = 0, pg_in_cfg = shift_zero, pg_out_cfg = shift_zero,
     pg_set_cfg = shift_zero, pg_ok = False, pg_error_line = 0, pg_error = []\<rparr>"

definition asm_start :: asm_ctx_t where
  "asm_start = \<lparr>cx_out = program_zero\<lparr>pg_ok := True, pg_wrap_top := 0xFF, pg_pio_version := - 1\<rparr>,
     cx_labels = [], cx_defines = [], cx_line_no = 0\<rparr>"

definition new_define :: "string \<Rightarrow> string \<Rightarrow> nat \<Rightarrow> define_t" where
  "new_define name expr line =
     \<lparr>df_name = name, df_expr = expr, df_value = 0, df_line = line, df_resolved = False, df_visiting = False\<rparr>"

text \<open>
  C38: Expressions terminate.  With at most 32 defines whose expressions are shorter than a line, evaluating
  any string shorter than a line returns, even when defines refer to each other in a cycle or
  operators nest arbitrarily: the evaluation neither recurses nor loops for ever.  It leaves every
  label and define as declared, and what it returns does not depend on the amount of fuel once
  there is enough.
\<close>

theorem expressions_return:
  assumes "symbols_ok ctx" "length s < MAX_LINE"
  shows "\<exists>r ctx'. same_symbols ctx ctx' \<and> (\<forall>n. resolve_uint (eval_primary (expr_fuel + n)) ctx s = Some (r, ctx'))"
proof -
  obtain r ctx' where *: "resolve_uint (eval_primary expr_fuel) ctx s = Some (r, ctx')" "same_symbols ctx ctx'"
    using resolve_uint_returns [OF assms] by blast
  then have "resolve_uint (eval_primary (expr_fuel + n)) ctx s = Some (r, ctx')" for n
    using fuel.resolve_uint_more [of expr_fuel ctx s n] by (simp add: extends_def)
  then show ?thesis using *(2) by blast
qed

theorem expressions_return_witness:
  "let ctx = asm_start\<lparr>cx_defines := [new_define ''a'' ''-b'' 1, new_define ''b'' ''a + a'' 2]\<rparr>
   in \<exists>r ctx'. same_symbols ctx ctx' \<and> (\<forall>n. resolve_uint (eval_primary (expr_fuel + n)) ctx ''a'' = Some (r, ctx'))"
  unfolding Let_def by (rule expressions_return) (simp_all add: symbols_ok_def new_define_def)

text \<open>
  Long binary literals lose digits.  The scanner keeps 33 characters of a literal, one less than \<open>0b\<close>
  with 32 digits has: the last digit of a 32-digit binary literal is dropped without an error, so
  that a literal with all bits set evaluates to \<open>0x7FFFFFFF\<close>, although \<open>parse_uint\<close> accepts it.
\<close>

lemma long_binary_literal_truncated:
  "let s = ''0b'' @ replicate 32 (CHR ''1'')
   in parse_uint s = Some 0xFFFFFFFF \<and> fst (eval_uint asm_start s) = Some 0x7FFFFFFF"
proof -
  let ?s = "''0b'' @ replicate 32 (CHR ''1'')"
  have "parse_uint ?s = Some 0xFFFFFFFF" by code_simp
  moreover have "map_option fst (resolve_uint (eval_primary 1) asm_start ?s) = Some (Some 0x7FFFFFFF)"
    by code_simp
  then have "fst (eval_uint asm_start ?s) = Some 0x7FFFFFFF"
    using eval_uint_from [of 1 asm_start ?s] by (auto simp: expr_fuel_def)
  ultimately show ?thesis by simp
qed

end
