(* ===== verification/Asm_Grammar.thy ===== *)
theory Asm_Grammar
  imports Asm_Eval
begin

text \<open>
  What an expression means.  Expressions are given as trees with a value, in the 64-bit arithmetic of the
  assembler, and printed with the parentheses that the documented precedence asks for; the
  evaluator of \<open>lib/src/pio_asm.c\<close>, whose loops compute while they scan, returns that value for the printed
  text, whatever blanks stand between its tokens.
\<close>

section \<open>Trees and their values\<close>

datatype binop = Op_And | Op_Or | Op_Xor | Op_Mul | Op_Div | Op_Add | Op_Sub | Op_Shl | Op_Shr

datatype asm_expr =
    Lit string
  | Sym string
  | Neg asm_expr
  | Bin binop asm_expr asm_expr
  | Rev asm_expr

text \<open>The documented precedence, tightest first; literals, symbols and parentheses are tier 0.\<close>

fun op_tier :: "binop \<Rightarrow> nat" where
  "op_tier Op_And = 1" | "op_tier Op_Or = 1" | "op_tier Op_Xor = 1"
| "op_tier Op_Mul = 2" | "op_tier Op_Div = 2"
| "op_tier Op_Add = 3" | "op_tier Op_Sub = 3"
| "op_tier Op_Shl = 4" | "op_tier Op_Shr = 4"

fun op_text :: "binop \<Rightarrow> string" where
  "op_text Op_And = ''&''" | "op_text Op_Or = ''|''" | "op_text Op_Xor = ''^''"
| "op_text Op_Mul = ''*''" | "op_text Op_Div = ''/''"
| "op_text Op_Add = ''+''" | "op_text Op_Sub = ''-''"
| "op_text Op_Shl = ''<<''" | "op_text Op_Shr = ''>>''"

text \<open>Two's complement arithmetic that wraps; a division by zero and a shift by more than 63 have no value.\<close>

fun op_value :: "binop \<Rightarrow> u64 \<Rightarrow> u64 \<Rightarrow> u64 option" where
  "op_value Op_And x y = Some (x AND y)"
| "op_value Op_Or x y = Some (x OR y)"
| "op_value Op_Xor x y = Some (x XOR y)"
| "op_value Op_Mul x y = Some (x * y)"
| "op_value Op_Div x y = (if y = 0 then None else Some (word_of_int (sint x sdiv sint y)))"
| "op_value Op_Add x y = Some (x + y)"
| "op_value Op_Sub x y = Some (x - y)"
| "op_value Op_Shl x y = (if y < 64 then Some (push_bit (unat y) x) else None)"
| "op_value Op_Shr x y = (if y < 64 then Some (drop_bit (unat y) x) else None)"

text \<open>The value of a tree, given the values of the symbols.\<close>

fun expr_value :: "(string \<Rightarrow> u32 option) \<Rightarrow> asm_expr \<Rightarrow> u64 option" where
  "expr_value env (Lit s) = map_option ucast (parse_uint s)"
| "expr_value env (Sym s) = map_option ucast (env s)"
| "expr_value env (Neg a) = map_option uminus (expr_value env a)"
| "expr_value env (Bin o1 a b) = Option.bind (expr_value env a) (\<lambda>x. Option.bind (expr_value env b) (op_value o1 x))"
| "expr_value env (Rev a) = map_option (\<lambda>x. ucast (pio_reverse32 (ucast x))) (expr_value env a)"

section \<open>Printing\<close>

text \<open>
  The text of a tree, with \<open>ws\<close> before every token, where operators of tier at most \<open>t\<close> may stand without
  parentheses.  Operators associate to the left; a minus sign takes a product.
\<close>

definition enclose :: "string \<Rightarrow> nat \<Rightarrow> nat \<Rightarrow> string \<Rightarrow> string" where
  "enclose ws t k s = (if k \<le> t then s else ws @ CHR ''('' # s @ ws @ '')'')"

fun show_expr :: "string \<Rightarrow> nat \<Rightarrow> asm_expr \<Rightarrow> string" where
  "show_expr ws t (Lit s) = ws @ s"
| "show_expr ws t (Sym s) = ws @ s"
| "show_expr ws t (Neg a) = enclose ws t 3 (ws @ CHR ''-'' # show_expr ws 2 a)"
| "show_expr ws t (Bin o1 a b) = enclose ws t (op_tier o1)
     (show_expr ws (op_tier o1) a @ ws @ op_text o1 @ show_expr ws (op_tier o1 - 1) b)"
| "show_expr ws t (Rev a) = enclose ws t 5 (ws @ ''::'' @ show_expr ws 5 a)"

text \<open>The levels of parentheses and \<open>::\<close> in the text.\<close>

definition level :: "nat \<Rightarrow> nat \<Rightarrow> nat" where
  "level t k = (if k \<le> t then 0 else 1)"

fun levels :: "nat \<Rightarrow> asm_expr \<Rightarrow> nat" where
  "levels t (Lit s) = 0"
| "levels t (Sym s) = 0"
| "levels t (Neg a) = level t 3 + levels 2 a"
| "levels t (Bin o1 a b) = level t (op_tier o1) + max (levels (op_tier o1) a) (levels (op_tier o1 - 1) b)"
| "levels t (Rev a) = level t 5 + Suc (levels 5 a)"

text \<open>The tokens are what the scanner takes as a literal and as a symbol.\<close>

fun tokens_ok :: "asm_expr \<Rightarrow> bool" where
  "tokens_ok (Lit s) \<longleftrightarrow> s \<noteq> [] \<and> CHR ''0'' \<le> hd s \<and> hd s \<le> CHR ''9'' \<and> list_all num_char s \<and> length s \<le> 33"
| "tokens_ok (Sym s) \<longleftrightarrow> s \<noteq> [] \<and> id_start (hd s) \<and> list_all id_char s \<and> length s \<le> 31"
| "tokens_ok (Neg a) \<longleftrightarrow> tokens_ok a"
| "tokens_ok (Bin o1 a b) \<longleftrightarrow> tokens_ok a \<and> tokens_ok b"
| "tokens_ok (Rev a) \<longleftrightarrow> tokens_ok a"

section \<open>Reading a piece of text\<close>

definition gap :: "char \<Rightarrow> bool" where
  "gap c \<longleftrightarrow> c = CHR '' '' \<or> c = CHR 0x09"

definition skip_blanks :: "string \<Rightarrow> string" where
  "skip_blanks s = dropWhile gap s"

definition op_in :: "nat \<Rightarrow> string \<Rightarrow> binop option" where
  "op_in t s = List.find (\<lambda>o1. op_tier o1 = t \<and> take (length (op_text o1)) s = op_text o1)
     [Op_And, Op_Or, Op_Xor, Op_Mul, Op_Div, Op_Add, Op_Sub, Op_Shl, Op_Shr]"

text \<open>The rest of the text neither continues a token nor, up to tier \<open>t\<close>, the expression.\<close>

definition clean :: "string \<Rightarrow> bool" where
  "clean rest \<longleftrightarrow> rest = [] \<or> \<not> id_char (hd rest)"

definition stops :: "nat \<Rightarrow> string \<Rightarrow> bool" where
  "stops t rest \<longleftrightarrow> (\<forall>u\<le>t. op_in u (skip_blanks rest) = None)"

text \<open>
  After reading a text of value \<open>v\<close>, the evaluator stands before the rest, up to blanks, and has failed when
  there is no value.  The contexts satisfy \<open>I\<close> throughout.
\<close>

definition leaves :: "(asm_ctx_t \<Rightarrow> bool) \<Rightarrow> expr_t \<Rightarrow> string \<Rightarrow> u64 option \<Rightarrow> u64 \<Rightarrow> expr_t \<Rightarrow> bool" where
  "leaves I e rest v x e' \<longleftrightarrow> I (e_ctx e') \<and> e_depth e' = e_depth e \<and>
     skip_blanks (e_p e') = skip_blanks rest \<and> e_ok e' = (e_ok e \<and> v \<noteq> None) \<and> (case v of None \<Rightarrow> True | Some y \<Rightarrow> x = y)"

definition reads :: "(asm_ctx_t \<Rightarrow> bool) \<Rightarrow> nat \<Rightarrow> nat \<Rightarrow> evaluator \<Rightarrow> string \<Rightarrow> u64 option \<Rightarrow> bool" where
  "reads I d t f s v \<longleftrightarrow> (\<forall>e rest. I (e_ctx e) \<longrightarrow> e_depth e + d \<le> EXPR_MAX_DEPTH \<longrightarrow> skip_blanks (e_p e) = skip_blanks (s @ rest) \<longrightarrow>
     clean rest \<longrightarrow> stops t rest \<longrightarrow> (\<exists>x e'. f e = Some (x, e') \<and> leaves I e rest v x e'))"

lemma readsI:
  assumes "\<And>e rest. I (e_ctx e) \<Longrightarrow> e_depth e + d \<le> EXPR_MAX_DEPTH \<Longrightarrow> skip_blanks (e_p e) = skip_blanks (s @ rest) \<Longrightarrow> clean rest \<Longrightarrow>
    stops t rest \<Longrightarrow> \<exists>x e'. f e = Some (x, e') \<and> leaves I e rest v x e'"
  shows "reads I d t f s v"
  using assms by (simp add: reads_def)

lemma readsE:
  assumes "reads I d t f s v" "I (e_ctx e)" "e_depth e + d \<le> EXPR_MAX_DEPTH" "skip_blanks (e_p e) = skip_blanks (s @ rest)" "clean rest" "stops t rest"
  obtains x e' where "f e = Some (x, e')" "leaves I e rest v x e'"
  using assms unfolding reads_def by blast

lemma skip_blanks_e_p [simp]: "e_p (expr_skip_ws e) = skip_blanks (e_p e)"
  by (simp add: expr_skip_ws_def skip_blanks_def gap_def [abs_def])

lemma expr_skip_ws_fields [simp]:
  "e_ctx (expr_skip_ws e) = e_ctx e" "e_ok (expr_skip_ws e) = e_ok e" "e_depth (expr_skip_ws e) = e_depth e"
  by (simp_all add: expr_skip_ws_def)

lemma e_skip_fields [simp]:
  "e_ctx (e_skip k e) = e_ctx e" "e_ok (e_skip k e) = e_ok e" "e_depth (e_skip k e) = e_depth e" "e_p (e_skip k e) = drop k (e_p e)"
  by (simp_all add: e_skip_def)

lemma e_fail_fields [simp]:
  "e_ctx (e_fail e) = e_ctx e" "e_ok (e_fail e) = False" "e_depth (e_fail e) = e_depth e" "e_p (e_fail e) = e_p e"
  by (simp_all add: e_fail_def)

lemma skip_blanks_idem [simp]: "skip_blanks (skip_blanks s) = skip_blanks s"
  by (simp add: skip_blanks_def)

lemma skip_blanks_ws: "list_all gap ws \<Longrightarrow> skip_blanks (ws @ s) = skip_blanks s"
  by (induction ws) (auto simp: skip_blanks_def)

lemma skip_blanks_Cons [simp]: "\<not> gap c \<Longrightarrow> skip_blanks (c # s) = c # s"
  by (simp add: skip_blanks_def)

lemma skip_blanks_length: "length (skip_blanks s) \<le> length s"
  by (simp add: skip_blanks_def length_dropWhile_le)

lemma id_chars: "num_char c \<Longrightarrow> id_char c" "\<not> id_char (CHR 0x00)" "id_char c \<Longrightarrow> \<not> gap c"
  by (auto simp: num_char_def id_char_def id_start_def gap_def less_eq_char_def)

lemma clean_ws: "list_all gap ws \<Longrightarrow> \<not> id_char c \<Longrightarrow> clean (ws @ c # s)"
  by (cases ws) (auto simp: clean_def dest: id_chars(3))

lemma op_in_text [simp]: "op_in t (op_text o1 @ s) = (if t = op_tier o1 then Some o1 else None)"
  by (cases o1) (auto simp: op_in_def)

lemma op_text_first: "\<exists>c s. op_text o1 = c # s \<and> \<not> gap c \<and> \<not> id_char c"
  by (cases o1) (auto simp: gap_def id_char_def id_start_def less_eq_char_def)

lemma op_in_none [simp]: "op_in t [] = None" "op_in t (CHR '')'' # s) = None"
  by (simp_all add: op_in_def)

section \<open>A tier of binary operators\<close>

definition apply_op :: "binop \<Rightarrow> expr_t \<Rightarrow> u64 \<Rightarrow> u64 \<Rightarrow> u64 \<times> expr_t" where
  "apply_op o1 e x r = (case o1 of
       Op_And \<Rightarrow> (x AND r, e) | Op_Or \<Rightarrow> (x OR r, e) | Op_Xor \<Rightarrow> (x XOR r, e) | Op_Mul \<Rightarrow> (x * r, e)
     | Op_Div \<Rightarrow> expr_do_div e x r | Op_Add \<Rightarrow> (x + r, e) | Op_Sub \<Rightarrow> (x - r, e)
     | Op_Shl \<Rightarrow> expr_do_shift e x r True | Op_Shr \<Rightarrow> expr_do_shift e x r False)"

text \<open>The branch for the smallest number divided by -1 gives what wrapping gives.\<close>

lemma div_wraps: "word_of_int (sint (0x8000000000000000 :: u64) sdiv sint (- 1 :: u64)) = (0x8000000000000000 :: u64)"
  by (simp add: signed_divide_int_def)

lemma shift_count: "sint (k :: u64) < 0 \<or> 63 < sint k \<longleftrightarrow> \<not> k < 64"
proof -
  have "uint k div 2 ^ 63 = 1" if "\<not> uint k < 2 ^ 63" using that uint_lt2p [of k] by simp
  then have "sint k = (if uint k < 2 ^ 63 then uint k else uint k - 2 ^ 64)"
    using uint_lt2p [of k] by (simp add: sint_uint signed_take_bit_eq_take_bit_minus take_bit_int_eq_self bit_iff_odd)
  then show ?thesis using uint_lt2p [of k] by (auto simp: word_less_def)
qed

lemma apply_op_state:
  "e_ctx (snd (apply_op o1 e x y)) = e_ctx e" "e_depth (snd (apply_op o1 e x y)) = e_depth e"
  "e_p (snd (apply_op o1 e x y)) = e_p e"
  by (simp_all add: apply_op_def expr_do_div_def expr_do_shift_def split: binop.split)

lemma apply_op_value:
  "e_ok (snd (apply_op o1 e x y)) = (e_ok e \<and> op_value o1 x y \<noteq> None)"
  "op_value o1 x y = Some z \<Longrightarrow> fst (apply_op o1 e x y) = z"
  using shift_count [of y] div_wraps
  by (auto simp: apply_op_def expr_do_div_def expr_do_shift_def split: binop.split if_splits)

text \<open>A text that may be followed by operators of the tier: after it, the loop goes on with its value.\<close>

definition continues :: "nat \<Rightarrow> evaluator \<Rightarrow> (nat \<Rightarrow> u64 \<Rightarrow> evaluator) \<Rightarrow> (asm_ctx_t \<Rightarrow> bool) \<Rightarrow> nat \<Rightarrow> string \<Rightarrow> u64 option \<Rightarrow> bool" where
  "continues t F loop I d s v \<longleftrightarrow> (\<forall>e rest. I (e_ctx e) \<longrightarrow> e_depth e + d \<le> EXPR_MAX_DEPTH \<longrightarrow> skip_blanks (e_p e) = skip_blanks (s @ rest) \<longrightarrow>
     clean rest \<longrightarrow> stops (t - 1) rest \<longrightarrow>
     (\<exists>k x e'. length (skip_blanks rest) < k \<and> F e = loop k x e' \<and> leaves I e rest v x e'))"

lemma continuesE:
  assumes "continues t F loop I d s v" "I (e_ctx e)" "e_depth e + d \<le> EXPR_MAX_DEPTH" "skip_blanks (e_p e) = skip_blanks (s @ rest)" "clean rest"
    "stops (t - 1) rest"
  obtains k x e' where "length (skip_blanks rest) < k" "F e = loop k x e'" "leaves I e rest v x e'"
  using assms unfolding continues_def by blast

text \<open>
  An operand, then a loop over the operators of the tier.
\<close>

locale binary_tier =
  fixes t :: nat and f F :: evaluator and loop :: "nat \<Rightarrow> u64 \<Rightarrow> evaluator"
  assumes tier: "0 < t"
    and start: "F e = Option.bind (f e) (\<lambda>(x, e). loop (length (e_p e) + 1) x e)"
    and step: "loop (Suc k) x e = (let e = expr_skip_ws e in case op_in t (e_p e) of
        None \<Rightarrow> Some (x, e)
      | Some o1 \<Rightarrow> Option.bind (f (e_skip (length (op_text o1)) e)) (\<lambda>(r, e).
          let (x, e) = apply_op o1 e x r in loop k x e))"
begin

lemma operand_continues:
  assumes "reads I d (t - 1) f s v"
  shows "continues t F loop I d s v"
  unfolding continues_def
proof (intro allI impI)
  fix e :: expr_t and rest
  assume "I (e_ctx e)" "e_depth e + d \<le> EXPR_MAX_DEPTH" "skip_blanks (e_p e) = skip_blanks (s @ rest)" "clean rest" "stops (t - 1) rest"
  then obtain x e' where *: "f e = Some (x, e')" "leaves I e rest v x e'" by (rule readsE [OF assms])
  then have "length (skip_blanks rest) < length (e_p e') + 1"
    using skip_blanks_length [of "e_p e'"] by (simp add: leaves_def)
  then show "\<exists>k x e'. length (skip_blanks rest) < k \<and> F e = loop k x e' \<and> leaves I e rest v x e'"
    using * start [of e] by auto
qed

text \<open>The tier adds nothing to an operand after which none of its operators can stand.\<close>

lemma operand_reads:
  assumes "reads I d u f s v" "t \<le> u"
  shows "reads I d u F s v"
proof (rule readsI)
  fix e :: expr_t and rest
  assume e: "I (e_ctx e)" "e_depth e + d \<le> EXPR_MAX_DEPTH" "skip_blanks (e_p e) = skip_blanks (s @ rest)" "clean rest"
    and stop: "stops u rest"
  then obtain x e' where *: "f e = Some (x, e')" "leaves I e rest v x e'" by (rule readsE [OF assms(1)])
  have "op_in t (skip_blanks (e_p e')) = None" using *(2) stop assms(2) by (simp add: leaves_def stops_def)
  then have "F e = Some (x, expr_skip_ws e')" using *(1) by (simp add: start step)
  moreover have "leaves I e rest v x (expr_skip_ws e')" using *(2) by (simp add: leaves_def)
  ultimately show "\<exists>x e'. F e = Some (x, e') \<and> leaves I e rest v x e'" by blast
qed

lemma continues_reads:
  assumes "continues t F loop I d s v"
  shows "reads I d t F s v"
proof (rule readsI)
  fix e :: expr_t and rest
  assume *: "I (e_ctx e)" "e_depth e + d \<le> EXPR_MAX_DEPTH" "skip_blanks (e_p e) = skip_blanks (s @ rest)" "clean rest" and stop: "stops t rest"
  moreover have "stops (t - 1) rest" using stop by (simp add: stops_def)
  ultimately obtain k x e' where k: "length (skip_blanks rest) < k" and e': "F e = loop k x e'" "leaves I e rest v x e'"
    using continuesE [OF assms] by blast
  obtain k' where "k = Suc k'" using k by (cases k) auto
  moreover have "op_in t (skip_blanks (e_p e')) = None" using e'(2) stop by (simp add: leaves_def stops_def)
  ultimately have "F e = Some (x, expr_skip_ws e')" using e'(1) by (simp add: step)
  moreover have "leaves I e rest v x (expr_skip_ws e')" using e'(2) by (simp add: leaves_def)
  ultimately show "\<exists>x e'. F e = Some (x, e') \<and> leaves I e rest v x e'" by blast
qed

lemma chain:
  assumes ws: "list_all gap ws" and op: "op_tier o1 = t"
    and a: "continues t F loop I da sa va" and b: "reads I db (t - 1) f sb vb"
  shows "continues t F loop I (max da db) (sa @ ws @ op_text o1 @ sb) (Option.bind va (\<lambda>x. Option.bind vb (op_value o1 x)))"
  unfolding continues_def
proof (intro allI impI)
  fix e :: expr_t and rest
  let ?v = "Option.bind va (\<lambda>x. Option.bind vb (op_value o1 x))" and ?rest = "ws @ op_text o1 @ sb @ rest"
  assume e: "I (e_ctx e)" "e_depth e + max da db \<le> EXPR_MAX_DEPTH" "skip_blanks (e_p e) = skip_blanks ((sa @ ws @ op_text o1 @ sb) @ rest)"
    and rest: "clean rest" "stops (t - 1) rest"
  obtain c s where tx: "op_text o1 = c # s" "\<not> gap c" "\<not> id_char c" using op_text_first by blast
  have skip: "skip_blanks ?rest = op_text o1 @ sb @ rest" using ws tx by (simp add: skip_blanks_ws)
  have "clean ?rest" using ws tx by (simp add: clean_ws)
  moreover have "stops (t - 1) ?rest" unfolding stops_def skip using op tier by auto
  ultimately obtain k x e1 where k: "length (skip_blanks ?rest) < k" and e1: "F e = loop k x e1" "leaves I e ?rest va x e1"
    using e by (auto intro: continuesE [OF a, of e ?rest])
  obtain k' where k': "k = Suc k'" "length (skip_blanks rest) < k'"
    using k skip tx(1) skip_blanks_length [of rest] by (cases k) auto
  let ?e = "e_skip (length (op_text o1)) (expr_skip_ws e1)"
  have p: "e_p (expr_skip_ws e1) = op_text o1 @ sb @ rest" using e1(2) skip by (simp add: leaves_def)
  have "I (e_ctx ?e)" "e_depth ?e + db \<le> EXPR_MAX_DEPTH" "skip_blanks (e_p ?e) = skip_blanks (sb @ rest)"
    using e1(2) e(2) p by (simp_all add: leaves_def)
  then obtain y e2 where e2: "f ?e = Some (y, e2)" "leaves I ?e rest vb y e2" using rest by (rule readsE [OF b])
  let ?r = "apply_op o1 e2 x y"
  have "F e = loop k' (fst ?r) (snd ?r)" using e1(1) k'(1) p e2(1) op by (simp add: step Let_def split_beta)
  moreover have "leaves I e rest ?v (fst ?r) (snd ?r)"
    using e1(2) e2(2) by (cases va; cases vb) (auto simp: leaves_def apply_op_state apply_op_value split: option.splits)
  ultimately show "\<exists>k x e'. length (skip_blanks rest) < k \<and> F e = loop k x e' \<and> leaves I e rest ?v x e'"
    using k'(2) by blast
qed

end

interpretation bit_tier: binary_tier 1 prim "expr_bit prim" "\<lambda>k. expr_bit_loop k prim" for prim
  by unfold_locales
    (auto simp: expr_bit_def op_in_def apply_op_def bit_op_def Let_def chr_at_def split: list.split)

interpretation mul_tier: binary_tier 2 "expr_bit prim" "expr_mul prim" "\<lambda>k. expr_mul_loop k prim" for prim
  by unfold_locales
    (auto simp: expr_mul_def op_in_def apply_op_def Let_def chr_at_def split: list.split)

interpretation add_tier: binary_tier 3 "expr_mul prim" "expr_add prim" "\<lambda>k. expr_add_loop k prim" for prim
  by unfold_locales
    (auto simp: expr_add_def op_in_def apply_op_def Let_def chr_at_def split: list.split)

interpretation shift_tier: binary_tier 4 "expr_add prim" "expr_shift prim" "\<lambda>k. expr_shift_loop k prim" for prim
  by unfold_locales
    (auto simp: expr_shift_def op_in_def apply_op_def Let_def numeral_2_eq_2)

section \<open>The whole grammar\<close>

definition tier_fn :: "nat \<Rightarrow> evaluator \<Rightarrow> evaluator" where
  "tier_fn t prim = (if t = 0 then prim else if t = 1 then expr_bit prim else if t = 2 then expr_mul prim
     else if t = 3 then expr_add prim else expr_shift prim)"

definition tier_loop :: "nat \<Rightarrow> evaluator \<Rightarrow> nat \<Rightarrow> u64 \<Rightarrow> evaluator" where
  "tier_loop t prim k = (if t = 1 then expr_bit_loop k prim else if t = 2 then expr_mul_loop k prim
     else if t = 3 then expr_add_loop k prim else expr_shift_loop k prim)"

lemma tiers:
  assumes "0 < t" "t \<le> 4"
  shows "binary_tier t (tier_fn (t - 1) prim) (tier_fn t prim) (tier_loop t prim)"
proof -
  have "t = 1 \<or> t = 2 \<or> t = 3 \<or> t = 4" using assms by linarith
  then show ?thesis
    using bit_tier.binary_tier_axioms mul_tier.binary_tier_axioms add_tier.binary_tier_axioms shift_tier.binary_tier_axioms
    by (auto simp: tier_fn_def tier_loop_def [abs_def])
qed

text \<open>How a text is read at a tier, with some fuel; tier 5 is \<open>expr_reverse\<close>.\<close>

definition parses :: "(asm_ctx_t \<Rightarrow> bool) \<Rightarrow> nat \<Rightarrow> nat \<Rightarrow> nat \<Rightarrow> string \<Rightarrow> u64 option \<Rightarrow> bool" where
  "parses I n t d s v \<longleftrightarrow>
     (if t = 0 then reads I d 0 (eval_primary n) s v
      else if t \<le> 4 then continues t (tier_fn t (eval_primary n)) (tier_loop t (eval_primary n)) I d s v
      else reads I (Suc d) 4 (expr_reverse (eval_primary n)) s v)"

definition opens :: "string \<Rightarrow> bool" where
  "opens s \<longleftrightarrow> (\<exists>c r. skip_blanks s = c # r \<and> c \<noteq> CHR '':'')"

lemma parses_reads: "parses I n t d s v \<Longrightarrow> t \<le> 4 \<Longrightarrow> reads I d t (tier_fn t (eval_primary n)) s v"
  using binary_tier.continues_reads [OF tiers [of t]] by (auto simp: parses_def tier_fn_def)

lemma parses_lift: "parses I n t d s v \<Longrightarrow> t < 4 \<Longrightarrow> parses I n (Suc t) d s v"
  using binary_tier.operand_continues [OF tiers [of "Suc t"]] parses_reads [of I n t d s v] by (simp add: parses_def)

lemma parses_lift_le: "parses I n k d s v \<Longrightarrow> k \<le> t \<Longrightarrow> t \<le> 4 \<Longrightarrow> parses I n t d s v"
  by (induction t) (auto simp: le_Suc_eq intro: parses_lift)

lemma parses_bin:
  assumes "list_all gap ws" "parses I n (op_tier o1) da sa va" "parses I n (op_tier o1 - 1) db sb vb"
  shows "parses I n (op_tier o1) (max da db) (sa @ ws @ op_text o1 @ sb) (Option.bind va (\<lambda>x. Option.bind vb (op_value o1 x)))"
proof -
  have t: "0 < op_tier o1" "op_tier o1 \<le> 4" by (cases o1; simp)+
  show ?thesis
    using binary_tier.chain [OF tiers [OF t] assms(1) refl, where I = I and da = da and sa = sa and va = va and db = db and sb = sb and vb = vb] parses_reads [OF assms(3)] assms(2) t
    by (simp add: parses_def)
qed

lemma leaves_same:
  "leaves I e1 rest v x e' \<Longrightarrow> e_depth e1 = e_depth e \<Longrightarrow> e_ok e1 = e_ok e \<Longrightarrow> leaves I e rest v x e'"
  by (simp add: leaves_def)

subsection \<open>The loosest tier\<close>

lemma skip_blanks_append: "skip_blanks s = c # q \<Longrightarrow> skip_blanks (s @ rest) = c # q @ rest"
  by (induction s) (auto simp: skip_blanks_def split: if_splits)

lemma reverse_from_any:
  "EXPR_MAX_DEPTH < e_depth e + k \<Longrightarrow> EXPR_MAX_DEPTH < e_depth e + k' \<Longrightarrow> 0 < k \<Longrightarrow> 0 < k' \<Longrightarrow>
   expr_reverse_from k prim e = expr_reverse_from k' prim e"
proof (induction k arbitrary: e k')
  case (Suc k)
  obtain m where m: "k' = Suc m" using Suc.prems(4) by (cases k') auto
  show ?case
  proof (cases "EXPR_MAX_DEPTH < e_depth e + 1")
    case False
    then have "expr_reverse_from k prim (e_skip 2 (expr_skip_ws (e\<lparr>e_depth := e_depth e + 1\<rparr>))) =
        expr_reverse_from m prim (e_skip 2 (expr_skip_ws (e\<lparr>e_depth := e_depth e + 1\<rparr>)))"
      using Suc.prems m by (intro Suc.IH) auto
    then show ?thesis by (simp add: m Let_def)
  qed (simp add: m)
qed simp

lemma reverse_step:
  assumes "e_depth e < EXPR_MAX_DEPTH"
  shows "expr_reverse prim e = (let e = expr_skip_ws (e\<lparr>e_depth := e_depth e + 1\<rparr>)
    in map_option (\<lambda>(x, e). (x, e\<lparr>e_depth := e_depth e - 1\<rparr>))
         (if take 2 (e_p e) = ''::''
          then map_option (\<lambda>(x, e). (ucast (pio_reverse32 (ucast x)), e)) (expr_reverse prim (e_skip 2 e))
          else expr_shift prim e))"
proof -
  let ?e = "expr_skip_ws (e\<lparr>e_depth := e_depth e + 1\<rparr>)"
  have "expr_reverse_from EXPR_MAX_DEPTH prim (e_skip 2 ?e) = expr_reverse prim (e_skip 2 ?e)"
    unfolding expr_reverse_def by (rule reverse_from_any) simp_all
  then show ?thesis
    using assms unfolding expr_reverse_def [of _ e] Suc_eq_plus1 [symmetric] expr_reverse_from.simps by (simp add: Let_def)
qed

lemma reverse_text:
  assumes "parses I n 5 d s v" "list_all gap ws"
  shows "parses I n 5 (Suc d) (ws @ ''::'' @ s) (map_option (\<lambda>x. ucast (pio_reverse32 (ucast x))) v)"
proof -
  let ?f = "\<lambda>x :: u64. ucast (pio_reverse32 (ucast x)) :: u64"
  have r: "reads I (Suc d) 4 (expr_reverse (eval_primary n)) s v" using assms(1) by (simp add: parses_def)
  have "reads I (Suc (Suc d)) 4 (expr_reverse (eval_primary n)) (ws @ ''::'' @ s) (map_option ?f v)"
  proof (rule readsI)
    fix e :: expr_t and rest
    let ?e = "expr_skip_ws (e\<lparr>e_depth := e_depth e + 1\<rparr>)"
    assume e: "I (e_ctx e)" "e_depth e + Suc (Suc d) \<le> EXPR_MAX_DEPTH" "skip_blanks (e_p e) = skip_blanks ((ws @ ''::'' @ s) @ rest)"
      and rest: "clean rest" "stops 4 rest"
    have p: "e_p ?e = CHR '':'' # CHR '':'' # s @ rest" using e(3) by (simp add: skip_blanks_ws assms(2) gap_def)
    have "I (e_ctx (e_skip 2 ?e))" "e_depth (e_skip 2 ?e) + Suc d \<le> EXPR_MAX_DEPTH"
      "skip_blanks (e_p (e_skip 2 ?e)) = skip_blanks (s @ rest)"
      using e p by simp_all
    then obtain x e' where *: "expr_reverse (eval_primary n) (e_skip 2 ?e) = Some (x, e')" "leaves I (e_skip 2 ?e) rest v x e'"
      using rest by (rule readsE [OF r])
    have "expr_reverse (eval_primary n) e = Some (?f x, e'\<lparr>e_depth := e_depth e' - 1\<rparr>)"
      using *(1) e(2) p by (simp add: reverse_step [of e] Let_def del: skip_blanks_e_p)
    moreover have "leaves I e rest (map_option ?f v) (?f x) (e'\<lparr>e_depth := e_depth e' - 1\<rparr>)"
      using *(2) by (auto simp: leaves_def split: option.splits)
    ultimately show "\<exists>x e'. expr_reverse (eval_primary n) e = Some (x, e') \<and> leaves I e rest (map_option ?f v) x e'" by blast
  qed
  then show ?thesis by (simp add: parses_def)
qed

lemma reverse_plain:
  assumes "parses I n 4 d s v" "opens s"
  shows "parses I n 5 d s v"
proof -
  have r: "reads I d 4 (expr_shift (eval_primary n)) s v" using parses_reads [OF assms(1)] by (simp add: tier_fn_def)
  have "reads I (Suc d) 4 (expr_reverse (eval_primary n)) s v"
  proof (rule readsI)
    fix e :: expr_t and rest
    let ?e = "expr_skip_ws (e\<lparr>e_depth := e_depth e + 1\<rparr>)"
    assume e: "I (e_ctx e)" "e_depth e + Suc d \<le> EXPR_MAX_DEPTH" "skip_blanks (e_p e) = skip_blanks (s @ rest)"
      and rest: "clean rest" "stops 4 rest"
    have "I (e_ctx ?e)" "e_depth ?e + d \<le> EXPR_MAX_DEPTH" "skip_blanks (e_p ?e) = skip_blanks (s @ rest)"
      using e by simp_all
    then obtain x e' where *: "expr_shift (eval_primary n) ?e = Some (x, e')" "leaves I ?e rest v x e'"
      using rest by (rule readsE [OF r])
    obtain c q where "skip_blanks s = c # q" "c \<noteq> CHR '':''" using assms(2) by (auto simp: opens_def)
    then have "take 2 (e_p ?e) \<noteq> ''::''"
      using e(3) skip_blanks_append [of s c q rest] by simp
    then have "expr_reverse (eval_primary n) e = Some (x, e'\<lparr>e_depth := e_depth e' - 1\<rparr>)"
      using *(1) e(2) by (simp add: reverse_step [of e] Let_def)
    moreover have "leaves I e rest v x (e'\<lparr>e_depth := e_depth e' - 1\<rparr>)"
      using *(2) by (simp add: leaves_def)
    ultimately show "\<exists>x e'. expr_reverse (eval_primary n) e = Some (x, e') \<and> leaves I e rest v x e'" by blast
  qed
  then show ?thesis by (simp add: parses_def)
qed

lemma parses_loosen:
  "parses I n k d s v \<Longrightarrow> k \<le> t \<Longrightarrow> (k \<le> 4 \<Longrightarrow> opens s) \<Longrightarrow> t \<le> 5 \<Longrightarrow> parses I n t d s v"
  using parses_lift_le [of I n k d s v t] parses_lift_le [of I n k d s v 4] reverse_plain [of I n d s v]
  by (cases "t = 5"; cases "k = 5") auto

subsection \<open>Primary expressions\<close>

lemma takeWhile_clean: "list_all P s \<Longrightarrow> (\<And>c. P c \<Longrightarrow> id_char c) \<Longrightarrow> clean rest \<Longrightarrow> takeWhile P (s @ rest) = s"
  by (induction s; cases rest) (auto simp: clean_def)

lemma opens_token: "list_all gap ws \<Longrightarrow> id_char c \<Longrightarrow> opens (ws @ c # s)"
  by (auto simp: opens_def skip_blanks_ws id_chars(3)) (auto simp: id_char_def id_start_def less_eq_char_def)

lemma literal_text:
  assumes "tokens_ok (Lit s)" "list_all gap ws"
  shows "parses I (Suc n) 0 0 (ws @ s) (map_option ucast (parse_uint s))"
proof -
  obtain c q where s: "s = c # q" using assms(1) by (cases s) auto
  have c: "CHR ''0'' \<le> c" "c \<le> CHR ''9''" "num_char c" using assms(1) by (simp_all add: s)
  then have c': "c \<noteq> CHR ''-''" "c \<noteq> CHR ''(''" "\<not> gap c" using id_chars by (auto simp: less_eq_char_def)
  have "reads I 0 0 (eval_primary (Suc n)) (ws @ s) (map_option ucast (parse_uint s))"
  proof (rule readsI)
    fix e :: expr_t and rest
    assume e: "I (e_ctx e)" "skip_blanks (e_p e) = skip_blanks ((ws @ s) @ rest)" and rest: "clean rest"
    have p: "e_p (expr_skip_ws e) = s @ rest" using e(2) c'(3) by (simp add: skip_blanks_ws assms(2) s)
    moreover have "takeWhile num_char (s @ rest) = s"
      using assms(1) rest id_chars(1) by (simp add: takeWhile_clean)
    moreover have "take 33 s = s" using assms(1) by simp
    ultimately have "eval_primary (Suc n) e = Some (expr_literal (expr_skip_ws e))"
      and "expr_literal (expr_skip_ws e) = (case parse_uint s of None \<Rightarrow> (0, e_fail (e_skip (length s) (expr_skip_ws e)))
        | Some u \<Rightarrow> (ucast u, e_skip (length s) (expr_skip_ws e)))"
      using c c' by (simp_all add: expr_primary_def expr_literal_def Let_def chr_at_def s [symmetric] del: skip_blanks_e_p) (simp_all add: s)
    then show "\<exists>x e'. eval_primary (Suc n) e = Some (x, e') \<and> leaves I e rest (map_option ucast (parse_uint s)) x e'"
      using e(1) p by (cases "parse_uint s") (auto simp: leaves_def)
  qed
  then show ?thesis by (simp add: parses_def)
qed

lemma paren_text:
  assumes "parses I n 5 d s v" "list_all gap ws"
  shows "parses I (Suc n) 0 (Suc d) (ws @ CHR ''('' # s @ ws @ '')'') v"
proof -
  let ?s = "ws @ CHR ''('' # s @ ws @ '')''"
  have r: "reads I (Suc d) 4 (expr_reverse (eval_primary n)) s v" using assms(1) by (simp add: parses_def)
  have "reads I (Suc d) 0 (eval_primary (Suc n)) ?s v"
  proof (rule readsI)
    fix e :: expr_t and rest
    let ?e = "e_skip 1 (expr_skip_ws e)" and ?rest = "ws @ CHR '')'' # rest"
    assume e: "I (e_ctx e)" "e_depth e + Suc d \<le> EXPR_MAX_DEPTH" "skip_blanks (e_p e) = skip_blanks (?s @ rest)"
    have skip: "skip_blanks ?rest = CHR '')'' # rest" by (simp add: skip_blanks_ws assms(2) gap_def)
    have p: "e_p (expr_skip_ws e) = CHR ''('' # s @ ?rest" using e(3) by (simp add: skip_blanks_ws assms(2) gap_def)
    have "I (e_ctx ?e)" "e_depth ?e + Suc d \<le> EXPR_MAX_DEPTH" "skip_blanks (e_p ?e) = skip_blanks (s @ ?rest)"
      using e p by simp_all
    moreover have "clean ?rest" by (rule clean_ws [OF assms(2)]) (simp add: id_char_def id_start_def less_eq_char_def)
    moreover have "stops 4 ?rest" by (simp add: stops_def skip)
    ultimately obtain x e' where *: "expr_reverse (eval_primary n) ?e = Some (x, e')" "leaves I ?e ?rest v x e'"
      by (rule readsE [OF r])
    have "e_p (expr_skip_ws e') = CHR '')'' # rest" using *(2) skip by (simp add: leaves_def)
    then have "eval_primary (Suc n) e = Some (x, e_skip 1 (expr_skip_ws e'))" "e_p (e_skip 1 (expr_skip_ws e')) = rest"
      using *(1) p by (simp_all add: expr_primary_def Let_def chr_at_def del: skip_blanks_e_p)
    moreover have "leaves I e rest v x (e_skip 1 (expr_skip_ws e'))"
      using *(2) calculation(2) by (simp add: leaves_def)
    ultimately show "\<exists>x e'. eval_primary (Suc n) e = Some (x, e') \<and> leaves I e rest v x e'" by blast
  qed
  then show ?thesis by (simp add: parses_def)
qed

text \<open>A minus sign is read by \<open>expr_primary\<close>, but takes a product: nothing of tier 1 or 2 may follow.\<close>

lemma minus_text:
  assumes "parses I n 2 d s v" "list_all gap ws"
  shows "parses I (Suc n) 3 d (ws @ CHR ''-'' # s) (map_option uminus v)"
proof -
  let ?s = "ws @ CHR ''-'' # s" and ?v = "map_option uminus v"
  have r: "reads I d 2 (expr_mul (eval_primary n)) s v" using parses_reads [OF assms(1)] by (simp add: tier_fn_def)
  have "reads I d 2 (eval_primary (Suc n)) ?s ?v"
  proof (rule readsI)
    fix e :: expr_t and rest
    let ?e = "e_skip 1 (expr_skip_ws e)"
    assume e: "I (e_ctx e)" "e_depth e + d \<le> EXPR_MAX_DEPTH" "skip_blanks (e_p e) = skip_blanks (?s @ rest)"
      and rest: "clean rest" "stops 2 rest"
    have p: "e_p (expr_skip_ws e) = CHR ''-'' # s @ rest" using e(3) by (simp add: skip_blanks_ws assms(2) gap_def)
    have "I (e_ctx ?e)" "e_depth ?e + d \<le> EXPR_MAX_DEPTH" "skip_blanks (e_p ?e) = skip_blanks (s @ rest)"
      using e p by simp_all
    then obtain x e' where *: "expr_mul (eval_primary n) ?e = Some (x, e')" "leaves I ?e rest v x e'"
      using rest by (rule readsE [OF r])
    then have "eval_primary (Suc n) e = Some (- x, e')"
      using p by (simp add: expr_primary_def Let_def chr_at_def del: skip_blanks_e_p)
    moreover have "leaves I e rest ?v (- x) e'"
      using *(2) by (auto simp: leaves_def split: option.splits)
    ultimately show "\<exists>x e'. eval_primary (Suc n) e = Some (x, e') \<and> leaves I e rest ?v x e'" by blast
  qed
  then have "reads I d 2 (expr_mul (eval_primary (Suc n))) ?s ?v"
    by (intro mul_tier.operand_reads bit_tier.operand_reads) simp_all
  then show ?thesis using add_tier.operand_continues [of I d "eval_primary (Suc n)" ?s ?v]
    by (simp add: parses_def tier_fn_def tier_loop_def [abs_def])
qed

section \<open>Expressions over a table of symbols\<close>

fun expr_symbols :: "asm_expr \<Rightarrow> string list" where
  "expr_symbols (Lit s) = []"
| "expr_symbols (Sym s) = [s]"
| "expr_symbols (Neg a) = expr_symbols a"
| "expr_symbols (Bin o1 a b) = expr_symbols a @ expr_symbols b"
| "expr_symbols (Rev a) = expr_symbols a"

text \<open>What the evaluator relies on of the symbols: those that are known are read as their value.\<close>

locale symbol_table =
  fixes I :: "asm_ctx_t \<Rightarrow> bool" and env :: "string \<Rightarrow> u32 option" and known :: "string \<Rightarrow> bool" and fuel :: nat
  assumes lookup: "I (e_ctx e) \<Longrightarrow> known (takeWhile id_char (e_p e)) \<Longrightarrow> length (takeWhile id_char (e_p e)) \<le> 31 \<Longrightarrow>
    fuel \<le> n \<Longrightarrow> \<exists>x e'. expr_symbol (eval_primary n) e = Some (x, e') \<and>
      leaves I e (dropWhile id_char (e_p e)) (map_option ucast (env (takeWhile id_char (e_p e)))) x e'"
begin

lemma symbol_text:
  assumes "tokens_ok (Sym s)" "known s" "list_all gap ws" "fuel \<le> n"
  shows "parses I (Suc n) 0 0 (ws @ s) (map_option ucast (env s))"
proof -
  obtain c q where s: "s = c # q" using assms(1) by (cases s) auto
  have c: "id_start c" "id_char c" using assms(1) by (simp_all add: s id_char_def)
  then have c': "c \<noteq> CHR ''-''" "c \<noteq> CHR ''(''" "\<not> (CHR ''0'' \<le> c \<and> c \<le> CHR ''9'')" "\<not> gap c"
    using id_chars by (auto simp: less_eq_char_def id_start_def)
  have "reads I 0 0 (eval_primary (Suc n)) (ws @ s) (map_option ucast (env s))"
  proof (rule readsI)
    fix e :: expr_t and rest
    assume e: "I (e_ctx e)" "skip_blanks (e_p e) = skip_blanks ((ws @ s) @ rest)" and rest: "clean rest"
    have p: "e_p (expr_skip_ws e) = s @ rest" using e(2) c'(4) by (simp add: skip_blanks_ws assms(3) s)
    have name: "takeWhile id_char (s @ rest) = s" using assms(1) rest by (simp add: takeWhile_clean)
    then have "dropWhile id_char (s @ rest) = rest"
      by (metis append_eq_append_conv takeWhile_dropWhile_id)
    then obtain x e' where "expr_symbol (eval_primary n) (expr_skip_ws e) = Some (x, e')"
      "leaves I (expr_skip_ws e) rest (map_option ucast (env s)) x e'"
      using lookup [of "expr_skip_ws e" n] assms e(1) name p by auto
    moreover have "eval_primary (Suc n) e = expr_symbol (eval_primary n) (expr_skip_ws e)"
      using p c(1) c' by (auto simp: expr_primary_def Let_def chr_at_def s simp del: skip_blanks_e_p)
    ultimately show "\<exists>x e'. eval_primary (Suc n) e = Some (x, e') \<and> leaves I e rest (map_option ucast (env s)) x e'"
      by (auto simp: leaves_def)
  qed
  then show ?thesis by (simp add: parses_def)
qed

text \<open>From the tier of its operator, a text is read at every looser tier, and in parentheses at every other.\<close>

lemma enclosed:
  assumes body: "\<And>n. N < n \<Longrightarrow> parses I n k d s v" "k \<le> 4 \<Longrightarrow> opens s" "k \<le> 5"
    and "list_all gap ws" "Suc N < n" "t \<le> 5"
  shows "parses I n t (level t k + d) (enclose ws t k s) v \<and> (t \<le> 4 \<longrightarrow> opens (enclose ws t k s))"
proof (cases "k \<le> t")
  case True
  then show ?thesis using parses_loosen [OF body(1) True body(2)] assms(5,6) body(2) by (simp add: enclose_def level_def)
next
  case False
  obtain m where m: "n = Suc m" "N < m" using assms(5) by (cases n) auto
  let ?s = "ws @ CHR ''('' # s @ ws @ '')''"
  have "parses I n 0 (Suc d) ?s v"
    unfolding m(1) by (rule paren_text [OF parses_loosen [OF body(1) _ body(2)] assms(4)]) (use m body(3) in simp_all)
  moreover have "opens ?s" using assms(4) by (simp add: opens_def skip_blanks_ws gap_def)
  ultimately show ?thesis using False parses_loosen [of I n 0 "Suc d" ?s v t] assms(6) by (simp add: enclose_def level_def)
qed

lemma printed:
  assumes "list_all gap ws" "tokens_ok a" "list_all known (expr_symbols a)" "t \<le> 5" "fuel + 2 * size a < n"
  shows "parses I n t (levels t a) (show_expr ws t a) (expr_value env a) \<and> (t \<le> 4 \<longrightarrow> opens (show_expr ws t a))"
  using assms(2-5)
proof (induction a arbitrary: t n)
  case (Lit s)
  have "opens (ws @ s)" using Lit.prems(1) assms(1) by (cases s) (auto intro: opens_token id_chars(1))
  then show ?case using literal_text [OF Lit.prems(1) assms(1), of I "n - 1"] Lit.prems parses_loosen by simp
next
  case (Sym s)
  have "opens (ws @ s)" using Sym.prems(1) assms(1) by (cases s) (auto intro: opens_token)
  moreover have "fuel \<le> n - 1" using Sym.prems(4) by simp
  ultimately show ?case using symbol_text [OF Sym.prems(1) _ assms(1), of "n - 1"] Sym.prems parses_loosen by simp
next
  case (Neg a)
  have "parses I m 3 (levels 2 a) (ws @ CHR ''-'' # show_expr ws 2 a) (expr_value env (Neg a))"
    if "fuel + 2 * size a + 1 < m" for m
    using minus_text [OF conjunct1 [OF Neg.IH [of 2 "m - 1"]] assms(1)] Neg.prems that by simp
  moreover have "opens (ws @ CHR ''-'' # show_expr ws 2 a)" using assms(1) by (simp add: opens_def skip_blanks_ws gap_def)
  ultimately show ?case
    using enclosed [of "fuel + 2 * size a + 1" 3 "levels 2 a" "ws @ CHR ''-'' # show_expr ws 2 a" "expr_value env (Neg a)" ws n t] assms(1) Neg.prems by simp
next
  case (Bin o1 a b)
  let ?t = "op_tier o1" and ?N = "fuel + 2 * (size a + size b)"
  let ?s = "show_expr ws ?t a @ ws @ op_text o1 @ show_expr ws (?t - 1) b" and ?d = "max (levels ?t a) (levels (?t - 1) b)"
  have t: "?t \<le> 4" by (cases o1) simp_all
  have "parses I m ?t ?d ?s (expr_value env (Bin o1 a b))" if "?N < m" for m
    using parses_bin [OF assms(1) conjunct1 [OF Bin.IH(1) [of ?t m]] conjunct1 [OF Bin.IH(2) [of "?t - 1" m]]] Bin.prems that t by simp
  moreover have "opens ?s"
    using Bin.IH(1) [of ?t "Suc ?N"] Bin.prems t by (auto simp: opens_def skip_blanks_append)
  ultimately show ?case
    using enclosed [of ?N ?t ?d ?s "expr_value env (Bin o1 a b)" ws n t] assms(1) Bin.prems t by simp
next
  case (Rev a)
  have "parses I m 5 (Suc (levels 5 a)) (ws @ ''::'' @ show_expr ws 5 a) (expr_value env (Rev a))"
    if "fuel + 2 * size a < m" for m
    using reverse_text [OF conjunct1 [OF Rev.IH [of 5 m]] assms(1)] Rev.prems that by simp
  then show ?case
    using enclosed [of "fuel + 2 * size a" 5 "Suc (levels 5 a)" "ws @ ''::'' @ show_expr ws 5 a" "expr_value env (Rev a)" ws n t] assms(1) Rev.prems by simp
qed

text \<open>A whole string: the printed expression has its value.\<close>

lemma resolve_printed:
  assumes "list_all gap ws" "tokens_ok a" "list_all known (expr_symbols a)" "levels 5 a < EXPR_MAX_DEPTH" "I ctx"
    "fuel + 2 * size a < n"
  shows "\<exists>ctx'. I ctx' \<and> resolve_uint (eval_primary n) ctx (show_expr ws 5 a) = Some (map_option ucast (expr_value env a), ctx')"
proof -
  let ?e = "\<lparr>e_ctx = ctx, e_p = show_expr ws 5 a, e_ok = True, e_depth = 0\<rparr>"
  have "reads I (Suc (levels 5 a)) 4 (expr_reverse (eval_primary n)) (show_expr ws 5 a) (expr_value env a)"
    using printed [OF assms(1-3), of 5 n] assms(6) by (simp add: parses_def)
  then obtain x e' where "expr_reverse (eval_primary n) ?e = Some (x, e')" "leaves I ?e [] (expr_value env a) x e'"
    by (rule readsE [where e = ?e and rest = "[]"]) (use assms in \<open>auto simp: clean_def stops_def skip_blanks_def\<close>)
  then show ?thesis
    by (auto simp: resolve_uint_def leaves_def Let_def skip_blanks_def split: option.splits)
qed

end

subsection \<open>The symbols of the assembler\<close>

text \<open>A symbol is a define, whose value \<open>V\<close> gives, or else a label.\<close>

definition symbol_env :: "asm_ctx_t \<Rightarrow> (string \<Rightarrow> u32 option) \<Rightarrow> string \<Rightarrow> u32 option" where
  "symbol_env ctx V name = (if define_declared ctx name then V name else map_option ucast (find_label ctx name))"

text \<open>
  The expression of a define prints the tree that \<open>T\<close> gives it, its value is that of the tree, and the
  defines it refers to are below it in \<open>r\<close>, so that there is no cycle.  Those memoised have their value,
  and those being resolved are not below \<open>m\<close>.
\<close>

definition define_ok :: "asm_ctx_t \<Rightarrow> (string \<Rightarrow> string \<times> asm_expr) \<Rightarrow> (string \<Rightarrow> u32 option) \<Rightarrow> (string \<Rightarrow> nat) \<Rightarrow> string \<Rightarrow> string \<Rightarrow> bool" where
  "define_ok ctx T V r name expr \<longleftrightarrow> (let (ws, a) = T name in
     expr = show_expr ws 5 a \<and> list_all gap ws \<and> tokens_ok a \<and> levels 5 a < EXPR_MAX_DEPTH \<and>
     V name = map_option ucast (expr_value (symbol_env ctx V) a) \<and>
     list_all (\<lambda>s. define_declared ctx s \<longrightarrow> r s < r name) (expr_symbols a))"

definition memo_ok :: "(string \<Rightarrow> u32 option) \<Rightarrow> define_t \<Rightarrow> bool" where
  "memo_ok V d \<longleftrightarrow> (df_resolved d \<longrightarrow> V (df_name d) = Some (df_value d))"

definition table_ok :: "(string \<Rightarrow> string \<times> asm_expr) \<Rightarrow> (string \<Rightarrow> u32 option) \<Rightarrow> (string \<Rightarrow> nat) \<Rightarrow> nat \<Rightarrow> asm_ctx_t \<Rightarrow> bool" where
  "table_ok T V r m ctx \<longleftrightarrow> list_all (\<lambda>(name, expr, line, visiting). define_ok ctx T V r name expr \<and> (visiting \<longrightarrow> m \<le> r name))
     (map symbol_view (cx_defines ctx)) \<and> list_all (memo_ok V) (cx_defines ctx)"

definition table_fuel :: "(string \<Rightarrow> string \<times> asm_expr) \<Rightarrow> asm_ctx_t \<Rightarrow> nat" where
  "table_fuel T ctx = 2 * sum_list (map (\<lambda>(name, _). size (snd (T name))) (map symbol_view (cx_defines ctx))) + 1"

lemma same_symbols_declared: "same_symbols ctx ctx' \<Longrightarrow> define_declared ctx' name = define_declared ctx name"
proof -
  have "define_declared c name \<longleftrightarrow> list_ex (\<lambda>(s, _). s = name) (map symbol_view (cx_defines c))" for c
    by (simp add: define_declared_def symbol_view_def list_ex_iff)
  then show "same_symbols ctx ctx' \<Longrightarrow> ?thesis" by (simp only: same_symbols_def)
qed

lemma same_symbols_env: "same_symbols ctx ctx' \<Longrightarrow> symbol_env ctx' V = symbol_env ctx V"
  using same_symbols_declared [of ctx ctx'] by (intro ext) (simp add: symbol_env_def find_label_def same_symbols_def)

lemma same_symbols_define_ok: "same_symbols ctx ctx' \<Longrightarrow> define_ok ctx' T V r = define_ok ctx T V r"
  by (intro ext) (simp only: define_ok_def same_symbols_env [of ctx ctx'] same_symbols_declared [of ctx ctx'])

lemma same_symbols_table:
  "same_symbols ctx ctx' \<Longrightarrow> table_ok T V r m ctx \<Longrightarrow> list_all (memo_ok V) (cx_defines ctx') \<Longrightarrow> table_ok T V r m ctx'"
  using same_symbols_define_ok [of ctx ctx' T V r] by (simp only: table_ok_def same_symbols_def)

lemma same_symbols_fuel: "same_symbols ctx ctx' \<Longrightarrow> table_fuel T ctx' = table_fuel T ctx"
  unfolding table_fuel_def by (simp only: same_symbols_def)

lemma table_fuel_bound: "d \<in> set (cx_defines ctx) \<Longrightarrow> 2 * size (snd (T (df_name d))) < table_fuel T ctx"
  using member_le_sum_list [of "size (snd (T (df_name d)))" "map (\<lambda>d. size (snd (T (df_name d)))) (cx_defines ctx)"]
  by (simp add: table_fuel_def comp_def symbol_view_def)

text \<open>Marking a define is a change of the table below its rank.\<close>

lemma mark_symbols:
  shows "define_declared (upd_define i (\<lambda>d. d\<lparr>df_visiting := True\<rparr>) ctx) = define_declared ctx"
    "symbol_env (upd_define i (\<lambda>d. d\<lparr>df_visiting := True\<rparr>) ctx) V = symbol_env ctx V"
    "table_fuel T (upd_define i (\<lambda>d. d\<lparr>df_visiting := True\<rparr>) ctx) = table_fuel T ctx"
proof -
  let ?ctx = "upd_define i (\<lambda>d. d\<lparr>df_visiting := True\<rparr>) ctx"
  have names: "map df_name (cx_defines ?ctx) = map df_name (cx_defines ctx)"
    using map_update_same [of df_name "cx_defines ctx" i] by (simp add: map_update)
  have "define_declared c = (\<lambda>s. s \<in> set (map df_name (cx_defines c)))" for c
    by (auto simp: fun_eq_iff define_declared_def list_ex_iff)
  then show "define_declared ?ctx = define_declared ctx" by (simp only: names)
  then show "symbol_env ?ctx V = symbol_env ctx V" by (simp add: fun_eq_iff symbol_env_def find_label_def)
  have "table_fuel T c = 2 * sum_list (map (\<lambda>s. size (snd (T s))) (map df_name (cx_defines c))) + 1" for c
    by (simp add: table_fuel_def comp_def symbol_view_def)
  then show "table_fuel T ?ctx = table_fuel T ctx" by (simp only: names)
qed

lemma table_mark:
  assumes "table_ok T V r m ctx" "i < length (cx_defines ctx)" "r (df_name (cx_defines ctx ! i)) \<le> m"
  shows "table_ok T V r (r (df_name (cx_defines ctx ! i))) (upd_define i (\<lambda>d. d\<lparr>df_visiting := True\<rparr>) ctx)"
proof -
  have "define_ok (upd_define i (\<lambda>d. d\<lparr>df_visiting := True\<rparr>) ctx) T V r = define_ok ctx T V r"
    unfolding define_ok_def [abs_def] mark_symbols by (rule refl)
  then show ?thesis
    using assms by (auto simp: table_ok_def list_all_length map_update symbol_view_def nth_list_update memo_ok_def)
qed

text \<open>If the defines below \<open>m\<close> resolve to their values, the symbols below \<open>m\<close> are read as their values.\<close>

definition resolves :: "(string \<Rightarrow> string \<times> asm_expr) \<Rightarrow> (string \<Rightarrow> u32 option) \<Rightarrow> (string \<Rightarrow> nat) \<Rightarrow> nat \<Rightarrow> asm_ctx_t \<Rightarrow> string \<Rightarrow> nat \<Rightarrow> bool" where
  "resolves T V r m ctx name n \<longleftrightarrow> (\<exists>ctx'. resolve_define_value (eval_primary n) ctx name = Some (V name, ctx') \<and>
     same_symbols ctx ctx' \<and> table_ok T V r m ctx')"

lemma same_symbols_nth:
  "same_symbols c d \<Longrightarrow> length (cx_defines d) = length (cx_defines c) \<and>
     (i < length (cx_defines c) \<longrightarrow> symbol_view (cx_defines d ! i) = symbol_view (cx_defines c ! i))"
  by (auto simp: same_symbols_def list_eq_iff_nth_eq)

lemma list_all_update: "list_all P xs \<Longrightarrow> P y \<Longrightarrow> list_all P (xs[i := y])"
  using set_update_subset_insert [of xs i y] by (auto simp: list_all_iff)

lemma ucast_label: "ucast (ucast (l :: u8) :: u32) = (ucast l :: u64)"
  by (rule bit_word_eqI) (auto simp: bit_ucast_iff dest: word_bit_lt)

lemma table_lookup:
  assumes "\<And>ctx name n. table_ok T V r m ctx \<Longrightarrow> define_declared ctx name \<Longrightarrow> r name < m \<Longrightarrow> m * table_fuel T ctx \<le> n \<Longrightarrow>
    resolves T V r m ctx name n"
  shows "symbol_table (\<lambda>ctx. same_symbols c ctx \<and> table_ok T V r m ctx) (symbol_env c V)
    (\<lambda>s. define_declared c s \<longrightarrow> r s < m) (m * table_fuel T c)"
proof
  fix e :: expr_t and n
  let ?name = "takeWhile id_char (e_p e)" and ?ctx = "e_ctx e"
  let ?e = "e_skip (length ?name) e" and ?I = "\<lambda>ctx. same_symbols c ctx \<and> table_ok T V r m ctx"
  assume e: "?I ?ctx" "define_declared c ?name \<longrightarrow> r ?name < m" "length ?name \<le> 31" "m * table_fuel T c \<le> n"
  have rest: "drop (length ?name) (e_p e) = dropWhile id_char (e_p e)" by (simp add: dropWhile_eq_drop)
  have env: "symbol_env c V ?name = symbol_env ?ctx V ?name" using same_symbols_env [of c ?ctx V] e(1) by simp
  show "\<exists>x e'. expr_symbol (eval_primary n) e = Some (x, e') \<and>
      leaves ?I e (dropWhile id_char (e_p e)) (map_option ucast (symbol_env c V ?name)) x e'"
  proof (cases "define_declared ?ctx ?name")
    case True
    then have "resolves T V r m ?ctx ?name n"
      using assms [of ?ctx ?name n] e same_symbols_declared [of c ?ctx ?name] same_symbols_fuel [of c ?ctx T] by auto
    then obtain ctx' where "resolve_define_value (eval_primary n) ?ctx ?name = Some (V ?name, ctx')" "?I ctx'"
      using same_symbols_trans e(1) unfolding resolves_def by blast
    then show ?thesis
      unfolding env using True e(3) rest
      by (cases "V ?name") (auto simp: expr_symbol_def Let_def leaves_def symbol_env_def)
  next
    case False
    then show ?thesis
      unfolding env using e(1,3) rest
      by (cases "find_label ?ctx ?name") (auto simp: expr_symbol_def Let_def leaves_def symbol_env_def ucast_label)
  qed
qed

text \<open>The last steps of \<open>resolve_define_value\<close>: unmark, then memoise or report.\<close>

lemma resolve_marked:
  assumes i: "define_index name (cx_defines ctx) = Some i" and idle: "\<not> df_resolved (cx_defines ctx ! i)" "\<not> df_visiting (cx_defines ctx ! i)"
    and eval: "resolve_uint prim (upd_define i (\<lambda>d. d\<lparr>df_visiting := True\<rparr>) ctx) (df_expr (cx_defines ctx ! i)) = Some (V name, ctx')"
    and same: "same_symbols (upd_define i (\<lambda>d. d\<lparr>df_visiting := True\<rparr>) ctx) ctx'" and memo: "list_all (memo_ok V) (cx_defines ctx')"
  shows "\<exists>ctx''. resolve_define_value prim ctx name = Some (V name, ctx'') \<and> same_symbols ctx ctx'' \<and> list_all (memo_ok V) (cx_defines ctx'')"
proof -
  let ?ctx = "upd_define i (\<lambda>d. d\<lparr>df_visiting := False\<rparr>) ctx'" and ?d = "cx_defines ctx ! i"
  have d: "i < length (cx_defines ctx)" "df_name ?d = name" using define_index_Some [OF i] by auto
  have same': "same_symbols ctx ?ctx" by (rule same_symbols_unmark [OF d(1) idle(2) same])
  then have "symbol_view (cx_defines ?ctx ! i) = symbol_view ?d" using same_symbols_nth d(1) by blast
  then have name: "df_name (cx_defines ?ctx ! i) = name" using d(2) by (simp only: symbol_view_def prod.inject)
  have unmarked: "list_all (memo_ok V) (cx_defines ?ctx)"
    using memo by (cases "i < length (cx_defines ctx')") (auto simp: list_all_length nth_list_update memo_ok_def)
  show ?thesis
  proof (cases "V name")
    case None
    then show ?thesis
      using i idle eval d(2) same' unmarked same_symbols_memo(2) [OF same']
      by (simp add: resolve_define_value_def Let_def)
  next
    case (Some x)
    have "list_all (memo_ok V) (cx_defines (upd_define i (\<lambda>d. d\<lparr>df_value := x, df_resolved := True\<rparr>) ?ctx))"
      unfolding upd_define_symbols(2) [of _ _ ?ctx] by (rule list_all_update [OF unmarked]) (simp add: memo_ok_def name Some del: upd_define_symbols)
    then show ?thesis
      using Some i idle eval same_symbols_memo(1) [OF same', of i x] by (simp add: resolve_define_value_def Let_def)
  qed
qed

lemma defines_resolve:
  "table_ok T V r m ctx \<Longrightarrow> define_declared ctx name \<Longrightarrow> r name < m \<Longrightarrow> m * table_fuel T ctx \<le> n \<Longrightarrow> resolves T V r m ctx name n"
proof (induction m arbitrary: ctx name n rule: less_induct)
  case (less m)
  obtain i where i: "define_index name (cx_defines ctx) = Some i" using less.prems(2) by (auto simp: define_index_declared)
  let ?d = "cx_defines ctx ! i" and ?k = "r name" and ?ctx = "upd_define i (\<lambda>d. d\<lparr>df_visiting := True\<rparr>) ctx"
  have d: "i < length (cx_defines ctx)" "df_name ?d = name" using define_index_Some [OF i] by auto
  obtain ws a where T: "T name = (ws, a)" by fastforce
  have ok: "define_ok ctx T V r name (df_expr ?d)" "df_visiting ?d \<Longrightarrow> m \<le> ?k" "memo_ok V ?d"
    using less.prems(1) d by (auto simp: table_ok_def list_all_length symbol_view_def)
  show ?case
  proof (cases "df_resolved ?d")
    case True
    then show ?thesis using i ok(3) d(2) less.prems(1) by (auto simp: resolves_def resolve_define_value_def memo_ok_def)
  next
    case False
    have idle: "\<not> df_visiting ?d" using ok(2) less.prems(3) by auto
    have mark: "table_ok T V r ?k ?ctx" using table_mark [OF less.prems(1) d(1)] d(2) less.prems(3) by simp
    have "symbol_table (\<lambda>c. same_symbols ?ctx c \<and> table_ok T V r ?k c) (symbol_env ?ctx V)
        (\<lambda>s. define_declared ?ctx s \<longrightarrow> r s < ?k) (?k * table_fuel T ?ctx)"
      by (rule table_lookup) (rule less.IH [OF less.prems(3)])
    note printed = symbol_table.resolve_printed [OF this, of ws a ?ctx n]
    have tx: "df_expr ?d = show_expr ws 5 a" "list_all gap ws" "tokens_ok a" "levels 5 a < EXPR_MAX_DEPTH"
      "list_all (\<lambda>s. define_declared ctx s \<longrightarrow> r s < ?k) (expr_symbols a)"
      "V name = map_option ucast (expr_value (symbol_env ctx V) a)"
      using ok(1) T by (simp_all add: define_ok_def)
    have declared: "define_declared ?ctx = define_declared ctx" and env: "symbol_env ?ctx V = symbol_env ctx V"
      using mark_symbols [where i = i and ctx = ctx] by simp_all
    have "?k * table_fuel T ?ctx + 2 * size a < n"
    proof -
      have "2 * size a < table_fuel T ctx" using table_fuel_bound [of ?d ctx T] d T by simp
      moreover have "Suc ?k * table_fuel T ctx \<le> n" using less.prems(3,4) by (meson Suc_leI mult_le_mono1 order_trans)
      ultimately show ?thesis using mark_symbols(3) [where T = T and i = i and ctx = ctx] by simp
    qed
    then obtain ctx' where "same_symbols ?ctx ctx'" "table_ok T V r ?k ctx'" "resolve_uint (eval_primary n) ?ctx (df_expr ?d) = Some (V name, ctx')"
      using printed tx mark declared env by auto
    then obtain ctx'' where "resolve_define_value (eval_primary n) ctx name = Some (V name, ctx'')" "same_symbols ctx ctx''"
        "list_all (memo_ok V) (cx_defines ctx'')"
      using resolve_marked [OF i False idle, of "eval_primary n" V ctx'] by (auto simp: table_ok_def)
    then show ?thesis using same_symbols_table [OF _ less.prems(1)] unfolding resolves_def by blast
  qed
qed

interpretation define_table: symbol_table "\<lambda>ctx. same_symbols c ctx \<and> table_ok T V r m ctx" "symbol_env c V"
    "\<lambda>s. define_declared c s \<longrightarrow> r s < m" "m * table_fuel T c" for c T V r m
  by (rule table_lookup) (rule defines_resolve)

section \<open>The value of an expression\<close>

text \<open>A result found with any fuel is the result, for a line of the source.\<close>

lemma eval_uint_any:
  assumes "resolve_uint (eval_primary n) ctx s = Some (v, ctx')" "symbols_ok ctx" "length s < MAX_LINE"
  shows "eval_uint ctx s = (v, ctx')"
proof (cases "n \<le> expr_fuel")
  case True
  then show ?thesis using eval_uint_from [OF assms(1)] by simp
next
  case False
  then have "expr_fuel + (n - expr_fuel) = n" by simp
  then show ?thesis
    using resolve_uint_returns [OF assms(2,3)] fuel.resolve_uint_more [of expr_fuel ctx s "n - expr_fuel"] assms(1)
    by (auto simp: extends_def eval_uint_def)
qed

text \<open>
  C8: Expressions have the value their precedence gives them.  For every expression tree, printed with
  parentheses only where the documented precedence asks for them, with any blanks between the
  tokens, the evaluator returns the value of the tree: in 64-bit two's complement arithmetic
  truncated to 32 bits, or no value when the tree has none (a division by zero, a shift by more than
  63, a literal that does not fit, an undefined symbol).  Defines may be declared in any order, be
  memoised or not, and refer to each other without a cycle; labels stand for their address.
\<close>

theorem expression_value:
  assumes "symbols_ok ctx" "length (show_expr ws 5 a) < MAX_LINE"
    and "list_all gap ws" "tokens_ok a" "levels 5 a < EXPR_MAX_DEPTH"
    and "list_all (\<lambda>d. define_ok ctx T V r (df_name d) (df_expr d) \<and> memo_ok V d \<and> \<not> df_visiting d) (cx_defines ctx)"
  shows "fst (eval_uint ctx (show_expr ws 5 a)) = map_option ucast (expr_value (symbol_env ctx V) a)"
proof -
  let ?m = "Suc (sum_list (map (\<lambda>d. r (df_name d)) (cx_defines ctx)))"
  have "r (df_name d) < ?m" if "d \<in> set (cx_defines ctx)" for d
    using member_le_sum_list [of "r (df_name d)" "map (\<lambda>d. r (df_name d)) (cx_defines ctx)"] that by (simp add: less_Suc_eq_le)
  then have known: "list_all (\<lambda>s. define_declared ctx s \<longrightarrow> r s < ?m) (expr_symbols a)"
    by (auto simp: list_all_iff define_declared_def list_ex_iff)
  have table: "table_ok T V r ?m ctx" using assms(6) by (auto simp: table_ok_def list_all_iff symbol_view_def)
  obtain n ctx' where "resolve_uint (eval_primary n) ctx (show_expr ws 5 a) =
      Some (map_option ucast (expr_value (symbol_env ctx V) a), ctx')"
    using define_table.resolve_printed [OF assms(3,4) known assms(5), of ctx T V "Suc (?m * table_fuel T ctx + 2 * size a)"] table by auto
  then show ?thesis using eval_uint_any assms(1,2) by fastforce
qed

text \<open>A label and two defines, the second used by the first, and the expression \<open>half + 1 << (n - (-3)) & 0x1F\<close>.\<close>

definition sample_ctx :: asm_ctx_t where
  "sample_ctx = asm_start\<lparr>cx_labels := [\<lparr>lb_name = ''loop'', lb_index = 7, lb_is_public = False\<rparr>],
     cx_defines := [new_define ''half'' ''n/2'' 1, new_define ''n'' ''loop*2'' 2]\<rparr>"

definition sample_expr :: asm_expr where
  "sample_expr = Bin Op_Shl (Bin Op_Add (Sym ''half'') (Lit ''1''))
     (Bin Op_And (Bin Op_Sub (Sym ''n'') (Neg (Lit ''3''))) (Lit ''0x1F''))"

definition sample_trees :: "string \<Rightarrow> string \<times> asm_expr" where
  "sample_trees s = ([], if s = ''n'' then Bin Op_Mul (Sym ''loop'') (Lit ''2'') else Bin Op_Div (Sym ''n'') (Lit ''2''))"

definition sample_values :: "string \<Rightarrow> u32 option" where
  "sample_values s = (if s = ''n'' then Some 14 else Some 7)"

theorem expression_value_witness:
  "fst (eval_uint sample_ctx '' half + 1 << ( n - ( - 3 ) ) & 0x1F'') = Some 0x100000"
proof -
  let ?r = "\<lambda>s :: string. if s = ''n'' then 0 else 1 :: nat"
  have s: "show_expr '' '' 5 sample_expr = '' half + 1 << ( n - ( - 3 ) ) & 0x1F''" by code_simp
  have "expr_value (symbol_env sample_ctx sample_values) sample_expr = Some 0x100000" by code_simp
  moreover have "fst (eval_uint sample_ctx (show_expr '' '' 5 sample_expr)) =
      map_option ucast (expr_value (symbol_env sample_ctx sample_values) sample_expr)"
  proof (rule expression_value)
    show "symbols_ok sample_ctx" by code_simp
    show "list_all (\<lambda>d. define_ok sample_ctx sample_trees sample_values ?r (df_name d) (df_expr d) \<and> memo_ok sample_values d \<and> \<not> df_visiting d)
        (cx_defines sample_ctx)" by code_simp
  qed code_simp+
  ultimately show ?thesis by (simp add: s)
qed

end
