(* ===== verification/Asm_Insn.thy ===== *)
theory Asm_Insn
  imports Asm_Eval Pio_Encode
begin

text \<open>
  Assembling one instruction (\<open>lib/src/pio_asm.c\<close>): operand names, the trailing delay and side-set, and
  the encoder of every mnemonic.  A failing function sets the error in the context and returns
  nothing.
\<close>

type_synonym 'a asm_result = "'a option \<times> asm_ctx_t"

definition asm_fail :: "string \<Rightarrow> asm_ctx_t \<Rightarrow> 'a asm_result" where
  "asm_fail msg ctx = (None, pa_set_error msg ctx)"

definition PIO_SIM_PIO_VERSION :: "pio_version \<Rightarrow> int" where
  "PIO_SIM_PIO_VERSION v = (case v of RP2040 \<Rightarrow> 0 | RP2350 \<Rightarrow> 1)"

text \<open>The declared version of a program, the build target without a declaration.\<close>

definition program_version :: "pio_version \<Rightarrow> asm_ctx_t \<Rightarrow> int" where
  "program_version v ctx =
     (if 0 \<le> pg_pio_version (cx_out ctx) then pg_pio_version (cx_out ctx) else PIO_SIM_PIO_VERSION v)"

text \<open>All uses require version 1.\<close>

definition require_prog_version :: "pio_version \<Rightarrow> string \<Rightarrow> asm_ctx_t \<Rightarrow> bool \<times> asm_ctx_t" where
  "require_prog_version v what ctx =
     (if program_version v ctx < 1
      then (False, pa_set_error (''PIO version 1 is required for '' @ what) ctx) else (True, ctx))"

section \<open>Operand names\<close>

definition name_field :: "(string \<times> u8) list \<Rightarrow> string \<Rightarrow> u8 option" where
  "name_field table s = map_option snd (List.find (\<lambda>(name, _). ieq s name) table)"

definition src_field :: "string \<Rightarrow> u8 option" where
  "src_field = name_field [(''pins'', 0), (''x'', 1), (''y'', 2), (''null'', 3), (''status'', 5), (''isr'', 6), (''osr'', 7)]"

definition out_dest_field :: "string \<Rightarrow> u8 option" where
  "out_dest_field = name_field [(''pins'', 0), (''x'', 1), (''y'', 2), (''null'', 3), (''pindirs'', 4), (''pc'', 5),
     (''isr'', 6), (''exec'', 7)]"

definition mov_dest_field :: "pio_version \<Rightarrow> string \<Rightarrow> u8 option" where
  "mov_dest_field v = name_field ([(''pins'', 0), (''x'', 1), (''y'', 2)] @
     (if PIO_SIM_HAS_MOV_PINDIRS v then [(''pindirs'', 3)] else []) @
     [(''exec'', 4), (''pc'', 5), (''isr'', 6), (''osr'', 7)])"

definition set_dest_field :: "string \<Rightarrow> u8 option" where
  "set_dest_field = name_field [(''pins'', 0), (''x'', 1), (''y'', 2), (''pindirs'', 4)]"

definition jmp_cond_field :: "string \<Rightarrow> u8 option" where
  "jmp_cond_field = name_field [(''!x'', 1), (''x--'', 2), (''!y'', 3), (''y--'', 4), (''x!=y'', 5), (''pin'', 6), (''!osre'', 7)]"

text \<open>The operation a MOV source is marked with, and the source without the mark.\<close>

definition mov_op_of :: "string \<Rightarrow> u8 \<times> string" where
  "mov_op_of s =
     (if chr_at s = CHR ''!'' \<or> chr_at s = CHR ''~'' then (1, tl s)
      else if take 2 s = ''::'' then (2, drop 2 s)
      else (0, s))"

section \<open>Delay and side-set\<close>

definition delay_opener :: "string list \<Rightarrow> nat option" where
  "delay_opener tok = List.find (\<lambda>si. chr_at (tok ! si) = CHR ''['') (rev [0..<length tok])"

lemma delay_opener_less: "delay_opener tok = Some si \<Longrightarrow> si < length tok"
  by (auto simp: delay_opener_def find_Some_iff rev_nth)

text \<open>The tokens that remain, the side-set value, whether there is one, and the delay.\<close>

function extract_side_delay ::
  "asm_ctx_t \<Rightarrow> string list \<Rightarrow> u32 \<Rightarrow> bool \<Rightarrow> u32 \<Rightarrow> (string list \<times> u32 \<times> bool \<times> u32) asm_result" where
  "extract_side_delay ctx tok side has_side delay =
     (let n = length tok
      in if n = 0 then (Some (tok, side, has_side, delay), ctx)
         else case (if last tok \<noteq> [] \<and> last (last tok) = CHR '']'' then delay_opener tok else None) of
           Some si \<Rightarrow>
             (case join_tokens (drop si tok) MAX_LINE of
                None \<Rightarrow> asm_fail ''bad delay value'' ctx
              | Some buf \<Rightarrow>
                  case eval_uint ctx (tl (butlast buf)) of
                    (None, ctx) \<Rightarrow> asm_fail ''bad delay value'' ctx
                  | (Some d, ctx) \<Rightarrow> extract_side_delay ctx (take si tok) side has_side d)
         | None \<Rightarrow>
             if 2 \<le> n \<and> ieq (tok ! (n - 2)) ''side''
             then case eval_uint ctx (last tok) of
                 (None, ctx) \<Rightarrow> asm_fail ''bad side-set value'' ctx
               | (Some sv, ctx) \<Rightarrow> extract_side_delay ctx (take (n - 2) tok) sv True delay
             else (Some (tok, side, has_side, delay), ctx))"
  by pat_completeness auto
termination
  by (relation "measure (\<lambda>(ctx, tok, _). length tok)") (auto split: if_splits dest: delay_opener_less)

declare extract_side_delay.simps [simp del]

definition pack_delay_sideset :: "u32 \<Rightarrow> u32 \<Rightarrow> bool \<Rightarrow> asm_ctx_t \<Rightarrow> u16 asm_result" where
  "pack_delay_sideset delay side has_side ctx =
     (let p = cx_out ctx;
          ss_total = (if 5 < pg_sideset_bits p then 5 else pg_sideset_bits p);
          delay_bits = unat ((5 - ss_total) AND 7);
          max_delay = push_bit delay_bits 1 - 1;
          fld = ucast (delay AND max_delay)
      in if max_delay < delay then asm_fail ''delay too large for side-set width'' ctx
         else if 0 < ss_total then
           if pg_sideset_opt p then
             if has_side then
               let max_side = push_bit (unat ((ss_total - 1) AND 7)) 1 - 1
               in if max_side < side then asm_fail ''side-set value out of range'' ctx
                  else (Some (fld OR 0x10 OR ucast (push_bit delay_bits side)), ctx)
             else (Some fld, ctx)
           else
             if \<not> has_side then asm_fail ''instruction missing required side-set'' ctx
             else if push_bit (unat ss_total) 1 - 1 < side then asm_fail ''side-set value out of range'' ctx
             else (Some (fld OR ucast (push_bit delay_bits side)), ctx)
         else if has_side then asm_fail ''side-set used but .side_set not declared'' ctx
         else (Some fld, ctx))"

section \<open>Mnemonics\<close>

definition enc_jmp :: "string list \<Rightarrow> asm_ctx_t \<Rightarrow> u16 asm_result" where
  "enc_jmp tok ctx =
     (if length tok < 2 then asm_fail ''jmp needs a target'' ctx
      else let cond = jmp_cond_field (tok ! 1); target_from = (if cond = None then 1 else 2)
        in if cond \<noteq> None \<and> length tok < 3 then asm_fail ''jmp condition needs a target'' ctx
           else case resolve_uint_join ctx (drop target_from tok) of
               (None, ctx) \<Rightarrow> asm_fail ''unknown jmp target/label'' ctx
             | (Some addr, ctx) \<Rightarrow>
                 if 31 < addr then asm_fail ''jmp target out of range (0..31)'' ctx
                 else (Some (pio_sim_encode_jmp (case cond of None \<Rightarrow> 0 | Some c \<Rightarrow> c) (ucast addr)), ctx))"

definition is_wait_source :: "pio_version \<Rightarrow> string \<Rightarrow> bool" where
  "is_wait_source v t \<longleftrightarrow> ieq t ''gpio'' \<or> ieq t ''pin'' \<or> ieq t ''irq'' \<or> (PIO_SIM_HAS_WAIT_JMPPIN v \<and> ieq t ''jmppin'')"

definition wait_source_field :: "pio_version \<Rightarrow> string \<Rightarrow> u8 option" where
  "wait_source_field v = name_field ([(''gpio'', 0), (''pin'', 1), (''irq'', 2)] @
     (if PIO_SIM_HAS_WAIT_JMPPIN v then [(''jmppin'', 3)] else []))"

text \<open>The flag number with the mode bits of \<open>prev\<close> and \<open>next\<close>, shared by \<open>wait irq\<close> and \<open>irq\<close>.\<close>

definition irq_index_field :: "bool \<Rightarrow> bool \<Rightarrow> u32 \<Rightarrow> u8" where
  "irq_index_field prev nxt idx =
     (if prev then ucast ((idx AND 7) OR ucast PIO_IRQ_PREV)
      else if nxt then ucast ((idx AND 7) OR ucast PIO_IRQ_NEXT) else ucast (idx AND 0x1F))"

text \<open>\<open>wait jmppin\<close> after the source keyword at position \<open>si\<close>.\<close>

definition enc_wait_jmppin :: "pio_version \<Rightarrow> string list \<Rightarrow> nat \<Rightarrow> u32 \<Rightarrow> asm_ctx_t \<Rightarrow> u16 asm_result" where
  "enc_wait_jmppin v tok si pol ctx =
     (let (idx, ctx) =
        (if si + 1 < length tok
         then let from = (if ieq (tok ! (si + 1)) ''+'' then si + 2 else si + 1)
           in if length tok \<le> from then (None, ctx) else resolve_uint_join ctx (drop from tok)
         else (Some 0, ctx))
      in case idx of
           None \<Rightarrow> asm_fail ''bad jmppin index'' ctx
         | Some idx \<Rightarrow>
             let (ok, ctx) = require_prog_version v ''wait jmppin'' ctx
             in if \<not> ok then (None, ctx)
                else if 3 < idx then asm_fail ''jmppin index out of range (0..3)'' ctx
                else (Some (pio_sim_encode_wait_jmppin (ucast pol) (ucast idx)), ctx))"

text \<open>The other sources.\<close>

definition enc_wait_index :: "pio_version \<Rightarrow> string list \<Rightarrow> nat \<Rightarrow> u32 \<Rightarrow> u8 \<Rightarrow> asm_ctx_t \<Rightarrow> u16 asm_result" where
  "enc_wait_index v tok si pol source ctx =
     (let n = length tok;
          is_irq = (source = 2);
          gate = (is_irq \<and> PIO_SIM_HAS_IRQ_PREVNEXT v \<and> si + 1 < n);
          prev = (gate \<and> ieq (tok ! (si + 1)) ''prev'');
          nxt = (gate \<and> \<not> prev \<and> ieq (tok ! (si + 1)) ''next'');
          idx_from = (if prev \<or> nxt then si + 2 else si + 1);
          rel = (is_irq \<and> idx_from < n \<and> ieq (last tok) ''rel'');
          idx_to = (if rel then n - 1 else n)
      in if idx_to \<le> idx_from then asm_fail ''wait needs an index'' ctx
         else case resolve_uint_join ctx (drop idx_from (take idx_to tok)) of
             (None, ctx) \<Rightarrow> asm_fail ''bad wait index'' ctx
           | (Some idx, ctx) \<Rightarrow>
               if is_irq \<and> 7 < idx then asm_fail ''wait irq index out of range (0..7)'' ctx
               else if \<not> is_irq \<and> 31 < idx then asm_fail ''wait index out of range (0..31)'' ctx
               else if rel \<and> (prev \<or> nxt) then asm_fail ''wait irq rel cannot combine with prev/next'' ctx
               else if rel then (Some (pio_sim_encode_wait_irq_rel (ucast pol) (ucast idx)), ctx)
               else
                 let (ok, ctx) = (if prev \<or> nxt then require_prog_version v ''wait irq prev/next'' ctx else (True, ctx))
                 in if \<not> ok then (None, ctx)
                    else (Some (pio_sim_encode_wait (ucast pol) source (irq_index_field prev nxt idx)), ctx))"

definition enc_wait :: "pio_version \<Rightarrow> string list \<Rightarrow> asm_ctx_t \<Rightarrow> u16 asm_result" where
  "enc_wait v tok ctx =
     (if length tok < 2 then asm_fail ''wait needs <src> <index>'' ctx
      else let (pol, si, ctx) =
          (if is_wait_source v (tok ! 1) then (Some 1, 1, ctx)
           else let (pol, ctx) = eval_uint ctx (tok ! 1) in (pol, 2, ctx))
        in case pol of
             None \<Rightarrow> asm_fail ''bad wait polarity'' ctx
           | Some pol \<Rightarrow>
               if 1 < pol then asm_fail ''wait polarity out of range (0..1)'' ctx
               else if length tok \<le> si then asm_fail ''wait needs a source'' ctx
               else case wait_source_field v (tok ! si) of
                   None \<Rightarrow> asm_fail ''bad wait source'' ctx
                 | Some source \<Rightarrow>
                     if source = 3 then enc_wait_jmppin v tok si pol ctx
                     else enc_wait_index v tok si pol source ctx)"

definition enc_in :: "string list \<Rightarrow> asm_ctx_t \<Rightarrow> u16 asm_result" where
  "enc_in tok ctx =
     (if length tok < 3 then asm_fail ''in needs <src>, <count>'' ctx
      else case src_field (tok ! 1) of
          None \<Rightarrow> asm_fail ''bad in operands'' ctx
        | Some src \<Rightarrow>
            case resolve_uint_join ctx (drop 2 tok) of
              (None, ctx) \<Rightarrow> asm_fail ''bad in operands'' ctx
            | (Some cnt, ctx) \<Rightarrow>
                if cnt < 1 \<or> 32 < cnt then asm_fail ''in count out of range (1..32)'' ctx
                else (Some (pio_sim_encode_in src (ucast (cnt AND 0x1F))), ctx))"

definition enc_out :: "string list \<Rightarrow> asm_ctx_t \<Rightarrow> u16 asm_result" where
  "enc_out tok ctx =
     (if length tok < 3 then asm_fail ''out needs <dest>, <count>'' ctx
      else case out_dest_field (tok ! 1) of
          None \<Rightarrow> asm_fail ''bad out operands'' ctx
        | Some dest \<Rightarrow>
            case resolve_uint_join ctx (drop 2 tok) of
              (None, ctx) \<Rightarrow> asm_fail ''bad out operands'' ctx
            | (Some cnt, ctx) \<Rightarrow>
                if cnt < 1 \<or> 32 < cnt then asm_fail ''out count out of range (1..32)'' ctx
                else (Some (pio_sim_encode_out dest (ucast (cnt AND 0x1F))), ctx))"

text \<open>The loop over the qualifiers of \<open>push\<close> and \<open>pull\<close>: the condition and whether to block.\<close>

fun fifo_qualifiers :: "string \<Rightarrow> bool \<Rightarrow> bool \<Rightarrow> string list \<Rightarrow> (bool \<times> bool) option" where
  "fifo_qualifiers cond_name c block [] = Some (c, block)"
| "fifo_qualifiers cond_name c block (t # ts) =
     (if ieq t cond_name then fifo_qualifiers cond_name True block ts
      else if ieq t ''block'' then fifo_qualifiers cond_name c True ts
      else if ieq t ''noblock'' then fifo_qualifiers cond_name c False ts
      else None)"

definition enc_push :: "string list \<Rightarrow> asm_ctx_t \<Rightarrow> u16 asm_result" where
  "enc_push tok ctx =
     (case fifo_qualifiers ''iffull'' False True (drop 1 tok) of
        None \<Rightarrow> asm_fail ''bad push qualifier'' ctx
      | Some (if_full, block) \<Rightarrow> (Some (pio_sim_encode_push if_full block), ctx))"

definition enc_pull :: "string list \<Rightarrow> asm_ctx_t \<Rightarrow> u16 asm_result" where
  "enc_pull tok ctx =
     (case fifo_qualifiers ''ifempty'' False True (drop 1 tok) of
        None \<Rightarrow> asm_fail ''bad pull qualifier'' ctx
      | Some (if_empty, block) \<Rightarrow> (Some (pio_sim_encode_pull if_empty block), ctx))"

text \<open>An \<open>rxfifo[...]\<close> operand: whether its index is Y, and the index otherwise.\<close>

definition parse_rxfifo :: "string \<Rightarrow> (bool \<times> u8) option" where
  "parse_rxfifo t =
     (if map lower_ascii (take 7 t) \<noteq> ''rxfifo['' then None
      else let s = drop 7 t; c = chr_at s
        in if tl s \<noteq> '']'' then None
           else if c = CHR ''y'' \<or> c = CHR ''Y'' then Some (True, 0)
           else if CHR ''0'' \<le> c \<and> c \<le> CHR ''9'' then Some (False, of_nat (of_char c - 48))
           else None)"

definition enc_mov_rxfifo :: "pio_version \<Rightarrow> string \<Rightarrow> bool \<times> u8 \<Rightarrow> u8 list \<Rightarrow> string \<Rightarrow> u16 \<Rightarrow> u16 \<Rightarrow> asm_ctx_t
     \<Rightarrow> u16 asm_result" where
  "enc_mov_rxfifo v what r joins msg insn_y insn_n ctx =
     (let (ok, ctx) = require_prog_version v what ctx
      in if \<not> ok then (None, ctx)
         else if \<not> fst r \<and> 3 < snd r then asm_fail ''rxfifo index out of range (0..3)'' ctx
         else if pg_fifo_join (cx_out ctx) \<notin> set joins then asm_fail msg ctx
         else (Some (if fst r then insn_y else insn_n), ctx))"

definition enc_mov :: "pio_version \<Rightarrow> string list \<Rightarrow> asm_ctx_t \<Rightarrow> u16 asm_result" where
  "enc_mov v tok ctx =
     (if length tok < 3 then asm_fail ''mov needs <dest>, <src>'' ctx
      else if PIO_SIM_HAS_RXFIFO_MOV v \<and> parse_rxfifo (tok ! 1) \<noteq> None \<and> ieq (tok ! 2) ''isr''
      then let r = the (parse_rxfifo (tok ! 1))
        in enc_mov_rxfifo v ''mov rxfifo[]'' r [PIO_FIFO_JOIN_RX_PUT, PIO_FIFO_JOIN_RX_PUTGET]
             ''FIFO must be configured for txput or putget to use mov rxfifo[]''
             pio_sim_encode_mov_to_rxfifo_y (pio_sim_encode_mov_to_rxfifo (snd r)) ctx
      else if PIO_SIM_HAS_RXFIFO_MOV v \<and> ieq (tok ! 1) ''osr'' \<and> parse_rxfifo (tok ! 2) \<noteq> None
      then let r = the (parse_rxfifo (tok ! 2))
        in enc_mov_rxfifo v ''mov osr, rxfifo[]'' r [PIO_FIFO_JOIN_RX_GET, PIO_FIFO_JOIN_RX_PUTGET]
             ''FIFO must be configured for txget or putget to use mov osr, rxfifo[]''
             pio_sim_encode_mov_from_rxfifo_y (pio_sim_encode_mov_from_rxfifo (snd r)) ctx
      else
        let dest = mov_dest_field v (tok ! 1);
            (ok, ctx) = (if PIO_SIM_HAS_MOV_PINDIRS v \<and> dest = Some 3
                         then require_prog_version v ''mov pindirs'' ctx else (True, ctx))
        in if \<not> ok then (None, ctx)
           else let (opn, srctok) = mov_op_of (tok ! 2)
             in case (dest, src_field srctok) of
                  (Some dest, Some src) \<Rightarrow> (Some (pio_sim_encode_mov dest opn src), ctx)
                | _ \<Rightarrow> asm_fail ''bad mov operands'' ctx)"

record irq_operands =
  iq_clear :: bool
  iq_wait :: bool
  iq_rel :: bool
  iq_prev :: bool
  iq_next :: bool
  iq_from :: "nat option"
  iq_to :: nat

definition irq_operand :: "pio_version \<Rightarrow> nat \<Rightarrow> string \<Rightarrow> irq_operands \<Rightarrow> irq_operands" where
  "irq_operand v i t q =
     (if ieq t ''nowait'' \<or> ieq t ''set'' then q\<lparr>iq_wait := False\<rparr>
      else if ieq t ''wait'' then q\<lparr>iq_wait := True\<rparr>
      else if ieq t ''clear'' then q\<lparr>iq_clear := True\<rparr>
      else if ieq t ''rel'' then q\<lparr>iq_rel := True\<rparr>
      else if PIO_SIM_HAS_IRQ_PREVNEXT v \<and> ieq t ''prev'' then q\<lparr>iq_prev := True\<rparr>
      else if PIO_SIM_HAS_IRQ_PREVNEXT v \<and> ieq t ''next'' then q\<lparr>iq_next := True\<rparr>
      else q\<lparr>iq_from := (if iq_from q = None then Some i else iq_from q), iq_to := i + 1\<rparr>)"

definition irq_scan :: "pio_version \<Rightarrow> string list \<Rightarrow> irq_operands" where
  "irq_scan v tok =
     fold (\<lambda>i. irq_operand v i (tok ! i)) [1..<length tok]
       \<lparr>iq_clear = False, iq_wait = False, iq_rel = False, iq_prev = False, iq_next = False, iq_from = None, iq_to = 0\<rparr>"

definition enc_irq :: "pio_version \<Rightarrow> string list \<Rightarrow> asm_ctx_t \<Rightarrow> u16 asm_result" where
  "enc_irq v tok ctx =
     (let q = irq_scan v tok
      in case iq_from q of
           None \<Rightarrow> asm_fail ''irq needs an index'' ctx
         | Some idx_from \<Rightarrow>
             case resolve_uint_join ctx (drop idx_from (take (iq_to q) tok)) of
               (None, ctx) \<Rightarrow> asm_fail ''bad irq index'' ctx
             | (Some idx, ctx) \<Rightarrow>
                 if 7 < idx then asm_fail ''irq index out of range (0..7)'' ctx
                 else if iq_rel q \<and> (iq_prev q \<or> iq_next q) then asm_fail ''irq rel cannot combine with prev/next'' ctx
                 else if iq_rel q then (Some (pio_sim_encode_irq_rel (iq_clear q) (iq_wait q) (ucast idx)), ctx)
                 else
                   let (ok, ctx) = (if iq_prev q \<or> iq_next q then require_prog_version v ''irq prev/next'' ctx else (True, ctx))
                   in if \<not> ok then (None, ctx)
                      else (Some (pio_sim_encode_irq (iq_clear q) (iq_wait q) (irq_index_field (iq_prev q) (iq_next q) idx)), ctx))"

definition enc_set :: "string list \<Rightarrow> asm_ctx_t \<Rightarrow> u16 asm_result" where
  "enc_set tok ctx =
     (if length tok < 3 then asm_fail ''set needs <dest>, <value>'' ctx
      else case set_dest_field (tok ! 1) of
          None \<Rightarrow> asm_fail ''bad set operands'' ctx
        | Some dest \<Rightarrow>
            case resolve_uint_join ctx (drop 2 tok) of
              (None, ctx) \<Rightarrow> asm_fail ''bad set operands'' ctx
            | (Some val, ctx) \<Rightarrow>
                if 31 < val then asm_fail ''set value out of range (0..31)'' ctx
                else (Some (pio_sim_encode_set dest (ucast (val AND 0x1F))), ctx))"

text \<open>The mnemonic is the first token of the line even when every token was a delay or side-set.\<close>

definition encode_mnemonic :: "pio_version \<Rightarrow> string \<Rightarrow> string list \<Rightarrow> asm_ctx_t \<Rightarrow> u16 asm_result" where
  "encode_mnemonic v m tok ctx =
     (if ieq m ''nop'' then (Some pio_sim_encode_nop, ctx)
      else if ieq m ''jmp'' then enc_jmp tok ctx
      else if ieq m ''wait'' then enc_wait v tok ctx
      else if ieq m ''in'' then enc_in tok ctx
      else if ieq m ''out'' then enc_out tok ctx
      else if ieq m ''push'' then enc_push tok ctx
      else if ieq m ''pull'' then enc_pull tok ctx
      else if ieq m ''mov'' then enc_mov v tok ctx
      else if ieq m ''irq'' then enc_irq v tok ctx
      else if ieq m ''set'' then enc_set tok ctx
      else asm_fail ''unknown mnemonic'' ctx)"

definition assemble_insn :: "pio_version \<Rightarrow> string list \<Rightarrow> asm_ctx_t \<Rightarrow> u16 asm_result" where
  "assemble_insn v tok ctx =
     (case extract_side_delay ctx tok 0 False 0 of
        (None, ctx) \<Rightarrow> (None, ctx)
      | (Some (rest, side, has_side, delay), ctx) \<Rightarrow>
          case encode_mnemonic v (hd tok) rest ctx of
            (None, ctx) \<Rightarrow> (None, ctx)
          | (Some base, ctx) \<Rightarrow>
              case pack_delay_sideset delay side has_side ctx of
                (None, ctx) \<Rightarrow> (None, ctx)
              | (Some ds, ctx) \<Rightarrow> (Some (base OR push_bit 8 ds), ctx))"

section \<open>The delay and side-set field\<close>

text \<open>The field as a delay of \<open>k\<close> bits, a side-set value above it and an enable bit.\<close>

definition packed :: "bool \<Rightarrow> nat \<Rightarrow> u32 \<Rightarrow> u32 \<Rightarrow> u16" where
  "packed en k d s = ucast d OR push_bit 4 (of_bool en) OR ucast (push_bit k s)"

lemma bit_packed: "bit (packed en k d s) i \<longleftrightarrow> i < 16 \<and> (bit d i \<or> en \<and> i = 4 \<or> k \<le> i \<and> bit s (i - k))"
  unfolding packed_def by (auto simp: bit_simps)

lemma packed_delay:
  assumes "take_bit (unat k) d = d" "k \<le> 5" "k \<le> 4 \<or> \<not> en"
  shows "ucast (ucast (ucast (packed en (unat k) d s) :: u8) AND mask_n k) = (ucast d :: u8)"
proof (rule bit_word_eqI)
  fix i
  have d: "bit d i \<Longrightarrow> i < unat k" using assms(1) by (metis bit_take_bit_iff)
  have k: "unat k \<le> 5" "en \<Longrightarrow> unat k \<le> 4" using assms(2,3) by (auto simp: word_le_nat_alt)
  then show "bit (ucast (ucast (ucast (packed en (unat k) d s) :: u8) AND mask_n k) :: u8) i = bit (ucast d :: u8) i"
    using d by (auto simp: bit_simps bit_mask_n bit_packed)
qed

lemma packed_side:
  assumes "take_bit (unat k) d = d" "take_bit (unat m) s = s" "unat k + unat m \<le> (if en then 4 else 5)"
  shows "drop_bit (unat k) (ucast (ucast (packed en (unat k) d s) :: u8)) AND mask_n m = s"
proof (rule bit_word_eqI)
  fix i
  have d: "bit d j \<Longrightarrow> j < unat k" for j using assms(1) by (metis bit_take_bit_iff)
  have s: "bit s i \<Longrightarrow> i < unat m" using assms(2) by (metis bit_take_bit_iff)
  have nd: "\<not> bit d (i + unat k)" "\<not> bit d (unat k + i)" using d [of "unat k + i"] by (auto simp: add.commute)
  show "bit (drop_bit (unat k) (ucast (ucast (packed en (unat k) d s) :: u8)) AND mask_n m) i = bit s i"
    using s nd assms(3) by (auto simp: bit_simps bit_mask_n bit_packed split: if_splits)
qed

lemma packed_enable:
  fixes k m :: u8
  assumes "take_bit (unat k) d = d" "k \<le> 4" "take_bit (unat m) s = s" "unat k + unat m \<le> 4"
  shows "drop_bit 4 (ucast (packed en (unat k) d s) :: u8) AND 1 \<noteq> 0 \<longleftrightarrow> en"
proof -
  have "unat k \<le> 4" using assms(2) by (simp add: word_le_nat_alt)
  then have "\<not> bit d 4" using assms(1) by (metis bit_take_bit_iff not_le)
  moreover have "\<not> bit s (4 - unat k)" using assms(3,4) by (metis bit_take_bit_iff add_le_imp_le_diff le_diff_conv2 add.commute not_le \<open>unat k \<le> 4\<close>)
  ultimately have "bit (ucast (packed en (unat k) d s) :: u8) 4 = en" using assms(4) by (auto simp: bit_simps bit_packed)
  then show ?thesis by (simp add: drop_bit_and_1)
qed

lemma mask_facts:
  fixes w :: u32
  shows "w AND (2 ^ n - 1) = take_bit n w" "w \<le> 2 ^ n - 1 \<Longrightarrow> take_bit n w = w"
proof -
  have m: "(2 ^ n - 1 :: u32) = mask n" by (simp add: mask_eq_exp_minus_1)
  show "w AND (2 ^ n - 1) = take_bit n w" unfolding m by (simp add: take_bit_eq_mask)
  assume "w \<le> 2 ^ n - 1"
  then have "unat w \<le> unat (take_bit n (- 1 :: u32))"
    unfolding m by (simp add: word_le_nat_alt take_bit_minus_one_eq_mask)
  also have "\<dots> < 2 ^ n" unfolding unsigned_take_bit_eq by (rule take_bit_nat_less_exp)
  finally have "unat w < 2 ^ n" .
  then show "take_bit n w = w" by (simp add: word_unat_eq_iff unsigned_take_bit_eq take_bit_nat_eq_self)
qed

lemma pack_shape:
  fixes ctx
  defines "T \<equiv> (if 5 < pg_sideset_bits (cx_out ctx) then 5 else pg_sideset_bits (cx_out ctx))"
  defines "opt \<equiv> pg_sideset_opt (cx_out ctx)"
  defines "K \<equiv> unat ((5 - T) AND 7)"
  assumes "pack_delay_sideset delay side has_side ctx = (Some f, ctx')"
  shows "ctx' = ctx" "has_side \<Longrightarrow> 0 < T" "0 < T \<Longrightarrow> \<not> opt \<Longrightarrow> has_side"
    "take_bit K delay = delay" "f = packed (has_side \<and> opt) K delay (if has_side then side else 0)"
    "has_side \<Longrightarrow> take_bit (unat (if opt then (T - 1) AND 7 else T)) side = side"
  using assms(4) unfolding pack_delay_sideset_def Let_def asm_fail_def T_def [symmetric] opt_def [symmetric] K_def [symmetric]
  by (auto simp: packed_def mask_facts not_less or.assoc split: if_splits)

text \<open>What the simulator decodes from the field, on a state machine with the side-set of the program.\<close>

definition same_sideset :: "pio_sm_t \<Rightarrow> pio_program_t \<Rightarrow> bool" where
  "same_sideset s p \<longleftrightarrow> sm_sideset_total_bits s = pg_sideset_bits p \<and> sm_sideset_opt s = pg_sideset_opt p \<and>
     (pg_sideset_opt p \<longrightarrow> 0 < pg_sideset_bits p)"

lemma pack_decode:
  assumes "pack_delay_sideset delay side has_side ctx = (Some f, ctx')" "same_sideset s (cx_out ctx)"
  shows "let ds = decode_delay_sideset s (ucast f)
    in ds_delay ds = ucast delay \<and> unat (ds_delay ds) = unat delay \<and>
       (if has_side then ds_side_en ds \<and> ds_side_val ds = side else ds_ss_data_bits ds = 0 \<or> \<not> ds_side_en ds)"
proof -
  define T where "T = (if 5 < pg_sideset_bits (cx_out ctx) then 5 else pg_sideset_bits (cx_out ctx))"
  define opt where "opt = pg_sideset_opt (cx_out ctx)"
  note shape = pack_shape [OF assms(1), folded T_def opt_def]
  have s: "sideset_total s = T" "sm_sideset_opt s = opt" "opt \<Longrightarrow> 0 < T"
    using assms(2) by (auto simp: same_sideset_def sideset_total_def T_def opt_def)
  let ?K = "(5 - T) AND 7" and ?m = "if opt then (T - 1) AND 7 else T"
  have T: "T = 0 \<or> T = 1 \<or> T = 2 \<or> T = 3 \<or> T = 4 \<or> T = 5"
    by (rule small_cases) (simp add: T_def linorder_not_less)
  then have K: "?K \<le> 5" "opt \<Longrightarrow> ?K \<le> 4" "unat ?K + unat ?m \<le> (if opt then 4 else 5)" "opt \<Longrightarrow> ?m = T - 1"
    using s(3) by auto
  have "ds_delay (decode_delay_sideset s (ucast f)) = ucast delay"
    using packed_delay [OF shape(4) K(1), of "has_side \<and> opt" "if has_side then side else 0"] K(2)
    unfolding decode_delay_sideset_def Let_def s shape(5) by (cases has_side; cases opt) simp_all
  moreover have "unat delay < 2 ^ unat ?K"
    using shape(4) take_bit_nat_less_exp [of "unat ?K" "unat delay"] by (metis unsigned_take_bit_eq)
  then have "unat delay < 256" using K(1) power_increasing [of "unat ?K" 5 "2 :: nat"] by (simp add: word_le_nat_alt)
  then have "unat (ucast delay :: u8) = unat delay" by (simp add: unsigned_ucast_eq take_bit_nat_eq_self)
  ultimately have delay: "ds_delay (decode_delay_sideset s (ucast f)) = ucast delay" "unat (ucast delay :: u8) = unat delay" by simp_all
  moreover have "has_side \<Longrightarrow> ds_side_val (decode_delay_sideset s (ucast f)) = side"
    using packed_side [OF shape(4,6), of "opt"] K shape(2) by (auto simp add: decode_delay_sideset_def Let_def s shape(5))
  moreover have "0 < T \<Longrightarrow> ds_side_en (decode_delay_sideset s (ucast f)) = has_side"
    using packed_enable [of ?K delay ?m "if has_side then side else 0" has_side] shape K s(3)
    by (cases opt) (auto simp: decode_delay_sideset_def Let_def s)
  moreover have "\<not> 0 < T \<Longrightarrow> ds_ss_data_bits (decode_delay_sideset s (ucast f)) = 0"
    by (simp add: decode_delay_sideset_def Let_def s)
  ultimately show ?thesis using shape(2) by (cases "0 < T") (auto simp: Let_def)
qed

text \<open>The field does not reach the opcode or the operand.\<close>

lemma pack_field_bits:
  assumes "pack_delay_sideset delay side has_side ctx = (Some f, ctx')" "same_sideset s (cx_out ctx)" "bit f i"
  shows "i < 5"
proof -
  define T where "T = (if 5 < pg_sideset_bits (cx_out ctx) then 5 else pg_sideset_bits (cx_out ctx))"
  define opt where "opt = pg_sideset_opt (cx_out ctx)"
  note shape = pack_shape [OF assms(1), folded T_def opt_def]
  let ?K = "(5 - T) AND 7" and ?m = "if opt then (T - 1) AND 7 else T"
  have T: "T = 0 \<or> T = 1 \<or> T = 2 \<or> T = 3 \<or> T = 4 \<or> T = 5"
    by (rule small_cases) (simp add: T_def linorder_not_less)
  have opt: "opt \<Longrightarrow> 0 < T" using assms(2) by (auto simp: same_sideset_def T_def opt_def)
  have K: "unat ?K + unat ?m \<le> 5" using T opt by auto
  have "bit delay j \<Longrightarrow> j < unat ?K" for j using shape(4) by (metis bit_take_bit_iff)
  moreover have "has_side \<Longrightarrow> bit side j \<Longrightarrow> j < unat ?m" for j using shape(6) by (metis bit_take_bit_iff)
  ultimately show ?thesis using assms(3) K unfolding shape(5) bit_packed by (fastforce split: if_splits)
qed

lemma insn_fields_or:
  assumes "insn_fields base = (opc, 0, operand)" "\<And>i. bit f i \<Longrightarrow> i < 5"
  shows "insn_fields (base OR push_bit 8 f) = (opc, ucast f, operand)"
proof -
  have "drop_bit 13 (push_bit 8 f) = 0" "push_bit 8 f AND 0xFF = 0" "drop_bit 8 (push_bit 8 f) AND 0x1F = f"
    unfolding and_masks and_ff using assms(2)
    by (auto intro!: bit_word_eqI simp: bit_simps dest: word_bit_lt)  (use assms(2) in fastforce)+
  then show ?thesis using assms(1)
    by (auto simp: insn_fields_def bit.conj_disj_distrib2 unsigned_or_eq)
qed

text \<open>An instruction word whose delay and side-set field is empty.\<close>

definition plain_insn :: "u16 \<Rightarrow> bool" where
  "plain_insn w \<longleftrightarrow> fst (snd (insn_fields w)) = 0"

lemma plain_encoders [simp]:
  "plain_insn (pio_sim_encode_jmp c a)" "plain_insn (pio_sim_encode_in c a)" "plain_insn (pio_sim_encode_out c a)"
  "plain_insn (pio_sim_encode_set c a)" "plain_insn (pio_sim_encode_mov c opn a)" "plain_insn (pio_sim_encode_wait pol c a)"
  "plain_insn (pio_sim_encode_irq f g a)" "plain_insn (pio_sim_encode_push f g)" "plain_insn (pio_sim_encode_pull f g)"
  "plain_insn pio_sim_encode_nop" "plain_insn (pio_sim_encode_wait_irq_rel pol a)" "plain_insn (pio_sim_encode_wait_jmppin pol a)"
  "plain_insn (pio_sim_encode_irq_rel f g a)"
  by (simp_all add: plain_insn_def encode_fields pio_sim_encode_nop_def pio_sim_encode_wait_irq_rel_def
      pio_sim_encode_wait_jmppin_def pio_sim_encode_irq_rel_def)

lemma plain_rxfifo [simp]:
  "plain_insn (pio_sim_encode_mov_to_rxfifo i)" "plain_insn pio_sim_encode_mov_to_rxfifo_y"
  "plain_insn (pio_sim_encode_mov_from_rxfifo i)" "plain_insn pio_sim_encode_mov_from_rxfifo_y"
  using and_3_cases [of i]
  by (auto simp: plain_insn_def insn_fields_def pio_sim_encode_mov_to_rxfifo_def pio_sim_encode_mov_from_rxfifo_def
      pio_sim_encode_mov_to_rxfifo_y_def pio_sim_encode_mov_from_rxfifo_y_def)

lemma plain_results:
  "enc_jmp tok ctx = (Some w, ctx') \<Longrightarrow> plain_insn w"
  "enc_in tok ctx = (Some w, ctx') \<Longrightarrow> plain_insn w"
  "enc_out tok ctx = (Some w, ctx') \<Longrightarrow> plain_insn w"
  "enc_set tok ctx = (Some w, ctx') \<Longrightarrow> plain_insn w"
  "enc_push tok ctx = (Some w, ctx') \<Longrightarrow> plain_insn w"
  "enc_pull tok ctx = (Some w, ctx') \<Longrightarrow> plain_insn w"
  by (auto simp: enc_jmp_def enc_in_def enc_out_def enc_set_def enc_push_def enc_pull_def asm_fail_def Let_def
      split: if_splits option.splits prod.splits)

lemma plain_irq: "enc_irq v tok ctx = (Some w, ctx') \<Longrightarrow> plain_insn w"
  by (auto simp: enc_irq_def asm_fail_def Let_def split: if_splits option.splits prod.splits)

lemma plain_wait: "enc_wait v tok ctx = (Some w, ctx') \<Longrightarrow> plain_insn w"
proof -
  have "enc_wait_jmppin v tok si pol ctx = (Some w, ctx') \<Longrightarrow> plain_insn w" for si pol ctx
    by (auto simp: enc_wait_jmppin_def asm_fail_def Let_def split: if_splits option.splits prod.splits)
  moreover have "enc_wait_index v tok si pol source ctx = (Some w, ctx') \<Longrightarrow> plain_insn w" for si pol source ctx
    by (simp add: enc_wait_index_def asm_fail_def Let_def split: if_splits option.splits prod.splits) (auto split: if_splits prod.splits)
  ultimately show "enc_wait v tok ctx = (Some w, ctx') \<Longrightarrow> plain_insn w"
    by (auto simp: enc_wait_def asm_fail_def Let_def split: if_splits option.splits prod.splits)
qed

lemma plain_mov: "enc_mov v tok ctx = (Some w, ctx') \<Longrightarrow> plain_insn w"
  by (auto simp: enc_mov_def enc_mov_rxfifo_def asm_fail_def Let_def split: if_splits option.splits prod.splits)

lemma plain_mnemonic: "encode_mnemonic v m tok ctx = (Some w, ctx') \<Longrightarrow> plain_insn w"
  unfolding encode_mnemonic_def
  by (auto simp: asm_fail_def dest: plain_results plain_irq plain_wait plain_mov split: if_splits)

text \<open>
  C11: What is assembled is what runs.  When a line assembles, the opcode and operand of the word are those
  of its mnemonic, and a state machine with the side-set configuration of the program decodes from
  the word exactly the delay and the side-set value written on the line: the side-set is driven if
  and only if the line has one (a program without side-set pins drives none).
\<close>

theorem assembled_insn_decodes:
  assumes "assemble_insn v tok ctx = (Some w, ctx')" "same_sideset s (cx_out ctx')"
  shows "\<exists>rest side has_side delay ctx1 base. extract_side_delay ctx tok 0 False 0 = (Some (rest, side, has_side, delay), ctx1) \<and>
    encode_mnemonic v (hd tok) rest ctx1 = (Some base, ctx') \<and>
    (case insn_fields w of (opc, field, operand) \<Rightarrow> insn_fields base = (opc, 0, operand) \<and>
      (let ds = decode_delay_sideset s field
       in unat (ds_delay ds) = unat delay \<and>
          (if has_side then ds_side_en ds \<and> ds_side_val ds = side else ds_ss_data_bits ds = 0 \<or> \<not> ds_side_en ds)))"
proof -
  obtain rest side has_side delay ctx1 base ctx2 f where
    steps: "extract_side_delay ctx tok 0 False 0 = (Some (rest, side, has_side, delay), ctx1)"
      "encode_mnemonic v (hd tok) rest ctx1 = (Some base, ctx2)"
      "pack_delay_sideset delay side has_side ctx2 = (Some f, ctx')" "w = base OR push_bit 8 f"
    using assms(1) by (auto simp: assemble_insn_def split: option.splits prod.splits)
  have same: "ctx2 = ctx'" "same_sideset s (cx_out ctx2)" using pack_shape(1) [OF steps(3)] assms(2) by simp_all
  obtain opc operand where base: "insn_fields base = (opc, 0, operand)"
    using plain_mnemonic [OF steps(2)] by (cases "insn_fields base") (auto simp: plain_insn_def)
  then have "insn_fields w = (opc, ucast f, operand)"
    using pack_field_bits [OF steps(3) same(2)] by (simp add: steps(4) insn_fields_or)
  then show ?thesis
    using steps(1,2) same(1) base pack_decode [OF steps(3) same(2)] by (auto simp: Let_def)
qed

theorem assembled_insn_decodes_witness:
  "let ctx = asm_start\<lparr>cx_out := (cx_out asm_start)\<lparr>pg_sideset_bits := 1\<rparr>\<rparr>;
       tok = [''set'', ''pins'', ''1'', ''side'', ''1'', ''[3]'']; s = sm_zero\<lparr>sm_sideset_total_bits := 1\<rparr>;
       ds = decode_delay_sideset s (fst (snd (insn_fields 0xF301)))
   in fst (assemble_insn RP2040 tok ctx) = Some 0xF301 \<and> fst (insn_fields 0xF301) = 7 \<and> unat (ds_delay ds) = 3 \<and>
      ds_side_en ds \<and> ds_side_val ds = 1"
proof -
  define ctx where "ctx = asm_start\<lparr>cx_out := (cx_out asm_start)\<lparr>pg_sideset_bits := 1\<rparr>\<rparr>"
  define tok where "tok = [''set'', ''pins'', ''1'', ''side'', ''1'', ''[3]'']"
  define s where "s = sm_zero\<lparr>sm_sideset_total_bits := 1\<rparr>"
  let ?r = "assemble_insn RP2040 tok ctx"
  have w: "fst ?r = Some 0xF301" unfolding tok_def ctx_def by code_simp
  have "pg_sideset_bits (cx_out (snd ?r)) = 1" "pg_sideset_opt (cx_out (snd ?r)) = False"
    unfolding tok_def ctx_def by code_simp+
  then have "same_sideset s (cx_out (snd ?r))" by (simp add: same_sideset_def s_def sm_zero_def)
  moreover have "?r = (Some 0xF301, snd ?r)" using w by (simp add: prod_eq_iff)
  ultimately obtain rest side has_side delay ctx1 where
    *: "extract_side_delay ctx tok 0 False 0 = (Some (rest, side, has_side, delay), ctx1)"
      "let ds = decode_delay_sideset s (fst (snd (insn_fields 0xF301)))
       in unat (ds_delay ds) = unat delay \<and>
          (if has_side then ds_side_en ds \<and> ds_side_val ds = side else ds_ss_data_bits ds = 0 \<or> \<not> ds_side_en ds)"
    using assembled_insn_decodes [of RP2040 tok ctx "0xF301" "snd ?r" s] by (auto simp: split_beta)
  have "fst (extract_side_delay ctx tok 0 False 0) = Some ([''set'', ''pins'', ''1''], 1, True, 3)"
    unfolding tok_def ctx_def by code_simp
  then show ?thesis using * w unfolding tok_def [symmetric] ctx_def [symmetric] s_def [symmetric]
    by (simp add: Let_def) (simp add: insn_fields_def)
qed

end
