(* ===== verification/Asm_Program.thy ===== *)
theory Asm_Program
  imports Asm_Insn Pio_Host
begin

text \<open>
  Assembling a program (\<open>lib/src/pio_asm.c\<close>): directives, labels, the three passes over the source, and
  loading the result into a PIO block.  The C library's \<open>strtod\<close>, used for \<open>.clock_div\<close> only, is an
  argument: it gives a value and the characters after it.
\<close>

section \<open>State\<close>

record pa_parse_state_t =
  ps_ctx :: asm_ctx_t
  ps_name :: "string option"
  ps_pass :: nat
  ps_in_program :: bool
  ps_done_selected :: bool
  ps_in_verbatim :: bool
  ps_in_block_comment :: bool
  ps_seen_any_program :: bool
  ps_idx :: u8

datatype line_result_t = LINE_OK | LINE_DONE | LINE_ERROR

abbreviation (input) PIO_ASM_MAX_INSNS :: u8 where "PIO_ASM_MAX_INSNS \<equiv> 32"

definition upd_out :: "(pio_program_t \<Rightarrow> pio_program_t) \<Rightarrow> asm_ctx_t \<Rightarrow> asm_ctx_t" where
  "upd_out f ctx = ctx\<lparr>cx_out := f (cx_out ctx)\<rparr>"

definition ps_error :: "string \<Rightarrow> pa_parse_state_t \<Rightarrow> line_result_t \<times> pa_parse_state_t" where
  "ps_error msg ps = (LINE_ERROR, ps\<lparr>ps_ctx := pa_set_error msg (ps_ctx ps)\<rparr>)"

definition tokenize_copy :: "string \<Rightarrow> string list \<times> bool" where
  "tokenize_copy line = tokenize MAX_TOKENS (take (MAX_LINE - 1) line)"

section \<open>Directives\<close>

definition parse_side_set :: "string list \<Rightarrow> u32 \<Rightarrow> asm_ctx_t \<Rightarrow> bool \<times> asm_ctx_t" where
  "parse_side_set tok bits ctx =
     (let opt = list_ex (\<lambda>t. ieq t ''opt'') (drop 2 tok);
          pindirs = list_ex (\<lambda>t. ieq t ''pindirs'') (drop 2 tok);
          extra = (if opt then 1 else 0)
      in if 5 < bits \<or> 5 < bits + extra then (False, pa_set_error ''side-set count out of range (0..5)'' ctx)
         else (True, upd_out (\<lambda>p. p\<lparr>pg_sideset_bits := ucast (bits + extra), pg_sideset_opt := opt,
                pg_sideset_pindirs := pindirs\<rparr>) ctx))"

type_synonym c_strtod = "string \<Rightarrow> c_double \<times> string"

definition negative :: "c_double \<Rightarrow> bool" where
  "negative d = (case d of Not_a_number \<Rightarrow> False | Infinite neg \<Rightarrow> neg | Finite q \<Rightarrow> q < 0)"

definition parse_double :: "c_strtod \<Rightarrow> string \<Rightarrow> c_double option" where
  "parse_double strtod s =
     (let (d, rest) = strtod s in if rest = s \<or> rest \<noteq> [] \<or> negative d then None else Some d)"

definition parse_fifo_config :: "pio_version \<Rightarrow> string \<Rightarrow> u8 option" where
  "parse_fifo_config v = name_field
     ([(''txrx'', PIO_FIFO_JOIN_NONE), (''tx'', PIO_FIFO_JOIN_TX), (''rx'', PIO_FIFO_JOIN_RX)] @
      (if PIO_SIM_HAS_RXFIFO_MOV v
       then [(''putget'', PIO_FIFO_JOIN_RX_PUTGET), (''txput'', PIO_FIFO_JOIN_RX_PUT), (''txget'', PIO_FIFO_JOIN_RX_GET)]
       else []))"

text \<open>The loop over the options of \<open>.in\<close> and \<open>.out\<close>.\<close>

fun shift_options ::
  "asm_ctx_t \<Rightarrow> pio_shift_dir_t \<Rightarrow> bool \<Rightarrow> u32 \<Rightarrow> string list \<Rightarrow> (pio_shift_dir_t \<times> bool \<times> u32) asm_result" where
  "shift_options ctx dir autoshift threshold [] = (Some (dir, autoshift, threshold), ctx)"
| "shift_options ctx dir autoshift threshold (t # ts) =
     (if ieq t ''left'' then shift_options ctx PIO_SHIFT_LEFT autoshift threshold ts
      else if ieq t ''right'' then shift_options ctx PIO_SHIFT_RIGHT autoshift threshold ts
      else if ieq t ''auto'' then shift_options ctx dir True threshold ts
      else if ieq t ''manual'' then shift_options ctx dir False threshold ts
      else case eval_uint ctx t of
          (None, ctx) \<Rightarrow> (None, ctx)
        | (Some x, ctx) \<Rightarrow> if 32 < x then (None, ctx) else shift_options ctx dir autoshift x ts)"

text \<open>The configuration of \<open>.in\<close> or \<open>.out\<close>, if it is a valid one.\<close>

definition parse_shift_dir_cfg :: "pio_version \<Rightarrow> string list \<Rightarrow> bool \<Rightarrow> asm_ctx_t \<Rightarrow> bool \<times> asm_ctx_t" where
  "parse_shift_dir_cfg v tok is_in ctx =
     (case (if length tok < 2 then (None, ctx) else eval_uint ctx (tok ! 1)) of
        (None, ctx) \<Rightarrow> (False, ctx)
      | (Some count, ctx) \<Rightarrow>
          if 32 < count then (False, ctx)
          else if is_in \<and> (if program_version v ctx = 0 then count \<noteq> 32 else count = 0) then (False, ctx)
          else case shift_options ctx PIO_SHIFT_RIGHT False 32 (drop 2 tok) of
              (None, ctx) \<Rightarrow> (False, ctx)
            | (Some (dir, autoshift, threshold), ctx) \<Rightarrow>
                let cfg = \<lparr>sc_set = True, sc_count = ucast count, sc_dir = dir, sc_autoshift = autoshift,
                           sc_threshold = ucast threshold\<rparr>
                in (True, upd_out (\<lambda>p. if is_in then p\<lparr>pg_in_cfg := cfg\<rparr> else p\<lparr>pg_out_cfg := cfg\<rparr>) ctx))"

text \<open>The neighbour keywords between \<open>irq\<close> and the last token: the last one counts.\<close>

definition status_irq_sel :: "string list \<Rightarrow> u8" where
  "status_irq_sel ts =
     fold (\<lambda>t sel. if ieq t ''next'' then PIO_STATUS_IRQ_SET_NEXT else if ieq t ''prev'' then PIO_STATUS_IRQ_SET_PREV else sel)
       ts PIO_STATUS_IRQ_SET"

definition parse_mov_status :: "pio_version \<Rightarrow> string list \<Rightarrow> asm_ctx_t \<Rightarrow> bool \<times> asm_ctx_t" where
  "parse_mov_status v tok ctx =
     (if length tok < 2 then (False, ctx)
      else
        let is_tx = ieq (tok ! 1) ''txfifo'';
            is_rx = (\<not> is_tx \<and> ieq (tok ! 1) ''rxfifo'');
            is_irq = (\<not> is_tx \<and> \<not> is_rx \<and> PIO_SIM_HAS_IRQ_STATUS v \<and> ieq (tok ! 1) ''irq'');
            sel = (if is_tx then PIO_STATUS_TX_LEVEL else if is_rx then PIO_STATUS_RX_LEVEL
                   else status_irq_sel (butlast (drop 2 tok)))
        in if \<not> is_tx \<and> \<not> is_rx \<and> \<not> is_irq then (False, ctx)
           else
             let ctx = upd_out (\<lambda>p. p\<lparr>pg_mov_status_sel := sel\<rparr>) ctx;
                 (ok, ctx) = (if is_irq \<and> sel \<noteq> PIO_STATUS_IRQ_SET
                              then require_prog_version v ''.mov_status irq next/prev'' ctx else (True, ctx))
             in if \<not> ok then (False, ctx)
                else if (is_tx \<or> is_rx) \<and> \<not> list_ex (\<lambda>t. ieq t ''<'') (drop 2 tok) then (False, ctx)
                else if is_irq \<and> \<not> list_ex (\<lambda>t. ieq t ''set'') (drop 2 tok) then (False, ctx)
                else case eval_uint ctx (last tok) of
                    (None, ctx) \<Rightarrow> (False, ctx)
                  | (Some n, ctx) \<Rightarrow>
                      if 31 < n then (False, ctx)
                      else (True, upd_out (\<lambda>p. p\<lparr>pg_mov_status_n := ucast n, pg_has_mov_status := True\<rparr>) ctx))"

text \<open>\<open>.program\<close>\<close>

definition directive_program :: "string list \<Rightarrow> pa_parse_state_t \<Rightarrow> line_result_t \<times> pa_parse_state_t" where
  "directive_program tok ps =
     (if ps_seen_any_program ps \<and> ps_in_program ps then (LINE_DONE, ps)
      else
        let sel = (ps_name ps = None \<or> (2 \<le> length tok \<and> Some (tok ! 1) = ps_name ps));
            ps = ps\<lparr>ps_seen_any_program := True, ps_in_program := sel, ps_idx := 0\<rparr>
        in (LINE_OK, if sel \<and> ps_pass ps = 1 \<and> 2 \<le> length tok
                     then ps\<lparr>ps_ctx := upd_out (\<lambda>p. p\<lparr>pg_name := take 31 (tok ! 1)\<rparr>) (ps_ctx ps)\<rparr> else ps))"

text \<open>\<open>.define\<close>, in the scan pass\<close>

definition directive_define :: "string list \<Rightarrow> pa_parse_state_t \<Rightarrow> line_result_t \<times> pa_parse_state_t" where
  "directive_define tok ps =
     (let ni = (if 2 \<le> length tok \<and> ieq (tok ! 1) ''public'' then 2 else 1); ctx = ps_ctx ps
      in if ni = 1 \<and> ps_seen_any_program ps \<and> \<not> ps_in_program ps then (LINE_OK, ps)
         else case (if length tok < ni + 2 then None else join_tokens (drop (ni + 1) tok) MAX_LINE) of
             None \<Rightarrow> ps_error ''bad .define'' ps
           | Some expr \<Rightarrow>
               if 32 \<le> length (tok ! ni) then ps_error ''define name too long'' ps
               else if define_declared ctx (tok ! ni) then ps_error ''duplicate define'' ps
               else if find_label ctx (tok ! ni) \<noteq> None then ps_error ''symbol already defined as a label'' ps
               else case declare_define (tok ! ni) expr (cx_line_no ctx) ctx of
                   None \<Rightarrow> ps_error ''too many .define symbols'' ps
                 | Some ctx \<Rightarrow> (LINE_OK, ps\<lparr>ps_ctx := ctx\<rparr>))"

text \<open>A directive with one operand: evaluate it, or fail with a message.\<close>

definition with_operand ::
  "string list \<Rightarrow> string \<Rightarrow> (u32 \<Rightarrow> pa_parse_state_t \<Rightarrow> line_result_t \<times> pa_parse_state_t)
     \<Rightarrow> pa_parse_state_t \<Rightarrow> line_result_t \<times> pa_parse_state_t" where
  "with_operand tok msg k ps =
     (case (if length tok < 2 then (None, ps_ctx ps) else eval_uint (ps_ctx ps) (tok ! 1)) of
        (None, ctx) \<Rightarrow> ps_error msg (ps\<lparr>ps_ctx := ctx\<rparr>)
      | (Some x, ctx) \<Rightarrow> k x (ps\<lparr>ps_ctx := ctx\<rparr>))"

text \<open>The result of a directive that sets fields of the program.\<close>

definition ps_set :: "(pio_program_t \<Rightarrow> pio_program_t) \<Rightarrow> pa_parse_state_t \<Rightarrow> line_result_t \<times> pa_parse_state_t" where
  "ps_set f ps = (LINE_OK, ps\<lparr>ps_ctx := upd_out f (ps_ctx ps)\<rparr>)"

text \<open>The result of a directive whose parser reports success.\<close>

definition ps_check :: "bool \<times> asm_ctx_t \<Rightarrow> string \<Rightarrow> pa_parse_state_t \<Rightarrow> line_result_t \<times> pa_parse_state_t" where
  "ps_check r msg ps =
     (let ps = ps\<lparr>ps_ctx := snd r\<rparr> in if fst r then (LINE_OK, ps) else ps_error msg ps)"

definition directive_side_set :: "string list \<Rightarrow> pa_parse_state_t \<Rightarrow> line_result_t \<times> pa_parse_state_t" where
  "directive_side_set tok = with_operand tok ''bad .side_set'' (\<lambda>bits ps.
     let (ok, ctx) = parse_side_set tok bits (ps_ctx ps)
     in (if ok then LINE_OK else LINE_ERROR, ps\<lparr>ps_ctx := ctx\<rparr>))"

definition directive_wrap :: "pa_parse_state_t \<Rightarrow> line_result_t \<times> pa_parse_state_t" where
  "directive_wrap ps =
     (if ps_idx ps = 0 then ps_error ''.wrap cannot be placed before the first instruction'' ps
      else if pg_wrap_top (cx_out (ps_ctx ps)) \<noteq> 0xFF then ps_error ''.wrap was already specified'' ps
      else ps_set (\<lambda>p. p\<lparr>pg_wrap_top := ps_idx ps - 1\<rparr>) ps)"

definition directive_word :: "string list \<Rightarrow> pa_parse_state_t \<Rightarrow> line_result_t \<times> pa_parse_state_t" where
  "directive_word tok ps =
     (if PIO_ASM_MAX_INSNS \<le> ps_idx ps then ps_error ''program exceeds 32 instructions'' ps
      else if ps_pass ps = 2 then
        (case (if length tok < 2 then (None, ps_ctx ps) else resolve_uint_join (ps_ctx ps) (drop 1 tok)) of
           (None, ctx) \<Rightarrow> ps_error ''bad .word'' (ps\<lparr>ps_ctx := ctx\<rparr>)
         | (Some w, ctx) \<Rightarrow>
             if 0xFFFF < w then ps_error ''.word out of range (16-bit)'' (ps\<lparr>ps_ctx := ctx\<rparr>)
             else (LINE_OK, ps\<lparr>ps_ctx := upd_out (\<lambda>p. p\<lparr>pg_insns := (pg_insns p)(unat (ps_idx ps) := ucast w)\<rparr>) ctx,
                             ps_idx := ps_idx ps + 1\<rparr>))
      else (LINE_OK, ps\<lparr>ps_idx := ps_idx ps + 1\<rparr>))"

definition directive_origin :: "string list \<Rightarrow> pa_parse_state_t \<Rightarrow> line_result_t \<times> pa_parse_state_t" where
  "directive_origin tok = with_operand tok ''bad .origin'' (\<lambda>x ps.
     if of_nat PIO_SIM_INSN_COUNT \<le> x then ps_error ''.origin out of range (0..31)'' ps
     else ps_set (\<lambda>p. p\<lparr>pg_has_origin := True, pg_origin := ucast x\<rparr>) ps)"

definition directive_pio_version :: "pio_version \<Rightarrow> string list \<Rightarrow> pa_parse_state_t \<Rightarrow> line_result_t \<times> pa_parse_state_t" where
  "directive_pio_version v tok ps =
     (if length tok < 2 then ps_error ''bad .pio_version'' ps
      else
        let (ver, ctx) = (if ieq (tok ! 1) ''rp2040'' then (Some 0, ps_ctx ps)
             else if ieq (tok ! 1) ''rp2350'' then (Some 1, ps_ctx ps) else eval_uint (ps_ctx ps) (tok ! 1));
            ps = ps\<lparr>ps_ctx := ctx\<rparr>
        in case ver of
             None \<Rightarrow> ps_error ''bad .pio_version (expected 0, 1, rp2040, or rp2350)'' ps
           | Some x \<Rightarrow>
               if 1 < x then ps_error ''bad .pio_version (expected 0, 1, rp2040, or rp2350)'' ps
               else let ps = ps\<lparr>ps_ctx := upd_out (\<lambda>p. p\<lparr>pg_pio_version := uint x\<rparr>) (ps_ctx ps)\<rparr>
                 in if PIO_SIM_PIO_VERSION v < uint x then ps_error ''program .pio_version exceeds the build target'' ps
                    else (LINE_OK, ps))"

definition directive_clock_div :: "c_strtod \<Rightarrow> string list \<Rightarrow> pa_parse_state_t \<Rightarrow> line_result_t \<times> pa_parse_state_t" where
  "directive_clock_div strtod tok ps =
     (case (if length tok < 2 then None else parse_double strtod (tok ! 1)) of
        None \<Rightarrow> ps_error ''bad .clock_div'' ps
      | Some d \<Rightarrow> ps_set (\<lambda>p. p\<lparr>pg_has_clock_div := True, pg_clock_div := d\<rparr>) ps)"

definition directive_fifo :: "pio_version \<Rightarrow> string list \<Rightarrow> pa_parse_state_t \<Rightarrow> line_result_t \<times> pa_parse_state_t" where
  "directive_fifo v tok ps =
     (case (if length tok < 2 then None else parse_fifo_config v (tok ! 1)) of
        None \<Rightarrow> ps_error ''bad .fifo'' ps
      | Some join \<Rightarrow>
          let ctx = upd_out (\<lambda>p. p\<lparr>pg_fifo_join := join\<rparr>) (ps_ctx ps);
              gated = (join = PIO_FIFO_JOIN_RX_PUT \<or> join = PIO_FIFO_JOIN_RX_GET \<or> join = PIO_FIFO_JOIN_RX_PUTGET);
              (ok, ctx) = (if PIO_SIM_HAS_RXFIFO_MOV v \<and> gated
                           then require_prog_version v ''.fifo putget/txput/txget'' ctx else (True, ctx))
          in if \<not> ok then (LINE_ERROR, ps\<lparr>ps_ctx := ctx\<rparr>)
             else ps_set (\<lambda>p. p\<lparr>pg_has_fifo_join := True\<rparr>) (ps\<lparr>ps_ctx := ctx\<rparr>))"

definition directive_set :: "string list \<Rightarrow> pa_parse_state_t \<Rightarrow> line_result_t \<times> pa_parse_state_t" where
  "directive_set tok = with_operand tok ''bad .set'' (\<lambda>x ps.
     if 5 < x then ps_error ''.set pin count out of range (0..5)'' ps
     else ps_set (\<lambda>p. p\<lparr>pg_set_cfg := (pg_set_cfg p)\<lparr>sc_set := True, sc_count := ucast x\<rparr>\<rparr>) ps)"

text \<open>The directives that only the configuration pass looks at; an unknown one is ignored.\<close>

definition directive_config ::
  "c_strtod \<Rightarrow> pio_version \<Rightarrow> string list \<Rightarrow> pa_parse_state_t \<Rightarrow> line_result_t \<times> pa_parse_state_t" where
  "directive_config strtod v tok ps =
     (let d = tok ! 0
      in if ieq d ''.origin'' then directive_origin tok ps
         else if ieq d ''.pio_version'' then directive_pio_version v tok ps
         else if ieq d ''.clock_div'' then directive_clock_div strtod tok ps
         else if ieq d ''.fifo'' then directive_fifo v tok ps
         else if ieq d ''.mov_status'' then ps_check (parse_mov_status v tok (ps_ctx ps)) ''bad .mov_status'' ps
         else if ieq d ''.in'' then ps_check (parse_shift_dir_cfg v tok True (ps_ctx ps)) ''bad .in'' ps
         else if ieq d ''.out'' then ps_check (parse_shift_dir_cfg v tok False (ps_ctx ps)) ''bad .out'' ps
         else if ieq d ''.set'' then directive_set tok ps
         else (LINE_OK, ps))"

definition handle_directive ::
  "c_strtod \<Rightarrow> pio_version \<Rightarrow> string \<Rightarrow> pa_parse_state_t \<Rightarrow> line_result_t \<times> pa_parse_state_t" where
  "handle_directive strtod v line ps =
     (let (tok, truncated) = tokenize_copy line; d = tok ! 0
      in if truncated then ps_error ''directive has too many tokens'' ps
         else if tok = [] then (LINE_OK, ps)
         else if ieq d ''.program'' then directive_program tok ps
         else if ieq d ''.define'' then (if ps_pass ps = 0 then directive_define tok ps else (LINE_OK, ps))
         else if \<not> ps_in_program ps then (LINE_OK, ps)
         else if ieq d ''.side_set'' then (if ps_pass ps = 1 then directive_side_set tok ps else (LINE_OK, ps))
         else if ieq d ''.wrap_target''
         then (if ps_pass ps = 1 then ps_set (\<lambda>p. p\<lparr>pg_wrap_bottom := ps_idx ps\<rparr>) ps else (LINE_OK, ps))
         else if ieq d ''.wrap'' then (if ps_pass ps = 1 then directive_wrap ps else (LINE_OK, ps))
         else if ieq d ''.word'' then directive_word tok ps
         else if ps_pass ps \<noteq> 1 then (LINE_OK, ps)
         else directive_config strtod v tok ps)"

section \<open>Labels and instructions\<close>

definition blank :: "char \<Rightarrow> bool" where
  "blank c \<longleftrightarrow> c = CHR '' '' \<or> c = CHR 0x09"

definition strip_public :: "string \<Rightarrow> string" where
  "strip_public line =
     (if (take 6 line = ''public'' \<or> take 6 line = ''PUBLIC'') \<and> blank (chr_at (drop 6 line))
      then let q = dropWhile blank (drop 6 line) in if CHR '':'' \<in> set q then q else line
      else line)"

text \<open>Recording a label, in the scan pass.\<close>

definition record_label :: "string \<Rightarrow> u8 \<Rightarrow> bool \<Rightarrow> asm_ctx_t \<Rightarrow> asm_ctx_t" where
  "record_label name idx is_public ctx =
     (if MAX_LABELS \<le> length (cx_labels ctx) then pa_set_error ''too many labels'' ctx
      else if 32 \<le> length name then pa_set_error ''label name too long'' ctx
      else if CHR ''0'' \<le> chr_at name \<and> chr_at name \<le> CHR ''9''
      then pa_set_error ''label name cannot start with a digit'' ctx
      else if find_label ctx name \<noteq> None then pa_set_error ''duplicate label'' ctx
      else if define_declared ctx name then pa_set_error ''symbol already defined as a define'' ctx
      else ctx\<lparr>cx_labels := cx_labels ctx @ [\<lparr>lb_name = name, lb_index = idx, lb_is_public = is_public\<rparr>]\<rparr>)"

text \<open>Whether the line was a label only, what is left of it, and the new state.\<close>

definition handle_label :: "string \<Rightarrow> pa_parse_state_t \<Rightarrow> bool \<times> string \<times> pa_parse_state_t" where
  "handle_label orig ps =
     (let line = strip_public orig; name = takeWhile id_char line
      in if chr_at (drop (length name) line) \<noteq> CHR '':'' then (False, line, ps)
         else
           let ps = (if ps_pass ps = 0
                     then ps\<lparr>ps_ctx := record_label name (ps_idx ps) (line \<noteq> orig) (ps_ctx ps)\<rparr> else ps);
               rest = dropWhile blank (drop (length name + 1) line)
           in (rest = [], rest, ps))"

definition handle_instruction :: "pio_version \<Rightarrow> string \<Rightarrow> pa_parse_state_t \<Rightarrow> line_result_t \<times> pa_parse_state_t" where
  "handle_instruction v line ps =
     (if PIO_ASM_MAX_INSNS \<le> ps_idx ps then ps_error ''program exceeds 32 instructions'' ps
      else if ps_pass ps = 2 then
        let (tok, truncated) = tokenize_copy line
        in if truncated then ps_error ''instruction has too many tokens'' ps
           else if tok = [] then ps_error ''empty instruction'' ps
           else case assemble_insn v tok (ps_ctx ps) of
               (None, ctx) \<Rightarrow> (LINE_ERROR, ps\<lparr>ps_ctx := ctx\<rparr>)
             | (Some insn, ctx) \<Rightarrow>
                 (LINE_OK, ps\<lparr>ps_ctx := upd_out (\<lambda>p. p\<lparr>pg_insns := (pg_insns p)(unat (ps_idx ps) := insn)\<rparr>) ctx,
                              ps_idx := ps_idx ps + 1\<rparr>)
      else (LINE_OK, ps\<lparr>ps_idx := ps_idx ps + 1\<rparr>))"

section \<open>Passes\<close>

definition process_line ::
  "c_strtod \<Rightarrow> pio_version \<Rightarrow> string \<Rightarrow> pa_parse_state_t \<Rightarrow> line_result_t \<times> pa_parse_state_t" where
  "process_line strtod v line ps =
     (if ps_in_verbatim ps
      then (LINE_OK, if chr_at line = CHR ''%'' \<and> CHR ''}'' \<in> set line then ps\<lparr>ps_in_verbatim := False\<rparr> else ps)
      else if chr_at line = CHR ''%'' then (LINE_OK, ps\<lparr>ps_in_verbatim := True\<rparr>)
      else if chr_at line = CHR ''.'' then handle_directive strtod v line ps
      else if \<not> ps_in_program ps then (LINE_OK, ps)
      else let (label_only, line, ps) = handle_label line ps
        in if \<not> pg_ok (cx_out (ps_ctx ps)) then (LINE_ERROR, ps)
           else if label_only then (LINE_OK, ps)
           else handle_instruction v line ps)"

text \<open>One line of the source, with the characters beyond the line buffer dropped.\<close>

definition pass_line ::
  "c_strtod \<Rightarrow> pio_version \<Rightarrow> string \<Rightarrow> nat \<Rightarrow> pa_parse_state_t \<Rightarrow> line_result_t \<times> pa_parse_state_t" where
  "pass_line strtod v raw line_no ps =
     (let ps = ps\<lparr>ps_ctx := (ps_ctx ps)\<lparr>cx_line_no := line_no\<rparr>\<rparr>;
          buf = take (MAX_LINE - 1) raw;
          (buf, ps) = (if ps_in_verbatim ps then (buf, ps)
             else let (b, c) = strip_block_comments buf (ps_in_block_comment ps) in (b, ps\<lparr>ps_in_block_comment := c\<rparr>));
          line = clean_line buf
      in if line = [] then (LINE_OK, ps) else process_line strtod v line ps)"

function pass_lines ::
  "c_strtod \<Rightarrow> pio_version \<Rightarrow> string \<Rightarrow> nat \<Rightarrow> pa_parse_state_t \<Rightarrow> bool \<times> pa_parse_state_t" where
  "pass_lines strtod v src line_no ps =
     (if src = [] \<or> ps_done_selected ps then (True, ps)
      else
        let raw = takeWhile (\<lambda>c. c \<noteq> CHR 0x0A) src;
            (r, ps) = pass_line strtod v raw (line_no + 1) ps
        in if r = LINE_ERROR then (False, ps)
           else pass_lines strtod v (tl (dropWhile (\<lambda>c. c \<noteq> CHR 0x0A) src)) (line_no + 1)
             (if r = LINE_DONE then ps\<lparr>ps_done_selected := True\<rparr> else ps))"
  by pat_completeness auto
termination
proof (relation "measure (\<lambda>(strtod, v, src, line_no, ps). length src)")
  fix strtod :: c_strtod and v :: pio_version and src :: string and line_no :: nat and ps ps' ps'' :: pa_parse_state_t
  assume "\<not> (src = [] \<or> ps_done_selected ps)"
  then have "0 < length src" by simp
  moreover have "length (dropWhile (\<lambda>c. c \<noteq> CHR 0x0A) src) \<le> length src" by (rule length_dropWhile_le)
  ultimately have "length (tl (dropWhile (\<lambda>c. c \<noteq> CHR 0x0A) src)) < length src" unfolding length_tl by linarith
  then show "((strtod, v, tl (dropWhile (\<lambda>c. c \<noteq> CHR 0x0A) src), line_no + 1, ps''), strtod, v, src, line_no, ps)
      \<in> measure (\<lambda>(strtod, v, src, line_no, ps). length src)" by simp
qed simp

declare pass_lines.simps [simp del]

definition run_pass :: "c_strtod \<Rightarrow> pio_version \<Rightarrow> string \<Rightarrow> pa_parse_state_t \<Rightarrow> bool \<times> pa_parse_state_t" where
  "run_pass strtod v src ps =
     pass_lines strtod v src 0 (ps\<lparr>ps_in_program := False, ps_done_selected := False, ps_in_verbatim := False,
       ps_in_block_comment := False, ps_seen_any_program := False, ps_idx := 0\<rparr>)"

text \<open>What follows the configuration pass: the instruction count and the wrap window.\<close>

definition close_config :: "pa_parse_state_t \<Rightarrow> bool \<times> asm_ctx_t" where
  "close_config ps =
     (let idx = ps_idx ps;
          ctx = upd_out (\<lambda>p. let p = p\<lparr>pg_count := idx\<rparr>
            in if pg_wrap_top p = 0xFF then p\<lparr>pg_wrap_top := (if 0 < idx then idx - 1 else 0)\<rparr> else p) (ps_ctx ps)
      in if idx = 0 then (False, pa_set_error ''no instructions found (check program name)'' ctx)
         else if pg_count (cx_out ctx) \<le> pg_wrap_bottom (cx_out ctx)
         then (False, pa_set_error ''.wrap_target cannot be placed after the last instruction'' ctx)
         else (True, ctx))"

text \<open>The loop over the public labels.\<close>

fun expose_labels :: "label_t list \<Rightarrow> asm_ctx_t \<Rightarrow> bool \<times> asm_ctx_t" where
  "expose_labels [] ctx = (True, ctx)"
| "expose_labels (l # ls) ctx =
     (if \<not> lb_is_public l then expose_labels ls ctx
      else if PIO_ASM_MAX_PUBLIC \<le> length (pg_public_labels (cx_out ctx))
      then (False, pa_set_error ''too many public labels'' ctx)
      else expose_labels ls (upd_out (\<lambda>p. p\<lparr>pg_public_labels := pg_public_labels p @
             [\<lparr>pl_name = take 31 (lb_name l), pl_index = lb_index l\<rparr>]\<rparr>) ctx))"

definition parse_start :: "string option \<Rightarrow> pa_parse_state_t" where
  "parse_start name =
     \<lparr>ps_ctx = asm_start, ps_name = name, ps_pass = 0, ps_in_program = False, ps_done_selected = False,
      ps_in_verbatim = False, ps_in_block_comment = False, ps_seen_any_program = False, ps_idx = 0\<rparr>"

definition pio_asm_assemble :: "c_strtod \<Rightarrow> pio_version \<Rightarrow> string \<Rightarrow> string option \<Rightarrow> bool \<times> pio_program_t" where
  "pio_asm_assemble strtod v src name =
     (let (ok, ps) = run_pass strtod v src (parse_start name)
      in if \<not> ok then (False, cx_out (ps_ctx ps))
         else let (ok, ps) = run_pass strtod v src (ps\<lparr>ps_pass := 1\<rparr>)
           in if \<not> ok then (False, cx_out (ps_ctx ps))
              else let (ok, ctx) = close_config ps
                in if \<not> ok then (False, cx_out ctx)
                   else let (ok, ps) = run_pass strtod v src (ps\<lparr>ps_ctx := ctx, ps_pass := 2\<rparr>)
                     in if \<not> ok then (False, cx_out (ps_ctx ps))
                        else let (ok, ctx) = expose_labels (cx_labels (ps_ctx ps)) (ps_ctx ps)
                          in if \<not> ok then (False, cx_out ctx) else (pg_ok (cx_out ctx), cx_out ctx))"

section \<open>Loading\<close>

definition relocate_insn :: "u8 \<Rightarrow> u16 \<Rightarrow> u16" where
  "relocate_insn offset insn =
     (if drop_bit 13 insn = 0 \<and> offset \<noteq> 0
      then let addr = ucast (insn AND 0x1F) + offset in (insn AND NOT 0x1F) OR ucast (addr AND 0x1F)
      else insn)"

text \<open>
  The loop over \<open>relocated[PIO_ASM_MAX_INSNS]\<close>: \<open>None\<close> is a write past its end, which the loop makes for a
  count above 32, before any check of the count.
\<close>

definition relocate :: "u8 \<Rightarrow> pio_program_t \<Rightarrow> u16 list option" where
  "relocate offset prog =
     (if PIO_ASM_MAX_INSNS < pg_count prog then None
      else Some (map (\<lambda>i. relocate_insn offset (pg_insns prog i)) [0..<unat (pg_count prog)]))"

text \<open>Whether the program was loaded, and the block; \<open>None\<close> is undefined behaviour.\<close>

definition pio_asm_load_program :: "u8 \<Rightarrow> u8 \<Rightarrow> pio_program_t \<Rightarrow> pio_sim_t \<Rightarrow> (bool \<times> pio_sim_t) option" where
  "pio_asm_load_program sm offset prog pio =
     (if \<not> pg_ok prog then Some (False, pio)
      else case relocate offset prog of
          None \<Rightarrow> None
        | Some relocated \<Rightarrow>
            if PIO_SIM_INSN_COUNT < unat offset + unat (pg_count prog) then Some (False, pio)
            else if pg_count prog \<le> pg_wrap_bottom prog \<or> pg_count prog \<le> pg_wrap_top prog then Some (False, pio)
            else Some (True, blk_upd_sm (SM_IDX sm) (\<lambda>s. s
                   \<lparr>sm_wrap_bottom := offset + pg_wrap_bottom prog, sm_wrap_top := offset + pg_wrap_top prog,
                    sm_sideset_total_bits := pg_sideset_bits prog, sm_sideset_opt := pg_sideset_opt prog,
                    sm_sideset_pindirs := pg_sideset_pindirs prog, sm_pc := offset\<rparr>)
                  (pio_sim_load offset relocated pio)))"

definition pio_asm_load_program_at_origin :: "u8 \<Rightarrow> pio_program_t \<Rightarrow> pio_sim_t \<Rightarrow> (bool \<times> pio_sim_t) option" where
  "pio_asm_load_program_at_origin sm prog pio =
     pio_asm_load_program sm (if pg_has_origin prog then pg_origin prog else 0) prog pio"

section \<open>Configuration\<close>

text \<open>The configuration a state machine runs with.\<close>

definition live_config :: "pio_sm_t \<Rightarrow> pio_sm_config" where
  "live_config s = pio_get_default_sm_config
     \<lparr>c_out_base := sm_out_base s, c_out_count := sm_out_count s, c_set_base := sm_set_base s, c_set_count := sm_set_count s,
      c_in_base := sm_in_base s, c_in_count := sm_in_count s, c_sideset_base := sm_sideset_base s,
      c_sideset_total_bits := sm_sideset_total_bits s, c_sideset_opt := sm_sideset_opt s,
      c_sideset_pindirs := sm_sideset_pindirs s, c_jmp_pin := sm_jmp_pin s, c_out_dir := sm_out_dir s, c_in_dir := sm_in_dir s,
      c_autopull := sm_autopull s, c_autopush := sm_autopush s, c_pull_thresh := sm_pull_thresh s,
      c_push_thresh := sm_push_thresh s, c_clkdiv_int := sm_clkdiv_int s, c_clkdiv_frac := sm_clkdiv_frac s,
      c_wrap_bottom := sm_wrap_bottom s, c_wrap_top := sm_wrap_top s, c_fifo_join := sm_fifo_join s,
      c_status_sel := sm_status_sel s, c_status_n := sm_status_n s, c_out_sticky := sm_out_sticky s,
      c_out_inline_en := sm_out_inline_en s, c_out_en_sel := sm_out_en_sel s\<rparr>"

text \<open>The settings of a program laid over a configuration.\<close>

definition overlay_config :: "pio_version \<Rightarrow> pio_program_t \<Rightarrow> pio_sm_config \<Rightarrow> pio_sm_config" where
  "overlay_config v prog c =
     (let c = (if pg_has_clock_div prog then sm_config_set_clkdiv (to_float (pg_clock_div prog)) c else c);
          c = (if pg_has_fifo_join prog then sm_config_set_fifo_join (pg_fifo_join prog) c else c);
          c = (if pg_has_mov_status prog then sm_config_set_mov_status (pg_mov_status_sel prog) (pg_mov_status_n prog) c else c);
          i = pg_in_cfg prog;
          c = (if sc_set i
               then let c = sm_config_set_in_shift (sc_dir i = PIO_SHIFT_RIGHT) (sc_autoshift i) (sc_threshold i) c
                 in if PIO_SIM_HAS_IN_PIN_COUNT v then sm_config_set_in_pin_count (sc_count i) c else c
               else c);
          t = pg_out_cfg prog;
          c = (if sc_set t
               then sm_config_set_out_pin_count (sc_count t)
                 (sm_config_set_out_shift (sc_dir t = PIO_SHIFT_RIGHT) (sc_autoshift t) (sc_threshold t) c)
               else c)
      in if sc_set (pg_set_cfg prog) then sm_config_set_set_pin_count (sc_count (pg_set_cfg prog)) c else c)"

definition pio_asm_apply_program_config :: "pio_version \<Rightarrow> u8 \<Rightarrow> pio_program_t \<Rightarrow> pio_sim_t \<Rightarrow> pio_sim_t" where
  "pio_asm_apply_program_config v sm prog pio =
     pio_sim_sm_set_config v sm (overlay_config v prog (live_config (pio_sm pio (SM_IDX sm)))) pio"

end
