(* ===== verification/Asm_Scan.thy ===== *)
theory Asm_Scan
  imports Asm_Program
begin

text \<open>
  The three passes of the assembler walk the source in the same way: an abstract scan that looks at
  no symbol and sets no field says where each of them is, line by line.
\<close>

section \<open>The scan\<close>

text \<open>What a pass keeps besides the context it works on.\<close>

definition position :: "pa_parse_state_t \<Rightarrow> pa_parse_state_t" where
  "position ps = ps\<lparr>ps_ctx := asm_start, ps_pass := 0\<rparr>"

definition scan_directive :: "string \<Rightarrow> pa_parse_state_t \<Rightarrow> line_result_t \<times> pa_parse_state_t" where
  "scan_directive line ps =
     (let tok = fst (tokenize_copy line); d = tok ! 0
      in if tok = [] then (LINE_OK, ps)
         else if ieq d ''.program'' then
           if ps_seen_any_program ps \<and> ps_in_program ps then (LINE_DONE, ps)
           else (LINE_OK, ps\<lparr>ps_seen_any_program := True,
             ps_in_program := (ps_name ps = None \<or> (2 \<le> length tok \<and> Some (tok ! 1) = ps_name ps)), ps_idx := 0\<rparr>)
         else if ieq d ''.word'' \<and> ps_in_program ps then (LINE_OK, ps\<lparr>ps_idx := ps_idx ps + 1\<rparr>)
         else (LINE_OK, ps))"

text \<open>A line after its label, if it has one.\<close>

definition after_label :: "string \<Rightarrow> bool \<times> string" where
  "after_label orig =
     (let line = strip_public orig; name = takeWhile id_char line; rest = dropWhile blank (drop (length name + 1) line)
      in if chr_at (drop (length name) line) \<noteq> CHR '':'' then (False, line) else (rest = [], rest))"

definition scan_process :: "string \<Rightarrow> pa_parse_state_t \<Rightarrow> line_result_t \<times> pa_parse_state_t" where
  "scan_process line ps =
     (if ps_in_verbatim ps
      then (LINE_OK, if chr_at line = CHR ''%'' \<and> CHR ''}'' \<in> set line then ps\<lparr>ps_in_verbatim := False\<rparr> else ps)
      else if chr_at line = CHR ''%'' then (LINE_OK, ps\<lparr>ps_in_verbatim := True\<rparr>)
      else if chr_at line = CHR ''.'' then scan_directive line ps
      else if \<not> ps_in_program ps \<or> fst (after_label line) then (LINE_OK, ps)
      else (LINE_OK, ps\<lparr>ps_idx := ps_idx ps + 1\<rparr>))"

definition scan_line :: "string \<Rightarrow> pa_parse_state_t \<Rightarrow> line_result_t \<times> pa_parse_state_t" where
  "scan_line raw ps =
     (let (buf, ps) = (if ps_in_verbatim ps then (take 255 raw, ps)
             else let (b, c) = strip_block_comments (take 255 raw) (ps_in_block_comment ps) in (b, ps\<lparr>ps_in_block_comment := c\<rparr>));
          line = clean_line buf
      in if line = [] then (LINE_OK, ps) else scan_process line ps)"

section \<open>Every pass follows it\<close>

text \<open>A step of a pass that does not fail moves as the scan says.\<close>

definition follows :: "line_result_t \<times> pa_parse_state_t \<Rightarrow> line_result_t \<times> pa_parse_state_t \<Rightarrow> bool" where
  "follows r s \<longleftrightarrow> fst r = LINE_ERROR \<or> (fst r, position (snd r)) = s"

lemma position_simps [simp]:
  "position (ps\<lparr>ps_ctx := ctx\<rparr>) = position ps" "position (ps\<lparr>ps_pass := k\<rparr>) = position ps"
  "position (ps\<lparr>ps_in_program := b\<rparr>) = (position ps)\<lparr>ps_in_program := b\<rparr>"
  "position (ps\<lparr>ps_seen_any_program := b\<rparr>) = (position ps)\<lparr>ps_seen_any_program := b\<rparr>"
  "position (ps\<lparr>ps_done_selected := b\<rparr>) = (position ps)\<lparr>ps_done_selected := b\<rparr>"
  "position (ps\<lparr>ps_in_verbatim := b\<rparr>) = (position ps)\<lparr>ps_in_verbatim := b\<rparr>"
  "position (ps\<lparr>ps_in_block_comment := b\<rparr>) = (position ps)\<lparr>ps_in_block_comment := b\<rparr>"
  "position (ps\<lparr>ps_idx := i\<rparr>) = (position ps)\<lparr>ps_idx := i\<rparr>"
  "ps_name (position ps) = ps_name ps" "ps_in_program (position ps) = ps_in_program ps"
  "ps_seen_any_program (position ps) = ps_seen_any_program ps" "ps_done_selected (position ps) = ps_done_selected ps"
  "ps_in_verbatim (position ps) = ps_in_verbatim ps" "ps_in_block_comment (position ps) = ps_in_block_comment ps"
  "ps_idx (position ps) = ps_idx ps"
  by (simp_all add: position_def)

lemma follows_steps:
  "follows (ps_error msg ps) s" "follows (LINE_ERROR, ps) s" "position ps = ps' \<Longrightarrow> follows (LINE_OK, ps) (LINE_OK, ps')"
  "position ps = ps' \<Longrightarrow> follows (LINE_DONE, ps) (LINE_DONE, ps')"
  "position ps = ps' \<Longrightarrow> follows (ps_set f ps) (LINE_OK, ps')"
  "position ps = ps' \<Longrightarrow> follows (ps_check r msg ps) (LINE_OK, ps')"
  "(c \<Longrightarrow> follows a s) \<Longrightarrow> (\<not> c \<Longrightarrow> follows b s) \<Longrightarrow> follows (if c then a else b) s"
  "follows a s \<Longrightarrow> (\<And>x. follows (g x) s) \<Longrightarrow> follows (case y of None \<Rightarrow> a | Some x \<Rightarrow> g x) s"
  "(\<And>x y. follows (h x y) s) \<Longrightarrow> follows (case q of (x, y) \<Rightarrow> h x y) s"
  by (auto simp: follows_def ps_error_def ps_set_def ps_check_def Let_def split: option.split prod.split)

lemma follows_operand:
  "(\<And>x ctx. follows (k x (ps\<lparr>ps_ctx := ctx\<rparr>)) s) \<Longrightarrow> follows (with_operand tok msg k ps) s"
  by (simp add: with_operand_def follows_steps split: option.split prod.split)

lemma settings_follow:
  "follows (directive_define tok ps) (LINE_OK, position ps)" "follows (directive_side_set tok ps) (LINE_OK, position ps)"
  "follows (directive_wrap ps) (LINE_OK, position ps)" "follows (directive_config strtod v tok ps) (LINE_OK, position ps)"
  unfolding directive_define_def directive_side_set_def directive_wrap_def directive_config_def directive_origin_def
    directive_pio_version_def directive_clock_div_def directive_fifo_def directive_set_def Let_def
  by (intro follows_operand follows_steps; simp split: prod.split; simp add: follows_def)+

lemma program_follows:
  "follows (directive_program tok ps)
     (if ps_seen_any_program ps \<and> ps_in_program ps then (LINE_DONE, position ps)
      else (LINE_OK, (position ps)\<lparr>ps_seen_any_program := True,
        ps_in_program := (ps_name ps = None \<or> (2 \<le> length tok \<and> Some (tok ! 1) = ps_name ps)), ps_idx := 0\<rparr>))"
  by (simp add: directive_program_def Let_def follows_def)

lemma word_follows: "follows (directive_word tok ps) (LINE_OK, (position ps)\<lparr>ps_idx := ps_idx ps + 1\<rparr>)"
  unfolding directive_word_def by (intro follows_steps; simp)

lemma word_only:
  assumes "ieq d ''.word''"
  shows "\<not> ieq d ''.program''" "\<not> ieq d ''.define''" "\<not> ieq d ''.side_set''" "\<not> ieq d ''.wrap_target''" "\<not> ieq d ''.wrap''"
  using assms unfolding ieq_lower by (simp_all add: lower_ascii_def)

lemma directive_follows: "follows (handle_directive strtod v line ps) (scan_directive line (position ps))"
proof -
  let ?tok = "fst (tokenize_copy line)"
  consider "?tok = []" | "?tok \<noteq> []" "ieq (?tok ! 0) ''.program''" | "?tok \<noteq> []" "ieq (?tok ! 0) ''.word''"
    | "?tok \<noteq> []" "\<not> ieq (?tok ! 0) ''.program''" "\<not> ieq (?tok ! 0) ''.word''" by blast
  then show ?thesis
  proof cases
    case 2
    then show ?thesis using program_follows [of ?tok ps]
      by (cases "ps_seen_any_program ps \<and> ps_in_program ps")
        (auto simp: handle_directive_def scan_directive_def split_beta Let_def follows_steps)
  next
    case 3
    then show ?thesis using word_only [OF 3(2)] word_follows [of ?tok ps]
      by (simp add: handle_directive_def scan_directive_def split_beta Let_def follows_steps)
  next
    case 4
    then have "scan_directive line (position ps) = (LINE_OK, position ps)" by (simp add: scan_directive_def Let_def)
    then show ?thesis using 4 unfolding handle_directive_def split_beta Let_def
      by (simp add: follows_steps settings_follow)
  qed (simp add: handle_directive_def scan_directive_def split_beta Let_def follows_steps)
qed

lemma label_follows:
  "handle_label orig ps = (only, rest, ps') \<Longrightarrow> (only, rest) = after_label orig \<and> position ps' = position ps"
  by (auto simp: handle_label_def after_label_def Let_def split: if_splits)

lemma instruction_follows: "follows (handle_instruction v line ps) (LINE_OK, (position ps)\<lparr>ps_idx := ps_idx ps + 1\<rparr>)"
  unfolding handle_instruction_def Let_def by (intro follows_steps; simp)

lemma position_idx: "position ps = position ps' \<Longrightarrow> ps_idx ps = ps_idx ps'"
  by (metis position_simps(15))

lemma process_follows: "follows (process_line strtod v line ps) (scan_process line (position ps))"
proof -
  obtain only rest ps' where label: "handle_label line ps = (only, rest, ps')" by (rule prod_cases3)
  note after = label_follows [OF label]
  show ?thesis
    using directive_follows [of strtod v line ps] instruction_follows [of v rest ps'] after position_idx [of ps' ps]
    unfolding process_line_def scan_process_def label prod.case
    by (cases "after_label line") (auto simp: follows_steps)
qed

lemma line_follows: "follows (pass_line strtod v raw l ps) (scan_line raw (position ps))"
proof -
  obtain b c where "strip_block_comments (take 255 raw) (ps_in_block_comment ps) = (b, c)" by (rule prod.exhaust)
  then show ?thesis
    using process_follows [of strtod v "clean_line b" "ps\<lparr>ps_ctx := (ps_ctx ps)\<lparr>cx_line_no := l\<rparr>, ps_in_block_comment := c\<rparr>"]
      process_follows [of strtod v "clean_line (take 255 raw)" "ps\<lparr>ps_ctx := (ps_ctx ps)\<lparr>cx_line_no := l\<rparr>\<rparr>"]
    unfolding pass_line_def scan_line_def by (cases "ps_in_verbatim ps") (simp_all add: Let_def follows_steps)
qed

text \<open>Two passes over the same source that both succeed end at the same place.\<close>

lemma lines_agree:
  "position ps1 = position ps2 \<Longrightarrow> pass_lines strtod v src l ps1 = (True, ps1') \<Longrightarrow> pass_lines strtod v src l ps2 = (True, ps2') \<Longrightarrow>
   position ps1' = position ps2'"
proof (induction "length src" arbitrary: src l ps1 ps2 rule: less_induct)
  case less
  have same: "ps_done_selected ps1 = ps_done_selected ps2" using less.prems(1) by (metis position_simps(12))
  show ?case
  proof (cases "src = [] \<or> ps_done_selected ps1")
    case False
    let ?raw = "takeWhile (\<lambda>c. c \<noteq> CHR 0x0A) src" and ?rest = "tl (dropWhile (\<lambda>c. c \<noteq> CHR 0x0A) src)"
    obtain r1 p1 r2 p2 where r: "pass_line strtod v ?raw (l + 1) ps1 = (r1, p1)" "pass_line strtod v ?raw (l + 1) ps2 = (r2, p2)"
      by (metis prod.exhaust)
    have ok: "r1 \<noteq> LINE_ERROR" "r2 \<noteq> LINE_ERROR"
      "pass_lines strtod v ?rest (l + 1) (if r1 = LINE_DONE then p1\<lparr>ps_done_selected := True\<rparr> else p1) = (True, ps1')"
      "pass_lines strtod v ?rest (l + 1) (if r2 = LINE_DONE then p2\<lparr>ps_done_selected := True\<rparr> else p2) = (True, ps2')"
      using less.prems(2,3) False same r unfolding pass_lines.simps [of strtod v src] by (auto simp: Let_def split: if_splits)
    then have "(r1, position p1) = (r2, position p2)"
      using line_follows [of strtod v ?raw "l + 1" ps1] line_follows [of strtod v ?raw "l + 1" ps2] less.prems(1)
      by (simp add: r [simplified] follows_def)
    moreover have "length ?rest < length src" using False length_dropWhile_le [of "\<lambda>c. c \<noteq> CHR 0x0A" src] by (cases src) auto
    ultimately show ?thesis using less.hyps [OF _ _ ok(3,4)] by simp
  qed (use less.prems same in \<open>auto simp: pass_lines.simps [of strtod v src]\<close>)
qed

lemma run_agree:
  assumes "ps_name ps1 = ps_name ps2" "run_pass strtod v src ps1 = (True, ps1')" "run_pass strtod v src ps2 = (True, ps2')"
  shows "ps_idx ps1' = ps_idx ps2' \<and> position ps1' = position ps2'"
proof -
  have "position (ps1\<lparr>ps_in_program := False, ps_done_selected := False, ps_in_verbatim := False,
      ps_in_block_comment := False, ps_seen_any_program := False, ps_idx := 0\<rparr>) =
    position (ps2\<lparr>ps_in_program := False, ps_done_selected := False, ps_in_verbatim := False,
      ps_in_block_comment := False, ps_seen_any_program := False, ps_idx := 0\<rparr>)"
    using assms(1) by (cases ps1; cases ps2) (simp add: position_def)
  from lines_agree [OF this assms(2,3) [unfolded run_pass_def]] show ?thesis using position_idx by blast
qed

lemma scan_line_name: "ps_name (snd (scan_line raw ps)) = ps_name ps"
  by (auto simp: scan_line_def scan_process_def scan_directive_def Let_def split: prod.split)

lemma line_name: "pass_line strtod v raw l ps = (r, ps') \<Longrightarrow> r \<noteq> LINE_ERROR \<Longrightarrow> ps_name ps' = ps_name ps"
  using line_follows [of strtod v raw l ps] scan_line_name [of raw "position ps"]
  by (simp add: follows_def) (metis position_simps(9) snd_conv)

text \<open>
  C10: The passes agree.  Whatever the contexts they start from and whichever kind of pass they are, two passes
  over the same source that both succeed have seen the same program: they end with the same number
  of instructions, in the same program, at the same place of the source.  So the label addresses
  collected by the first pass are the addresses the last pass assembles at, and the count and wrap
  window of the second pass are those of the instructions that are emitted.
\<close>

theorem passes_agree:
  assumes "ps_name ps1 = ps_name ps2" "run_pass strtod v src ps1 = (True, ps1')" "run_pass strtod v src ps2 = (True, ps2')"
  shows "ps_idx ps1' = ps_idx ps2' \<and> position ps1' = position ps2'"
  using run_agree [OF assms] .

theorem passes_agree_witness:
  "let strtod = (\<lambda>s. (Finite 0, s)); src = ''.program p'' @ [CHR 0x0A] @ ''l: jmp l'' @ [CHR 0x0A] @ ''nop'';
       ps1 = parse_start None; ps2 = ps1\<lparr>ps_ctx := (ps_ctx ps1)\<lparr>cx_labels := [\<lparr>lb_name = ''l'', lb_index = 0, lb_is_public = False\<rparr>]\<rparr>, ps_pass := 2\<rparr>
   in ps_idx (snd (run_pass strtod RP2040 src ps1)) = 2 \<and> ps_idx (snd (run_pass strtod RP2040 src ps2)) = 2"
proof -
  define strtod :: c_strtod where "strtod = (\<lambda>s. (Finite 0, s))"
  define src where "src = ''.program p'' @ [CHR 0x0A] @ ''l: jmp l'' @ [CHR 0x0A] @ ''nop''"
  define ps1 where "ps1 = parse_start None"
  define ps2 where "ps2 = ps1\<lparr>ps_ctx := (ps_ctx ps1)\<lparr>cx_labels := [\<lparr>lb_name = ''l'', lb_index = 0, lb_is_public = False\<rparr>]\<rparr>, ps_pass := 2\<rparr>"
  have ok: "fst (run_pass strtod RP2040 src ps1)" "fst (run_pass strtod RP2040 src ps2)"
    and idx: "ps_idx (snd (run_pass strtod RP2040 src ps1)) = 2"
    unfolding strtod_def src_def ps2_def ps1_def by code_simp+
  have "run_pass strtod RP2040 src ps1 = (True, snd (run_pass strtod RP2040 src ps1))"
    "run_pass strtod RP2040 src ps2 = (True, snd (run_pass strtod RP2040 src ps2))" using ok by (simp_all add: prod_eq_iff)
  then have "ps_idx (snd (run_pass strtod RP2040 src ps1)) = ps_idx (snd (run_pass strtod RP2040 src ps2))"
    using passes_agree [of ps1 ps2 strtod RP2040 src] by (simp add: ps2_def)
  then show ?thesis using idx unfolding Let_def strtod_def [symmetric] src_def [symmetric] ps1_def [symmetric] ps2_def [symmetric] by simp
qed

end
