(* ===== verification/Asm_Frame.thy ===== *)
theory Asm_Frame
  imports Asm_Insn
begin

text \<open>
  What evaluating an operand and assembling an instruction may change: memoised values of defines and
  the error, which is never taken back.  Every failure is reported.
\<close>

section \<open>Quiet steps\<close>

definition error_free :: "pio_program_t \<Rightarrow> pio_program_t" where
  "error_free p = p\<lparr>pg_ok := True, pg_error_line := 0, pg_error := []\<rparr>"

text \<open>A program without an error has no message and no line, one with an error has a message.\<close>

definition error_wf :: "pio_program_t \<Rightarrow> bool" where
  "error_wf p \<longleftrightarrow> (if pg_ok p then pg_error_line p = 0 \<and> pg_error p = [] else pg_error p \<noteq> [])"

definition define_text :: "define_t \<Rightarrow> string \<times> string" where
  "define_text d = (df_name d, df_expr d)"

definition quiet :: "asm_ctx_t \<Rightarrow> asm_ctx_t \<Rightarrow> bool" where
  "quiet ctx ctx' \<longleftrightarrow> error_free (cx_out ctx') = error_free (cx_out ctx) \<and>
     (pg_ok (cx_out ctx') \<longrightarrow> pg_ok (cx_out ctx)) \<and> (error_wf (cx_out ctx) \<longrightarrow> error_wf (cx_out ctx')) \<and>
     (length (pg_error (cx_out ctx)) < PIO_ASM_ERR_LEN \<longrightarrow> length (pg_error (cx_out ctx')) < PIO_ASM_ERR_LEN) \<and>
     cx_labels ctx' = cx_labels ctx \<and> map define_text (cx_defines ctx') = map define_text (cx_defines ctx)"

lemma quiet_refl [simp, intro]: "quiet ctx ctx"
  by (simp add: quiet_def)

lemma quiet_trans [trans]: "quiet a b \<Longrightarrow> quiet b c \<Longrightarrow> quiet a c"
  by (simp add: quiet_def)

lemma quiet_steps [simp]:
  "quiet ctx ctx' \<Longrightarrow> msg \<noteq> [] \<Longrightarrow> quiet ctx (pa_set_error msg ctx')"
  "quiet ctx (ctx'\<lparr>cx_line_no := l\<rparr>) = quiet ctx ctx'"
  "(\<And>d. define_text (f d) = define_text d) \<Longrightarrow> quiet ctx (upd_define i f ctx') = quiet ctx ctx'"
  by (auto simp: quiet_def pa_set_error_def upd_define_def error_free_def error_wf_def map_update map_update_same)

lemma define_text_update [simp]:
  "define_text (d\<lparr>df_visiting := b\<rparr>) = define_text d"
  "define_text (d\<lparr>df_value := x, df_resolved := c\<rparr>) = define_text d"
  by (simp_all add: define_text_def)

lemma quiet_expr [simp]:
  "e_ctx (expr_skip_ws e) = e_ctx e" "e_ctx (e_skip k e) = e_ctx e" "e_ctx (e_fail e) = e_ctx e"
  "e_ctx (snd (expr_literal e)) = e_ctx e"
  "e_ctx (snd (expr_do_div e x r)) = e_ctx e" "e_ctx (snd (expr_do_shift e x r l)) = e_ctx e"
  by (simp_all add: expr_skip_ws_def e_skip_def e_fail_def expr_literal_def expr_do_div_def expr_do_shift_def Let_def
      split: option.split)

text \<open>A result, if any, reached quietly from a context.\<close>

definition quietly :: "asm_ctx_t \<Rightarrow> (u64 \<times> expr_t) option \<Rightarrow> bool" where
  "quietly ctx r \<longleftrightarrow> (\<forall>x e. r = Some (x, e) \<longrightarrow> quiet ctx (e_ctx e))"

lemma quietly_Some [simp]: "quietly ctx (Some (x, e)) = quiet ctx (e_ctx e)" "quietly ctx None"
  by (simp_all add: quietly_def)

lemma quietly_bind:
  "quietly ctx r \<Longrightarrow> (\<And>x e. quietly (e_ctx e) (g x e)) \<Longrightarrow> quietly ctx (Option.bind r (\<lambda>(x, e). g x e))"
  by (cases r) (auto simp: quietly_def intro: quiet_trans)

lemma quietly_case: "(\<And>x e. p = (x, e) \<Longrightarrow> quietly ctx (g x e)) \<Longrightarrow> quietly ctx (case p of (x, e) \<Rightarrow> g x e)"
  by (cases p) auto

lemma quietly_arith:
  "(\<And>x e. quietly (e_ctx e) (g x e)) \<Longrightarrow> quietly (e_ctx e) (case expr_do_div e x r of (x, e) \<Rightarrow> g x e)"
  "(\<And>x e. quietly (e_ctx e) (g x e)) \<Longrightarrow> quietly (e_ctx e) (case expr_do_shift e x r l of (x, e) \<Rightarrow> g x e)"
  using quiet_expr(5,6) by (metis case_prod_unfold)+

lemma quietly_map:
  "quietly ctx r \<Longrightarrow> (\<And>x e. e_ctx (snd (g (x, e))) = e_ctx e) \<Longrightarrow> quietly ctx (map_option g r)"
  by (cases r) (auto simp: quietly_def, metis snd_conv)

text \<open>An operand evaluator that is quiet makes every tier quiet.\<close>

locale quiet_operand =
  fixes prim :: evaluator
  assumes prim_quiet: "quietly (e_ctx e) (prim e)"
begin

lemma prim_after: "e_ctx e' = ctx \<Longrightarrow> quietly ctx (prim e')"
  using prim_quiet by auto

lemma bit_quiet: "e_ctx e' = ctx \<Longrightarrow> quietly ctx (expr_bit prim e')"
proof -
  have "quietly (e_ctx e) (expr_bit_loop k prim x e)" for k x e
    by (induction k arbitrary: x e) (auto simp: Let_def intro!: quietly_bind prim_after)
  then show "e_ctx e' = ctx \<Longrightarrow> quietly ctx (expr_bit prim e')"
    unfolding expr_bit_def by (intro quietly_bind prim_after)
qed

lemma mul_quiet: "e_ctx e' = ctx \<Longrightarrow> quietly ctx (expr_mul prim e')"
proof -
  have "quietly (e_ctx e) (expr_mul_loop k prim x e)" for k x e
    by (induction k arbitrary: x e) (auto simp: Let_def intro!: quietly_bind quietly_arith bit_quiet)
  then show "e_ctx e' = ctx \<Longrightarrow> quietly ctx (expr_mul prim e')"
    unfolding expr_mul_def by (intro quietly_bind bit_quiet)
qed

lemma add_quiet: "e_ctx e' = ctx \<Longrightarrow> quietly ctx (expr_add prim e')"
proof -
  have "quietly (e_ctx e) (expr_add_loop k prim x e)" for k x e
    by (induction k arbitrary: x e) (auto simp: Let_def intro!: quietly_bind mul_quiet)
  then show "e_ctx e' = ctx \<Longrightarrow> quietly ctx (expr_add prim e')"
    unfolding expr_add_def by (intro quietly_bind mul_quiet)
qed

lemma shift_quiet: "e_ctx e' = ctx \<Longrightarrow> quietly ctx (expr_shift prim e')"
proof -
  have "quietly (e_ctx e) (expr_shift_loop k prim x e)" for k x e
    by (induction k arbitrary: x e) (auto simp: Let_def intro!: quietly_bind quietly_arith add_quiet)
  then show "e_ctx e' = ctx \<Longrightarrow> quietly ctx (expr_shift prim e')"
    unfolding expr_shift_def by (intro quietly_bind add_quiet)
qed

lemma reverse_quiet: "e_ctx e' = ctx \<Longrightarrow> quietly ctx (expr_reverse prim e')"
proof -
  have "quietly (e_ctx e) (expr_reverse_from k prim e)" for k e
  proof (induction k arbitrary: e)
    case (Suc k)
    then have "quietly (e_ctx e) (expr_reverse_from k prim e')" if "e_ctx e' = e_ctx e" for e'
      using that by metis
    then show ?case by (auto simp: Let_def intro!: quietly_map shift_quiet)
  qed simp
  then show "e_ctx e' = ctx \<Longrightarrow> quietly ctx (expr_reverse prim e')" by (auto simp: expr_reverse_def)
qed

lemma resolve_uint_quiet: "resolve_uint prim ctx s = Some (r, ctx') \<Longrightarrow> quiet ctx ctx'"
  using reverse_quiet [of "\<lparr>e_ctx = ctx, e_p = s, e_ok = True, e_depth = 0\<rparr>" ctx]
  by (auto simp: resolve_uint_def Let_def quietly_def)

lemma resolve_define_quiet:
  assumes "resolve_define_value prim ctx name = Some (r, ctx')"
  shows "quiet ctx ctx'"
proof (cases "define_index name (cx_defines ctx)")
  case (Some i)
  let ?d = "cx_defines ctx ! i" and ?ctx = "upd_define i (\<lambda>d. d\<lparr>df_visiting := True\<rparr>) ctx"
  consider "df_resolved ?d" | "\<not> df_resolved ?d" "df_visiting ?d" | "\<not> df_resolved ?d" "\<not> df_visiting ?d" by blast
  then show ?thesis
  proof cases
    case 3
    then obtain r1 ctx1 where "resolve_uint prim ?ctx (df_expr ?d) = Some (r1, ctx1)"
      using assms Some by (auto simp: resolve_define_value_def Let_def)
    moreover from this have "quiet ctx ctx1" using resolve_uint_quiet quiet_trans [of ctx ?ctx ctx1] by simp
    ultimately show ?thesis
      using assms Some 3 by (auto simp: resolve_define_value_def Let_def split: option.splits)
  qed (use assms Some in \<open>auto simp: resolve_define_value_def Let_def\<close>)
qed (use assms in \<open>simp add: resolve_define_value_def\<close>)

lemma symbol_quiet: "quietly (e_ctx e) (expr_symbol prim e)"
  using resolve_define_quiet
  by (auto simp: expr_symbol_def Let_def quietly_def split: option.splits if_splits)

lemma primary_quiet: "quietly (e_ctx e) (expr_primary prim e)"
proof -
  have "e_ctx (snd (let e = expr_skip_ws e in (x, if chr_at (e_p e) = CHR '')'' then e_skip 1 e else e_fail e))) = e_ctx e"
    for x :: u64 and e by (simp add: Let_def)
  moreover have "quietly (e_ctx e) (expr_symbol prim (expr_skip_ws e))"
    using symbol_quiet [of "expr_skip_ws e"] by simp
  moreover have "quietly (e_ctx e) (Some (expr_literal (expr_skip_ws e)))"
    using quiet_expr(4) [of "expr_skip_ws e"] by (cases "expr_literal (expr_skip_ws e)") simp
  ultimately show ?thesis unfolding expr_primary_def Let_def [of "expr_skip_ws e"] Let_def [of "chr_at _"]
    by (auto intro!: quietly_map mul_quiet reverse_quiet)
qed

end

lemma eval_primary_quiet: "quiet_operand (eval_primary n)"
proof (induction n)
  case (Suc n)
  then show ?case by (intro quiet_operand.intro) (simp add: quiet_operand.primary_quiet)
qed (simp add: quiet_operand_def)

interpretation quiet: quiet_operand "eval_primary n" for n
  by (rule eval_primary_quiet)

lemma eval_uint_quiet: "eval_uint ctx s = (r, ctx') \<Longrightarrow> quiet ctx ctx'"
  by (auto simp: eval_uint_def dest: quiet.resolve_uint_quiet split: option.splits)

section \<open>Instructions\<close>

lemma resolve_uint_join_quiet: "resolve_uint_join ctx tok = (r, ctx') \<Longrightarrow> quiet ctx ctx'"
  by (auto simp: resolve_uint_join_def dest: eval_uint_quiet split: option.splits)

text \<open>A result of a function that reports its failures and changes nothing else.\<close>

definition reports :: "asm_ctx_t \<Rightarrow> 'a asm_result \<Rightarrow> bool" where
  "reports ctx r \<longleftrightarrow> quiet ctx (snd r) \<and> (fst r = None \<longrightarrow> \<not> pg_ok (cx_out (snd r)))"

lemma set_error_not_ok [simp]: "\<not> pg_ok (cx_out (pa_set_error msg ctx))"
  by (simp add: pa_set_error_def)

lemma version_reports:
  "require_prog_version v what ctx = (ok, ctx') \<Longrightarrow> quiet ctx ctx' \<and> (\<not> ok \<longrightarrow> \<not> pg_ok (cx_out ctx'))"
  by (auto simp: require_prog_version_def split: if_splits)

text \<open>One rule per construct the encoders are built from.\<close>

lemma reports_steps:
  "quiet ctx0 ctx \<Longrightarrow> msg \<noteq> [] \<Longrightarrow> reports ctx0 (asm_fail msg ctx)"
  "quiet ctx0 ctx \<Longrightarrow> reports ctx0 (Some w, ctx)"
  "reports ctx0 a \<Longrightarrow> reports ctx0 b \<Longrightarrow> reports ctx0 (if c then a else b)"
  "reports ctx0 a \<Longrightarrow> (\<And>x. reports ctx0 (g x)) \<Longrightarrow> reports ctx0 (case y of None \<Rightarrow> a | Some x \<Rightarrow> g x)"
  "(\<And>x y. reports ctx0 (h x y)) \<Longrightarrow> reports ctx0 (case q of (x, y) \<Rightarrow> h x y)"
  by (simp_all add: reports_def asm_fail_def split: option.split prod.split)

lemma reports_operand:
  assumes "quiet ctx0 ctx" "\<And>r ctx'. quiet ctx0 ctx' \<Longrightarrow> reports ctx0 (g r ctx')"
  shows "reports ctx0 (case eval_uint ctx s of (r, ctx') \<Rightarrow> g r ctx')"
    "reports ctx0 (case resolve_uint_join ctx tok of (r, ctx') \<Rightarrow> g r ctx')"
proof -
  have "quiet ctx0 (snd (eval_uint ctx s))" "quiet ctx0 (snd (resolve_uint_join ctx tok))"
    using assms(1) eval_uint_quiet resolve_uint_join_quiet quiet_trans by (metis prod.collapse)+
  then show "reports ctx0 (case eval_uint ctx s of (r, ctx') \<Rightarrow> g r ctx')"
    "reports ctx0 (case resolve_uint_join ctx tok of (r, ctx') \<Rightarrow> g r ctx')"
    by (simp_all add: split_beta assms(2))
qed

lemma reports_version:
  assumes "quiet ctx0 ctx" "\<And>ctx'. quiet ctx0 ctx' \<Longrightarrow> reports ctx0 (g ctx')"
  shows "reports ctx0 (case require_prog_version v what ctx of (ok, ctx') \<Rightarrow> if \<not> ok then (None, ctx') else g ctx')"
    "reports ctx0 (case (if c then require_prog_version v what ctx else (True, ctx)) of
       (ok, ctx') \<Rightarrow> if \<not> ok then (None, ctx') else g ctx')"
  using assms version_reports [of v what ctx] quiet_trans [of ctx0 ctx]
  by (auto simp: reports_def split: prod.split)

lemma reports_choice:
  "reports ctx0 (case a of (x, y) \<Rightarrow> h x y) \<Longrightarrow> reports ctx0 (case b of (x, y) \<Rightarrow> h x y) \<Longrightarrow>
   reports ctx0 (case (if c then a else b) of (x, y) \<Rightarrow> h x y)"
  by simp

lemma reports_pair: "reports ctx0 (h x y) \<Longrightarrow> reports ctx0 (case (x, y) of (x, y) \<Rightarrow> h x y)"
  by simp

lemmas reports_rules = reports_version reports_operand reports_steps

lemma enc_reports:
  assumes "quiet ctx0 ctx"
  shows "reports ctx0 (enc_jmp tok ctx)" "reports ctx0 (enc_in tok ctx)" "reports ctx0 (enc_out tok ctx)"
    "reports ctx0 (enc_set tok ctx)" "reports ctx0 (enc_push tok ctx)" "reports ctx0 (enc_pull tok ctx)"
    "reports ctx0 (enc_irq v tok ctx)" "reports ctx0 (enc_mov v tok ctx)"
  unfolding enc_jmp_def enc_in_def enc_out_def enc_set_def enc_push_def enc_pull_def enc_irq_def enc_mov_def
    enc_mov_rxfifo_def Let_def
  by (intro reports_rules assms | assumption | simp)+

lemma enc_wait_reports:
  assumes "quiet ctx0 ctx"
  shows "reports ctx0 (enc_wait v tok ctx)"
proof -
  have jmppin: "reports ctx0 (enc_wait_jmppin v tok si pol ctx)" if "quiet ctx0 ctx" for si pol ctx
    unfolding enc_wait_jmppin_def Let_def
    by (intro reports_version reports_choice reports_operand reports_pair reports_steps(1-4) that | assumption | simp)+
  have index: "reports ctx0 (enc_wait_index v tok si pol source ctx)" if "quiet ctx0 ctx" for si pol source ctx
    unfolding enc_wait_index_def Let_def by (intro reports_rules that | assumption | simp)+
  show ?thesis
    using eval_uint_quiet [of ctx] quiet_trans [OF assms] assms unfolding enc_wait_def Let_def
    by (auto split: prod.split intro!: reports_steps jmppin index)
qed

lemma mnemonic_reports: "quiet ctx0 ctx \<Longrightarrow> reports ctx0 (encode_mnemonic v m tok ctx)"
  by (simp add: encode_mnemonic_def enc_reports enc_wait_reports reports_steps)

lemma pack_reports: "quiet ctx0 ctx \<Longrightarrow> reports ctx0 (pack_delay_sideset delay side has_side ctx)"
  unfolding pack_delay_sideset_def Let_def by (intro reports_steps; simp)

lemma extract_reports: "quiet ctx0 ctx \<Longrightarrow> reports ctx0 (extract_side_delay ctx tok side has_side delay)"
proof (induction "length tok" arbitrary: ctx tok side has_side delay rule: less_induct)
  case less
  have rec: "reports ctx0 (extract_side_delay ctx' (take k tok) side' has_side' delay')"
    if "quiet ctx0 ctx'" "k < length tok" for ctx' k side' has_side' delay'
    using less.hyps [of "take k tok" ctx'] that by simp
  have opener: "reports ctx0 (case (if c then delay_opener tok else None) of None \<Rightarrow> a | Some si \<Rightarrow> g si)"
    if "reports ctx0 a" "\<And>si. si < length tok \<Longrightarrow> reports ctx0 (g si)" for a g c
    using that delay_opener_less [of tok] by (auto split: option.split)
  show ?case
  proof (cases "tok = []")
    case False
    then have "length tok - 2 < length tok" by simp
    then show ?thesis using False less.prems
      by (subst extract_side_delay.simps, unfold Let_def list.size length_0_conv if_False)
        (intro opener reports_operand rec reports_steps | assumption | simp)+
  qed (use less.prems in \<open>simp add: extract_side_delay.simps reports_steps\<close>)
qed

text \<open>Steps one after the other.\<close>

lemma reports_bind:
  "reports ctx0 r \<Longrightarrow> (\<And>x ctx'. quiet ctx0 ctx' \<Longrightarrow> reports ctx0 (g x ctx')) \<Longrightarrow>
   reports ctx0 (case r of (None, ctx') \<Rightarrow> (None, ctx') | (Some x, ctx') \<Rightarrow> g x ctx')"
  by (auto simp: reports_def split: option.split prod.split)

lemma assemble_insn_reports: "quiet ctx0 ctx \<Longrightarrow> reports ctx0 (assemble_insn v tok ctx)"
  unfolding assemble_insn_def
  by (intro reports_bind extract_reports mnemonic_reports pack_reports reports_steps | assumption)+

lemma assemble_insn_quiet:
  "assemble_insn v tok ctx = (r, ctx') \<Longrightarrow> quiet ctx ctx'"
  "assemble_insn v tok ctx = (None, ctx') \<Longrightarrow> \<not> pg_ok (cx_out ctx')"
  using assemble_insn_reports [of ctx ctx v tok] by (auto simp: reports_def)

end
