(* ===== verification/Asm_Check.thy ===== *)
theory Asm_Check
  imports Asm_Scan Asm_Frame
begin

text \<open>
  What holds of every program the assembler accepts, for every source: an invariant of the three
  passes, and that every failure is reported.
\<close>

section \<open>Programs\<close>

text \<open>The ranges of the configuration, which hold from the start.\<close>

definition settings_wf :: "pio_version \<Rightarrow> pio_program_t \<Rightarrow> bool" where
  "settings_wf v p \<longleftrightarrow>
     pg_sideset_bits p \<le> 5 \<and> (pg_sideset_opt p \<longrightarrow> 0 < pg_sideset_bits p) \<and> pg_origin p < 32 \<and>
     pg_pio_version p \<le> PIO_SIM_PIO_VERSION v \<and>
     pg_fifo_join p \<le> (if PIO_SIM_HAS_RXFIFO_MOV v then 5 else 2) \<and> pg_mov_status_n p \<le> 31 \<and>
     sc_count (pg_in_cfg p) \<le> 32 \<and> sc_threshold (pg_in_cfg p) \<le> 32 \<and>
     sc_count (pg_out_cfg p) \<le> 32 \<and> sc_threshold (pg_out_cfg p) \<le> 32 \<and> sc_count (pg_set_cfg p) \<le> 5"

text \<open>The instruction window, which the passes complete.\<close>

definition window_wf :: "pio_program_t \<Rightarrow> bool" where
  "window_wf p \<longleftrightarrow> 0 < pg_count p \<and> pg_count p \<le> 32 \<and> pg_wrap_bottom p < pg_count p \<and> pg_wrap_top p < pg_count p"

text \<open>A window that is not known yet: the addresses seen so far are below the current one.\<close>

definition window_open :: "u8 \<Rightarrow> pio_program_t \<Rightarrow> bool" where
  "window_open idx p \<longleftrightarrow> pg_wrap_bottom p \<le> idx \<and> (pg_wrap_top p = 0xFF \<or> pg_wrap_top p < idx)"

section \<open>The invariant of a pass\<close>

text \<open>The window in a pass whose next instruction is at \<open>idx\<close>: the scan pass leaves it alone.\<close>

definition window_at :: "nat \<Rightarrow> u8 \<Rightarrow> u8 \<Rightarrow> pio_program_t \<Rightarrow> bool" where
  "window_at k idx n p \<longleftrightarrow>
     (if k = 2 then window_wf p \<and> pg_count p = n else if k = 1 then window_open idx p else window_open 0 p)"

text \<open>Labels are collected in the scan pass; \<open>n\<close> bounds them once they are all known.\<close>

definition labels_at :: "nat \<Rightarrow> u8 \<Rightarrow> u8 \<Rightarrow> label_t list \<Rightarrow> bool" where
  "labels_at k idx n ls \<longleftrightarrow> list_all (\<lambda>l. lb_index l \<le> (if k = 0 then idx else n)) ls"

text \<open>Nothing is counted before the selected program starts.\<close>

definition pass_inv :: "pio_version \<Rightarrow> nat \<Rightarrow> u8 \<Rightarrow> pa_parse_state_t \<Rightarrow> bool" where
  "pass_inv v j n ps \<longleftrightarrow>
     (let p = cx_out (ps_ctx ps)
      in error_wf p \<and> settings_wf v p \<and> pg_public_labels p = [] \<and> ps_pass ps = j \<and> ps_idx ps \<le> 32 \<and>
         window_at j (ps_idx ps) n p \<and> labels_at j (ps_idx ps) n (cx_labels (ps_ctx ps)) \<and>
         (ps_in_program ps \<longrightarrow> ps_seen_any_program ps) \<and> (ps_in_program ps \<or> ps_idx ps = 0))"

definition failed :: "pa_parse_state_t \<Rightarrow> bool" where
  "failed ps \<longleftrightarrow> error_wf (cx_out (ps_ctx ps)) \<and> \<not> pg_ok (cx_out (ps_ctx ps))"

lemma error_wf_update [simp]:
  "error_wf (p\<lparr>pg_sideset_bits := b\<rparr>) = error_wf p" "error_wf (p\<lparr>pg_sideset_opt := c\<rparr>) = error_wf p"
  "error_wf (p\<lparr>pg_sideset_pindirs := c\<rparr>) = error_wf p" "error_wf (p\<lparr>pg_wrap_bottom := b\<rparr>) = error_wf p"
  "error_wf (p\<lparr>pg_wrap_top := b\<rparr>) = error_wf p" "error_wf (p\<lparr>pg_name := s\<rparr>) = error_wf p"
  "error_wf (p\<lparr>pg_has_origin := c\<rparr>) = error_wf p" "error_wf (p\<lparr>pg_origin := b\<rparr>) = error_wf p"
  "error_wf (p\<lparr>pg_pio_version := i\<rparr>) = error_wf p" "error_wf (p\<lparr>pg_has_clock_div := c\<rparr>) = error_wf p"
  "error_wf (p\<lparr>pg_clock_div := d\<rparr>) = error_wf p" "error_wf (p\<lparr>pg_has_fifo_join := c\<rparr>) = error_wf p"
  "error_wf (p\<lparr>pg_fifo_join := b\<rparr>) = error_wf p" "error_wf (p\<lparr>pg_has_mov_status := c\<rparr>) = error_wf p"
  "error_wf (p\<lparr>pg_mov_status_sel := b\<rparr>) = error_wf p" "error_wf (p\<lparr>pg_mov_status_n := b\<rparr>) = error_wf p"
  "error_wf (p\<lparr>pg_in_cfg := g\<rparr>) = error_wf p" "error_wf (p\<lparr>pg_out_cfg := g\<rparr>) = error_wf p"
  "error_wf (p\<lparr>pg_set_cfg := g\<rparr>) = error_wf p" "error_wf (p\<lparr>pg_insns := m\<rparr>) = error_wf p"
  "error_wf (p\<lparr>pg_count := b\<rparr>) = error_wf p" "error_wf (p\<lparr>pg_public_labels := ls\<rparr>) = error_wf p"
  by (simp_all add: error_wf_def)

lemma wf_update [simp]:
  "settings_wf v (p\<lparr>pg_insns := m\<rparr>) = settings_wf v p" "window_at k idx n (p\<lparr>pg_insns := m\<rparr>) = window_at k idx n p"
  "settings_wf v (p\<lparr>pg_name := s\<rparr>) = settings_wf v p" "window_at k idx n (p\<lparr>pg_name := s\<rparr>) = window_at k idx n p"
  "settings_wf v (p\<lparr>pg_wrap_bottom := b\<rparr>) = settings_wf v p" "settings_wf v (p\<lparr>pg_wrap_top := b\<rparr>) = settings_wf v p"
  "settings_wf v (p\<lparr>pg_count := b\<rparr>) = settings_wf v p" "settings_wf v (p\<lparr>pg_public_labels := ls\<rparr>) = settings_wf v p"
  by (simp_all add: settings_wf_def window_at_def window_wf_def window_open_def)

lemma error_free_fields:
  assumes "error_free p = error_free q"
  shows "pg_insns p = pg_insns q" "pg_count p = pg_count q" "pg_sideset_bits p = pg_sideset_bits q"
    "pg_sideset_opt p = pg_sideset_opt q" "pg_sideset_pindirs p = pg_sideset_pindirs q" "pg_wrap_bottom p = pg_wrap_bottom q"
    "pg_wrap_top p = pg_wrap_top q" "pg_public_labels p = pg_public_labels q" "pg_origin p = pg_origin q"
    "pg_has_origin p = pg_has_origin q" "pg_pio_version p = pg_pio_version q" "pg_fifo_join p = pg_fifo_join q"
    "pg_mov_status_n p = pg_mov_status_n q" "pg_in_cfg p = pg_in_cfg q" "pg_out_cfg p = pg_out_cfg q" "pg_set_cfg p = pg_set_cfg q"
    "pg_name p = pg_name q"
  using assms by (cases p; cases q; simp add: error_free_def)+

lemma error_free_wf:
  assumes "error_free p = error_free q"
  shows "settings_wf v p = settings_wf v q" "window_at k idx n p = window_at k idx n q"
  unfolding settings_wf_def window_at_def window_wf_def window_open_def by (simp_all add: error_free_fields [OF assms])

lemma pass_inv_quiet:
  assumes "pass_inv v j n ps" "quiet (ps_ctx ps) ctx"
  shows "pass_inv v j n (ps\<lparr>ps_ctx := ctx\<rparr>)"
proof -
  have eq: "error_free (cx_out ctx) = error_free (cx_out (ps_ctx ps))" and "cx_labels ctx = cx_labels (ps_ctx ps)"
    "error_wf (cx_out (ps_ctx ps)) \<Longrightarrow> error_wf (cx_out ctx)" using assms(2) by (simp_all add: quiet_def)
  then show ?thesis using assms(1) by (simp add: pass_inv_def Let_def error_free_wf [OF eq] error_free_fields(8) [OF eq])
qed

text \<open>What a directive has to respect when it sets fields, in the configuration pass.\<close>

lemma pass_inv_settings:
  assumes "pass_inv v j n ps" "ps_pass ps = 1" "settings_wf v (cx_out (ps_ctx ps)) \<Longrightarrow> settings_wf v (f (cx_out (ps_ctx ps)))"
    "\<And>p. pg_wrap_bottom (f p) = pg_wrap_bottom p \<and> pg_wrap_top (f p) = pg_wrap_top p \<and>
       pg_public_labels (f p) = pg_public_labels p \<and> error_wf (f p) = error_wf p"
  shows "pass_inv v j n (ps\<lparr>ps_ctx := upd_out f (ps_ctx ps)\<rparr>)"
  using assms by (auto simp: pass_inv_def Let_def upd_out_def window_at_def window_open_def)

section \<open>Lines\<close>

text \<open>A line that fails has reported it, any other keeps the invariant.\<close>

definition line_sound :: "(pa_parse_state_t \<Rightarrow> bool) \<Rightarrow> line_result_t \<times> pa_parse_state_t \<Rightarrow> bool" where
  "line_sound I r \<longleftrightarrow> (if fst r = LINE_ERROR then failed (snd r) else I (snd r))"

lemma error_wf_set [simp]: "error_wf (cx_out ctx) \<Longrightarrow> msg \<noteq> [] \<Longrightarrow> error_wf (cx_out (pa_set_error msg ctx))"
  using quiet_steps(1) [OF quiet_refl, of msg ctx] by (simp add: quiet_def)

lemma pass_inv_error_wf: "pass_inv v j n ps \<Longrightarrow> error_wf (cx_out (ps_ctx ps))"
  by (simp add: pass_inv_def Let_def)

lemma line_sound_steps:
  "error_wf (cx_out (ps_ctx ps)) \<Longrightarrow> msg \<noteq> [] \<Longrightarrow> line_sound I (ps_error msg ps)"
  "I ps \<Longrightarrow> line_sound I (LINE_OK, ps)" "I ps \<Longrightarrow> line_sound I (LINE_DONE, ps)"
  "I (ps\<lparr>ps_ctx := upd_out f (ps_ctx ps)\<rparr>) \<Longrightarrow> line_sound I (ps_set f ps)"
  "failed ps \<Longrightarrow> line_sound I (LINE_ERROR, ps)"
  "(c \<Longrightarrow> line_sound I a) \<Longrightarrow> (\<not> c \<Longrightarrow> line_sound I b) \<Longrightarrow> line_sound I (if c then a else b)"
  by (auto simp: line_sound_def ps_error_def ps_set_def failed_def)

lemma line_sound_option:
  "(y = None \<Longrightarrow> line_sound I a) \<Longrightarrow> (\<And>x. y = Some x \<Longrightarrow> line_sound I (g x)) \<Longrightarrow>
   line_sound I (case y of None \<Rightarrow> a | Some x \<Rightarrow> g x)"
  by (simp split: option.split)

lemma line_sound_operand:
  assumes "pass_inv v j n ps" "msg \<noteq> []" "\<And>x ctx. pass_inv v j n (ps\<lparr>ps_ctx := ctx\<rparr>) \<Longrightarrow> quiet (ps_ctx ps) ctx \<Longrightarrow> line_sound I (k x (ps\<lparr>ps_ctx := ctx\<rparr>))"
  shows "line_sound I (with_operand tok msg k ps)"
proof -
  obtain r ctx where r: "(if length tok < 2 then (None, ps_ctx ps) else eval_uint (ps_ctx ps) (tok ! 1)) = (r, ctx)"
    by (rule prod.exhaust)
  then have "quiet (ps_ctx ps) ctx" by (auto split: if_splits dest: eval_uint_quiet)
  moreover from this have "pass_inv v j n (ps\<lparr>ps_ctx := ctx\<rparr>)" by (rule pass_inv_quiet [OF assms(1)])
  ultimately show ?thesis using assms(2,3) pass_inv_error_wf [of v j n "ps\<lparr>ps_ctx := ctx\<rparr>"]
    by (simp add: with_operand_def r line_sound_steps split: option.split)
qed

lemma line_sound_check:
  assumes "pass_inv v j n ps" "msg \<noteq> []" "r = (ok, ctx)" "if ok then I (ps\<lparr>ps_ctx := ctx\<rparr>) else error_wf (cx_out ctx)"
  shows "line_sound I (ps_check r msg ps)"
  using assms by (cases ok) (auto simp: ps_check_def Let_def intro!: line_sound_steps)

lemma small_ucast:
  "x \<le> k \<Longrightarrow> k \<le> 255 \<Longrightarrow> (ucast (x :: u32) :: u8) \<le> ucast k"
  "x < k \<Longrightarrow> k \<le> 255 \<Longrightarrow> (ucast (x :: u32) :: u8) < ucast k"
  by (simp_all add: word_le_nat_alt word_less_nat_alt unsigned_ucast_eq take_bit_nat_eq_self)

lemmas small_ucasts = small_ucast [where k = 5, simplified] small_ucast [where k = 31, simplified]
  small_ucast [where k = 32, simplified]

lemma settings_sound:
  assumes "pass_inv v j n ps" "ps_pass ps = 1"
  shows "line_sound (pass_inv v j n) (directive_origin tok ps)" "line_sound (pass_inv v j n) (directive_set tok ps)"
    "line_sound (pass_inv v j n) (directive_clock_div strtod tok ps)"
  using assms unfolding directive_origin_def directive_set_def directive_clock_div_def
  by (auto intro!: line_sound_operand line_sound_steps pass_inv_settings dest: pass_inv_error_wf simp: settings_wf_def small_ucasts linorder_not_less split: option.split)

text \<open>The parsers of directives report success with a flag; the caller reports their failure.\<close>

definition parse_sound :: "pio_version \<Rightarrow> nat \<Rightarrow> u8 \<Rightarrow> pa_parse_state_t \<Rightarrow> bool \<times> asm_ctx_t \<Rightarrow> bool" where
  "parse_sound v j n ps r \<longleftrightarrow> (if fst r then pass_inv v j n (ps\<lparr>ps_ctx := snd r\<rparr>) else error_wf (cx_out (snd r)))"

lemma parse_sound_steps:
  "pass_inv v j n (ps\<lparr>ps_ctx := ctx\<rparr>) \<Longrightarrow> parse_sound v j n ps (ok, ctx)"
  "(c \<Longrightarrow> parse_sound v j n ps a) \<Longrightarrow> (\<not> c \<Longrightarrow> parse_sound v j n ps b) \<Longrightarrow> parse_sound v j n ps (if c then a else b)"
  "(y = None \<Longrightarrow> parse_sound v j n ps a) \<Longrightarrow> (\<And>x. y = Some x \<Longrightarrow> parse_sound v j n ps (g x)) \<Longrightarrow>
   parse_sound v j n ps (case y of None \<Rightarrow> a | Some x \<Rightarrow> g x)"
  by (auto simp: parse_sound_def dest: pass_inv_error_wf split: option.split)

lemma shift_options_quiet:
  assumes "shift_options ctx dir autoshift threshold ts = (r, ctx')" "threshold \<le> 32"
  shows "quiet ctx ctx'" "r = Some (dir', autoshift', threshold') \<Longrightarrow> threshold' \<le> 32"
  using assms
  by (induction ctx dir autoshift threshold ts arbitrary: r rule: shift_options.induct)
    (auto split: if_splits prod.splits option.splits dest: eval_uint_quiet intro: quiet_trans simp: linorder_not_less)

lemma inv_quiet: "pass_inv v j n (ps\<lparr>ps_ctx := ctx\<rparr>) \<Longrightarrow> quiet ctx ctx' \<Longrightarrow> pass_inv v j n (ps\<lparr>ps_ctx := ctx'\<rparr>)"
  using pass_inv_quiet [of v j n "ps\<lparr>ps_ctx := ctx\<rparr>"] by simp

lemma inv_settings:
  "pass_inv v j n (ps\<lparr>ps_ctx := ctx\<rparr>) \<Longrightarrow> ps_pass ps = 1 \<Longrightarrow> (settings_wf v (cx_out ctx) \<Longrightarrow> settings_wf v (f (cx_out ctx))) \<Longrightarrow>
   (\<And>p. pg_wrap_bottom (f p) = pg_wrap_bottom p \<and> pg_wrap_top (f p) = pg_wrap_top p \<and>
      pg_public_labels (f p) = pg_public_labels p \<and> error_wf (f p) = error_wf p) \<Longrightarrow>
   pass_inv v j n (ps\<lparr>ps_ctx := upd_out f ctx\<rparr>)"
  using pass_inv_settings [of v j n "ps\<lparr>ps_ctx := ctx\<rparr>" f] by simp

lemma shift_dir_sound:
  assumes "pass_inv v j n ps" "ps_pass ps = 1"
  shows "parse_sound v j n ps (parse_shift_dir_cfg v tok is_in (ps_ctx ps))"
proof -
  obtain r1 ctx1 where r1: "(if length tok < 2 then (None, ps_ctx ps) else eval_uint (ps_ctx ps) (tok ! 1)) = (r1, ctx1)"
    by (rule prod.exhaust)
  then have "quiet (ps_ctx ps) ctx1" by (auto split: if_splits dest: eval_uint_quiet)
  then have inv1: "pass_inv v j n (ps\<lparr>ps_ctx := ctx1\<rparr>)" by (rule pass_inv_quiet [OF assms(1)])
  obtain r2 ctx2 where r2: "shift_options ctx1 PIO_SHIFT_RIGHT False 32 (drop 2 tok) = (r2, ctx2)" by (rule prod.exhaust)
  note options = shift_options_quiet [OF r2, simplified]
  have inv2: "pass_inv v j n (ps\<lparr>ps_ctx := ctx2\<rparr>)" by (rule inv_quiet [OF inv1 options(1)])
  show ?thesis unfolding parse_shift_dir_cfg_def Let_def r1 prod.case
    using inv1 inv2 assms(2) options(2)
    by (cases is_in) (auto intro!: parse_sound_steps inv_settings split: prod.split simp: r2 settings_wf_def small_ucasts linorder_not_less)
qed

lemma version_quiet: "require_prog_version v what ctx = (ok, ctx') \<Longrightarrow> quiet ctx ctx'"
  by (simp add: version_reports)

lemma mov_status_sound:
  assumes "pass_inv v j n ps" "ps_pass ps = 1"
  shows "parse_sound v j n ps (parse_mov_status v tok (ps_ctx ps))"
proof -
  have sel: "pass_inv v j n (ps\<lparr>ps_ctx := upd_out (\<lambda>p. p\<lparr>pg_mov_status_sel := sel\<rparr>) (ps_ctx ps)\<rparr>)" for sel
    using assms by (intro pass_inv_settings) (auto simp: settings_wf_def)
  have last: "parse_sound v j n ps (case eval_uint ctx s of (None, ctx) \<Rightarrow> (False, ctx)
      | (Some k, ctx) \<Rightarrow> if 31 < k then (False, ctx)
          else (True, upd_out (\<lambda>p. p\<lparr>pg_mov_status_n := ucast k, pg_has_mov_status := True\<rparr>) ctx))"
    if "pass_inv v j n (ps\<lparr>ps_ctx := ctx\<rparr>)" for ctx s
    using that assms(2) inv_quiet [OF that eval_uint_quiet]
    by (cases "eval_uint ctx s")
      (auto intro!: parse_sound_steps inv_settings simp: settings_wf_def small_ucasts linorder_not_less split: option.split)
  have version: "parse_sound v j n ps (case (if c then require_prog_version v what ctx else (True, ctx)) of (ok, ctx) \<Rightarrow> g ok ctx)"
    if "pass_inv v j n (ps\<lparr>ps_ctx := ctx\<rparr>)" "\<And>ok ctx. pass_inv v j n (ps\<lparr>ps_ctx := ctx\<rparr>) \<Longrightarrow> parse_sound v j n ps (g ok ctx)" for c what ctx g
    using that inv_quiet [OF that(1) version_quiet] by (cases "require_prog_version v what ctx") auto
  show ?thesis unfolding parse_mov_status_def Let_def using assms(1)
    by (intro parse_sound_steps(2) version last sel parse_sound_steps(1) | simp)+
qed

lemma side_set_bits:
  fixes bits :: u32
  assumes "bits \<le> 5" "bits + 1 \<le> 5"
  shows "(ucast (bits + 1) :: u8) \<le> 5" "0 < (ucast (bits + 1) :: u8)"
proof -
  have "bits + 1 \<noteq> 0" using assms(1) by (simp add: word_le_nat_alt word_unat_eq_iff unat_word_ariths(1))
  then have "0 < bits + 1" by (simp add: word_gt_0)
  then show "(ucast (bits + 1) :: u8) \<le> 5" "0 < (ucast (bits + 1) :: u8)" using assms(2)
    by (simp_all add: word_le_nat_alt word_less_nat_alt unsigned_ucast_eq take_bit_nat_eq_self)
qed

lemma side_set_sound:
  assumes "pass_inv v j n ps" "ps_pass ps = 1"
  shows "line_sound (pass_inv v j n) (directive_side_set tok ps)"
proof -
  have parsed: "line_sound (pass_inv v j n) (let (ok, ctx) = parse_side_set tok bits ctx
      in (if ok then LINE_OK else LINE_ERROR, ps\<lparr>ps_ctx := ctx\<rparr>))" if "pass_inv v j n (ps\<lparr>ps_ctx := ctx\<rparr>)" for bits ctx
    using that assms(2) pass_inv_error_wf [OF that]
    by (auto simp: parse_side_set_def Let_def line_sound_def failed_def linorder_not_less side_set_bits small_ucasts
        settings_wf_def intro!: inv_settings)
  show ?thesis unfolding directive_side_set_def using assms(1)
    by (rule line_sound_operand) (use parsed in \<open>simp_all add: Let_def\<close>)
qed

lemma pio_version_sound:
  assumes "pass_inv v j n ps" "ps_pass ps = 1"
  shows "line_sound (pass_inv v j n) (directive_pio_version v tok ps)"
proof -
  obtain r ctx where r: "(if ieq (tok ! 1) ''rp2040'' then (Some 0, ps_ctx ps)
      else if ieq (tok ! 1) ''rp2350'' then (Some 1, ps_ctx ps) else eval_uint (ps_ctx ps) (tok ! 1)) = (r, ctx)"
    by (rule prod.exhaust)
  then have "quiet (ps_ctx ps) ctx" by (auto split: if_splits dest: eval_uint_quiet)
  then have inv: "pass_inv v j n (ps\<lparr>ps_ctx := ctx\<rparr>)" by (rule pass_inv_quiet [OF assms(1)])
  then have wf: "error_wf (cx_out ctx)" using pass_inv_error_wf by fastforce
  then have err: "error_wf (cx_out (upd_out (\<lambda>p. p\<lparr>pg_pio_version := x\<rparr>) ctx))" for x by (simp add: upd_out_def)
  have "settings_wf v p \<Longrightarrow> uint x \<le> PIO_SIM_PIO_VERSION v \<Longrightarrow> settings_wf v (p\<lparr>pg_pio_version := uint x\<rparr>)" for p and x :: u32
    unfolding settings_wf_def by simp
  then show ?thesis unfolding directive_pio_version_def Let_def r prod.case
    using inv wf err assms(2) pass_inv_error_wf [OF assms(1)]
    by (auto intro!: line_sound_steps inv_settings split: option.split)
qed

lemma fifo_sound:
  assumes "pass_inv v j n ps" "ps_pass ps = 1"
  shows "line_sound (pass_inv v j n) (directive_fifo v tok ps)"
proof (cases "if length tok < 2 then None else parse_fifo_config v (tok ! 1)")
  case None
  then show ?thesis using pass_inv_error_wf [OF assms(1)] by (simp add: directive_fifo_def line_sound_steps)
next
  case (Some join)
  let ?ctx = "upd_out (\<lambda>p. p\<lparr>pg_fifo_join := join\<rparr>) (ps_ctx ps)"
  have "join \<le> (if v = RP2350 then 5 else 2)"
    using Some by (auto simp: parse_fifo_config_def name_field_def split: if_splits)
  then have inv: "pass_inv v j n (ps\<lparr>ps_ctx := ?ctx\<rparr>)"
    using assms by (intro pass_inv_settings) (auto simp: settings_wf_def)
  obtain ok ctx where version: "(if PIO_SIM_HAS_RXFIFO_MOV v \<and> (join = PIO_FIFO_JOIN_RX_PUT \<or> join = PIO_FIFO_JOIN_RX_GET \<or> join = PIO_FIFO_JOIN_RX_PUTGET)
      then require_prog_version v ''.fifo putget/txput/txget'' ?ctx else (True, ?ctx)) = (ok, ctx)" by (rule prod.exhaust)
  then have "quiet ?ctx ctx" "\<not> ok \<Longrightarrow> \<not> pg_ok (cx_out ctx)"
    using version_reports [of v _ ?ctx ok ctx] by (auto split: if_splits)
  then have "pass_inv v j n (ps\<lparr>ps_ctx := ctx\<rparr>)" "\<not> ok \<Longrightarrow> \<not> pg_ok (cx_out ctx)" using inv_quiet [OF inv] by blast+
  then show ?thesis using assms(2) pass_inv_error_wf [of v j n "ps\<lparr>ps_ctx := ctx\<rparr>"]
    unfolding directive_fifo_def Some option.case Let_def version prod.case
    by (cases ok) (auto simp: line_sound_def failed_def ps_set_def settings_wf_def intro!: inv_settings)
qed

lemma config_sound:
  assumes "pass_inv v j n ps" "ps_pass ps = 1"
  shows "line_sound (pass_inv v j n) (directive_config strtod v tok ps)"
proof -
  have check: "parse_sound v j n ps r \<Longrightarrow> msg \<noteq> [] \<Longrightarrow> line_sound (pass_inv v j n) (ps_check r msg ps)" for r msg
    by (rule line_sound_check [OF assms(1), of _ _ "fst r" "snd r"]) (simp_all add: parse_sound_def)
  show ?thesis unfolding directive_config_def Let_def using assms
    by (intro line_sound_steps(6) settings_sound pio_version_sound fifo_sound check mov_status_sound shift_dir_sound
        line_sound_steps(2)) simp_all
qed

text \<open>The next address.\<close>

lemma pass_inv_next:
  assumes "pass_inv v j n ps" "\<not> 32 \<le> ps_idx ps" "ps_in_program ps"
  shows "pass_inv v j n (ps\<lparr>ps_idx := ps_idx ps + 1\<rparr>)"
proof -
  have idx: "unat (ps_idx ps + 1) = unat (ps_idx ps) + 1" using assms(2)
    by (simp add: word_le_nat_alt unat_word_ariths(1))
  then have "x \<le> ps_idx ps \<Longrightarrow> x \<le> ps_idx ps + 1" "x < ps_idx ps \<Longrightarrow> x < ps_idx ps + 1" for x
    by (simp_all add: word_le_nat_alt word_less_nat_alt)
  then have "window_at k (ps_idx ps) n p \<Longrightarrow> window_at k (ps_idx ps + 1) n p"
    "labels_at k (ps_idx ps) n ls \<Longrightarrow> labels_at k (ps_idx ps + 1) n ls" for k p ls
    by (auto simp: window_at_def window_open_def labels_at_def list_all_iff)
  moreover have "ps_idx ps + 1 \<le> 32" using assms(2) idx by (simp add: word_le_nat_alt)
  ultimately show ?thesis using assms(1,3) by (simp add: pass_inv_def Let_def)
qed

lemma pass_inv_emit:
  assumes "pass_inv v j n ps"
  shows "pass_inv v j n (ps\<lparr>ps_ctx := upd_out (\<lambda>p. p\<lparr>pg_insns := f p\<rparr>) (ps_ctx ps)\<rparr>)"
  using assms by (simp add: pass_inv_def Let_def upd_out_def)

lemma pass_inv_emitted:
  assumes "pass_inv v j n ps" "quiet (ps_ctx ps) ctx" "\<not> 32 \<le> ps_idx ps" "ps_in_program ps"
  shows "pass_inv v j n (ps\<lparr>ps_ctx := upd_out (\<lambda>p. p\<lparr>pg_insns := f p\<rparr>) ctx, ps_idx := ps_idx ps + 1\<rparr>)"
  using pass_inv_next [OF pass_inv_emit [OF pass_inv_quiet [OF assms(1,2)], of f]] assms(3,4) by simp

lemma word_sound:
  assumes "pass_inv v j n ps" "ps_in_program ps"
  shows "line_sound (pass_inv v j n) (directive_word tok ps)"
proof -
  obtain r ctx where r: "(if length tok < 2 then (None, ps_ctx ps) else resolve_uint_join (ps_ctx ps) (drop 1 tok)) = (r, ctx)"
    by (rule prod.exhaust)
  then have quiet: "quiet (ps_ctx ps) ctx" by (auto split: if_splits dest: resolve_uint_join_quiet)
  then have "error_wf (cx_out ctx)" using pass_inv_error_wf [OF assms(1)] by (simp add: quiet_def)
  then show ?thesis unfolding directive_word_def r
    using assms pass_inv_error_wf [OF assms(1)] pass_inv_emitted [OF assms(1) quiet] pass_inv_next [OF assms(1)]
    by (auto intro!: line_sound_steps split: option.split)
qed

lemma instruction_sound:
  assumes "pass_inv v j n ps" "ps_in_program ps"
  shows "line_sound (pass_inv v j n) (handle_instruction v line ps)"
proof -
  obtain r ctx where r: "assemble_insn v (fst (tokenize_copy line)) (ps_ctx ps) = (r, ctx)" by (rule prod.exhaust)
  note quiet = assemble_insn_quiet(1) [OF r]
  have "error_wf (cx_out ctx)" using pass_inv_error_wf [OF assms(1)] quiet by (simp add: quiet_def)
  moreover have "r = None \<Longrightarrow> \<not> pg_ok (cx_out ctx)" using assemble_insn_quiet(2) r by blast
  ultimately show ?thesis unfolding handle_instruction_def split_beta Let_def r
    using assms pass_inv_error_wf [OF assms(1)] pass_inv_emitted [OF assms(1) quiet] pass_inv_next [OF assms(1)]
    by (auto intro!: line_sound_steps split: option.split simp: failed_def)
qed

lemma program_sound:
  assumes "pass_inv v j n ps"
  shows "line_sound (pass_inv v j n) (directive_program tok ps)"
proof (cases "ps_seen_any_program ps \<and> ps_in_program ps")
  case False
  then have idx: "ps_idx ps = 0" using assms by (auto simp: pass_inv_def Let_def split: if_splits)
  have "pass_inv v j n (ps\<lparr>ps_seen_any_program := True, ps_in_program := sel, ps_idx := 0\<rparr>)"
    "pass_inv v j n (ps\<lparr>ps_seen_any_program := True, ps_in_program := sel, ps_idx := 0,
       ps_ctx := upd_out (\<lambda>p. p\<lparr>pg_name := s\<rparr>) (ps_ctx ps)\<rparr>)"
    for sel s using assms by (simp_all add: pass_inv_def Let_def upd_out_def idx)
  then show ?thesis unfolding directive_program_def if_not_P [OF False] Let_def by (simp add: line_sound_def)
qed (use assms in \<open>simp add: directive_program_def line_sound_def\<close>)

lemma define_sound:
  assumes "pass_inv v j n ps"
  shows "line_sound (pass_inv v j n) (directive_define tok ps)"
proof -
  have "declare_define name expr l (ps_ctx ps) = Some ctx \<Longrightarrow> pass_inv v j n (ps\<lparr>ps_ctx := ctx\<rparr>)" for name expr l ctx
    using assms by (auto simp: declare_define_def pass_inv_def Let_def split: if_splits)
  then show ?thesis using assms pass_inv_error_wf [OF assms] unfolding directive_define_def Let_def
    by (intro line_sound_steps(6) line_sound_option line_sound_steps(1,2); simp)
qed

lemma wrap_sound:
  assumes "pass_inv v j n ps" "ps_pass ps = 1"
  shows "line_sound (pass_inv v j n) (directive_wrap ps)"
    "line_sound (pass_inv v j n) (ps_set (\<lambda>p. p\<lparr>pg_wrap_bottom := ps_idx ps\<rparr>) ps)"
proof -
  have "ps_idx ps \<noteq> 0 \<Longrightarrow> ps_idx ps - 1 < ps_idx ps" by (simp add: word_less_nat_alt unat_minus_one unat_gt_0)
  then show "line_sound (pass_inv v j n) (directive_wrap ps)"
    "line_sound (pass_inv v j n) (ps_set (\<lambda>p. p\<lparr>pg_wrap_bottom := ps_idx ps\<rparr>) ps)"
    using assms unfolding directive_wrap_def
    by (auto intro!: line_sound_steps dest: pass_inv_error_wf)
      (auto simp: pass_inv_def Let_def upd_out_def settings_wf_def window_at_def window_wf_def window_open_def)
qed

lemma directive_sound:
  assumes "pass_inv v j n ps"
  shows "line_sound (pass_inv v j n) (handle_directive strtod v line ps)"
  unfolding handle_directive_def split_beta Let_def using assms pass_inv_error_wf [OF assms]
  by (intro line_sound_steps(6) line_sound_steps(1,2) program_sound define_sound side_set_sound wrap_sound word_sound config_sound)
    simp_all

lemma label_sound:
  assumes "pass_inv v j n ps" "handle_label orig ps = (only, rest, ps')"
  shows "pass_inv v j n ps'" "ps_in_program ps' = ps_in_program ps"
proof -
  have error: "pass_inv v j n (ps\<lparr>ps_ctx := pa_set_error msg (ps_ctx ps)\<rparr>)" if "msg \<noteq> []" for msg
    using that by (intro pass_inv_quiet [OF assms(1)]) simp
  have "pass_inv v j n (ps\<lparr>ps_ctx := (ps_ctx ps)\<lparr>cx_labels := cx_labels (ps_ctx ps) @
      [\<lparr>lb_name = name, lb_index = ps_idx ps, lb_is_public = pub\<rparr>]\<rparr>\<rparr>)" if "ps_pass ps = 0" for name pub
    using assms(1) that by (auto simp: pass_inv_def Let_def labels_at_def)
  then have "ps_pass ps = 0 \<Longrightarrow> pass_inv v j n (ps\<lparr>ps_ctx := record_label name (ps_idx ps) pub (ps_ctx ps)\<rparr>)" for name pub
    unfolding record_label_def by (simp add: error)
  then show "pass_inv v j n ps'" "ps_in_program ps' = ps_in_program ps"
    using assms unfolding handle_label_def by (auto simp: Let_def split: if_splits)
qed

lemma process_sound:
  assumes "pass_inv v j n ps"
  shows "line_sound (pass_inv v j n) (process_line strtod v line ps)"
proof -
  obtain only rest ps' where label: "handle_label line ps = (only, rest, ps')" by (rule prod_cases3)
  note sound = label_sound [OF assms label]
  have "pass_inv v j n (ps\<lparr>ps_in_verbatim := b\<rparr>)" for b using assms by (simp add: pass_inv_def)
  then show ?thesis
    using assms sound pass_inv_error_wf [OF sound(1)] unfolding process_line_def label
    by (auto intro!: line_sound_steps directive_sound instruction_sound simp: failed_def)
qed

lemma pass_line_sound:
  assumes "pass_inv v j n ps"
  shows "line_sound (pass_inv v j n) (pass_line strtod v raw l ps)"
proof -
  have "pass_inv v j n (ps\<lparr>ps_ctx := (ps_ctx ps)\<lparr>cx_line_no := l\<rparr>\<rparr>)"
    "pass_inv v j n (ps\<lparr>ps_ctx := (ps_ctx ps)\<lparr>cx_line_no := l\<rparr>, ps_in_block_comment := c\<rparr>)" for c
    using assms by (simp_all add: pass_inv_def)
  then show ?thesis unfolding pass_line_def
    by (auto simp: Let_def split: prod.split intro!: line_sound_steps process_sound)
qed

text \<open>A property that every line keeps or fails with a report holds after a whole pass.\<close>

locale line_invariant =
  fixes strtod :: c_strtod and v :: pio_version and I :: "pa_parse_state_t \<Rightarrow> bool"
  assumes line: "I ps \<Longrightarrow> line_sound I (pass_line strtod v raw l ps)"
    and stop: "I ps \<Longrightarrow> I (ps\<lparr>ps_done_selected := True\<rparr>)"
begin

lemma lines:
  "I ps \<Longrightarrow> pass_lines strtod v src l ps = (ok, ps') \<Longrightarrow> if ok then I ps' else failed ps'"
proof (induction "length src" arbitrary: src l ps rule: less_induct)
  case less
  show ?case
  proof (cases "src = [] \<or> ps_done_selected ps")
    case False
    obtain r ps1 where r: "pass_line strtod v (takeWhile (\<lambda>c. c \<noteq> CHR 0x0A) src) (l + 1) ps = (r, ps1)"
      by (rule prod.exhaust)
    note sound = line [OF less.prems(1), of "takeWhile (\<lambda>c. c \<noteq> CHR 0x0A) src" "l + 1", unfolded r line_sound_def, simplified]
    have "length (tl (dropWhile (\<lambda>c. c \<noteq> CHR 0x0A) src)) < length src"
      using False length_dropWhile_le [of "\<lambda>c. c \<noteq> CHR 0x0A" src] by (cases src) auto
    note rec = less.hyps [OF this]
    have "pass_lines strtod v src l ps = (if r = LINE_ERROR then (False, ps1)
        else pass_lines strtod v (tl (dropWhile (\<lambda>c. c \<noteq> CHR 0x0A) src)) (l + 1)
          (if r = LINE_DONE then ps1\<lparr>ps_done_selected := True\<rparr> else ps1))"
      using False by (subst pass_lines.simps) (simp add: r [simplified])
    moreover have "r \<noteq> LINE_ERROR \<Longrightarrow> I (if r = LINE_DONE then ps1\<lparr>ps_done_selected := True\<rparr> else ps1)"
      using sound stop by simp
    ultimately show ?thesis using less.prems(2) sound rec by (cases "r = LINE_ERROR") auto
  qed (use less.prems in \<open>auto simp: pass_lines.simps [of strtod v src]\<close>)
qed

end

interpretation pass: line_invariant strtod v "\<lambda>ps. pass_inv v j n ps \<and> ps_name ps = name" for strtod v j n name
proof
  fix ps :: pa_parse_state_t and raw l
  assume ps: "pass_inv v j n ps \<and> ps_name ps = name"
  obtain r ps' where r: "pass_line strtod v raw l ps = (r, ps')" by (rule prod.exhaust)
  have "line_sound (pass_inv v j n) (r, ps')" using pass_line_sound [of v j n ps strtod raw l] ps by (simp add: r)
  then show "line_sound (\<lambda>ps. pass_inv v j n ps \<and> ps_name ps = name) (pass_line strtod v raw l ps)"
    using line_name [OF r] ps by (auto simp: r line_sound_def split: if_splits)
qed (simp add: pass_inv_def)

section \<open>Whole programs\<close>

lemma run_pass_sound:
  assumes "run_pass strtod v src ps = (ok, ps')" "pass_inv v j n (ps\<lparr>ps_in_program := False, ps_done_selected := False,
     ps_in_verbatim := False, ps_in_block_comment := False, ps_seen_any_program := False, ps_idx := 0\<rparr>)"
  shows "if ok then pass_inv v j n ps' \<and> ps_name ps' = ps_name ps else failed ps'"
  using pass.lines [OF _ assms(1) [unfolded run_pass_def], of j n "ps_name ps"] assms(2) by simp

text \<open>From one pass to the next.\<close>

lemma next_pass:
  assumes "pass_inv v 0 n ps"
  shows "pass_inv v 1 (ps_idx ps) (ps\<lparr>ps_pass := 1, ps_in_program := False, ps_done_selected := False,
     ps_in_verbatim := False, ps_in_block_comment := False, ps_seen_any_program := False, ps_idx := 0\<rparr>)"
  using assms by (simp add: pass_inv_def Let_def window_at_def labels_at_def)

lemma close_config_sound:
  assumes "pass_inv v 1 n ps" "close_config ps = (ok, ctx)"
  shows "if ok then error_wf (cx_out ctx) \<and> settings_wf v (cx_out ctx) \<and> pg_public_labels (cx_out ctx) = [] \<and>
      window_wf (cx_out ctx) \<and> pg_count (cx_out ctx) = ps_idx ps \<and> cx_labels ctx = cx_labels (ps_ctx ps)
    else error_wf (cx_out ctx) \<and> \<not> pg_ok (cx_out ctx)"
proof -
  have "ps_idx ps \<noteq> 0 \<Longrightarrow> 0 < ps_idx ps \<and> ps_idx ps - 1 < ps_idx ps"
    by (simp add: word_less_nat_alt unat_minus_one unat_gt_0)
  then show ?thesis
    using assms by (auto simp: close_config_def Let_def pass_inv_def upd_out_def window_at_def window_open_def window_wf_def linorder_not_le
      intro!: error_wf_set split: if_splits)
qed

lemma last_pass:
  assumes "pass_inv v 1 n ps" "close_config ps = (True, ctx)" "n = ps_idx ps"
  shows "pass_inv v 2 n (ps\<lparr>ps_ctx := ctx, ps_pass := 2, ps_in_program := False, ps_done_selected := False,
     ps_in_verbatim := False, ps_in_block_comment := False, ps_seen_any_program := False, ps_idx := 0\<rparr>)"
  using close_config_sound [OF assms(1,2)] assms(1,3)
  by (simp add: pass_inv_def Let_def window_at_def labels_at_def)

definition public_labels :: "label_t list \<Rightarrow> pio_public_label_t list" where
  "public_labels ls = map (\<lambda>l. \<lparr>pl_name = take 31 (lb_name l), pl_index = lb_index l\<rparr>) (filter lb_is_public ls)"

lemma expose_labels_sound:
  "expose_labels ls ctx = (ok, ctx') \<Longrightarrow> error_wf (cx_out ctx) \<Longrightarrow> length (pg_public_labels (cx_out ctx)) \<le> 8 \<Longrightarrow>
   if ok then ctx' = upd_out (\<lambda>p. p\<lparr>pg_public_labels := pg_public_labels p @ public_labels ls\<rparr>) ctx \<and>
     length (pg_public_labels (cx_out ctx')) \<le> 8
   else error_wf (cx_out ctx') \<and> \<not> pg_ok (cx_out ctx')"
  by (induction ls ctx rule: expose_labels.induct) (auto simp: public_labels_def upd_out_def split: if_splits)

text \<open>Everything the passes establish.\<close>

definition program_wf :: "pio_version \<Rightarrow> pio_program_t \<Rightarrow> bool" where
  "program_wf v p \<longleftrightarrow> settings_wf v p \<and> window_wf p \<and> length (pg_public_labels p) \<le> 8"

lemma pass_inv_start:
  "pass_inv v 0 n ((parse_start name)\<lparr>ps_in_program := False, ps_done_selected := False, ps_in_verbatim := False,
     ps_in_block_comment := False, ps_seen_any_program := False, ps_idx := 0\<rparr>)"
  by (simp add: pass_inv_def parse_start_def asm_start_def program_zero_def shift_zero_def error_wf_def settings_wf_def
      window_at_def window_open_def labels_at_def PIO_SIM_PIO_VERSION_def split: pio_version.split)

text \<open>The result of assembling: a well-formed program, or a reported error.\<close>

definition labels_inside :: "pio_program_t \<Rightarrow> bool" where
  "labels_inside p \<longleftrightarrow> list_all (\<lambda>l. pl_index l \<le> pg_count p) (pg_public_labels p)"

lemma exposed_wf:
  assumes "pass_inv v 2 n ps" "expose_labels (cx_labels (ps_ctx ps)) (ps_ctx ps) = (ok, ctx)"
  shows "error_wf (cx_out ctx)" "if ok then program_wf v (cx_out ctx) \<and> labels_inside (cx_out ctx) else \<not> pg_ok (cx_out ctx)"
  using expose_labels_sound [OF assms(2)] assms(1)
  by (auto simp: pass_inv_def Let_def upd_out_def program_wf_def window_at_def window_wf_def labels_at_def labels_inside_def
      public_labels_def list_all_iff split: if_splits)

lemma assemble_sound:
  assumes "pio_asm_assemble strtod v src name = (ok, p)"
  shows "error_wf p \<and> ok = pg_ok p \<and> (ok \<longrightarrow> program_wf v p \<and> labels_inside p)"
proof -
  obtain ok0 ps0 where p0: "run_pass strtod v src (parse_start name) = (ok0, ps0)" by (rule prod.exhaust)
  obtain ok1 ps1 where p1: "run_pass strtod v src (ps0\<lparr>ps_pass := 1\<rparr>) = (ok1, ps1)" by (rule prod.exhaust)
  obtain okc ctx where c: "close_config ps1 = (okc, ctx)" by (rule prod.exhaust)
  obtain ok2 ps2 where p2: "run_pass strtod v src (ps1\<lparr>ps_ctx := ctx, ps_pass := 2\<rparr>) = (ok2, ps2)" by (rule prod.exhaust)
  obtain okx ctx' where x: "expose_labels (cx_labels (ps_ctx ps2)) (ps_ctx ps2) = (okx, ctx')" by (rule prod.exhaust)
  note result = assms [unfolded pio_asm_assemble_def p0 p1 c p2 x Let_def prod.case]
  let ?n = "ps_idx ps0"
  have s0: "if ok0 then pass_inv v 0 0 ps0 \<and> ps_name ps0 = name else failed ps0"
    using run_pass_sound [OF p0 pass_inv_start, of 0] by (simp add: parse_start_def)
  have s1: "if ok1 then pass_inv v 1 ?n ps1 else failed ps1" if ok0
    using run_pass_sound [OF p1 next_pass] s0 that by (cases ok1) auto
  have n1: "ps_idx ps1 = ?n" if ok0 ok1
    using run_agree [of "parse_start name" "ps0\<lparr>ps_pass := 1\<rparr>" strtod v src ps0 ps1] p0 p1 s0 that by (simp add: parse_start_def)
  have sc: "\<not> okc \<Longrightarrow> error_wf (cx_out ctx) \<and> \<not> pg_ok (cx_out ctx)" if ok0 ok1
    using close_config_sound [OF _ c] s1 that by simp
  have s2: "if ok2 then pass_inv v 2 ?n ps2 else failed ps2" if ok0 ok1 okc
  proof -
    have "pass_inv v 1 ?n ps1" "close_config ps1 = (True, ctx)" using s1 c that by simp_all
    from run_pass_sound [OF p2 last_pass [OF this n1 [OF that(1,2), symmetric]]] show ?thesis by presburger
  qed
  have sx: "error_wf (cx_out ctx')" "if okx then program_wf v (cx_out ctx') \<and> labels_inside (cx_out ctx') else \<not> pg_ok (cx_out ctx')"
    if ok0 ok1 okc ok2 using exposed_wf [OF _ x, of v ?n] s2 that by simp_all
  consider "\<not> ok0" | "ok0" "\<not> ok1" | "ok0" "ok1" "\<not> okc" | "ok0" "ok1" "okc" "\<not> ok2" | "ok0" "ok1" "okc" "ok2" by blast
  then show ?thesis
  proof cases
    case 5
    then show ?thesis using result sx by (cases okx) auto
  qed (use result s0 s1 sc s2 in \<open>auto simp: failed_def\<close>)
qed

end
