(* ===== verification/Asm_Bounds.thy ===== *)
theory Asm_Bounds
  imports Asm_Check
begin

text \<open>
  The assembler stays inside its tables: whatever the source, accepted or not, the symbol tables, the
  names, the instructions and the message fit the arrays of \<open>asm_ctx_t\<close> and \<open>pio_program_t\<close>.  The model keeps them in
  lists and functions without a size, so this is what makes the fixed arrays of the source enough.
\<close>

section \<open>Sizes\<close>

definition program_fits :: "pio_program_t \<Rightarrow> bool" where
  "program_fits p \<longleftrightarrow> length (pg_public_labels p) \<le> PIO_ASM_MAX_PUBLIC \<and>
     list_all (\<lambda>l. length (pl_name l) < 32) (pg_public_labels p) \<and> length (pg_name p) < 32 \<and>
     length (pg_error p) < PIO_ASM_ERR_LEN \<and> pg_count p \<le> PIO_ASM_MAX_INSNS"

definition tables_fit :: "asm_ctx_t \<Rightarrow> bool" where
  "tables_fit ctx \<longleftrightarrow> symbols_ok ctx \<and> list_all (\<lambda>d. length (df_name d) < 32) (cx_defines ctx) \<and>
     length (cx_labels ctx) \<le> MAX_LABELS \<and> list_all (\<lambda>l. length (lb_name l) < 32) (cx_labels ctx) \<and> program_fits (cx_out ctx)"

text \<open>The next instruction goes to a place of the program, or there is none left.\<close>

definition fits :: "pa_parse_state_t \<Rightarrow> bool" where
  "fits ps \<longleftrightarrow> tables_fit (ps_ctx ps) \<and> ps_idx ps \<le> PIO_ASM_MAX_INSNS"

lemma tables_fit_text:
  "tables_fit ctx \<longleftrightarrow> length (map define_text (cx_defines ctx)) \<le> MAX_DEFINES \<and>
     list_all (\<lambda>(name, expr). length name < 32 \<and> length expr < MAX_LINE) (map define_text (cx_defines ctx)) \<and>
     length (cx_labels ctx) \<le> MAX_LABELS \<and> list_all (\<lambda>l. length (lb_name l) < 32) (cx_labels ctx) \<and> program_fits (cx_out ctx)"
  by (auto simp: tables_fit_def symbols_ok_def list_all_iff define_text_def)

lemma quiet_fit:
  assumes "tables_fit ctx" "quiet ctx ctx'"
  shows "tables_fit ctx'"
proof -
  have eq: "error_free (cx_out ctx') = error_free (cx_out ctx)"
    and more: "length (pg_error (cx_out ctx)) < PIO_ASM_ERR_LEN \<longrightarrow> length (pg_error (cx_out ctx')) < PIO_ASM_ERR_LEN"
    "cx_labels ctx' = cx_labels ctx" "map define_text (cx_defines ctx') = map define_text (cx_defines ctx)"
    using assms(2) by (simp_all add: quiet_def)
  show ?thesis using assms(1) more
    unfolding tables_fit_text program_fits_def error_free_fields [OF eq] more(2,3) by simp
qed

lemma error_fit [simp]: "tables_fit ctx \<Longrightarrow> tables_fit (pa_set_error msg ctx)"
  by (auto simp: tables_fit_def pa_set_error_def program_fits_def symbols_ok_def)

lemma upd_out_fit: "tables_fit ctx \<Longrightarrow> (program_fits (cx_out ctx) \<Longrightarrow> program_fits (f (cx_out ctx))) \<Longrightarrow> tables_fit (upd_out f ctx)"
  by (simp add: tables_fit_def upd_out_def symbols_ok_def)

lemma program_fits_update [simp]:
  "program_fits (p\<lparr>pg_sideset_bits := b\<rparr>) = program_fits p" "program_fits (p\<lparr>pg_sideset_opt := c\<rparr>) = program_fits p"
  "program_fits (p\<lparr>pg_sideset_pindirs := c\<rparr>) = program_fits p" "program_fits (p\<lparr>pg_wrap_bottom := b\<rparr>) = program_fits p"
  "program_fits (p\<lparr>pg_wrap_top := b\<rparr>) = program_fits p" "program_fits (p\<lparr>pg_has_origin := c\<rparr>) = program_fits p"
  "program_fits (p\<lparr>pg_origin := b\<rparr>) = program_fits p" "program_fits (p\<lparr>pg_pio_version := i\<rparr>) = program_fits p"
  "program_fits (p\<lparr>pg_has_clock_div := c\<rparr>) = program_fits p" "program_fits (p\<lparr>pg_clock_div := d\<rparr>) = program_fits p"
  "program_fits (p\<lparr>pg_has_fifo_join := c\<rparr>) = program_fits p" "program_fits (p\<lparr>pg_fifo_join := b\<rparr>) = program_fits p"
  "program_fits (p\<lparr>pg_has_mov_status := c\<rparr>) = program_fits p" "program_fits (p\<lparr>pg_mov_status_sel := b\<rparr>) = program_fits p"
  "program_fits (p\<lparr>pg_mov_status_n := b\<rparr>) = program_fits p" "program_fits (p\<lparr>pg_in_cfg := g\<rparr>) = program_fits p"
  "program_fits (p\<lparr>pg_out_cfg := g\<rparr>) = program_fits p" "program_fits (p\<lparr>pg_set_cfg := g\<rparr>) = program_fits p"
  "program_fits (p\<lparr>pg_insns := m\<rparr>) = program_fits p"
  by (simp_all add: program_fits_def)

section \<open>Directives\<close>

text \<open>The state or the context that a step leaves.\<close>

definition line_fits :: "line_result_t \<times> pa_parse_state_t \<Rightarrow> bool" where
  "line_fits r \<longleftrightarrow> fits (snd r)"

definition parse_fits :: "bool \<times> asm_ctx_t \<Rightarrow> bool" where
  "parse_fits r \<longleftrightarrow> tables_fit (snd r)"

lemma line_fits_steps:
  "fits ps \<Longrightarrow> line_fits (r, ps)"
  "fits ps \<Longrightarrow> line_fits (ps_error msg ps)"
  "fits ps \<Longrightarrow> (program_fits (cx_out (ps_ctx ps)) \<Longrightarrow> program_fits (f (cx_out (ps_ctx ps)))) \<Longrightarrow> line_fits (ps_set f ps)"
  "fits ps \<Longrightarrow> parse_fits q \<Longrightarrow> line_fits (ps_check q msg ps)"
  "(c \<Longrightarrow> line_fits a) \<Longrightarrow> (\<not> c \<Longrightarrow> line_fits b) \<Longrightarrow> line_fits (if c then a else b)"
  "(y = None \<Longrightarrow> line_fits a) \<Longrightarrow> (\<And>x. y = Some x \<Longrightarrow> line_fits (g x)) \<Longrightarrow> line_fits (case y of None \<Rightarrow> a | Some x \<Rightarrow> g x)"
  by (auto simp: line_fits_def parse_fits_def fits_def ps_error_def ps_set_def ps_check_def Let_def upd_out_fit split: option.split)

lemma parse_fits_steps:
  "tables_fit ctx \<Longrightarrow> parse_fits (ok, ctx)"
  "tables_fit ctx \<Longrightarrow> (program_fits (cx_out ctx) \<Longrightarrow> program_fits (f (cx_out ctx))) \<Longrightarrow> parse_fits (ok, upd_out f ctx)"
  "(c \<Longrightarrow> parse_fits a) \<Longrightarrow> (\<not> c \<Longrightarrow> parse_fits b) \<Longrightarrow> parse_fits (if c then a else b)"
  "(y = None \<Longrightarrow> parse_fits a) \<Longrightarrow> (\<And>x. y = Some x \<Longrightarrow> parse_fits (g x)) \<Longrightarrow> parse_fits (case y of None \<Rightarrow> a | Some x \<Rightarrow> g x)"
  by (auto simp: parse_fits_def upd_out_fit split: option.split)

lemma fits_ctx [simp]: "fits ps \<Longrightarrow> tables_fit ctx \<Longrightarrow> fits (ps\<lparr>ps_ctx := ctx\<rparr>)"
  by (simp add: fits_def)

lemma fits_tables: "fits ps \<Longrightarrow> tables_fit (ps_ctx ps)"
  by (simp add: fits_def)

lemma operand_fit:
  "eval_uint ctx s = (r, ctx') \<Longrightarrow> tables_fit ctx \<Longrightarrow> tables_fit ctx'"
  "resolve_uint_join ctx tok = (r, ctx') \<Longrightarrow> tables_fit ctx \<Longrightarrow> tables_fit ctx'"
  "require_prog_version v what ctx = (ok, ctx') \<Longrightarrow> tables_fit ctx \<Longrightarrow> tables_fit ctx'"
  "assemble_insn v tok ctx = (w, ctx') \<Longrightarrow> tables_fit ctx \<Longrightarrow> tables_fit ctx'"
  using quiet_fit eval_uint_quiet resolve_uint_join_quiet version_quiet assemble_insn_quiet(1) by blast+

lemma shift_options_fit: "shift_options ctx dir autoshift threshold ts = (r, ctx') \<Longrightarrow> tables_fit ctx \<Longrightarrow> tables_fit ctx'"
  by (induction ctx dir autoshift threshold ts rule: shift_options.induct)
    (auto dest: operand_fit(1) split: prod.splits option.splits if_splits)

text \<open>A step that starts by evaluating something.\<close>

lemma fits_operand:
  assumes "fits ps" "\<And>r ctx. tables_fit ctx \<Longrightarrow> line_fits (g r ctx)"
  shows "line_fits (case eval_uint (ps_ctx ps) s of (r, ctx) \<Rightarrow> g r ctx)"
    "line_fits (case (if c then (None, ps_ctx ps) else eval_uint (ps_ctx ps) s) of (r, ctx) \<Rightarrow> g r ctx)"
    "line_fits (case (if c then (None, ps_ctx ps) else resolve_uint_join (ps_ctx ps) tok) of (r, ctx) \<Rightarrow> g r ctx)"
  using assms fits_tables [OF assms(1)] operand_fit(1,2) by (auto split: prod.split)

lemma parse_operand:
  assumes "tables_fit ctx" "\<And>r ctx. tables_fit ctx \<Longrightarrow> parse_fits (g r ctx)"
  shows "parse_fits (case eval_uint ctx s of (r, ctx) \<Rightarrow> g r ctx)"
    "parse_fits (case (if c then (None, ctx) else eval_uint ctx s) of (r, ctx) \<Rightarrow> g r ctx)"
  using assms operand_fit(1) by (auto split: prod.split)

lemma parse_options:
  assumes "tables_fit ctx" "\<And>r ctx. tables_fit ctx \<Longrightarrow> parse_fits (g r ctx)"
  shows "parse_fits (case shift_options ctx dir autoshift threshold ts of (r, ctx) \<Rightarrow> g r ctx)"
  using assms shift_options_fit by (auto split: prod.split)

lemma parse_version:
  assumes "tables_fit ctx" "\<And>ok ctx. tables_fit ctx \<Longrightarrow> parse_fits (g ok ctx)"
  shows "parse_fits (case (if c then require_prog_version v what ctx else (True, ctx)) of (ok, ctx) \<Rightarrow> g ok ctx)"
  using assms operand_fit(3) by (auto split: prod.split)

lemma with_operand_fits:
  assumes "fits ps" "\<And>x ps. fits ps \<Longrightarrow> line_fits (k x ps)"
  shows "line_fits (with_operand tok msg k ps)"
  unfolding with_operand_def using assms by (intro fits_operand) (auto intro!: line_fits_steps split: option.split)

lemma parse_side_set_fits: "tables_fit ctx \<Longrightarrow> parse_fits (parse_side_set tok bits ctx)"
  unfolding parse_side_set_def Let_def by (intro parse_fits_steps) simp_all

lemma parse_shift_fits: "tables_fit ctx \<Longrightarrow> parse_fits (parse_shift_dir_cfg v tok is_in ctx)"
  unfolding parse_shift_dir_cfg_def Let_def
  by (intro parse_operand parse_options parse_fits_steps(3,4))
    (auto intro!: parse_fits_steps(1) upd_out_fit split: option.split)

lemma parse_mov_status_fits: "tables_fit ctx \<Longrightarrow> parse_fits (parse_mov_status v tok ctx)"
  unfolding parse_mov_status_def Let_def
  by (intro parse_version parse_operand parse_fits_steps upd_out_fit | simp)+

lemma set_fits: "fits ps \<Longrightarrow> line_fits (directive_origin tok ps)" "fits ps \<Longrightarrow> line_fits (directive_set tok ps)"
  "fits ps \<Longrightarrow> line_fits (directive_clock_div strtod tok ps)" "fits ps \<Longrightarrow> line_fits (directive_wrap ps)"
  unfolding directive_origin_def directive_set_def directive_clock_div_def directive_wrap_def
  by (intro with_operand_fits line_fits_steps | simp)+

lemma fits_emit: "fits ps \<Longrightarrow> \<not> PIO_ASM_MAX_INSNS \<le> ps_idx ps \<Longrightarrow> tables_fit ctx \<Longrightarrow> fits (ps\<lparr>ps_ctx := ctx, ps_idx := ps_idx ps + 1\<rparr>)"
  by (simp add: fits_def word_le_nat_alt unat_word_ariths)

lemma word_fits: "fits ps \<Longrightarrow> line_fits (directive_word tok ps)"
proof -
  assume ps: "fits ps"
  have "line_fits (LINE_OK, ps\<lparr>ps_idx := ps_idx ps + 1\<rparr>)" if "\<not> PIO_ASM_MAX_INSNS \<le> ps_idx ps"
    using fits_emit [OF ps that fits_tables [OF ps]] by (simp add: line_fits_steps)
  moreover have "line_fits (LINE_OK, ps\<lparr>ps_ctx := upd_out (\<lambda>p. p\<lparr>pg_insns := m p\<rparr>) ctx, ps_idx := ps_idx ps + 1\<rparr>)"
    if "\<not> PIO_ASM_MAX_INSNS \<le> ps_idx ps" "tables_fit ctx" for m ctx
    using fits_emit [OF ps that(1)] upd_out_fit [OF that(2)] by (simp add: line_fits_steps)
  ultimately show ?thesis unfolding directive_word_def using ps
    by (intro line_fits_steps(5) fits_operand) (auto intro!: line_fits_steps(2,5) split: option.split)
qed

lemma instruction_fits: "fits ps \<Longrightarrow> line_fits (handle_instruction v line ps)"
proof -
  assume ps: "fits ps"
  have "fits (ps\<lparr>ps_idx := ps_idx ps + 1\<rparr>)" if "\<not> PIO_ASM_MAX_INSNS \<le> ps_idx ps"
    using fits_emit [OF ps that fits_tables [OF ps]] by simp
  moreover have "fits (ps\<lparr>ps_ctx := upd_out (\<lambda>p. p\<lparr>pg_insns := m p\<rparr>) ctx, ps_idx := ps_idx ps + 1\<rparr>)"
    if "\<not> PIO_ASM_MAX_INSNS \<le> ps_idx ps" "tables_fit ctx" for m ctx
    using fits_emit [OF ps that(1)] upd_out_fit [OF that(2)] by simp
  moreover note operand_fit(4) [OF _ fits_tables [OF ps]]
  ultimately show ?thesis unfolding handle_instruction_def Let_def using ps
    by (auto intro!: line_fits_steps(1,2,5) split: prod.split option.split)
qed

lemma program_fits_directive: "fits ps \<Longrightarrow> line_fits (directive_program tok ps)"
  by (auto simp: directive_program_def Let_def line_fits_def fits_def program_fits_def intro!: upd_out_fit)

lemma define_fits: "fits ps \<Longrightarrow> line_fits (directive_define tok ps)"
proof -
  assume ps: "fits ps"
  have "fits (ps\<lparr>ps_ctx := ctx\<rparr>)" if "declare_define name expr l (ps_ctx ps) = Some ctx" for name expr l ctx
    using ps that by (auto simp: fits_def declare_define_def tables_fit_def symbols_ok_def split: if_splits)
  then show ?thesis unfolding directive_define_def Let_def using ps by (intro line_fits_steps) simp_all
qed

lemma pio_version_fits: "fits ps \<Longrightarrow> line_fits (directive_pio_version v tok ps)"
proof -
  assume ps: "fits ps"
  have "tables_fit (snd (if a then (Some 0, ps_ctx ps) else if b then (Some 1, ps_ctx ps) else eval_uint (ps_ctx ps) s))" for a b s
    using fits_tables [OF ps] operand_fit(1) [of "ps_ctx ps" s] by (cases "eval_uint (ps_ctx ps) s") simp
  then show ?thesis using ps unfolding directive_pio_version_def Let_def split_beta
    by (intro line_fits_steps(1,2,5,6) fits_ctx upd_out_fit) simp_all
qed

lemma fifo_fits: "fits ps \<Longrightarrow> line_fits (directive_fifo v tok ps)"
proof -
  assume ps: "fits ps"
  have "tables_fit (snd (if c then require_prog_version v what (upd_out (\<lambda>p. p\<lparr>pg_fifo_join := j\<rparr>) (ps_ctx ps))
      else (True, upd_out (\<lambda>p. p\<lparr>pg_fifo_join := j\<rparr>) (ps_ctx ps))))" for c what j
  proof -
    have "tables_fit (upd_out (\<lambda>p. p\<lparr>pg_fifo_join := j\<rparr>) (ps_ctx ps))" using fits_tables [OF ps] by (rule upd_out_fit) simp
    then show ?thesis using operand_fit(3) [OF surjective_pairing] by (simp del: program_fits_update)
  qed
  then show ?thesis using ps unfolding directive_fifo_def Let_def split_beta
    by (intro line_fits_steps(1,2,3,5,6) fits_ctx) simp_all
qed

lemma config_fits: "fits ps \<Longrightarrow> line_fits (directive_config strtod v tok ps)"
  unfolding directive_config_def Let_def
  by (intro line_fits_steps(4,5,1) set_fits pio_version_fits fifo_fits parse_mov_status_fits parse_shift_fits fits_tables) simp_all

lemma side_set_fits: "fits ps \<Longrightarrow> line_fits (directive_side_set tok ps)"
  unfolding directive_side_set_def
  using parse_side_set_fits [unfolded parse_fits_def] fits_tables
  by (intro with_operand_fits) (simp_all add: Let_def split_beta line_fits_def)

lemma directive_fits: "fits ps \<Longrightarrow> line_fits (handle_directive strtod v line ps)"
  unfolding handle_directive_def Let_def split_beta
  by (intro line_fits_steps(1,2,3,5) program_fits_directive define_fits side_set_fits set_fits word_fits config_fits) simp_all

section \<open>Lines and passes\<close>

lemma label_fits: "handle_label orig ps = (only, rest, ps') \<Longrightarrow> fits ps \<Longrightarrow> fits ps'"
  by (auto simp: handle_label_def record_label_def Let_def fits_def split: if_splits)
    (auto simp: tables_fit_def symbols_ok_def)

lemma process_fits: "fits ps \<Longrightarrow> line_fits (process_line strtod v line ps)"
proof -
  assume ps: "fits ps"
  then have "fits (ps\<lparr>ps_in_verbatim := b\<rparr>)" for b by (simp add: fits_def)
  then show ?thesis unfolding process_line_def using ps label_fits
    by (auto intro!: line_fits_steps(1,5) directive_fits instruction_fits split: prod.split)
qed

lemma pass_line_fits: "fits ps \<Longrightarrow> line_fits (pass_line strtod v raw l ps)"
  unfolding pass_line_def Let_def split_beta
  by (auto intro!: line_fits_steps(1) process_fits simp: fits_def tables_fit_def symbols_ok_def)

text \<open>What every line keeps, whether it fails or not, holds after any number of lines.\<close>

locale kept_by_lines =
  fixes strtod :: c_strtod and v :: pio_version and I :: "pa_parse_state_t \<Rightarrow> bool"
  assumes keeps: "I ps \<Longrightarrow> I (snd (pass_line strtod v raw l ps))"
    and keeps_stop: "I ps \<Longrightarrow> I (ps\<lparr>ps_done_selected := True\<rparr>)"
begin

lemma lines_keep: "I ps \<Longrightarrow> I (snd (pass_lines strtod v src l ps))"
proof (induction "length src" arbitrary: src l ps rule: less_induct)
  case less
  show ?case
  proof (cases "src = [] \<or> ps_done_selected ps")
    case False
    let ?raw = "takeWhile (\<lambda>c. c \<noteq> CHR 0x0A) src" and ?src = "tl (dropWhile (\<lambda>c. c \<noteq> CHR 0x0A) src)"
    have "length ?src < length src"
      using False length_dropWhile_le [of "\<lambda>c. c \<noteq> CHR 0x0A" src] by (cases src) auto
    note rec = less.hyps [OF this]
    obtain r ps1 where r: "pass_line strtod v ?raw (l + 1) ps = (r, ps1)" by (rule prod.exhaust)
    then have "I ps1" using keeps [OF less.prems, of ?raw "l + 1"] by simp
    then show ?thesis using False r rec keeps_stop by (subst pass_lines.simps) (simp del: takeWhile_eq_Nil_iff)
  qed (use less.prems in \<open>simp add: pass_lines.simps\<close>)
qed

lemma pass_keeps:
  "I (ps\<lparr>ps_in_program := False, ps_done_selected := False, ps_in_verbatim := False, ps_in_block_comment := False,
     ps_seen_any_program := False, ps_idx := 0\<rparr>) \<Longrightarrow> I (snd (run_pass strtod v src ps))"
  unfolding run_pass_def by (rule lines_keep)

end

interpretation bounds: kept_by_lines strtod v fits for strtod v
  by unfold_locales (use pass_line_fits in \<open>auto simp: line_fits_def fits_def\<close>)

lemma run_pass_fits: "tables_fit (ps_ctx ps) \<Longrightarrow> fits (snd (run_pass strtod v src ps))"
  by (rule bounds.pass_keeps) (simp add: fits_def)

lemma close_config_fits: "fits ps \<Longrightarrow> tables_fit (snd (close_config ps))"
proof -
  assume ps: "fits ps"
  have "tables_fit (upd_out (\<lambda>p. let p = p\<lparr>pg_count := ps_idx ps\<rparr> in if pg_wrap_top p = 0xFF then p\<lparr>pg_wrap_top := k\<rparr> else p) (ps_ctx ps))" for k
    using ps by (auto simp: fits_def program_fits_def Let_def intro!: upd_out_fit)
  then show ?thesis by (simp add: close_config_def Let_def)
qed

lemma expose_labels_fits: "tables_fit ctx \<Longrightarrow> tables_fit (snd (expose_labels ls ctx))"
proof (induction ls ctx rule: expose_labels.induct)
  case (2 l ls ctx)
  have "tables_fit (upd_out (\<lambda>p. p\<lparr>pg_public_labels := pg_public_labels p @
      [\<lparr>pl_name = take 31 (lb_name l), pl_index = lb_index l\<rparr>]\<rparr>) ctx)" if "length (pg_public_labels (cx_out ctx)) < 8"
    using 2(3) that by (auto simp: program_fits_def intro!: upd_out_fit)
  then show ?case using 2 by simp
qed simp

text \<open>
  C7: The assembler stays in its arrays.  For every program name and every behaviour of \<open>strtod\<close>, whether
  assembling succeeds or fails: at every point of the three passes (the texts \<open>s0\<close>, \<open>s1\<close> and \<open>s2\<close> that
  each of them has read so far are arbitrary) there are at most 32 labels and 32 defines, with names of less than 32
  and expressions of less than 256 characters, and the next instruction has an index of at most 32;
  and the program that is returned has at most 32 instructions and eight public labels, names of less
  than 32 characters and a message of less than 128.
\<close>

theorem assembler_in_bounds:
  "(let p0 = snd (run_pass strtod v s0 (parse_start name));
        p1 = snd (run_pass strtod v s1 (p0\<lparr>ps_pass := 1\<rparr>));
        p2 = snd (run_pass strtod v s2 (p1\<lparr>ps_ctx := snd (close_config p1), ps_pass := 2\<rparr>))
    in fits p0 \<and> fits p1 \<and> fits p2) \<and>
   program_fits (snd (pio_asm_assemble strtod v src name))"
proof -
  let ?p0 = "\<lambda>s0. snd (run_pass strtod v s0 (parse_start name))"
  let ?p1 = "\<lambda>s0 s1. snd (run_pass strtod v s1 (?p0 s0\<lparr>ps_pass := 1\<rparr>))"
  let ?p2 = "\<lambda>s0 s1 s2. snd (run_pass strtod v s2 (?p1 s0 s1\<lparr>ps_ctx := snd (close_config (?p1 s0 s1)), ps_pass := 2\<rparr>))"
  have "tables_fit (ps_ctx (parse_start name))"
    by (simp add: parse_start_def asm_start_def program_zero_def tables_fit_def symbols_ok_def program_fits_def)
  then have p0: "fits (?p0 s0)" for s0 by (rule run_pass_fits)
  have p1: "fits (?p1 s0 s1)" for s0 s1 using fits_tables [OF p0 [of s0]] by (intro run_pass_fits) simp
  have c: "tables_fit (snd (close_config (?p1 s0 s1)))" for s0 s1 by (rule close_config_fits [OF p1])
  have p2: "fits (?p2 s0 s1 s2)" for s0 s1 s2 by (rule run_pass_fits) (use c in simp)
  have "tables_fit (snd (expose_labels (cx_labels (ps_ctx (?p2 src src src))) (ps_ctx (?p2 src src src))))"
    by (rule expose_labels_fits [OF fits_tables [OF p2]])
  then have "program_fits (snd (pio_asm_assemble strtod v src name))"
    using p0 [of src] p1 [of src src] p2 [of src src src] c [of src src]
    by (simp add: pio_asm_assemble_def split_beta Let_def fits_def tables_fit_def)
  then show ?thesis using p0 p1 p2 by (simp add: Let_def)
qed

end
