(* ===== verification/Asm_Load.thy ===== *)
theory Asm_Load
  imports Asm_Check Pio_Invariant
begin

text \<open>
  What the assembler promises about its result, and what loading the result into a PIO block does.
\<close>

section \<open>Results of the assembler\<close>

text \<open>
  C36: Every failure is reported.  Whatever the source, the assembler returns true exactly when the program it
  filled in is marked valid; a program it rejects carries a message, one it accepts carries no
  message and no error line.
\<close>

theorem assemble_reports_errors:
  "case pio_asm_assemble strtod v src name of (ok, p) \<Rightarrow>
     ok = pg_ok p \<and> (if ok then pg_error p = [] \<and> pg_error_line p = 0 else pg_error p \<noteq> [])"
proof -
  obtain ok p where r: "pio_asm_assemble strtod v src name = (ok, p)" by (rule prod.exhaust)
  from assemble_sound [OF r] show ?thesis by (simp add: r error_wf_def split: if_splits)
qed

text \<open>
  C6: Accepted programs are well formed.  For every source, a program the assembler accepts has between 1 and 32
  instructions, its wrap window and its public labels lie inside it, and its side-set, origin,
  version, FIFO mode, pin counts and thresholds are in the ranges of the chip.
\<close>

theorem assembled_program_wf:
  "case pio_asm_assemble strtod v src name of (ok, p) \<Rightarrow>
     if ok then program_wf v p \<and> labels_inside p else \<not> pg_ok p"
proof -
  obtain ok p where r: "pio_asm_assemble strtod v src name = (ok, p)" by (rule prod.exhaust)
  from assemble_sound [OF r] show ?thesis by (simp add: r)
qed

section \<open>Relocation\<close>

text \<open>Relocating moves the target of a jump by the offset and changes nothing else.\<close>

definition relocated :: "u8 \<Rightarrow> u16 \<Rightarrow> u16 \<Rightarrow> bool" where
  "relocated offset w w' \<longleftrightarrow> drop_bit 5 w' = drop_bit 5 w \<and>
     unat (w' AND 0x1F) = (if drop_bit 13 w = 0 then (unat (w AND 0x1F) + unat offset) mod 32 else unat (w AND 0x1F))"

lemma low_bits_replaced:
  fixes w :: u16 and a :: u8
  shows "drop_bit 5 ((w AND NOT 0x1F) OR ucast (a AND 0x1F)) = drop_bit 5 w"
    "((w AND NOT 0x1F) OR ucast (a AND 0x1F)) AND 0x1F = ucast (a AND 0x1F)"
proof -
  have m: "(0x1F :: u16) = mask 5" "(0x1F :: u8) = mask 5" by (simp_all add: mask_eq_exp_minus_1)
  show "drop_bit 5 ((w AND NOT 0x1F) OR ucast (a AND 0x1F)) = drop_bit 5 w"
    "((w AND NOT 0x1F) OR ucast (a AND 0x1F)) AND 0x1F = ucast (a AND 0x1F)"
    unfolding m by (auto intro!: bit_word_eqI simp: bit_simps) (drule bit_imp_le_length, simp)
qed

lemma unat_low5: "unat ((x :: 'a :: len word) AND 0x1F) = unat x mod 32"
proof -
  have "x AND 0x1F = take_bit 5 x" by (simp add: take_bit_eq_mask mask_eq_exp_minus_1)
  then have "unat (x AND 0x1F) = take_bit 5 (unat x)" by (simp only: unsigned_take_bit_eq)
  then show ?thesis by (simp add: take_bit_eq_mod)
qed

lemma relocate_insn_moves: "relocated offset w (relocate_insn offset w)"
proof (cases "drop_bit 13 w = 0 \<and> offset \<noteq> 0")
  case True
  let ?addr = "ucast (w AND 0x1F) + offset"
  have "unat (ucast (w AND 0x1F) :: u8) = unat (w AND 0x1F)"
    unfolding unsigned_ucast_eq unat_low5 by (simp add: take_bit_eq_mod)
  then have "unat ?addr mod 32 = (unat (w AND 0x1F) + unat offset) mod 32"
    by (simp add: unat_word_ariths(1) mod_mod_cancel)
  then have "unat (ucast (?addr AND 0x1F) :: u16) = (unat (w AND 0x1F) + unat offset) mod 32"
    unfolding unsigned_ucast_eq unat_low5 by (simp add: take_bit_eq_mod)
  then show ?thesis using True unfolding relocated_def relocate_insn_def Let_def
    by (simp only: low_bits_replaced if_True simp_thms)
next
  case False
  then show ?thesis using unat_low5 [of w] by (auto simp: relocated_def relocate_insn_def)
qed

section \<open>Loading\<close>

lemma load_from_memory:
  "a + length ws \<le> 32 \<Longrightarrow>
   pio_insn (pio_sim_load_from a ws p) = (\<lambda>j. if a \<le> j \<and> j < a + length ws then ws ! (j - a) else pio_insn p j) \<and>
   pio_sm (pio_sim_load_from a ws p) = pio_sm p"
proof (induction a ws p rule: pio_sim_load_from.induct)
  case (2 a w ws p)
  then show ?case by (auto simp: fun_eq_iff nth_Cons')
qed (auto simp: fun_eq_iff)

lemma load_memory:
  assumes "unat offset + length ws \<le> 32"
  shows "map (pio_insn (pio_sim_load offset ws p)) [unat offset..<unat offset + length ws] = ws"
    "j < unat offset \<or> unat offset + length ws \<le> j \<Longrightarrow> pio_insn (pio_sim_load offset ws p) j = pio_insn p j"
    "pio_sm (pio_sim_load offset ws p) = pio_sm p"
  using load_from_memory [OF assms, of p] by (auto simp: pio_sim_load_def intro!: nth_equalityI)

text \<open>A state machine that starts a program at an offset.\<close>

definition started_at :: "u8 \<Rightarrow> pio_program_t \<Rightarrow> pio_sm_t \<Rightarrow> bool" where
  "started_at offset p s \<longleftrightarrow> sm_pc s = offset \<and> unat (sm_wrap_bottom s) = unat offset + unat (pg_wrap_bottom p) \<and>
     unat (sm_wrap_top s) = unat offset + unat (pg_wrap_top p) \<and> same_sideset s p"

lemma offset_fits:
  fixes offset x :: u8
  assumes "unat offset + unat c \<le> 32" "x < c"
  shows "unat (offset + x) = unat offset + unat x" "offset + x < 32"
  using assms by (simp_all add: word_less_nat_alt unat_word_ariths(1))

text \<open>
  C9: Loading what was assembled.  A program the assembler accepted loads at an offset exactly when it fits
  below the end of the instruction memory, and a load that does not fit changes nothing.  After a
  load the words of the program stand at the offset, with the target of every jump moved by the
  offset and nothing else changed, no other word of the memory differs, and the state machine
  starts at the first of them with the wrap window and side-set of the program; every state machine
  stays well formed and only the chosen one changes.
\<close>

theorem loading_assembled_program:
  assumes "pio_asm_assemble strtod v src name = (True, p)" "sm_wf (pio_sm pio (SM_IDX sm))"
  shows "\<exists>pio'. pio_asm_load_program sm offset p pio = Some (unat offset + unat (pg_count p) \<le> 32, pio') \<and>
    (if unat offset + unat (pg_count p) \<le> 32
     then list_all2 (relocated offset) (map (pg_insns p) [0..<unat (pg_count p)])
            (map (pio_insn pio') [unat offset..<unat offset + unat (pg_count p)]) \<and>
          (\<forall>j. j < unat offset \<or> unat offset + unat (pg_count p) \<le> j \<longrightarrow> pio_insn pio' j = pio_insn pio j) \<and>
          started_at offset p (pio_sm pio' (SM_IDX sm)) \<and> sm_wf (pio_sm pio' (SM_IDX sm)) \<and>
          (\<forall>i. i \<noteq> SM_IDX sm \<longrightarrow> pio_sm pio' i = pio_sm pio i)
     else pio' = pio)"
proof -
  have p: "pg_ok p" "0 < pg_count p" "pg_count p \<le> 32" "pg_wrap_bottom p < pg_count p" "pg_wrap_top p < pg_count p"
    "pg_sideset_opt p \<longrightarrow> 0 < pg_sideset_bits p"
    using assemble_sound [OF assms(1)] by (auto simp: program_wf_def window_wf_def settings_wf_def)
  let ?ws = "map (\<lambda>i. relocate_insn offset (pg_insns p i)) [0..<unat (pg_count p)]"
  have r: "relocate offset p = Some ?ws" using p(3) by (simp add: relocate_def linorder_not_less)
  show ?thesis
  proof (cases "unat offset + unat (pg_count p) \<le> 32")
    case True
    note load = load_memory [where offset = offset and ws = ?ws and p = pio, simplified, OF True]
    have words: "list_all2 (relocated offset) (map (pg_insns p) [0..<unat (pg_count p)])
        (map (pio_insn (pio_sim_load offset ?ws pio)) [unat offset..<unat offset + unat (pg_count p)])"
      unfolding load(1) by (simp add: list_all2_conv_all_nth relocate_insn_moves)
    have "unat offset < 32" using True p(2) by (simp add: word_less_nat_alt)
    then have "offset < 32" by (simp add: word_less_nat_alt)
    then have "sm_wf (pio_sm pio (SM_IDX sm)
        \<lparr>sm_wrap_bottom := offset + pg_wrap_bottom p, sm_wrap_top := offset + pg_wrap_top p, sm_sideset_total_bits := pg_sideset_bits p,
         sm_sideset_opt := pg_sideset_opt p, sm_sideset_pindirs := pg_sideset_pindirs p, sm_pc := offset\<rparr>)"
      using assms(2) offset_fits(2) [OF True p(4)] offset_fits(2) [OF True p(5)] by (simp add: sm_wf_def)
    then show ?thesis
      using p r True words load(2,3) offset_fits(1) [OF True p(4)] offset_fits(1) [OF True p(5)]
      by (simp add: pio_asm_load_program_def linorder_not_le blk_upd_sm_def started_at_def same_sideset_def)
  next
    case False
    then show ?thesis using p r by (simp add: pio_asm_load_program_def linorder_not_le)
  qed
qed

theorem loading_assembled_program_witness:
  "let src = ''.program p'' @ [CHR 0x0A] @ ''nop'' @ [CHR 0x0A] @ ''l: jmp l'';
       p = snd (pio_asm_assemble (\<lambda>s. (Finite 0, s)) RP2040 src None); pio = blk_zero\<lparr>pio_sm := \<lambda>_. sm_init_defaults sm_zero\<rparr>
   in pg_insns p 1 = 1 \<and> (\<exists>pio'. pio_asm_load_program 0 4 p pio = Some (True, pio') \<and> started_at 4 p (pio_sm pio' 0) \<and>
        list_all2 (relocated 4) [pg_insns p 0, 1] [pio_insn pio' 4, pio_insn pio' 5])"
proof -
  define r where "r = pio_asm_assemble (\<lambda>s. (Finite 0, s)) RP2040 (''.program p'' @ [CHR 0x0A] @ ''nop'' @ [CHR 0x0A] @ ''l: jmp l'') None"
  let ?pio = "blk_zero\<lparr>pio_sm := \<lambda>_. sm_init_defaults sm_zero\<rparr>"
  have facts: "fst r" "unat (pg_count (snd r)) = 2" "pg_insns (snd r) 1 = 1" unfolding r_def by code_simp+
  then have r: "pio_asm_assemble (\<lambda>s. (Finite 0, s)) RP2040 (''.program p'' @ [CHR 0x0A] @ ''nop'' @ [CHR 0x0A] @ ''l: jmp l'') None = (True, snd r)"
    by (simp add: prod_eq_iff r_def)
  have words: "map (pg_insns (snd r)) [0..<2] = [pg_insns (snd r) 0, 1]" "map f [4..<6] = [f 4, f 5]" for f :: "nat \<Rightarrow> u16"
    using facts(3) by (simp_all add: numeral_eq_Suc)
  have idx: "SM_IDX 0 = 0" by (simp add: SM_IDX_def)
  have "sm_wf (pio_sm ?pio (SM_IDX 0))" using sm_wf_init_defaults by simp
  from loading_assembled_program [OF r this, of 4] facts(3) show ?thesis
    unfolding Let_def r_def [symmetric] by (simp add: facts(2) idx words) blast
qed

text \<open>
  A program with more than 32 instructions, which only a caller can build, is relocated past the end of
  the local array before its size is looked at.
\<close>

lemma load_overruns: "pg_ok p \<Longrightarrow> 32 < pg_count p \<Longrightarrow> pio_asm_load_program sm offset p pio = None"
  by (simp add: pio_asm_load_program_def relocate_def)

section \<open>Applying the configuration\<close>

lemma live_config_eq: "live_config s = sm_config_of s"
  by (simp add: live_config_def sm_config_of_def pio_get_default_sm_config_def config_zero_def)

lemma config_of_wf: "sm_wf s \<Longrightarrow> config_wf (sm_config_of s)"
  by (simp add: sm_wf_def config_wf_def sm_config_of_def)

lemma overlay_config_wf: "config_wf c \<Longrightarrow> config_wf (overlay_config v p c)"
  by (simp add: overlay_config_def Let_def config_wf_mutators config_wf_clkdiv)

text \<open>
  What the directives of a program make of a configuration: each sets its fields, no other field changes.  All 27
  fields are named, so the new configuration is determined.
\<close>

definition settings_applied :: "pio_version \<Rightarrow> pio_program_t \<Rightarrow> pio_sm_config \<Rightarrow> pio_sm_config \<Rightarrow> bool" where
  "settings_applied v p c c' \<longleftrightarrow>
     (let i = pg_in_cfg p; t = pg_out_cfg p; or_32 = (\<lambda>n. if n = 0 then 32 else n)
      in (c_wrap_bottom c', c_wrap_top c') = (c_wrap_bottom c, c_wrap_top c) \<and>
         (c_sideset_total_bits c', c_sideset_opt c', c_sideset_pindirs c') = (c_sideset_total_bits c, c_sideset_opt c, c_sideset_pindirs c) \<and>
         (c_in_dir c', c_autopush c', c_push_thresh c') =
           (if sc_set i then (sc_dir i, sc_autoshift i, or_32 (sc_threshold i)) else (c_in_dir c, c_autopush c, c_push_thresh c)) \<and>
         c_in_count c' = (if sc_set i \<and> v = RP2350 then or_32 (sc_count i) else c_in_count c) \<and>
         (c_out_dir c', c_autopull c', c_pull_thresh c', c_out_count c') =
           (if sc_set t then (sc_dir t, sc_autoshift t, or_32 (sc_threshold t), sc_count t)
            else (c_out_dir c, c_autopull c, c_pull_thresh c, c_out_count c)) \<and>
         c_set_count c' = (if sc_set (pg_set_cfg p) then sc_count (pg_set_cfg p) else c_set_count c) \<and>
         (c_status_sel c', c_status_n c') =
           (if pg_has_mov_status p then (pg_mov_status_sel p, pg_mov_status_n p) else (c_status_sel c, c_status_n c)) \<and>
         (c_clkdiv_int c', c_clkdiv_frac c') =
           (if pg_has_clock_div p
            then let d = sm_config_set_clkdiv (to_float (pg_clock_div p)) c in (c_clkdiv_int d, c_clkdiv_frac d)
            else (c_clkdiv_int c, c_clkdiv_frac c)) \<and>
         c_fifo_join c' = (if pg_has_fifo_join p then pg_fifo_join p else c_fifo_join c) \<and>
         (c_out_base c', c_set_base c', c_in_base c', c_sideset_base c') = (c_out_base c, c_set_base c, c_in_base c, c_sideset_base c) \<and>
         (c_jmp_pin c', c_out_sticky c', c_out_inline_en c', c_out_en_sel c') =
           (c_jmp_pin c, c_out_sticky c, c_out_inline_en c, c_out_en_sel c))"

lemma overlay_applied:
  assumes "settings_wf v p"
  shows "settings_applied v p c (overlay_config v p c)"
proof -
  define i t where "i = pg_in_cfg p" and "t = pg_out_cfg p"
  have "(if d = PIO_SHIFT_RIGHT then PIO_SHIFT_RIGHT else PIO_SHIFT_LEFT) = d" for d by (cases d) simp_all
  moreover have "clamp_thresh n = (if n = 0 then 32 else n)" "clamp_pin_count n = n" if "n \<le> 32" for n
    using that by (auto simp: clamp_thresh_def clamp_pin_count_def)
  moreover have "sc_threshold i \<le> 32" "sc_threshold t \<le> 32" "sc_count t \<le> 32" "sc_count (pg_set_cfg p) \<le> 32" "\<not> 32 < sc_count i"
    using assms order_trans [of "sc_count (pg_set_cfg p)" 5 32] by (auto simp: settings_wf_def i_def t_def)
  ultimately show ?thesis unfolding overlay_config_def settings_applied_def i_def [symmetric] t_def [symmetric] Let_def
    by (simp add: sm_config_set_clkdiv_def sm_config_set_fifo_join_def sm_config_set_mov_status_def sm_config_set_in_shift_def
        sm_config_set_in_pin_count_def sm_config_set_out_shift_def sm_config_set_out_pin_count_def sm_config_set_set_pin_count_def
        Let_def)
qed

lemma stored_join_settings: "settings_wf v p \<Longrightarrow> stored_join v (pg_fifo_join p) = pg_fifo_join p"
  by (cases v) (auto simp: settings_wf_def stored_join_def)

text \<open>
  C37: Applying the configuration of a program.  Each directive of a well-formed program sets exactly the fields it is
  about, with the values written in the source (a threshold of 0 meaning 32).  Every other field of the
  configuration, the pin bases, the \<open>JMP\<close> pin, the side-set, the wrap window and the output options among them, and
  the program counter keep their values, and the state machine stays well formed.  Other state machines are not touched.
\<close>

theorem applied_program_config:
  assumes "program_wf v p" "sm_wf (pio_sm pio (SM_IDX sm))" "stored_join v (sm_fifo_join (pio_sm pio (SM_IDX sm))) = sm_fifo_join (pio_sm pio (SM_IDX sm))"
  shows "let s = pio_sm pio (SM_IDX sm); pio' = pio_asm_apply_program_config v sm p pio; s' = pio_sm pio' (SM_IDX sm)
    in sm_wf s' \<and> sm_pc s' = sm_pc s \<and> settings_applied v p (sm_config_of s) (sm_config_of s') \<and>
       (\<forall>i. i \<noteq> SM_IDX sm \<longrightarrow> pio_sm pio' i = pio_sm pio i)"
proof -
  let ?s = "pio_sm pio (SM_IDX sm)"
  let ?c = "overlay_config v p (sm_config_of ?s)" and ?s' = "sm_set_config v (overlay_config v p (sm_config_of ?s)) ?s"
  have p: "settings_wf v p" using assms(1) by (simp add: program_wf_def)
  have "c_fifo_join ?c = (if pg_has_fifo_join p then pg_fifo_join p else sm_fifo_join ?s)"
    using overlay_applied [OF p, of "sm_config_of ?s"] by (simp add: settings_applied_def Let_def) (simp add: sm_config_of_def)
  then have "sm_config_of ?s' = ?c"
    using assms(3) stored_join_settings [OF p] by (simp add: sm_config_of_set_config)
  moreover have "sm_pc ?s' = sm_pc ?s" by (simp add: sm_set_config_def apply_fifo_join_eq Let_def)
  moreover have "sm_wf ?s'" by (intro sm_wf_set_config overlay_config_wf config_of_wf assms(2))
  ultimately show ?thesis using overlay_applied [OF p, of "sm_config_of ?s"]
    by (simp add: pio_asm_apply_program_config_def pio_sim_sm_set_config_def blk_upd_sm_def live_config_eq Let_def)
qed

theorem applied_program_config_witness:
  "let p = program_zero\<lparr>pg_count := 1, pg_in_cfg := \<lparr>sc_set = True, sc_count = 32, sc_dir = PIO_SHIFT_RIGHT,
         sc_autoshift = True, sc_threshold = 8\<rparr>\<rparr>;
       pio = blk_zero\<lparr>pio_sm := \<lambda>_. sm_init_defaults sm_zero\<rparr>;
       s' = pio_sm (pio_asm_apply_program_config RP2350 1 p pio) 1
   in sm_wf s' \<and> sm_in_dir s' = PIO_SHIFT_RIGHT \<and> sm_autopush s' \<and> sm_push_thresh s' = 8"
proof -
  let ?p = "program_zero\<lparr>pg_count := 1, pg_in_cfg := \<lparr>sc_set = True, sc_count = 32, sc_dir = PIO_SHIFT_RIGHT,
    sc_autoshift = True, sc_threshold = 8\<rparr>\<rparr>"
  let ?pio = "blk_zero\<lparr>pio_sm := \<lambda>_. sm_init_defaults sm_zero\<rparr>"
  have "program_wf RP2350 ?p"
    by (simp add: program_wf_def settings_wf_def window_wf_def program_zero_def shift_zero_def PIO_SIM_PIO_VERSION_def)
  moreover have "SM_IDX 1 = 1" by (simp add: SM_IDX_def)
  ultimately show ?thesis
    using applied_program_config [of RP2350 ?p ?pio 1] sm_wf_init_defaults
    by (simp add: Let_def stored_join_def settings_applied_def) (simp add: sm_config_of_def)
qed

end
