(* ===== verification/Pio_Solo.thy ===== *)
theory Pio_Solo
  imports Pio_Run
begin

text \<open>
  A block with one running state machine that only drives pins.  Most host programs use the simulator
  that way, and what such a block does can be said without the store, the pads and the other state
  machines: the abstract machine \<open>solo_t\<close> is a state machine, the levels latched on its pins and the
  number of instructions it committed.  It is a reference for every instruction but \<open>WAIT\<close>, \<open>IRQ\<close> and those that
  read pins or the status (for which it has no step), and a block is shown to implement it tick by tick.
  A program is then verified by running the abstract machine on symbolic data.
\<close>

section \<open>The abstract machine\<close>

record solo_t =
  so_sm :: pio_sm_t
  so_levels :: u64
  so_count :: nat

type_synonym solo_result = "(solo_t \<times> bool \<times> u8 option) option"

text \<open>Changing registers; latching the levels of the pins written in this cycle.\<close>

definition solo_upd :: "(pio_sm_t \<Rightarrow> pio_sm_t) \<Rightarrow> solo_t \<Rightarrow> solo_t" where
  "solo_upd f m = m\<lparr>so_sm := f (so_sm m)\<rparr>"

definition solo_latch :: "solo_t \<Rightarrow> solo_t" where
  "solo_latch m = m\<lparr>so_levels :=
     merge (sm_wrote_this_cycle (so_sm m)) (sm_out_pin_val (so_sm m)) (so_levels m)\<rparr>"

text \<open>Pins without a window: view index and pin number agree up to the wrap at 32.\<close>

definition solo_pin :: "u8 \<Rightarrow> nat \<Rightarrow> u64" where
  "solo_pin base k = bit64 (unat ((base + of_nat k) mod 32))"

definition solo_drive :: "u8 \<Rightarrow> u8 \<Rightarrow> u32 \<Rightarrow> solo_t \<Rightarrow> solo_t" where
  "solo_drive base count val m = solo_latch (solo_upd
     (fold (\<lambda>k. drive_pin_bit (solo_pin base k) (bit val k)) [0..<unat (clamp_pin_count count)]) m)"

definition solo_drive_dirs :: "u8 \<Rightarrow> u8 \<Rightarrow> u32 \<Rightarrow> solo_t \<Rightarrow> solo_t" where
  "solo_drive_dirs base count val m = solo_latch (solo_upd
     (fold (\<lambda>k. set_pindir_bit (solo_pin base k) (bit val k)) [0..<unat (clamp_pin_count count)]) m)"

definition solo_release :: "u8 \<Rightarrow> u8 \<Rightarrow> solo_t \<Rightarrow> solo_t" where
  "solo_release base count m = solo_latch (solo_upd
     (fold (\<lambda>k. release_pin_bit (solo_pin base k)) [0..<unat count]) m)"

text \<open>Operands that need no pin and no status; jumps that need no pin.\<close>

definition solo_source :: "pio_sm_t \<Rightarrow> u8 \<Rightarrow> u32 option" where
  "solo_source s src =
     (if src = 0 \<or> src = 5 then None
      else Some (if src = 1 then sm_x s else if src = 2 then sm_y s
        else if src = 6 then sm_isr s else if src = 7 then sm_osr s else 0))"

definition solo_jump :: "pio_sm_t \<Rightarrow> u8 \<Rightarrow> bool option" where
  "solo_jump s cond =
     (if cond = 6 then None
      else Some (if cond = 0 then True
        else if cond = 1 then sm_x s = 0 else if cond = 2 then sm_x s \<noteq> 0
        else if cond = 3 then sm_y s = 0 else if cond = 4 then sm_y s \<noteq> 0
        else if cond = 5 then sm_x s \<noteq> sm_y s
        else cond = 7 \<and> sm_osr_count s < sm_pull_thresh s))"

text \<open>The instructions: the machine afterwards, whether it stalled, and the program counter it sets.\<close>

definition solo_jmp :: "u8 \<Rightarrow> solo_t \<Rightarrow> solo_result" where
  "solo_jmp operand m =
     (let cond = drop_bit 5 operand AND 7
      in map_option (\<lambda>take. (solo_upd (jmp_decrement cond) m, False, if take then Some (operand AND 0x1F) else None))
           (solo_jump (so_sm m) cond))"

definition solo_in :: "pio_version \<Rightarrow> u8 \<Rightarrow> solo_t \<Rightarrow> solo_result" where
  "solo_in v operand m =
     (let s = so_sm m; count = operand_count operand
      in if (sm_autopush s \<and> unat (sm_push_thresh s) \<le> unat (sm_isr_count s) + unat count) \<and>
            (rx_fifo_is_register_file v s \<or> f_cap (sm_rx s) \<le> f_count (sm_rx s))
         then Some (solo_upd (\<lambda>s. s\<lparr>sm_fdebug := sm_fdebug s OR PIO_FDEBUG_RXSTALL\<rparr>) m, True, None)
         else map_option (\<lambda>w. (solo_upd (isr_shift_in count (w AND mask_n count)) m, False, None))
                (solo_source s (drop_bit 5 operand AND 7)))"

definition solo_out_store :: "u8 \<Rightarrow> u32 \<Rightarrow> u8 \<Rightarrow> solo_t \<Rightarrow> solo_t \<times> u8 option" where
  "solo_out_store dest val count m =
     (let s = so_sm m
      in if dest = 0 then
           (if \<not> sm_out_inline_en s \<or> drop_bit (unat (sm_out_en_sel s)) val AND 1 \<noteq> 0
            then (solo_drive (sm_out_base s) (sm_out_count s) val m, None)
            else if sm_out_sticky s then (solo_release (sm_out_base s) (sm_out_count s) m, None) else (m, None))
         else if dest = 1 then (solo_upd (\<lambda>s. s\<lparr>sm_x := val\<rparr>) m, None)
         else if dest = 2 then (solo_upd (\<lambda>s. s\<lparr>sm_y := val\<rparr>) m, None)
         else if dest = 4 then (solo_drive_dirs (sm_out_base s) (sm_out_count s) val m, None)
         else if dest = 5 then (m, Some (ucast (val AND 0x1F)))
         else if dest = 6 then (solo_upd (\<lambda>s. s\<lparr>sm_isr := val, sm_isr_count := count\<rparr>) m, None)
         else if dest = 7 then (solo_upd (\<lambda>s. s\<lparr>sm_exec_pending := True, sm_exec_insn := ucast val\<rparr>) m, None)
         else (m, None))"

definition solo_out :: "u8 \<Rightarrow> solo_t \<Rightarrow> solo_result" where
  "solo_out operand m =
     (let s = so_sm m; count = operand_count operand
      in if sm_autopull s \<and> sm_pull_thresh s \<le> sm_osr_count s
         then Some (solo_upd (\<lambda>s. s\<lparr>sm_fdebug := sm_fdebug s OR PIO_FDEBUG_TXSTALL\<rparr>) m, True, None)
         else let (m', pc) = solo_out_store (drop_bit 5 operand AND 7) (osr_shift_val count s) count
                               (solo_upd (osr_shift_out count) m)
           in Some (m', False, pc))"

definition solo_pushpull :: "pio_version \<Rightarrow> u8 \<Rightarrow> solo_t \<Rightarrow> solo_result" where
  "solo_pushpull v operand m =
     (let cond = (drop_bit 6 operand AND 1 \<noteq> 0); block = (drop_bit 5 operand AND 1 \<noteq> 0);
          f = (if drop_bit 7 operand AND 1 \<noteq> 0 then pull_insn cond block else push_insn v cond block)
      in Some (solo_upd (\<lambda>s. fst (f s)) m, snd (f (so_sm m)), None))"

definition solo_mov_store :: "pio_version \<Rightarrow> u8 \<Rightarrow> u32 \<Rightarrow> solo_t \<Rightarrow> solo_t \<times> u8 option" where
  "solo_mov_store v dest w m =
     (let s = so_sm m
      in if dest = 0 then (solo_drive (sm_out_base s) (sm_out_count s) w m, None)
         else if dest = 1 then (solo_upd (\<lambda>s. s\<lparr>sm_x := w\<rparr>) m, None)
         else if dest = 2 then (solo_upd (\<lambda>s. s\<lparr>sm_y := w\<rparr>) m, None)
         else if dest = 3 \<and> PIO_SIM_HAS_MOV_PINDIRS v
         then (solo_drive_dirs (sm_out_base s) (sm_out_count s) w m, None)
         else if dest = 4 then (solo_upd (\<lambda>s. s\<lparr>sm_exec_pending := True, sm_exec_insn := ucast w\<rparr>) m, None)
         else if dest = 5 then (m, Some (ucast (w AND 0x1F)))
         else if dest = 6 then (solo_upd (\<lambda>s. s\<lparr>sm_isr := w, sm_isr_count := 0\<rparr>) m, None)
         else if dest = 7 then (solo_upd (\<lambda>s. s\<lparr>sm_osr := w, sm_osr_count := 0\<rparr>) m, None)
         else (m, None))"

definition solo_mov :: "pio_version \<Rightarrow> u8 \<Rightarrow> solo_t \<Rightarrow> solo_result" where
  "solo_mov v operand m =
     map_option (\<lambda>w. let (m', pc) = solo_mov_store v (drop_bit 5 operand AND 7)
                        (mov_operation (drop_bit 3 operand AND 3) w) m in (m', False, pc))
       (solo_source (so_sm m) (operand AND 7))"

definition solo_set :: "u8 \<Rightarrow> solo_t \<Rightarrow> solo_t" where
  "solo_set operand m =
     (let s = so_sm m; dest = drop_bit 5 operand AND 7; val = ucast operand AND 0x1F
      in if dest = 0 then solo_drive (sm_set_base s) (sm_set_count s) val m
         else if dest = 1 then solo_upd (\<lambda>s. s\<lparr>sm_x := val\<rparr>) m
         else if dest = 2 then solo_upd (\<lambda>s. s\<lparr>sm_y := val\<rparr>) m
         else if dest = 4 then solo_drive_dirs (sm_set_base s) (sm_set_count s) val m
         else m)"

definition solo_op :: "pio_version \<Rightarrow> u8 \<Rightarrow> u8 \<Rightarrow> solo_t \<Rightarrow> solo_result" where
  "solo_op v opc operand m =
     (if opc = 0 then solo_jmp operand m
      else if opc = 2 then solo_in v operand m
      else if opc = 3 then solo_out operand m
      else if opc = 4 then
        (if PIO_SIM_HAS_RXFIFO_MOV v \<and> operand AND 0x10 \<noteq> 0 then Some (solo_upd (mov_rxfifo operand) m, False, None)
         else solo_pushpull v operand m)
      else if opc = 5 then solo_mov v operand m
      else if opc = 7 then Some (solo_set operand m, False, None)
      else None)"

definition solo_sideset :: "delay_sideset_t \<Rightarrow> solo_t \<Rightarrow> solo_t" where
  "solo_sideset ds m =
     (let s = so_sm m
      in if ds_side_en ds \<and> 0 < ds_ss_data_bits ds
         then (if sm_sideset_pindirs s then solo_drive_dirs (sm_sideset_base s) (ds_ss_data_bits ds) (ds_side_val ds) m
               else solo_drive (sm_sideset_base s) (ds_ss_data_bits ds) (ds_side_val ds) m)
         else m)"

definition solo_exec :: "pio_version \<Rightarrow> u16 \<Rightarrow> solo_t \<Rightarrow> (solo_t \<times> bool \<times> u8 option \<times> u8) option" where
  "solo_exec v insn m =
     (let ds = decode_delay_sideset (so_sm m) (ucast (drop_bit 8 insn AND 0x1F))
      in map_option (\<lambda>(m, stalled, pc). let m = solo_sideset ds m
           in if stalled then (m, False, pc, 0) else (m, True, pc, ds_delay ds))
           (solo_op v (ucast (drop_bit 13 insn)) (ucast (insn AND 0xFF)) m))"

text \<open>One cycle, one system tick, and a number of ticks, of a machine that runs the program \<open>prog\<close>.\<close>

definition solo_cycle :: "pio_version \<Rightarrow> (nat \<Rightarrow> u16) \<Rightarrow> solo_t \<Rightarrow> solo_t option" where
  "solo_cycle v prog m =
     (let m = solo_upd autopull_refill m; s = so_sm m
      in if 0 < sm_delay s then Some (solo_upd (\<lambda>s. s\<lparr>sm_delay := sm_delay s - 1\<rparr>) m)
         else
           let from_exec = sm_exec_pending s;
               insn = (if from_exec then sm_exec_insn s else prog (unat (sm_pc s) mod PIO_SIM_INSN_COUNT))
           in map_option (\<lambda>(m, committed, pc, delay).
                if \<not> committed then solo_upd (\<lambda>s. s\<lparr>sm_stalled := True\<rparr>) m
                else (solo_upd (if from_exec then commit_injected pc delay else commit_fetched pc delay)
                       (solo_upd (\<lambda>s. s\<lparr>sm_stalled := False\<rparr>) m))\<lparr>so_count := Suc (so_count m)\<rparr>)
                (solo_exec v insn m))"

definition solo_tick :: "pio_version \<Rightarrow> (nat \<Rightarrow> u16) \<Rightarrow> solo_t \<Rightarrow> solo_t option" where
  "solo_tick v prog m =
     (let m = solo_upd (\<lambda>s. s\<lparr>sm_wrote_this_cycle := 0\<rparr>) m;
          due = snd (clk_divider_step (so_sm m));
          m = solo_upd (\<lambda>s. fst (clk_divider_step s)) m
      in map_option solo_latch
           (if due \<and> sm_enabled (so_sm m)
            then map_option (\<lambda>m. if sm_out_sticky (so_sm m)
                   then solo_upd (\<lambda>s. s\<lparr>sm_wrote_this_cycle := sm_wrote_this_cycle s OR sm_out_pin_oe s\<rparr>) m
                   else m) (solo_cycle v prog m)
            else Some m))"

primrec solo_ticks :: "pio_version \<Rightarrow> (nat \<Rightarrow> u16) \<Rightarrow> nat \<Rightarrow> solo_t \<Rightarrow> solo_t option" where
  "solo_ticks v prog 0 m = Some m"
| "solo_ticks v prog (Suc n) m = Option.bind (solo_tick v prog m) (solo_ticks v prog n)"

section \<open>What implements it\<close>

text \<open>
  Whatever block runs the program in its state machine 0 implements the instructions of the abstract machine,
  when a relation between the store and the machine follows the registers, latches written pins when the pads are
  resolved, and counts committed instructions.  How the pads are wired does not matter here.
\<close>

definition simulates :: "(pio_store \<Rightarrow> solo_t \<Rightarrow> bool) \<Rightarrow> exec_result \<Rightarrow> solo_t \<times> bool \<times> u8 option \<Rightarrow> bool" where
  "simulates rel r a \<longleftrightarrow> rel (fst r) (fst a) \<and> snd r = snd a"

lemma phys_pin_base0: "pio_gpio_base p = 0 \<Longrightarrow> unat (phys_pin v p view) = unat (view mod 32)"
proof (cases v)
  case RP2350
  moreover have "unat (view mod 32) < 32" by (simp add: unat_mod_distrib)
  moreover assume "pio_gpio_base p = 0"
  ultimately show ?thesis by (simp add: phys_pin_def PIO_SIM_NUM_PINS_def unat_word_of_nat_mod unat_mod_distrib)
qed (simp add: phys_pin_def)

lemma solo_source_read: "solo_source s src = Some w \<Longrightarrow> read_source v b h s src = w"
  by (auto simp: solo_source_def read_source_def split: if_splits)

lemma solo_jump_taken: "solo_jump s cond = Some taken \<Longrightarrow> jmp_taken v b h s cond = taken"
  by (auto simp: solo_jump_def jmp_taken_def split: if_splits)

lemma SM_IDX_0 [simp]: "SM_IDX 0 = 0"
  by (simp add: SM_IDX_def)

lemma upd_blk_state: "upd_blk b (blk_upd_sm i f) h = upd_sm b i f h"
  by (simp add: upd_sm_def)

lemma load_from_memory_only: "\<exists>f g. pio_sim_load_from a ws p = p\<lparr>pio_insn := f, pio_insn_used := g\<rparr>"
proof (induction a ws p rule: pio_sim_load_from.induct)
  case (1 a p)
  show ?case by (intro exI [of _ "pio_insn p"] exI [of _ "pio_insn_used p"]) simp
next
  case (2 a w ws p)
  show ?case
  proof (cases "a < 32")
    case False
    then show ?thesis by (intro exI [of _ "pio_insn p"] exI [of _ "pio_insn_used p"]) simp
  qed (use 2 in auto)
qed

locale block_machine =
  fixes v :: pio_version and b :: nat and rel :: "pio_store \<Rightarrow> solo_t \<Rightarrow> bool"
  assumes sm: "rel h m \<Longrightarrow> the_sm h b 0 = so_sm m"
    and base: "rel h m \<Longrightarrow> pio_gpio_base (st_blk h b) = 0"
    and upd: "rel h m \<Longrightarrow> rel (upd_sm b 0 f h) (solo_upd f m)"
    and latch: "rel h m \<Longrightarrow> rel (pio_pads_resolve (pads_ptr_of h b) h) (solo_latch m)"
    and count: "rel h m \<Longrightarrow> rel (call_on_insn b 0 insn h) (m\<lparr>so_count := Suc (so_count m)\<rparr>)"
    and unwritten: "rel h m \<Longrightarrow> rel (upd_blk b (\<lambda>p. p\<lparr>pio_unwritten_fetches := g p\<rparr>) h) m"
    and memory: "rel h m \<Longrightarrow> rel (upd_blk b (\<lambda>_. (st_blk h b)\<lparr>pio_insn := i, pio_insn_used := u\<rparr>) h) m"
    and hook: "rel h m \<Longrightarrow> rel (upd_blk b (pio_sim_set_trace t ctx) h) (m\<lparr>so_count := length (st_trace h)\<rparr>)"
begin

subsection \<open>Instructions\<close>

lemma rel_drive:
  assumes "rel h m"
  shows "rel (drive_pins v b 0 base count val h) (solo_drive base count val m)"
    "rel (drive_pindirs v b 0 base count val h) (solo_drive_dirs base count val m)"
    "rel (release_out_pins v b 0 base count h) (solo_release base count m)"
proof -
  have g: "pio_gpio_base (st_blk h b) = 0" by (rule base [OF assms])
  show "rel (drive_pins v b 0 base count val h) (solo_drive base count val m)"
    "rel (drive_pindirs v b 0 base count val h) (solo_drive_dirs base count val m)"
    "rel (release_out_pins v b 0 base count h) (solo_release base count m)"
    unfolding drive_pins_def drive_pindirs_def release_out_pins_def solo_drive_def solo_drive_dirs_def
      solo_release_def Let_def phys_pin_base0 [OF g] solo_pin_def
    by (rule latch [OF upd [OF assms]])+
qed

lemma sim_jmp: "rel h m \<Longrightarrow> solo_jmp operand m = Some a \<Longrightarrow> simulates rel (exec_jmp v b 0 operand h) a"
  by (auto simp: solo_jmp_def exec_jmp_def Let_def simulates_def sm upd solo_jump_taken)

lemma sim_in: "rel h m \<Longrightarrow> solo_in v operand m = Some a \<Longrightarrow> simulates rel (exec_in v b 0 operand h) a"
  by (auto simp: solo_in_def exec_in_def Let_def simulates_def sm upd pio_sim_sm_is_rx_fifo_full_def SM_IDX_def
      the_sm_def [symmetric] solo_source_read split: if_splits)

lemma sim_out_store:
  "rel h m \<Longrightarrow> rel (fst (out_store v b 0 dest val count h)) (fst (solo_out_store dest val count m)) \<and>
    snd (out_store v b 0 dest val count h) = snd (solo_out_store dest val count m)"
  by (simp add: out_store_def solo_out_store_def Let_def sm upd rel_drive)

lemma sim_out: "rel h m \<Longrightarrow> solo_out operand m = Some a \<Longrightarrow> simulates rel (exec_out v b 0 operand h) a"
  using sim_out_store [OF upd]
  by (auto simp: solo_out_def exec_out_def Let_def simulates_def sm upd split_beta split: if_splits)

lemma sim_pushpull: "rel h m \<Longrightarrow> solo_pushpull v operand m = Some a \<Longrightarrow> simulates rel (exec_pushpull v b 0 operand h) a"
  by (auto simp: solo_pushpull_def exec_pushpull_def Let_def simulates_def sm upd)

lemma sim_mov_store:
  assumes "rel h m" "read_source v b h (so_sm m) (operand AND 7) = w"
  defines "a \<equiv> solo_mov_store v (drop_bit 5 operand AND 7) (mov_operation (drop_bit 3 operand AND 3) w) m"
  shows "rel (fst (exec_mov v b 0 operand h)) (fst a) \<and> snd (exec_mov v b 0 operand h) = snd a"
proof -
  define dirs where "dirs \<longleftrightarrow> PIO_SIM_HAS_MOV_PINDIRS v"
  show ?thesis
    using assms(1,2) unfolding a_def exec_mov_def solo_mov_store_def Let_def dirs_def [symmetric]
    by (auto simp: sm upd rel_drive)
qed

lemma sim_mov:
  "rel h m \<Longrightarrow> solo_mov v operand m = Some a \<Longrightarrow>
    simulates rel (let (h, pc) = exec_mov v b 0 operand h in (h, False, pc)) a"
  using sim_mov_store [OF _ solo_source_read, of h m operand]
  by (auto simp: solo_mov_def simulates_def split_beta)

lemma rel_set: "rel h m \<Longrightarrow> rel (exec_set v b 0 operand h) (solo_set operand m)"
  by (simp add: exec_set_def solo_set_def Let_def sm upd rel_drive)

lemma sim_op: "rel h m \<Longrightarrow> solo_op v opc operand m = Some a \<Longrightarrow> simulates rel (exec_op v b 0 opc operand h) a"
proof -
  define by_index where "by_index \<longleftrightarrow> PIO_SIM_HAS_RXFIFO_MOV v"
  show "rel h m \<Longrightarrow> solo_op v opc operand m = Some a \<Longrightarrow> ?thesis"
    using sim_jmp [of h m operand a] sim_in [of h m operand a] sim_out [of h m operand a]
      sim_pushpull [of h m operand a] sim_mov [of h m operand a]
    unfolding solo_op_def exec_op_def by_index_def [symmetric]
    by (auto simp: simulates_def exec_mov_rxfifo_def upd rel_set split: if_splits)
qed

lemma rel_sideset: "rel h m \<Longrightarrow> rel (apply_sideset v b 0 ds h) (solo_sideset ds m)"
  by (simp add: apply_sideset_def solo_sideset_def Let_def sm rel_drive)

lemma sim_exec:
  assumes "rel h m" "solo_exec v insn m = Some (m', r)"
  shows "rel (fst (exec_one v b 0 insn h)) m' \<and> snd (exec_one v b 0 insn h) = r"
proof -
  obtain a where a: "solo_op v (ucast (drop_bit 13 insn)) (ucast (insn AND 0xFF)) m = Some a"
    using assms(2) by (auto simp: solo_exec_def Let_def)
  note op = sim_op [OF assms(1) a, unfolded simulates_def]
  show ?thesis
    using op rel_sideset [OF conjunct1 [OF op]] assms(2) a
    by (auto simp: solo_exec_def exec_one_def Let_def split_beta sm [OF assms(1)] split: if_splits)
qed

subsection \<open>Cycles\<close>

lemma rel_cycle:
  assumes "rel h m" "solo_cycle v (pio_insn (st_blk h b)) m = Some m'"
  shows "rel (sm_cycle v b 0 h) m'"
proof -
  let ?m = "solo_upd autopull_refill m" and ?h = "upd_sm b 0 autopull_refill h"
  note r1 = upd [OF assms(1), of autopull_refill]
  show ?thesis
  proof (cases "0 < sm_delay (so_sm ?m)")
    case True
    then show ?thesis using assms(2) upd [OF r1] sm [OF r1] by (auto simp: solo_cycle_def sm_cycle_def Let_def)
  next
    case False
    let ?s = "so_sm ?m"
    let ?insn = "if sm_exec_pending ?s then sm_exec_insn ?s else pio_insn (st_blk h b) (unat (sm_pc ?s) mod 32)"
    let ?h1 = "if \<not> sm_exec_pending ?s \<and> \<not> pio_insn_used (st_blk ?h b) (unat (sm_pc ?s) mod 32)
               then upd_blk b (\<lambda>p. p\<lparr>pio_unwritten_fetches := pio_unwritten_fetches p + 1\<rparr>) ?h else ?h"
    have r2: "rel ?h1 ?m" using r1 by (simp add: unwritten)
    obtain m1 c pc d where e: "solo_exec v ?insn ?m = Some (m1, c, pc, d)"
      using assms(2) False by (auto simp: solo_cycle_def Let_def)
    define r where "r = exec_one v b 0 ?insn ?h1"
    note x = sim_exec [OF r2 e, folded r_def]
    have i: "pio_insn (st_blk ?h b) = pio_insn (st_blk h b)" by simp
    define h2 where "h2 = fst r"
    have e1: "exec_one v b 0 ?insn ?h1 = (h2, c, pc, d)" and r3: "rel h2 m1"
      unfolding r_def [symmetric] using x by (simp_all add: h2_def prod_eq_iff)
    let ?commit = "if sm_exec_pending ?s then commit_injected pc d else commit_fetched pc d"
    have h: "sm_cycle v b 0 h = (if \<not> c then upd_sm b 0 (\<lambda>s. s\<lparr>sm_stalled := True\<rparr>) h2
        else upd_sm b 0 ?commit (call_on_insn b 0 ?insn (upd_sm b 0 (\<lambda>s. s\<lparr>sm_stalled := False\<rparr>) h2)))"
      unfolding sm_cycle_def Let_def sm [OF r1] i e1 using False by simp
    have m': "m' = (if \<not> c then solo_upd (\<lambda>s. s\<lparr>sm_stalled := True\<rparr>) m1
        else solo_upd ?commit ((solo_upd (\<lambda>s. s\<lparr>sm_stalled := False\<rparr>) m1)
          \<lparr>so_count := Suc (so_count (solo_upd (\<lambda>s. s\<lparr>sm_stalled := False\<rparr>) m1))\<rparr>))"
      using assms(2) False e by (auto simp: solo_cycle_def Let_def solo_upd_def)
    show ?thesis
      unfolding h m' using r3 by (auto intro!: upd count simp del: upd_sm_frame)
  qed
qed

text \<open>A tick of state machine 0, from the opening of the write window on.\<close>

lemma tick_sm0:
  assumes "rel h (solo_upd (\<lambda>s. s\<lparr>sm_wrote_this_cycle := 0\<rparr>) m)" "solo_tick v (pio_insn (st_blk h b)) m = Some m'"
  obtains m1 where "rel (tick_sm v b 0 h) m1" "m' = solo_latch m1"
proof -
  let ?w = "solo_upd (\<lambda>s. s\<lparr>sm_wrote_this_cycle := 0\<rparr>) m"
  let ?d = "solo_upd (\<lambda>s. fst (clk_divider_step s)) ?w"
  let ?hd = "upd_sm b 0 (\<lambda>s. fst (clk_divider_step s)) h"
  have rd: "rel ?hd ?d" by (rule upd [OF assms(1)])
  show thesis
  proof (cases "snd (clk_divider_step (so_sm ?w)) \<and> sm_enabled (so_sm ?d)")
    case True
    then obtain m2 where c: "solo_cycle v (pio_insn (st_blk h b)) ?d = Some m2"
      using assms(2) by (auto simp: solo_tick_def Let_def)
    have r2: "rel (sm_cycle v b 0 ?hd) m2" using rel_cycle [OF rd] c by simp
    let ?st = "\<lambda>s. s\<lparr>sm_wrote_this_cycle := sm_wrote_this_cycle s OR sm_out_pin_oe s\<rparr>"
    show ?thesis
    proof (rule that)
      show "rel (tick_sm v b 0 h) (if sm_out_sticky (so_sm m2) then solo_upd ?st m2 else m2)"
        using True r2 upd [OF r2] sm [OF r2] sm [OF assms(1)] sm [OF rd] by (simp add: tick_sm_def Let_def)
      show "m' = solo_latch (if sm_out_sticky (so_sm m2) then solo_upd ?st m2 else m2)"
        using assms(2) True c by (simp add: solo_tick_def Let_def)
    qed
  next
    case False
    show ?thesis
    proof (rule that)
      show "rel (tick_sm v b 0 h) ?d" using False rd sm [OF assms(1)] sm [OF rd] by (auto simp: tick_sm_def Let_def)
      show "m' = solo_latch ?d" using assms(2) False by (simp add: solo_tick_def Let_def)
    qed
  qed
qed

subsection \<open>The calls of the host\<close>

lemma rel_load:
  assumes "rel h m"
  shows "rel (upd_blk b (pio_sim_load a ws) h) m"
proof -
  obtain f g where "pio_sim_load a ws (st_blk h b) = (st_blk h b)\<lparr>pio_insn := f, pio_insn_used := g\<rparr>"
    unfolding pio_sim_load_def using load_from_memory_only by blast
  then have "upd_blk b (pio_sim_load a ws) h = upd_blk b (\<lambda>_. (st_blk h b)\<lparr>pio_insn := f, pio_insn_used := g\<rparr>) h"
    by (simp add: upd_blk_def)
  then show ?thesis using memory [OF assms] by simp
qed

lemma rel_sm_init:
  "rel h m \<Longrightarrow> rel (upd_blk b (pio_sim_sm_init v 0 pc c) h) (solo_upd (sm_init v pc c) m)"
proof -
  have "pio_sim_sm_init v 0 pc c = blk_upd_sm 0 (sm_init v pc c)" by (simp add: fun_eq_iff pio_sim_sm_init_def)
  then show "rel h m \<Longrightarrow> ?thesis" by (simp add: upd_blk_state upd)
qed

lemma rel_pindirs:
  assumes "rel h m"
  shows "rel (pio_sim_sm_set_consecutive_pindirs v b 0 base count on h)
    (solo_latch (solo_upd (fold (\<lambda>k. set_pindir_bit (solo_pin base k) on) [0..<unat (clamp_pin_count count)]) m))"
proof -
  have g: "pio_gpio_base (st_blk h b) = 0" by (rule base [OF assms])
  show ?thesis
    unfolding pio_sim_sm_set_consecutive_pindirs_def Let_def SM_IDX_0 phys_pin_base0 [OF g] solo_pin_def
    by (rule latch [OF upd [OF assms]])
qed

lemma rel_put:
  "rel h m \<Longrightarrow>
    rel (upd_blk b (\<lambda>p. fst (pio_sim_sm_put 0 w p)) h) (solo_upd (\<lambda>s. fst (sm_put w s)) m)"
  "rel h m \<Longrightarrow> snd (pio_sim_sm_put 0 w (st_blk h b)) = snd (sm_put w (so_sm m))"
  by (simp_all add: pio_sim_sm_put_def upd_blk_state upd sm the_sm_def [symmetric])

lemma rel_get:
  "rel h m \<Longrightarrow>
    rel (upd_blk b (\<lambda>p. fst (pio_sim_sm_get 0 p)) h) (solo_upd (\<lambda>s. fst (sm_get s)) m)"
  "rel h m \<Longrightarrow> snd (pio_sim_sm_get 0 (st_blk h b)) = snd (sm_get (so_sm m))"
  by (simp_all add: pio_sim_sm_get_def upd_blk_state upd sm the_sm_def [symmetric])

lemma rel_enable: "rel h m \<Longrightarrow>
    rel (pio_sim_sm_set_enabled b 0 on h) (solo_latch (solo_upd (\<lambda>s. s\<lparr>sm_enabled := on\<rparr>) m))"
  unfolding pio_sim_sm_set_enabled_def Let_def SM_IDX_0 by (rule latch [OF upd])

end

section \<open>The blocks it stands for\<close>

text \<open>
  The block is wired to its own pads and owns them alone, has no device hook and its window at 0; no pad
  has an override; and no state machine but the first is enabled or drives a pin.
\<close>

definition solo :: "pio_version \<Rightarrow> nat \<Rightarrow> pio_store \<Rightarrow> bool" where
  "solo v b h \<longleftrightarrow>
     pads_ptr_of h b = Embedded b \<and> pio_on_tick (st_blk h b) = None \<and> pio_gpio_base (st_blk h b) = 0 \<and>
     (let p = get_pads h (Embedded b) in
      p_owner_count p = 1 \<and> p_owners p 0 = b \<and> p_pio_func_mask p 0 = NOT 0 \<and>
      (\<forall>n < PIO_SIM_NUM_PINS v. plain_pad v p n)) \<and>
     (\<forall>j < 4. 0 < j \<longrightarrow> \<not> sm_enabled (the_sm h b j) \<and> sm_dir_driven (the_sm h b j) = 0 \<and>
        sm_wrote_this_cycle (the_sm h b j) = 0)"

abbreviation pin_levels :: "pio_store \<Rightarrow> nat \<Rightarrow> u64" where
  "pin_levels h b \<equiv> p_pin_levels (get_pads h (Embedded b))"

text \<open>The machine of a block: registers, levels, and the length of the trace when instructions are traced.\<close>

definition solo_rel :: "pio_version \<Rightarrow> nat \<Rightarrow> pio_store \<Rightarrow> solo_t \<Rightarrow> bool" where
  "solo_rel v b h m \<longleftrightarrow> solo v b h \<and> the_sm h b 0 = so_sm m \<and> pin_levels h b = so_levels m \<and>
     (pio_on_insn (st_blk h b) \<noteq> None \<longrightarrow> length (st_trace h) = so_count m)"

definition solo_output :: "nat \<Rightarrow> solo_t \<Rightarrow> bool" where
  "solo_output pin m \<longleftrightarrow> bit (sm_out_pin_oe (so_sm m)) pin \<and> bit (sm_dir_driven (so_sm m)) pin"

section \<open>Resolution for a single driver\<close>

lemma upt_4: "[0..<4] = [0, 1, 2, 3 :: nat]"
  by code_simp

lemma merge_onto_zero: "merge m w 0 = w AND m"
  by (simp add: merge_def)

lemma solo_drivers:
  assumes "solo v b h"
  shows "pad_drivers h (pads_of h b) = map (\<lambda>j. (NOT 0, the_sm h b j)) [0, 1, 2, 3]"
  using assms by (simp add: solo_def Let_def pad_drivers_def upt_4)

lemma solo_resolve:
  assumes "solo v b h"
  defines "s \<equiv> the_sm h b 0" and "p' \<equiv> get_pads (pio_pads_resolve (Embedded b) h) (Embedded b)"
  shows "p_pin_levels p' = merge (sm_wrote_this_cycle s) (sm_out_pin_val s) (pin_levels h b)"
    and "p_pin_dirs p' = sm_out_pin_oe s AND sm_dir_driven s"
proof -
  have q: "pads_ptr_of h b = Embedded b" using assms(1) by (simp add: solo_def Let_def)
  note ds = solo_drivers [OF assms(1)]
  show "p_pin_levels p' = merge (sm_wrote_this_cycle s) (sm_out_pin_val s) (pin_levels h b)"
    using assms(1) ds unfolding p'_def s_def pio_pads_resolve_def Let_def
    by (simp add: q resolve_pass1_def resolve_pass2_def Let_def) (simp add: solo_def Let_def)
  show "p_pin_dirs p' = sm_out_pin_oe s AND sm_dir_driven s"
    using assms(1) ds unfolding p'_def s_def pio_pads_resolve_def Let_def
    by (simp add: q resolve_pass1_def resolve_pass2_def Let_def) (simp add: solo_def Let_def merge_onto_zero)
qed

section \<open>What keeps a block in this class\<close>

lemma solo_frame:
  assumes "solo v b h" "cycle_frame b 0 h h'"
  shows "solo v b h'"
proof -
  have pads: "pads_frame (pads_of h' b) = pads_frame (pads_of h b)"
    using assms(2) by (simp add: cycle_frame_def)
  then have "p_owner_count (pads_of h' b) = p_owner_count (pads_of h b)" "p_owners (pads_of h' b) = p_owners (pads_of h b)"
    "p_pio_func_mask (pads_of h' b) = p_pio_func_mask (pads_of h b)"
    by (cases "pads_of h' b"; cases "pads_of h b"; simp add: pads_frame_def)+
  moreover have "the_sm h' b j = the_sm h b j" if "j \<noteq> 0" for j
    using assms(2) that by (simp add: cycle_frame_def)
  ultimately show ?thesis
    using assms(1) cycle_frame_fields(3,4,5) [OF assms(2), of b] plain_pad_frame [OF pads]
    by (simp add: solo_def Let_def)
qed

lemma solo_upd_sm [simp]: "solo v b (upd_sm b 0 f h) = solo v b h"
  by (simp add: solo_def)

lemma tick_sm_disabled:
  "\<not> sm_enabled (the_sm h b j) \<Longrightarrow> tick_sm v b j h = upd_sm b j (\<lambda>s. fst (clk_divider_step s)) h"
  by (simp add: tick_sm_def Let_def clk_divider_step_def)

lemma divider_regs [simp]:
  "sm_enabled (fst (clk_divider_step s)) = sm_enabled s"
  "sm_dir_driven (fst (clk_divider_step s)) = sm_dir_driven s"
  "sm_wrote_this_cycle (fst (clk_divider_step s)) = sm_wrote_this_cycle s"
  by (simp_all add: clk_divider_step_def Let_def)

lemma plain_pad_clock [simp]: "plain_pad v (pads_clock v p) n = plain_pad v p n"
  by (simp add: plain_pad_def pads_clock_def pads_update_keeper_def Let_def split_beta)

lemma pads_clock_fields [simp]:
  "p_owner_count (pads_clock v p) = p_owner_count p" "p_owners (pads_clock v p) = p_owners p"
  "p_pio_func_mask (pads_clock v p) = p_pio_func_mask p" "p_pin_levels (pads_clock v p) = p_pin_levels p"
  "p_pin_dirs (pads_clock v p) = p_pin_dirs p"
  by (simp_all add: pads_clock_def pads_update_keeper_def Let_def split_beta)

lemma solo_upd_other:
  assumes "solo v b h" "0 < j" "j < 4"
  shows "solo v b (upd_sm b j (\<lambda>s. fst (clk_divider_step s)) h)"
  using assms by (auto simp: solo_def)

lemma solo_window:
  assumes "solo v b h" "h' = open_write_window b h"
  shows "solo v b h'" "the_sm h' b 0 = (the_sm h b 0)\<lparr>sm_wrote_this_cycle := 0\<rparr>" "pin_levels h' b = pin_levels h b"
    "pio_insn (st_blk h' b) = pio_insn (st_blk h b)" "pio_insn_used (st_blk h' b) = pio_insn_used (st_blk h b)"
    "pio_on_insn (st_blk h' b) = pio_on_insn (st_blk h b)" "pio_trace_ctx (st_blk h' b) = pio_trace_ctx (st_blk h b)"
    "st_trace h' = st_trace h"
  using assms by (simp_all add: open_write_window_def upt_4 solo_def Let_def)

lemma tick_of_solo:
  fixes v b h dev
  assumes solo: "solo v b h"
  defines "h1 \<equiv> tick_sm v b 0 (open_write_window b h)" and "h' \<equiv> pio_sim_tick v dev b h"
  defines "s \<equiv> the_sm h1 b 0"
  shows "solo v b h'" "the_sm h' b 0 = s"
    "pin_levels h' b = merge (sm_wrote_this_cycle s) (sm_out_pin_val s) (pin_levels h1 b)"
    "p_pin_dirs (get_pads h' (Embedded b)) = sm_out_pin_oe s AND sm_dir_driven s"
    "pio_insn (st_blk h' b) = pio_insn (st_blk h1 b)" "pio_insn_used (st_blk h' b) = pio_insn_used (st_blk h1 b)"
    "pio_on_insn (st_blk h' b) = pio_on_insn (st_blk h1 b)" "st_trace h' = st_trace h1"
proof -
  have s1: "solo v b h1"
    unfolding h1_def by (rule solo_frame [OF solo_window(1) [OF solo refl] cycle_frame_tick_sm])
  let ?d = "\<lambda>s. fst (clk_divider_step s)"
  define h4 where "h4 = upd_sm b 3 ?d (upd_sm b 2 ?d (upd_sm b 1 ?d h1))"
  have h4: "fold (tick_sm v b) [0..<4] (open_write_window b h) = h4"
    using s1 by (simp add: upt_4 h1_def [symmetric] tick_sm_disabled solo_def h4_def)
  have s4: "solo v b h4" unfolding h4_def by (intro solo_upd_other s1) simp_all
  have regs: "the_sm h4 b 0 = s" "pin_levels h4 b = pin_levels h1 b" "pio_insn (st_blk h4 b) = pio_insn (st_blk h1 b)"
    "pio_insn_used (st_blk h4 b) = pio_insn_used (st_blk h1 b)" "st_trace h4 = st_trace h1"
    "pio_on_insn (st_blk h4 b) = pio_on_insn (st_blk h1 b)"
    by (simp_all add: h4_def s_def)
  have q: "pads_ptr_of h4 b = Embedded b" "pio_on_tick (st_blk h4 b) = None" using s4 by (simp_all add: solo_def)
  have t: "h' = upd_blk b (\<lambda>p. p\<lparr>pio_cycle := pio_cycle p + 1\<rparr>)
      (upd_pads (Embedded b) (pads_clock v) (pio_pads_resolve (Embedded b) h4))"
    unfolding h'_def pio_sim_tick_def Let_def by (simp add: h4 q call_on_tick_def)
  have "solo v b (pio_pads_resolve (Embedded b) h4)"
    using solo_frame [OF s4 cycle_frame_exec [OF exec_frame_resolve]] by (simp add: q)
  then show "solo v b h'"
    unfolding t by (simp add: solo_def Let_def) (simp add: upd_blk_def)
  show "the_sm h' b 0 = s" unfolding t by (simp add: regs)
  show "pin_levels h' b = merge (sm_wrote_this_cycle s) (sm_out_pin_val s) (pin_levels h1 b)"
     unfolding t using solo_resolve [OF s4] by (simp add: regs q)
  show "p_pin_dirs (get_pads h' (Embedded b)) = sm_out_pin_oe s AND sm_dir_driven s"
     unfolding t using solo_resolve [OF s4] by (simp add: regs q)
  show "pio_insn (st_blk h' b) = pio_insn (st_blk h1 b)" "pio_insn_used (st_blk h' b) = pio_insn_used (st_blk h1 b)"
    "pio_on_insn (st_blk h' b) = pio_on_insn (st_blk h1 b)" "st_trace h' = st_trace h1"
    unfolding t by (simp_all add: regs upd_blk_def)
qed

section \<open>Such a block implements the machine\<close>

lemma rel_sm: "solo_rel v b h m \<Longrightarrow> the_sm h b 0 = so_sm m"
  by (simp add: solo_rel_def)

lemma rel_upd: "solo_rel v b h m \<Longrightarrow> solo_rel v b (upd_sm b 0 f h) (solo_upd f m)"
  by (simp add: solo_rel_def solo_upd_def)

lemma rel_latch:
  assumes "solo_rel v b h m" shows "solo_rel v b (pio_pads_resolve (pads_ptr_of h b) h) (solo_latch m)"
proof -
  have s: "solo v b h" and q: "pads_ptr_of h b = Embedded b" using assms by (simp_all add: solo_rel_def solo_def)
  have "solo v b (pio_pads_resolve (pads_ptr_of h b) h)"
    by (rule solo_frame [OF s cycle_frame_exec [OF exec_frame_resolve]])
  then show ?thesis using assms solo_resolve(1) [OF s] by (simp add: solo_rel_def solo_latch_def q)
qed

lemma rel_count: "solo_rel v b h m \<Longrightarrow> solo_rel v b (call_on_insn b i insn h) (m\<lparr>so_count := Suc (so_count m)\<rparr>)"
  by (cases "pio_on_insn (st_blk h b)") (auto simp: solo_rel_def solo_def, auto simp: call_on_insn_def)

lemma rel_unwritten: "solo_rel v b h m \<Longrightarrow> solo_rel v b (upd_blk b (\<lambda>p. p\<lparr>pio_unwritten_fetches := g p\<rparr>) h) m"
  by (simp add: solo_rel_def solo_def get_pads_def the_sm_def upd_blk_def)

lemma rel_memory:
  "solo_rel v b h m \<Longrightarrow> solo_rel v b (upd_blk b (\<lambda>_. (st_blk h b)\<lparr>pio_insn := f, pio_insn_used := g\<rparr>) h) m"
  by (simp add: solo_rel_def solo_def get_pads_def the_sm_def upd_blk_def)

lemma rel_set_trace:
  assumes "solo_rel v b h m"
  shows "solo_rel v b (upd_blk b (pio_sim_set_trace hook ctx) h) (m\<lparr>so_count := length (st_trace h)\<rparr>)"
  using assms by (simp add: solo_rel_def solo_def get_pads_def the_sm_def upd_blk_def pio_sim_set_trace_def)

interpretation alone: block_machine v b "solo_rel v b" for v b
  by unfold_locales (fact rel_sm rel_upd rel_latch rel_count rel_unwritten rel_memory rel_set_trace | simp add: solo_rel_def solo_def)+

lemma rel_tick:
  assumes "solo_rel v b h m" "solo_tick v (pio_insn (st_blk h b)) m = Some m'"
  shows "solo_rel v b (pio_sim_tick v dev b h) m' \<and> pio_insn (st_blk (pio_sim_tick v dev b h) b) = pio_insn (st_blk h b) \<and>
    p_pin_dirs (get_pads (pio_sim_tick v dev b h) (Embedded b)) = sm_out_pin_oe (so_sm m') AND sm_dir_driven (so_sm m')"
proof -
  have solo: "solo v b h" using assms(1) by (simp add: solo_rel_def)
  let ?h0 = "open_write_window b h"
  let ?h1 = "tick_sm v b 0 ?h0"
  let ?w = "solo_upd (\<lambda>s. s\<lparr>sm_wrote_this_cycle := 0\<rparr>) m"
  let ?d = "solo_upd (\<lambda>s. fst (clk_divider_step s)) ?w"
  note win = solo_window [OF solo refl]
  have r0: "solo_rel v b ?h0 ?w" using assms(1) win by (simp add: solo_rel_def solo_upd_def)
  obtain m1 where m1: "solo_rel v b ?h1 m1" "m' = solo_latch m1"
    using alone.tick_sm0 [OF r0] assms(2) by (auto simp: win)
  note t = tick_of_solo [OF solo, where dev = dev]
  have keep: "pio_insn (st_blk ?h1 b) = pio_insn (st_blk h b)"
    using cycle_frame_fields(1) [OF cycle_frame_tick_sm [of b 0 ?h0 v], of b] win by simp
  show ?thesis
    using t m1 keep by (simp add: solo_rel_def solo_latch_def)
qed

section \<open>Runs\<close>

lemma solo_ticks_add:
  "solo_ticks v prog (n + k) m = Option.bind (solo_ticks v prog n m) (solo_ticks v prog k)"
  by (induction n arbitrary: m) (auto split: Option.bind_splits)

lemma solo_ticks_trans:
  "solo_ticks v prog n m = Some m1 \<Longrightarrow> solo_ticks v prog k m1 = Some m2 \<Longrightarrow> solo_ticks v prog (n + k) m = Some m2"
  by (simp add: solo_ticks_add)

lemma rel_pin:
  assumes "solo_rel v b h m" "p_pin_dirs (get_pads h (Embedded b)) = sm_out_pin_oe (so_sm m) AND sm_dir_driven (so_sm m)"
    and "solo_output (unat pin) m" "unat pin < PIO_SIM_NUM_PINS v"
  shows "pio_sim_get_pin v b h pin = bit (so_levels m) (unat pin)"
proof -
  have "plain_pad v (get_pads h (Embedded b)) (unat pin)" "pads_ptr_of h b = Embedded b"
    using assms(1,4) by (simp_all add: solo_rel_def solo_def Let_def)
  moreover have "unat pin < 64" using assms(4) num_pins_bounds(2) [of v] by simp
  ultimately show ?thesis
    using assms plain_output_level [of v "get_pads h (Embedded b)" "unat pin"]
    by (simp add: get_pin_level solo_rel_def solo_output_def bit_and_iff)
qed

lemma rel_ticks:
  fixes v b h m n dev m'
  assumes "solo_rel v b h m" "solo_ticks v (pio_insn (st_blk h b)) n m = Some m'"
  defines "h' \<equiv> (pio_sim_tick v dev b ^^ n) h"
  shows "solo_rel v b h' m' \<and> pio_insn (st_blk h' b) = pio_insn (st_blk h b) \<and>
    (0 < n \<longrightarrow> p_pin_dirs (get_pads h' (Embedded b)) = sm_out_pin_oe (so_sm m') AND sm_dir_driven (so_sm m'))"
  using assms(1,2) unfolding h'_def
proof (induction n arbitrary: h m)
  case (Suc n)
  let ?h = "pio_sim_tick v dev b h"
  obtain m1 where m1: "solo_tick v (pio_insn (st_blk h b)) m = Some m1" "solo_ticks v (pio_insn (st_blk h b)) n m1 = Some m'"
    using Suc.prems(2) by (auto split: Option.bind_splits)
  note t = rel_tick [OF Suc.prems(1) m1(1), where dev = dev]
  show ?case using Suc.IH [of ?h m1] t m1(2) by (cases n) (auto simp: funpow_swap1)
qed simp

text \<open>Ticks keep the trace hook, so that the length of the trace is the number of instructions.\<close>

lemma tick_hook: "solo v b h \<Longrightarrow> pio_on_insn (st_blk (pio_sim_tick v dev b h) b) = pio_on_insn (st_blk h b)"
  using tick_of_solo(7) [of v b h dev] solo_window(6) [of v b h]
    cycle_frame_fields(12) [OF cycle_frame_tick_sm [of b 0 "open_write_window b h" v], of b] by simp

lemma ticks_hook:
  assumes "solo_rel v b h m" "solo_ticks v (pio_insn (st_blk h b)) n m = Some m'"
  shows "pio_on_insn (st_blk ((pio_sim_tick v dev b ^^ n) h) b) = pio_on_insn (st_blk h b)"
  using assms
proof (induction n arbitrary: h m)
  case (Suc n)
  obtain m1 where m1: "solo_tick v (pio_insn (st_blk h b)) m = Some m1" "solo_ticks v (pio_insn (st_blk h b)) n m1 = Some m'"
    using Suc.prems(2) by (auto split: Option.bind_splits)
  show ?case
    using Suc.IH [of "pio_sim_tick v dev b h" m1] rel_tick [OF Suc.prems(1) m1(1), where dev = dev] m1(2)
      tick_hook [of v b h dev] Suc.prems(1)
    by (simp add: funpow_swap1 solo_rel_def)
qed simp

lemma ticks_trace:
  assumes "solo_rel v b h m" "solo_ticks v (pio_insn (st_blk h b)) n m = Some m'" "pio_on_insn (st_blk h b) \<noteq> None"
  shows "length (st_trace ((pio_sim_tick v dev b ^^ n) h)) = so_count m'"
  using rel_ticks [OF assms(1,2), where dev = dev] ticks_hook [OF assms(1,2), where dev = dev] assms(3)
  by (simp add: solo_rel_def)

section \<open>A new block, and the calls of the host\<close>

lemma rel_init: "solo_rel v b (pio_sim_init v b h) \<lparr>so_sm = sm_init_defaults sm_zero, so_levels = 0, so_count = n\<rparr>"
proof -
  have "1 \<le> PIO_SIM_NUM_PIO v" by (cases v) (simp_all add: PIO_SIM_NUM_PIO_def)
  then show ?thesis
    by (simp add: solo_rel_def solo_def Let_def init_pads init_sm)
       (simp add: pio_sim_init_def upd_blk_def blk_zero_def pio_pads_init_defaults_def pads_zero_def plain_pad_def
        sm_init_defaults_def sm_reset_exec_def sm_zero_def)
qed

text \<open>What symbolic execution of a tick unfolds.\<close>

lemmas solo_eval = solo_tick_def solo_cycle_def solo_exec_def solo_op_def solo_upd_def solo_latch_def
  solo_drive_def solo_pin_def drive_pin_bit_def bit64_def solo_sideset_def decode_delay_sideset_def sideset_total_def
  autopull_refill_def commit_fetched_def clk_divider_step_def div_units_def mask_n_def clamp_pin_count_def Let_def

lemma merge_bit0 [simp]:
  "merge 1 1 (of_bool a) = 1" "merge 1 0 (of_bool a) = 0" "merge 1 1 1 = 1" "merge 1 1 0 = 1" "merge 1 0 1 = 0" "merge 1 0 0 = 0"
  by (auto simp: merge_def)

section \<open>The refinement\<close>

text \<open>
  C14: A block with a single driver implements the abstract machine.  As long as the abstract machine has a step (it has
  one for every instruction but those that read pins, flags or the status), the block does the same tick by tick: state
  machine 0 has its registers, every pin that the machine drives reads at the level it latched last, and a trace hook has
  been called once for each instruction it committed.
\<close>

theorem solo_refinement:
  fixes v b h m n m' dev
  assumes "solo_rel v b h m" "solo_ticks v (pio_insn (st_blk h b)) n m = Some m'"
  defines "h' \<equiv> (pio_sim_tick v dev b ^^ n) h"
  shows "solo v b h' \<and> the_sm h' b 0 = so_sm m' \<and>
    (\<forall>pin. 0 < n \<and> solo_output (unat pin) m' \<and> unat pin < PIO_SIM_NUM_PINS v \<longrightarrow>
       pio_sim_get_pin v b h' pin = bit (so_levels m') (unat pin)) \<and>
    (pio_on_insn (st_blk h b) \<noteq> None \<longrightarrow> length (st_trace h') = so_count m')"
  using rel_ticks [OF assms(1,2), where dev = dev] rel_pin [of v b h' m']
    ticks_trace [OF assms(1,2), where dev = dev]
  by (auto simp: h'_def solo_rel_def)

theorem solo_refinement_witness:
  "let h = pio_sim_sm_set_enabled 0 0 True (upd_blk 0 (pio_sim_load 0 [0xE025]) (pio_sim_init RP2040 0 store_zero))
   in sm_x (the_sm ((pio_sim_tick RP2040 (\<lambda>_ _ _ h. h) 0 ^^ 1) h) 0 0) = 5"
proof -
  let ?h = "pio_sim_sm_set_enabled 0 0 True (upd_blk 0 (pio_sim_load 0 [0xE025]) (pio_sim_init RP2040 0 store_zero))"
  let ?m = "solo_latch (solo_upd (\<lambda>s. s\<lparr>sm_enabled := True\<rparr>) \<lparr>so_sm = sm_init_defaults sm_zero, so_levels = 0, so_count = 0\<rparr>)"
  have r: "solo_rel RP2040 0 ?h ?m" by (rule alone.rel_enable [OF alone.rel_load [OF rel_init]])
  have i: "pio_insn (st_blk ?h 0) 0 = 0xE025"
    by (simp add: pio_sim_sm_set_enabled_def Let_def) (simp add: upd_blk_def pio_sim_load_def)
  have "\<exists>m'. solo_tick RP2040 (pio_insn (st_blk ?h 0)) ?m = Some m' \<and> sm_x (so_sm m') = 5"
    using i by (simp add: sm_init_defaults_def sm_reset_exec_def sm_zero_def solo_eval solo_set_def del: map_option_eq_Some)
  then obtain m' where "solo_ticks RP2040 (pio_insn (st_blk ?h 0)) 1 ?m = Some m'" "sm_x (so_sm m') = 5" by auto
  with solo_refinement [OF r this(1), where dev = "\<lambda>_ _ _ h. h"] show ?thesis unfolding Let_def by simp
qed

end
