(* ===== verification/Ex_Setup.thy ===== *)
theory Ex_Setup
  imports Pio_Solo Asm_Load
begin

text \<open>
  What the host programs of \<open>examples/\<close> have in common.  They assemble a program, reset a block, configure and
  load its first state machine, start it and sample a pin at every tick.  A \<open>main\<close> is a function
  from the memory it finds to its exit code, \<open>None\<close> for undefined behaviour; what it prints is left out.
\<close>

section \<open>The common first half\<close>

text \<open>
  \<open>pio_sim_sm_init\<close> of state machine 0 of block \<open>b\<close> with the configuration \<open>c\<close>, and the program loaded at address 0:
  whether it could be loaded, and the store; \<open>None\<close> is undefined behaviour.
\<close>

definition load_block ::
  "pio_version \<Rightarrow> nat \<Rightarrow> pio_sm_config \<Rightarrow> pio_program_t \<Rightarrow> pio_store \<Rightarrow> (bool \<times> pio_store) option" where
  "load_block v b c prog h =
     (let h = upd_blk b (pio_sim_sm_init v 0 0 c) h
      in map_option (\<lambda>(ok, p). (ok, upd_blk b (\<lambda>_. p) h)) (pio_asm_load_program 0 0 prog (st_blk h b)))"

text \<open>Assemble \<open>src\<close> or exit with 1; reset block \<open>b\<close> and load the program or exit with 1; go on with \<open>rest\<close>.\<close>

definition with_program ::
  "c_strtod \<Rightarrow> pio_version \<Rightarrow> nat \<Rightarrow> string \<Rightarrow> pio_sm_config \<Rightarrow> (pio_program_t \<Rightarrow> pio_store \<Rightarrow> int option) \<Rightarrow>
   pio_store \<Rightarrow> int option" where
  "with_program strtod v b src c rest h =
     (let (ok, prog) = pio_asm_assemble strtod v src None
      in if \<not> ok then Some 1
         else (case load_block v b c prog (pio_sim_init v b h) of
                 None \<Rightarrow> None
               | Some (ok, h) \<Rightarrow> if \<not> ok then Some 1 else rest prog h))"

text \<open>The loop that ticks and samples a pin, with the samples in order.\<close>

primrec sample_pin ::
  "pio_version \<Rightarrow> device \<Rightarrow> nat \<Rightarrow> u8 \<Rightarrow> nat \<Rightarrow> pio_store \<Rightarrow> u8 list \<times> pio_store" where
  "sample_pin v dev b pin 0 h = ([], h)"
| "sample_pin v dev b pin (Suc n) h =
     (let h = pio_sim_tick v dev b h; w = (if pio_sim_get_pin v b h pin then 1 else 0);
          (ws, h) = sample_pin v dev b pin n h
      in (w # ws, h))"

text \<open>Lines of a source text.\<close>

definition lines :: "string list \<Rightarrow> string" where
  "lines ls = concat (map (\<lambda>l. l @ [CHR 0x0A]) ls)"

section \<open>The abstract machine that the first half leaves\<close>

text \<open>State machine 0 after the reset, its configuration and the load.\<close>

definition loaded_sm :: "pio_version \<Rightarrow> pio_sm_config \<Rightarrow> pio_program_t \<Rightarrow> pio_sm_t" where
  "loaded_sm v c prog = (sm_init v 0 c (sm_init_defaults sm_zero))
     \<lparr>sm_wrap_bottom := pg_wrap_bottom prog, sm_wrap_top := pg_wrap_top prog,
      sm_sideset_total_bits := pg_sideset_bits prog, sm_sideset_opt := pg_sideset_opt prog,
      sm_sideset_pindirs := pg_sideset_pindirs prog, sm_pc := 0\<rparr>"

context block_machine
begin

lemma rel_apply_config:
  "rel h m \<Longrightarrow>
    rel (upd_blk b (pio_asm_apply_program_config v 0 prog) h)
      (solo_upd (\<lambda>s. sm_set_config v (overlay_config v prog (live_config s)) s) m)"
proof -
  have "pio_asm_apply_program_config v 0 prog =
      blk_upd_sm 0 (\<lambda>s. sm_set_config v (overlay_config v prog (live_config s)) s)"
    by (simp add: fun_eq_iff pio_asm_apply_program_config_def pio_sim_sm_set_config_def blk_upd_sm_def)
  then show "rel h m \<Longrightarrow> ?thesis" by (simp add: upd_blk_state upd)
qed

end

lemma relocate_insn_0 [simp]: "relocate_insn 0 w = w"
  by (simp add: relocate_insn_def)

text \<open>A program from the assembler always loads at address 0.\<close>

lemma load_at_0:
  assumes "pio_asm_assemble strtod v src None = (True, prog)"
  defines "ws \<equiv> map (pg_insns prog) [0..<unat (pg_count prog)]"
  shows "length ws \<le> 32"
    "pio_asm_load_program 0 0 prog q = Some (True, blk_upd_sm 0 (\<lambda>s. s\<lparr>sm_wrap_bottom := pg_wrap_bottom prog,
       sm_wrap_top := pg_wrap_top prog, sm_sideset_total_bits := pg_sideset_bits prog, sm_sideset_opt := pg_sideset_opt prog,
       sm_sideset_pindirs := pg_sideset_pindirs prog, sm_pc := 0\<rparr>) (pio_sim_load 0 ws q))"
    "i < unat (pg_count prog) \<Longrightarrow> pio_insn (pio_sim_load 0 ws q) i = pg_insns prog i"
proof -
  have p: "pg_ok prog" "pg_count prog \<le> 32" "pg_wrap_bottom prog < pg_count prog" "pg_wrap_top prog < pg_count prog"
    using assemble_sound [OF assms(1)] by (auto simp: program_wf_def window_wf_def)
  show n: "length ws \<le> 32" using p(2) by (simp add: ws_def word_le_nat_alt)
  show "pio_asm_load_program 0 0 prog q = Some (True, blk_upd_sm 0 (\<lambda>s. s\<lparr>sm_wrap_bottom := pg_wrap_bottom prog,
       sm_wrap_top := pg_wrap_top prog, sm_sideset_total_bits := pg_sideset_bits prog, sm_sideset_opt := pg_sideset_opt prog,
       sm_sideset_pindirs := pg_sideset_pindirs prog, sm_pc := 0\<rparr>) (pio_sim_load 0 ws q))"
    using p n by (simp add: ws_def pio_asm_load_program_def relocate_def linorder_not_le linorder_not_less)
  show "i < unat (pg_count prog) \<Longrightarrow> pio_insn (pio_sim_load 0 ws q) i = pg_insns prog i"
    using load_from_memory [of 0 ws q] n by (simp add: ws_def pio_sim_load_def)
qed

context block_machine
begin

text \<open>Loading a reset state machine gives the loaded machine, with the words of the program in the memory.\<close>

lemma rel_load_block:
  assumes "rel h \<lparr>so_sm = sm_init_defaults sm_zero, so_levels = 0, so_count = n\<rparr>" "pio_asm_assemble strtod v src None = (True, prog)"
  obtains h' where "load_block v b c prog h = Some (True, h')" "rel h' \<lparr>so_sm = loaded_sm v c prog, so_levels = 0, so_count = n\<rparr>"
    "\<And>i. i < unat (pg_count prog) \<Longrightarrow> pio_insn (st_blk h' b) i = pg_insns prog i"
proof -
  let ?ws = "map (pg_insns prog) [0..<unat (pg_count prog)]"
  let ?f = "\<lambda>s. s\<lparr>sm_wrap_bottom := pg_wrap_bottom prog, sm_wrap_top := pg_wrap_top prog,
      sm_sideset_total_bits := pg_sideset_bits prog, sm_sideset_opt := pg_sideset_opt prog,
      sm_sideset_pindirs := pg_sideset_pindirs prog, sm_pc := 0\<rparr>"
  note load = load_at_0 [OF assms(2)]
  define h1 where "h1 = upd_blk b (pio_sim_sm_init v 0 0 c) h"
  define h2 where "h2 = upd_blk b (pio_sim_load 0 ?ws) h1"
  note r1 = rel_sm_init [OF assms(1), of 0 c, folded h1_def]
  show thesis
  proof (rule that)
    have "upd_blk b (\<lambda>_. blk_upd_sm 0 ?f (pio_sim_load 0 ?ws (st_blk h1 b))) h1 = upd_sm b 0 ?f h2"
      by (simp add: h2_def upd_sm_def upd_blk_def)
    then show "load_block v b c prog h = Some (True, upd_sm b 0 ?f h2)"
      by (simp add: load_block_def Let_def load(2) h1_def [symmetric])
    show "rel (upd_sm b 0 ?f h2) \<lparr>so_sm = loaded_sm v c prog, so_levels = 0, so_count = n\<rparr>"
      using upd [OF rel_load [OF r1], of ?f] by (simp add: h2_def solo_upd_def loaded_sm_def)
    show "pio_insn (st_blk (upd_sm b 0 ?f h2) b) i = pg_insns prog i" if "i < unat (pg_count prog)" for i
      using load(3) [OF that, of "st_blk h1 b"] by (simp add: h2_def upd_blk_def)
  qed
qed

end

text \<open>The first half ends in the loaded machine, with the words of the program in the memory.\<close>

lemma with_program_starts:
  assumes "pio_asm_assemble strtod v src None = (True, prog)"
  obtains h' where "with_program strtod v b src c rest h = rest prog h'"
    "solo_rel v b h' \<lparr>so_sm = loaded_sm v c prog, so_levels = 0, so_count = 0\<rparr>"
    "\<And>i. i < unat (pg_count prog) \<Longrightarrow> pio_insn (st_blk h' b) i = pg_insns prog i"
proof -
  obtain h' where h': "load_block v b c prog (pio_sim_init v b h) = Some (True, h')"
    "solo_rel v b h' \<lparr>so_sm = loaded_sm v c prog, so_levels = 0, so_count = 0\<rparr>"
    "\<And>i. i < unat (pg_count prog) \<Longrightarrow> pio_insn (st_blk h' b) i = pg_insns prog i"
    by (rule alone.rel_load_block [OF rel_init assms]) blast
  show thesis by (rule that [OF _ h'(2,3)]) (simp_all add: with_program_def assms h'(1))
qed

section \<open>Sampling\<close>

lemma sample_pin_eq:
  "sample_pin v dev b pin n h =
     (map (\<lambda>i. if pio_sim_get_pin v b ((pio_sim_tick v dev b ^^ Suc i) h) pin then 1 else 0) [0..<n],
      (pio_sim_tick v dev b ^^ n) h)"
proof (induction n arbitrary: h)
  case (Suc n)
  then show ?case by (simp add: Let_def upt_conv_Cons map_Suc_upt [symmetric] funpow_swap1 o_def del: upt_Suc)
qed simp

lemma sample_pin_nth:
  "i < n \<Longrightarrow> fst (sample_pin v dev b pin n h) ! i = (if pio_sim_get_pin v b ((pio_sim_tick v dev b ^^ (i + 1)) h) pin then 1 else 0)"
  by (simp add: sample_pin_eq)

text \<open>What a pin reads after a number of ticks of the abstract machine.\<close>

lemma ticks_pin:
  assumes "solo_rel v b h m" "solo_ticks v (pio_insn (st_blk h b)) n m = Some m'" "0 < n"
    and "solo_output (unat pin) m'" "unat pin < PIO_SIM_NUM_PINS v"
  shows "pio_sim_get_pin v b ((pio_sim_tick v dev b ^^ n) h) pin = bit (so_levels m') (unat pin)"
proof (rule rel_pin [OF _ _ assms(4,5)])
  show "solo_rel v b ((pio_sim_tick v dev b ^^ n) h) m'"
    "p_pin_dirs (get_pads ((pio_sim_tick v dev b ^^ n) h) (Embedded b)) = sm_out_pin_oe (so_sm m') AND sm_dir_driven (so_sm m')"
    using rel_ticks [OF assms(1,2), where dev = dev] assms(3) by simp_all
qed

section \<open>Waveforms\<close>

text \<open>A run of the abstract machine from \<open>m\<close> to \<open>m'\<close> with the levels of an output pin after each tick.\<close>

primrec wave :: "pio_version \<Rightarrow> (nat \<Rightarrow> u16) \<Rightarrow> nat \<Rightarrow> bool list \<Rightarrow> solo_t \<Rightarrow> solo_t \<Rightarrow> bool" where
  "wave v mem pin [] m m' \<longleftrightarrow> m' = m"
| "wave v mem pin (l # ls) m m' \<longleftrightarrow>
     (\<exists>m1. solo_tick v mem m = Some m1 \<and> solo_output pin m1 \<and> bit (so_levels m1) pin = l \<and> wave v mem pin ls m1 m')"

lemma wave_append: "wave v mem pin (ls @ ks) m m' \<longleftrightarrow> (\<exists>m1. wave v mem pin ls m m1 \<and> wave v mem pin ks m1 m')"
  by (induction ls arbitrary: m) auto

lemma wave_ticks: "wave v mem pin ls m m' \<Longrightarrow> solo_ticks v mem (length ls) m = Some m'"
  by (induction ls arbitrary: m) auto

lemma wave_nth:
  "wave v mem pin ls m m' \<Longrightarrow> i < length ls \<Longrightarrow>
    \<exists>m1. solo_ticks v mem (i + 1) m = Some m1 \<and> solo_output pin m1 \<and> bit (so_levels m1) pin = ls ! i"
proof (induction ls arbitrary: m i)
  case (Cons l ls)
  then obtain m1 where m1: "solo_tick v mem m = Some m1" "solo_output pin m1" "bit (so_levels m1) pin = l" "wave v mem pin ls m1 m'"
    by auto
  then show ?case using Cons by (cases i) auto
qed simp

text \<open>The host samples exactly the levels of the waveform.\<close>

lemma wave_samples:
  assumes "solo_rel v b h m" "wave v (pio_insn (st_blk h b)) (unat pin) ls m m'" "unat pin < PIO_SIM_NUM_PINS v"
  shows "fst (sample_pin v dev b pin (length ls) h) = map of_bool ls"
proof (rule nth_equalityI)
  fix i assume "i < length (fst (sample_pin v dev b pin (length ls) h))"
  then have i: "i < length ls" by (simp add: sample_pin_eq)
  obtain m1 where m1: "solo_ticks v (pio_insn (st_blk h b)) (i + 1) m = Some m1" "solo_output (unat pin) m1"
    "bit (so_levels m1) (unat pin) = ls ! i"
    using wave_nth [OF assms(2) i] by blast
  have "pio_sim_get_pin v b ((pio_sim_tick v dev b ^^ (i + 1)) h) pin = ls ! i"
    using ticks_pin [OF assms(1) m1(1) _ m1(2) assms(3), where dev = dev] m1(3) by simp
  then show "fst (sample_pin v dev b pin (length ls) h) ! i = map of_bool ls ! i"
    using i by (simp only: sample_pin_nth) simp
qed (simp add: sample_pin_eq)

text \<open>A run of some ticks during which the pin has one level.\<close>

definition steady :: "pio_version \<Rightarrow> (nat \<Rightarrow> u16) \<Rightarrow> nat \<Rightarrow> bool \<Rightarrow> nat \<Rightarrow> solo_t \<Rightarrow> solo_t \<Rightarrow> bool" where
  "steady v mem pin l n = wave v mem pin (replicate n l)"

lemma steady_tick:
  "solo_tick v mem m = Some m' \<Longrightarrow> solo_output pin m' \<Longrightarrow> bit (so_levels m') pin = l \<Longrightarrow> steady v mem pin l 1 m m'"
  by (simp add: steady_def)

lemma steady_0: "steady v mem pin l 0 m m"
  by (simp add: steady_def)

lemma steady_trans: "steady v mem pin l n m m1 \<Longrightarrow> steady v mem pin l k m1 m2 \<Longrightarrow> steady v mem pin l (n + k) m m2"
  by (auto simp: steady_def replicate_add wave_append)

lemma steady_ticks: "steady v mem pin l n m m' \<Longrightarrow> solo_ticks v mem n m = Some m'"
  using wave_ticks [of v mem pin "replicate n l" m m'] by (simp add: steady_def)

text \<open>What the pin of the block reads during such a run, some ticks after the start.\<close>

lemma steady_pin:
  assumes "solo_rel v b h m" "solo_ticks v (pio_insn (st_blk h b)) k m = Some m1"
    and "steady v (pio_insn (st_blk h b)) (unat pin) l n m1 m2" "i < n" "unat pin < PIO_SIM_NUM_PINS v"
  shows "pio_sim_get_pin v b ((pio_sim_tick v dev b ^^ (k + (i + 1))) h) pin = l"
proof -
  obtain m3 where m3: "solo_ticks v (pio_insn (st_blk h b)) (i + 1) m1 = Some m3" "solo_output (unat pin) m3"
    "bit (so_levels m3) (unat pin) = l"
    using wave_nth [OF assms(3) [unfolded steady_def], of i] assms(4) by auto
  show ?thesis
    using ticks_pin [OF assms(1) solo_ticks_trans [OF assms(2) m3(1)] _ m3(2) assms(5), where dev = dev] m3(3) by simp
qed

section \<open>Evaluation of the abstract machine\<close>

text \<open>The definitions that symbolic execution unfolds, for the set-up and for a tick.\<close>

definition fresh_fifo :: pio_fifo_t where
  "fresh_fifo = \<lparr>f_buf = (\<lambda>_. 0), f_head = 0, f_tail = 0, f_count = 0, f_cap = 4\<rparr>"

lemma loaded_sm_eq:
  assumes "c_fifo_join c = 0"
  shows "loaded_sm v c p =
    \<lparr>sm_enabled = False, sm_pc = 0, sm_wrap_bottom = pg_wrap_bottom p, sm_wrap_top = pg_wrap_top p,
     sm_x = 0, sm_y = 0, sm_osr = 0, sm_isr = 0, sm_osr_count = 32, sm_isr_count = 0,
     sm_out_dir = c_out_dir c, sm_in_dir = c_in_dir c, sm_autopull = c_autopull c, sm_autopush = c_autopush c,
     sm_pull_thresh = c_pull_thresh c, sm_push_thresh = c_push_thresh c,
     sm_out_base = c_out_base c, sm_out_count = c_out_count c, sm_set_base = c_set_base c, sm_set_count = c_set_count c,
     sm_in_base = c_in_base c, sm_in_count = c_in_count c, sm_sideset_base = c_sideset_base c, sm_jmp_pin = c_jmp_pin c,
     sm_sideset_total_bits = pg_sideset_bits p, sm_sideset_opt = pg_sideset_opt p, sm_sideset_pindirs = pg_sideset_pindirs p,
     sm_out_pin_val = 0, sm_out_pin_oe = 0, sm_wrote_this_cycle = 0, sm_dir_driven = 0,
     sm_out_sticky = c_out_sticky c, sm_out_inline_en = c_out_inline_en c, sm_out_en_sel = c_out_en_sel c,
     sm_status_sel = c_status_sel c, sm_status_n = c_status_n c, sm_status_override = False, sm_status_value = 0,
     sm_clkdiv_int = c_clkdiv_int c, sm_clkdiv_frac = c_clkdiv_frac c, sm_clk_accum = 0, sm_delay = 0, sm_stalled = False,
     sm_exec_pending = False, sm_exec_insn = 0, sm_fdebug = 0, sm_tx = fresh_fifo, sm_rx = fresh_fifo, sm_fifo_join = 0\<rparr>"
  using assms
  by (simp add: loaded_sm_def sm_init_def sm_set_config_def sm_init_defaults_def sm_reset_exec_def sm_zero_def
      apply_fifo_join_def fifo_join_switch_def fifo_zero_def fifo_clear_def fresh_fifo_def Let_def)

lemmas config_eval = pio_get_default_sm_config_def config_zero_def clamp_pin_count_def clamp_thresh_def

lemma refill_id: "(sm_autopull s \<and> sm_pull_thresh s \<le> sm_osr_count s \<longrightarrow> f_count (sm_tx s) = 0) \<Longrightarrow> autopull_refill s = s"
  by (auto simp: autopull_refill_def osr_refill_def fifo_pop_def)

lemma top_bit: "drop_bit 31 (w :: u32) AND 1 = of_bool (bit w 31)"
proof (rule bit_word_eqI)
  show "bit (drop_bit 31 w AND 1) n = bit (of_bool (bit w 31) :: u32) n" for n
    by (cases n) (simp_all add: bit_and_iff bit_drop_bit_eq bit_1_iff)
qed

end
