(* ===== verification/Ex_Blink.thy ===== *)
theory Ex_Blink
  imports Ex_Setup
begin

text \<open>
  The host program \<open>examples/01_blink.c\<close>: two \<open>set\<close> instructions, each with a delay of one cycle, make
  a square wave of period 4 on a pin.
\<close>

section \<open>The program\<close>

definition BLINK_SRC :: string where
  "BLINK_SRC = lines [''.program blink'', ''.wrap_target'', ''    set pins, 1 [1]'', ''    set pins, 0 [1]'', ''.wrap'']"

abbreviation (input) BLINK_PIN :: u8 where "BLINK_PIN \<equiv> 0"

text \<open>The part of \<open>main\<close> after the load: 8 samples against the expected waveform.\<close>

definition blink_run :: "pio_version \<Rightarrow> device \<Rightarrow> nat \<Rightarrow> pio_program_t \<Rightarrow> pio_store \<Rightarrow> int option" where
  "blink_run v dev b prog h =
     (let h = pio_sim_sm_set_consecutive_pindirs v b 0 BLINK_PIN 1 True h;
          h = pio_sim_sm_set_enabled b 0 True h;
          (level, h) = sample_pin v dev b BLINK_PIN 8 h
      in if level \<noteq> [1, 1, 0, 0, 1, 1, 0, 0] then Some 1 else Some 0)"

definition blink_main :: "c_strtod \<Rightarrow> pio_version \<Rightarrow> device \<Rightarrow> nat \<Rightarrow> pio_store \<Rightarrow> int option" where
  "blink_main strtod v dev b =
     with_program strtod v b BLINK_SRC (sm_config_set_set_pins BLINK_PIN 1 pio_get_default_sm_config) (blink_run v dev b)"

section \<open>The assembled program\<close>

lemma blink_assembles:
  "\<exists>prog. pio_asm_assemble strtod v BLINK_SRC None = (True, prog) \<and> pg_count prog = 2 \<and>
     pg_insns prog 0 = 0xE101 \<and> pg_insns prog 1 = 0xE100 \<and> pg_wrap_bottom prog = 0 \<and> pg_wrap_top prog = 1 \<and>
     pg_sideset_bits prog = 0 \<and> \<not> pg_sideset_opt prog \<and> \<not> pg_sideset_pindirs prog"
proof -
  have "(case pio_asm_assemble strtod v BLINK_SRC None of (ok, p) \<Rightarrow>
      (ok, pg_count p, pg_insns p 0, pg_insns p 1, pg_wrap_bottom p, pg_wrap_top p, pg_sideset_bits p,
       pg_sideset_opt p, pg_sideset_pindirs p)) = (True, 2, 0xE101, 0xE100, 0, 1, 0, False, False)"
    by (cases v) code_simp+
  then show ?thesis by (auto split: prod.splits)
qed

section \<open>Its run\<close>

text \<open>State machine 0 as \<open>main\<close> starts it, and the machine in the four phases of the period.\<close>

definition blink_sm :: "pio_version \<Rightarrow> pio_program_t \<Rightarrow> pio_sm_t" where
  "blink_sm v prog = (loaded_sm v (sm_config_set_set_pins BLINK_PIN 1 pio_get_default_sm_config) prog)
     \<lparr>sm_out_pin_oe := 1, sm_dir_driven := 1, sm_enabled := True\<rparr>"

definition blink_at :: "pio_sm_t \<Rightarrow> nat \<Rightarrow> nat \<Rightarrow> solo_t" where
  "blink_at s k c =
     \<lparr>so_sm = s\<lparr>sm_pc := [0, 1, 1, 0] ! k, sm_delay := [0, 1, 0, 1] ! k, sm_out_pin_val := [0, 1, 1, 0] ! k,
        sm_wrote_this_cycle := [0, 1, 0, 1] ! k\<rparr>,
      so_levels = [0, 1, 1, 0] ! k, so_count = c\<rparr>"

text \<open>A memory that holds the words of the example, and a program with its wrap window.\<close>

definition blink_code :: "(nat \<Rightarrow> u16) \<Rightarrow> pio_program_t \<Rightarrow> bool" where
  "blink_code mem p \<longleftrightarrow> mem 0 = 0xE101 \<and> mem 1 = 0xE100 \<and> pg_wrap_bottom p = 0 \<and> pg_wrap_top p = 1 \<and>
     pg_sideset_bits p = 0 \<and> \<not> pg_sideset_opt p \<and> \<not> pg_sideset_pindirs p"

lemma blink_phases:
  assumes "blink_code mem p"
  shows "solo_tick v mem (blink_at (blink_sm v p) 0 c) = Some (blink_at (blink_sm v p) 1 (Suc c))"
    "solo_tick v mem (blink_at (blink_sm v p) 1 c) = Some (blink_at (blink_sm v p) 2 c)"
    "solo_tick v mem (blink_at (blink_sm v p) 2 c) = Some (blink_at (blink_sm v p) 3 (Suc c))"
    "solo_tick v mem (blink_at (blink_sm v p) 3 c) = Some (blink_at (blink_sm v p) 0 c)"
  using assms unfolding blink_code_def
  by (simp_all add: blink_at_def blink_sm_def loaded_sm_eq sm_config_set_set_pins_def config_eval solo_eval solo_set_def
      del: map_option_eq_Some)

lemma blink_step:
  assumes "blink_code mem p"
  shows "solo_tick v mem (blink_at (blink_sm v p) (k mod 4) c) =
    Some (blink_at (blink_sm v p) (Suc k mod 4) (if even k then Suc c else c))"
proof -
  have "k mod 4 < 4" by simp
  then have "k mod 4 = 0 \<or> k mod 4 = 1 \<or> k mod 4 = 2 \<or> k mod 4 = 3" by arith
  moreover have "even k \<longleftrightarrow> even (k mod 4)" by presburger
  ultimately show ?thesis
    using blink_phases [OF assms, of v c] by (elim disjE) (simp_all add: mod_Suc numeral_2_eq_2 [symmetric])
qed

lemma blink_ticks:
  assumes "blink_code mem p"
  shows "solo_ticks v mem n (blink_at (blink_sm v p) 0 c) = Some (blink_at (blink_sm v p) (n mod 4) (c + (n + 1) div 2))"
proof (induction n)
  case (Suc n)
  have "solo_ticks v mem (n + 1) (blink_at (blink_sm v p) 0 c) = Some (blink_at (blink_sm v p) (Suc n mod 4) (c + (Suc n + 1) div 2))"
    unfolding solo_ticks_add Suc using blink_step [OF assms, of v n "c + (n + 1) div 2"] by (cases "even n") auto
  then show ?case by simp
qed simp

section \<open>The waveform\<close>

text \<open>The store \<open>main\<close> ticks.\<close>

lemma blink_starts:
  assumes "solo_rel v b h \<lparr>so_sm = loaded_sm v (sm_config_set_set_pins BLINK_PIN 1 pio_get_default_sm_config) p,
    so_levels = 0, so_count = 0\<rparr>"
  shows "solo_rel v b (pio_sim_sm_set_enabled b 0 True (pio_sim_sm_set_consecutive_pindirs v b 0 BLINK_PIN 1 True h))
    (blink_at (blink_sm v p) 0 0)"
proof -
  have "blink_at (blink_sm v p) 0 0 = solo_latch (solo_upd (\<lambda>s. s\<lparr>sm_enabled := True\<rparr>) (solo_latch (solo_upd
      (fold (\<lambda>k. set_pindir_bit (solo_pin BLINK_PIN k) True) [0..<unat (clamp_pin_count 1)])
      \<lparr>so_sm = loaded_sm v (sm_config_set_set_pins BLINK_PIN 1 pio_get_default_sm_config) p, so_levels = 0, so_count = 0\<rparr>)))"
    by (simp add: blink_at_def blink_sm_def loaded_sm_eq sm_config_set_set_pins_def config_eval
        solo_latch_def solo_upd_def set_pindir_bit_def solo_pin_def bit64_def)
  then show ?thesis using alone.rel_enable [OF alone.rel_pindirs [OF assms]] by metis
qed

lemma blink_pin:
  assumes "solo_rel v b h (blink_at (blink_sm v p) 0 0)" "blink_code (pio_insn (st_blk h b)) p"
  shows "pio_sim_get_pin v b ((pio_sim_tick v dev b ^^ Suc n) h) BLINK_PIN \<longleftrightarrow> n mod 4 < 2"
proof -
  let ?m = "blink_at (blink_sm v p) (Suc n mod 4) ((Suc n + 1) div 2)"
  have "solo_output (unat BLINK_PIN) ?m" by (simp add: solo_output_def blink_at_def blink_sm_def)
  moreover have "unat BLINK_PIN < PIO_SIM_NUM_PINS v" by (cases v) (simp_all add: PIO_SIM_NUM_PINS_def)
  ultimately have "pio_sim_get_pin v b ((pio_sim_tick v dev b ^^ Suc n) h) BLINK_PIN = bit (so_levels ?m) (unat BLINK_PIN)"
    using blink_ticks [OF assms(2), of v "Suc n" 0] by (intro ticks_pin [OF assms(1)]) simp_all
  moreover have "n mod 4 = 0 \<or> n mod 4 = 1 \<or> n mod 4 = 2 \<or> n mod 4 = 3" by presburger
  ultimately show ?thesis by (elim disjE) (simp_all add: blink_at_def mod_Suc)
qed

text \<open>
  C19: The blink example.  Its source assembles, the program loads, and the pin shows the square wave
  1, 1, 0, 0 for ever, not only for the 8 ticks the example looks at; \<open>main\<close> exits with 0 on both
  chips, whatever memory it finds.
\<close>

theorem blink_main_succeeds: "blink_main strtod v dev b h = Some 0"
proof -
  obtain p where p: "pio_asm_assemble strtod v BLINK_SRC None = (True, p)" "pg_count p = 2"
    "pg_insns p 0 = 0xE101" "pg_insns p 1 = 0xE100" "pg_wrap_bottom p = 0" "pg_wrap_top p = 1"
    "pg_sideset_bits p = 0" "\<not> pg_sideset_opt p" "\<not> pg_sideset_pindirs p"
    using blink_assembles by blast
  obtain h1 where h1: "blink_main strtod v dev b h = blink_run v dev b p h1"
    "solo_rel v b h1 \<lparr>so_sm = loaded_sm v (sm_config_set_set_pins BLINK_PIN 1 pio_get_default_sm_config) p,
       so_levels = 0, so_count = 0\<rparr>"
    "\<And>i. i < unat (pg_count p) \<Longrightarrow> pio_insn (st_blk h1 b) i = pg_insns p i"
    unfolding blink_main_def
    by (rule with_program_starts [OF p(1), where b = b and rest = "blink_run v dev b" and h = h]) blast
  let ?h = "pio_sim_sm_set_enabled b 0 True (pio_sim_sm_set_consecutive_pindirs v b 0 BLINK_PIN 1 True h1)"
  have "pio_insn (st_blk ?h b) = pio_insn (st_blk h1 b)"
    by (simp add: pio_sim_sm_set_enabled_def pio_sim_sm_set_consecutive_pindirs_def Let_def)
  then have "blink_code (pio_insn (st_blk ?h b)) p" using h1(3) p by (simp add: blink_code_def)
  note pin = blink_pin [OF blink_starts [OF h1(2)] this, where dev = dev]
  have "fst (sample_pin v dev b BLINK_PIN 8 ?h) = [1, 1, 0, 0, 1, 1, 0, 0]"
    unfolding sample_pin_eq fst_conv pin by code_simp
  then show ?thesis by (simp add: h1(1) blink_run_def Let_def split_beta)
qed

end
