(* ===== verification/Ex_Echo.thy ===== *)
theory Ex_Echo
  imports Ex_Setup
begin

text \<open>
  The host program \<open>examples/02_fifo_echo.c\<close>: words written to the TX FIFO come back on the RX FIFO,
  through \<open>pull\<close>, \<open>mov isr, osr\<close> and \<open>push\<close>, with no pin involved.
\<close>

section \<open>The program\<close>

definition ECHO_SRC :: string where
  "ECHO_SRC = lines [''.program echo'', ''.wrap_target'', ''    pull            '', ''    mov isr, osr    '',
     ''    push            '', ''.wrap'']"

definition ECHO_WORDS :: "u32 list" where
  "ECHO_WORDS = [0xDEADBEEF, 0x00C0FFEE, 0x12345678]"

text \<open>The loop of \<open>main\<close> over the words: put, run until there is a result, get and compare.\<close>

primrec echo_words :: "pio_version \<Rightarrow> device \<Rightarrow> nat \<Rightarrow> u32 list \<Rightarrow> pio_store \<Rightarrow> int option" where
  "echo_words v dev b [] h = Some 0"
| "echo_words v dev b (w # ws) h =
     (let ok = snd (pio_sim_sm_put 0 w (st_blk h b));
          h = upd_blk b (\<lambda>p. fst (pio_sim_sm_put 0 w p)) h
      in if \<not> ok then Some 1
         else let h = fst (pio_sim_run_until_rx v dev b 0 1000 h)
           in if pio_sim_sm_is_rx_fifo_empty (st_blk h b) 0 then Some 1
              else let got = snd (pio_sim_sm_get 0 (st_blk h b));
                       h = upd_blk b (\<lambda>p. fst (pio_sim_sm_get 0 p)) h
                in (case got of None \<Rightarrow> Some 1
                    | Some g \<Rightarrow> if g \<noteq> w then Some 1 else echo_words v dev b ws h))"

definition echo_run :: "pio_version \<Rightarrow> device \<Rightarrow> nat \<Rightarrow> u32 list \<Rightarrow> pio_program_t \<Rightarrow> pio_store \<Rightarrow> int option" where
  "echo_run v dev b ws prog h = echo_words v dev b ws (pio_sim_sm_set_enabled b 0 True h)"

text \<open>\<open>main\<close> with the array \<open>words\<close> as an argument, and with the words it has.\<close>

definition echo_main_on :: "u32 list \<Rightarrow> c_strtod \<Rightarrow> pio_version \<Rightarrow> device \<Rightarrow> nat \<Rightarrow> pio_store \<Rightarrow> int option" where
  "echo_main_on ws strtod v dev b = with_program strtod v b ECHO_SRC pio_get_default_sm_config (echo_run v dev b ws)"

definition echo_main :: "c_strtod \<Rightarrow> pio_version \<Rightarrow> device \<Rightarrow> nat \<Rightarrow> pio_store \<Rightarrow> int option" where
  "echo_main = echo_main_on ECHO_WORDS"

section \<open>The assembled program\<close>

lemma echo_assembles:
  "\<exists>prog. pio_asm_assemble strtod v ECHO_SRC None = (True, prog) \<and> pg_count prog = 3 \<and>
     pg_insns prog 0 = 0x80A0 \<and> pg_insns prog 1 = 0xA0C7 \<and> pg_insns prog 2 = 0x8020 \<and>
     pg_wrap_bottom prog = 0 \<and> pg_wrap_top prog = 2 \<and>
     pg_sideset_bits prog = 0 \<and> \<not> pg_sideset_opt prog \<and> \<not> pg_sideset_pindirs prog"
proof -
  let ?asm = "\<lambda>v. case pio_asm_assemble strtod v ECHO_SRC None of (ok, p) \<Rightarrow>
      (ok, pg_count p, pg_insns p 0, pg_insns p 1, pg_insns p 2, pg_wrap_bottom p, pg_wrap_top p, pg_sideset_bits p,
       pg_sideset_opt p, pg_sideset_pindirs p)"
  have "?asm RP2040 = (True, 3, 0x80A0, 0xA0C7, 0x8020, 0, 2, 0, False, False)" by code_simp
  moreover have "?asm RP2350 = (True, 3, 0x80A0, 0xA0C7, 0x8020, 0, 2, 0, False, False)" by code_simp
  ultimately have "?asm v = (True, 3, 0x80A0, 0xA0C7, 0x8020, 0, 2, 0, False, False)" by (cases v) simp_all
  then show ?thesis by (auto split: prod.splits)
qed

section \<open>One word\<close>

text \<open>State machine 0 at the \<open>pull\<close>, with what it holds of the last word and the two FIFOs.\<close>

definition echo_at :: "pio_version \<Rightarrow> pio_program_t \<Rightarrow> u32 \<Rightarrow> u8 \<Rightarrow> pio_fifo_t \<Rightarrow> pio_fifo_t \<Rightarrow> nat \<Rightarrow> solo_t" where
  "echo_at v p osr n tx rx c =
     \<lparr>so_sm = (loaded_sm v pio_get_default_sm_config p)
        \<lparr>sm_enabled := True, sm_osr := osr, sm_osr_count := n, sm_tx := tx, sm_rx := rx\<rparr>,
      so_levels = 0, so_count = c\<rparr>"

definition echo_code :: "(nat \<Rightarrow> u16) \<Rightarrow> pio_program_t \<Rightarrow> bool" where
  "echo_code mem p \<longleftrightarrow> mem 0 = 0x80A0 \<and> mem 1 = 0xA0C7 \<and> mem 2 = 0x8020 \<and> pg_wrap_bottom p = 0 \<and> pg_wrap_top p = 2 \<and>
     pg_sideset_bits p = 0 \<and> \<not> pg_sideset_opt p \<and> \<not> pg_sideset_pindirs p"

text \<open>A FIFO of four words that is empty.\<close>

definition idle_fifo :: "pio_fifo_t \<Rightarrow> bool" where
  "idle_fifo f \<longleftrightarrow> fifo_wf f \<and> f_cap f = 4 \<and> f_count f = 0"

lemma idle_push_pop:
  assumes "idle_fifo f"
  shows "f_count (fst (fifo_push f w)) = 1" "snd (fifo_push f w)" "f_cap (fst (fifo_push f w)) = 4"
    "snd (fifo_pop (fst (fifo_push f w))) = Some w" "idle_fifo (fst (fifo_pop (fst (fifo_push f w))))"
proof -
  have wf: "fifo_wf f" "length (fifo_words f) < unat (f_cap f)" "fifo_words f = []"
    using assms by (simp_all add: idle_fifo_def)
  have c: "fifo_words (fst (fifo_push f w)) = [w]" using ring.push_contents [OF wf(1,2)] wf(3) by simp
  note i = ring.push_inv [OF wf(1), of w]
  show "f_count (fst (fifo_push f w)) = 1" "snd (fifo_push f w)" "f_cap (fst (fifo_push f w)) = 4"
    using assms by (simp_all add: fifo_push_def idle_fifo_def)
  show "snd (fifo_pop (fst (fifo_push f w))) = Some w" by (rule ring.pop_result [OF i c])
  show "idle_fifo (fst (fifo_pop (fst (fifo_push f w))))"
    using ring.pop_inv [OF i] ring.pop_contents [OF i c] assms
    by (auto simp: idle_fifo_def fifo_pop_def fifo_push_def)
qed

text \<open>With a word in TX the machine takes three ticks and has it in RX; RX is empty until then.\<close>

lemma echo_ticks:
  fixes v p osr n tx rx c w
  assumes "echo_code mem p" "idle_fifo tx" "idle_fifo rx"
  defines "tx1 \<equiv> fst (fifo_push tx w)"
  defines "m \<equiv> \<lambda>k. [echo_at v p osr n tx1 rx c,
     solo_upd (\<lambda>s. s\<lparr>sm_pc := 1\<rparr>) (echo_at v p w 0 (fst (fifo_pop tx1)) rx (Suc c)),
     solo_upd (\<lambda>s. s\<lparr>sm_pc := 2, sm_isr := w\<rparr>) (echo_at v p w 0 (fst (fifo_pop tx1)) rx (Suc (Suc c))),
     echo_at v p w 0 (fst (fifo_pop tx1)) (fst (fifo_push rx w)) (Suc (Suc (Suc c)))] ! k"
  shows "solo_tick v mem (m 0) = Some (m 1)" "solo_tick v mem (m 1) = Some (m 2)" "solo_tick v mem (m 2) = Some (m 3)"
proof -
  obtain tx2 where tx: "f_count tx1 = 1" "fifo_pop tx1 = (tx2, Some w)"
    using idle_push_pop [OF assms(2)] unfolding tx1_def by (metis prod.collapse)
  have "f_count rx = 0" "f_cap rx = 4" using assms(3) by (simp_all add: idle_fifo_def)
  moreover obtain rx1 where "fifo_push rx w = (rx1, True)" using idle_push_pop(2) [OF assms(3)] by (metis (full_types) prod.collapse)
  moreover have "\<not> rx_fifo_is_register_file v (so_sm (echo_at v p a a' a'' a3 a4))" for a a' a'' a3 a4
    by (simp add: echo_at_def loaded_sm_eq config_eval rx_fifo_is_register_file_def)
  ultimately show "solo_tick v mem (m 0) = Some (m 1)" "solo_tick v mem (m 1) = Some (m 2)" "solo_tick v mem (m 2) = Some (m 3)"
    using assms(1) tx unfolding echo_code_def m_def
    by (simp_all add: echo_at_def loaded_sm_eq config_eval solo_eval solo_pushpull_def pull_insn_def push_insn_def
        osr_refill_def isr_drain_def solo_mov_def solo_mov_store_def solo_source_def mov_operation_def
        rx_fifo_is_register_file_def del: map_option_eq_Some)
qed

lemma run_while_on: "0 < n \<Longrightarrow> go h \<Longrightarrow> fst (run_while go step n h) = fst (run_while go step (n - 1) (step h))"
  by (cases n) (simp_all add: split_beta)

lemma echo_word:
  assumes "solo_rel v b h (echo_at v p osr n tx rx c)" "echo_code (pio_insn (st_blk h b)) p" "idle_fifo tx" "idle_fifo rx"
  obtains h' tx' rx' c' where "echo_words v dev b (w # ws) h = echo_words v dev b ws h'"
    "solo_rel v b h' (echo_at v p w 0 tx' rx' c')" "pio_insn (st_blk h' b) = pio_insn (st_blk h b)" "idle_fifo tx'" "idle_fifo rx'"
proof -
  let ?tx = "fst (fifo_push tx w)" and ?rx = "fst (fifo_push rx w)" and ?mem = "pio_insn (st_blk h b)"
  define h0 where "h0 = upd_blk b (\<lambda>p. fst (pio_sim_sm_put 0 w p)) h"
  note txp = idle_push_pop [OF assms(3)] and rxp = idle_push_pop [OF assms(4)] and t = echo_ticks [OF assms(2,3,4)]
  have f: "f_cap tx = 4" "f_count tx = 0" "f_count rx = 0" using assms(3,4) by (simp_all add: idle_fifo_def)
  have ok: "snd (pio_sim_sm_put 0 w (st_blk h b))"
    using alone.rel_put(2) [OF assms(1), of w] f by (simp add: sm_put_eq echo_at_def loaded_sm_eq config_eval)
  have r0: "solo_rel v b h0 (echo_at v p osr n ?tx rx c)"
    using alone.rel_put(1) [OF assms(1), of w] f by (simp add: h0_def sm_put_eq echo_at_def loaded_sm_eq config_eval solo_upd_def)
  have i0: "pio_insn (st_blk h0 b) = ?mem" by (simp add: h0_def pio_sim_sm_put_def upd_blk_def blk_upd_sm_def)
  define h1 h2 h3 where "h1 = pio_sim_tick v dev b h0" and "h2 = pio_sim_tick v dev b h1" and "h3 = pio_sim_tick v dev b h2"
  have r1: "solo_rel v b h1 (solo_upd (\<lambda>s. s\<lparr>sm_pc := 1\<rparr>) (echo_at v p w 0 (fst (fifo_pop ?tx)) rx (Suc c)))"
    and i1: "pio_insn (st_blk h1 b) = ?mem"
    using rel_tick [OF r0, where dev = dev] t(1) by (simp_all add: i0 h1_def)
  have r2: "solo_rel v b h2 (solo_upd (\<lambda>s. s\<lparr>sm_pc := 2, sm_isr := w\<rparr>) (echo_at v p w 0 (fst (fifo_pop ?tx)) rx (Suc (Suc c))))"
    and i2: "pio_insn (st_blk h2 b) = ?mem"
    using rel_tick [OF r1, where dev = dev] t(2) by (simp_all add: i1 h2_def)
  have r3: "solo_rel v b h3 (echo_at v p w 0 (fst (fifo_pop ?tx)) ?rx (Suc (Suc (Suc c))))"
    and i3: "pio_insn (st_blk h3 b) = ?mem"
    using rel_tick [OF r2, where dev = dev] t(3) by (simp_all add: i2 h3_def)
  have go: "pio_sim_sm_is_rx_fifo_empty (st_blk g b) 0 \<longleftrightarrow> f_count (sm_rx (so_sm m)) = 0" if "solo_rel v b g m" for g m
    using rel_sm [OF that] by (simp add: pio_sim_sm_is_rx_fifo_empty_def the_sm_def)
  have on: "pio_sim_sm_is_rx_fifo_empty (st_blk h0 b) 0" "pio_sim_sm_is_rx_fifo_empty (st_blk h1 b) 0"
    "pio_sim_sm_is_rx_fifo_empty (st_blk h2 b) 0" "\<not> pio_sim_sm_is_rx_fifo_empty (st_blk h3 b) 0"
    unfolding go [OF r0] go [OF r1] go [OF r2] go [OF r3] using f rxp(1)
    by (simp_all add: echo_at_def solo_upd_def)
  have run: "fst (pio_sim_run_until_rx v dev b 0 1000 h0) = h3"
    using on by (simp add: pio_sim_run_until_rx_def split_beta run_while_on run_while_stopped h1_def h2_def h3_def)
  show thesis
  proof (rule that)
    show "echo_words v dev b (w # ws) h = echo_words v dev b ws (upd_blk b (\<lambda>p. fst (pio_sim_sm_get 0 p)) h3)"
      using ok on(4) run alone.rel_get(2) [OF r3] rxp
      by (simp add: h0_def [symmetric] Let_def) (simp add: sm_get_eq echo_at_def)
    show "solo_rel v b (upd_blk b (\<lambda>p. fst (pio_sim_sm_get 0 p)) h3)
        (echo_at v p w 0 (fst (fifo_pop ?tx)) (fst (fifo_pop ?rx)) (Suc (Suc (Suc c))))"
      using alone.rel_get(1) [OF r3] rxp(1) by (simp add: sm_get_eq echo_at_def solo_upd_def)
    show "pio_insn (st_blk (upd_blk b (\<lambda>p. fst (pio_sim_sm_get 0 p)) h3) b) = ?mem"
      using i3 by (simp add: pio_sim_sm_get_def upd_blk_def blk_upd_sm_def)
  qed (fact txp(5) rxp(5))+
qed

section \<open>The loop\<close>

lemma echo_words_succeed:
  assumes "solo_rel v b h (echo_at v p osr n tx rx c)" "echo_code (pio_insn (st_blk h b)) p" "idle_fifo tx" "idle_fifo rx"
  shows "echo_words v dev b ws h = Some 0"
  using assms
proof (induction ws arbitrary: h osr n tx rx c)
  case (Cons w ws)
  show ?case
    by (rule echo_word [OF Cons.prems, of dev w ws]) (use Cons.IH Cons.prems(2) in auto)
qed simp

text \<open>
  C18: The echo example.  Its source assembles and loads, and whatever words the host sends, each of them
  comes back unchanged within the 1000 ticks allowed for it; \<open>main\<close> exits with 0 on both chips, also
  for an array of words of any length and content.
\<close>

theorem echo_main_succeeds: "echo_main_on ws strtod v dev b h = Some 0 \<and> echo_main strtod v dev b h = Some 0"
proof -
  obtain p where p: "pio_asm_assemble strtod v ECHO_SRC None = (True, p)" "pg_count p = 3"
    "pg_insns p 0 = 0x80A0" "pg_insns p 1 = 0xA0C7" "pg_insns p 2 = 0x8020" "pg_wrap_bottom p = 0" "pg_wrap_top p = 2"
    "pg_sideset_bits p = 0" "\<not> pg_sideset_opt p" "\<not> pg_sideset_pindirs p"
    using echo_assembles by blast
  have "echo_main_on ws strtod v dev b h = Some 0" for ws
  proof -
    obtain h1 where h1: "echo_main_on ws strtod v dev b h = echo_run v dev b ws p h1"
      "solo_rel v b h1 \<lparr>so_sm = loaded_sm v pio_get_default_sm_config p, so_levels = 0, so_count = 0\<rparr>"
      "\<And>i. i < unat (pg_count p) \<Longrightarrow> pio_insn (st_blk h1 b) i = pg_insns p i"
      unfolding echo_main_on_def
      by (rule with_program_starts [OF p(1), where b = b and rest = "echo_run v dev b ws" and h = h]) blast
    let ?h = "pio_sim_sm_set_enabled b 0 True h1"
    have "pio_insn (st_blk ?h b) = pio_insn (st_blk h1 b)" by (simp add: pio_sim_sm_set_enabled_def Let_def)
    then have "echo_code (pio_insn (st_blk ?h b)) p" using h1(3) p by (simp add: echo_code_def)
    moreover have "solo_rel v b ?h (echo_at v p 0 32 fresh_fifo fresh_fifo 0)"
      using alone.rel_enable [OF h1(2), of True]
      by (simp add: echo_at_def loaded_sm_eq config_eval solo_upd_def solo_latch_def)
    moreover have "idle_fifo fresh_fifo" by (simp add: idle_fifo_def fresh_fifo_def fifo_wf_def)
    ultimately show ?thesis unfolding h1(1) echo_run_def by (intro echo_words_succeed)
  qed
  then show ?thesis by (simp add: echo_main_def)
qed

end
