(* ===== verification/Ex_Uart.thy ===== *)
theory Ex_Uart
  imports Ex_Setup
begin

text \<open>
  The host program \<open>examples/03_uart_tx.c\<close>: a byte is sent as an 8n1 frame, one bit every 8 cycles of a
  state machine that runs at half the clock of the system, and read back from the line in the middle of
  each bit; a trace hook counts the instructions.
\<close>

section \<open>The program\<close>








section \<open>The assembled program\<close>




section \<open>Single ticks\<close>












section \<open>Bit windows\<close>











section \<open>The start\<close>







section \<open>The frame\<close>







end
