(* ===== verification/Ex_Ws2812.thy ===== *)
theory Ex_Ws2812
  imports Ex_Setup
begin

text \<open>
  The host program \<open>examples/04_ws2812.c\<close>: two pixels of 24 bits go out on one wire as pulses, a long one for a
  set bit and a short one for a clear bit, and are read back from the lengths of the pulses.  The state machine pulls
  the second pixel by itself when the first is out.
\<close>

section \<open>The program\<close>

abbreviation (input) WS_PIN :: u8 where "WS_PIN \<equiv> 0"
abbreviation (input) BITS_PER_PIXEL :: nat where "BITS_PER_PIXEL \<equiv> 24"
abbreviation (input) HIGH_ONE_THRESHOLD :: nat where "HIGH_ONE_THRESHOLD \<equiv> 4"
abbreviation (input) NSAMP :: nat where "NSAMP \<equiv> 10 * BITS_PER_PIXEL * 2 + 40"

definition WS_SRC :: string where
  "WS_SRC = lines [''.program ws2812'', ''.side_set 1'', ''.define T1 2'', ''.define T2 5'', ''.define T3 3'', ''.wrap_target'',
     ''bitloop:'', ''    out x, 1       side 0 [T3 - 1]'', ''    jmp !x do_zero side 1 [T1 - 1]'', ''do_one:'',
     ''    jmp  bitloop   side 1 [T2 - 1]'', ''do_zero:'', ''    nop            side 0 [T2 - 1]'', ''.wrap'']"

definition ws_config :: pio_sm_config where
  "ws_config = sm_config_set_out_shift False True (of_nat BITS_PER_PIXEL)
     (sm_config_set_sideset_pins WS_PIN pio_get_default_sm_config)"

definition ws_setup :: "pio_version \<Rightarrow> nat \<Rightarrow> pio_program_t \<Rightarrow> pio_store \<Rightarrow> pio_store" where
  "ws_setup v b prog h =
     (let h = upd_blk b (pio_asm_apply_program_config v 0 prog) h;
          h = pio_sim_sm_set_consecutive_pindirs v b 0 WS_PIN 1 True h
      in pio_sim_sm_set_enabled b 0 True h)"

text \<open>The loop that queues the pixels, each in the upper 24 bits of a word; \<open>None\<close> when the FIFO is full.\<close>

primrec ws_queue :: "nat \<Rightarrow> u32 list \<Rightarrow> pio_store \<Rightarrow> pio_store option" where
  "ws_queue b [] h = Some h"
| "ws_queue b (p # ps) h =
     (if snd (pio_sim_sm_put 0 (push_bit 8 p) (st_blk h b))
      then ws_queue b ps (upd_blk b (\<lambda>q. fst (pio_sim_sm_put 0 (push_bit 8 p) q)) h) else None)"

text \<open>
  The loop that measures the pulses, on the samples that are left: the number of bits seen and the pixels recovered.  The inner
  loop, which counts a run of samples at 1, is \<open>takeWhile\<close> and \<open>dropWhile\<close>.
\<close>

function ws_decode :: "nat \<Rightarrow> u8 list \<Rightarrow> nat \<Rightarrow> u32 list \<Rightarrow> nat \<times> u32 list" where
  "ws_decode total_bits w bt recovered =
     (if w = [] \<or> \<not> bt < total_bits then (bt, recovered)
      else if hd w = 1
      then let len = length (takeWhile (\<lambda>s. s = 1) w);
               value = (if HIGH_ONE_THRESHOLD \<le> len then 1 else 0);
               p = bt div BITS_PER_PIXEL
           in ws_decode total_bits (dropWhile (\<lambda>s. s = 1) w) (bt + 1) (recovered[p := push_bit 1 (recovered ! p) OR value])
      else ws_decode total_bits (tl w) bt recovered)"
  by pat_completeness auto

termination
proof (relation "measure (\<lambda>(total_bits, w, bt, recovered). length w)", goal_cases)
  case (2 total_bits w bt recovered)
  then show ?case using length_dropWhile_le [of "\<lambda>s. s = 1" "tl w"] by (cases w) auto
qed simp_all

declare ws_decode.simps [simp del]

definition ws_run :: "u32 list \<Rightarrow> pio_version \<Rightarrow> device \<Rightarrow> nat \<Rightarrow> pio_program_t \<Rightarrow> pio_store \<Rightarrow> int option" where
  "ws_run pixels v dev b prog h =
     (case ws_queue b pixels (ws_setup v b prog h) of
        None \<Rightarrow> Some 1
      | Some h \<Rightarrow>
          let w = fst (sample_pin v dev b WS_PIN NSAMP h);
              total_bits = BITS_PER_PIXEL * length pixels;
              (bt, recovered) = ws_decode total_bits w 0 [0, 0]
          in if bt \<noteq> total_bits \<or> recovered ! 0 \<noteq> pixels ! 0 \<or> recovered ! 1 \<noteq> pixels ! 1 then Some 1 else Some 0)"

definition ws_main_on :: "u32 \<Rightarrow> u32 \<Rightarrow> c_strtod \<Rightarrow> pio_version \<Rightarrow> device \<Rightarrow> nat \<Rightarrow> pio_store \<Rightarrow> int option" where
  "ws_main_on p0 p1 strtod v dev b = with_program strtod v b WS_SRC ws_config (ws_run [p0, p1] v dev b)"

definition ws_main :: "c_strtod \<Rightarrow> pio_version \<Rightarrow> device \<Rightarrow> nat \<Rightarrow> pio_store \<Rightarrow> int option" where
  "ws_main = ws_main_on 0x00FF00 0x1234AB"

section \<open>The assembled program\<close>

definition ws_code :: "(nat \<Rightarrow> u16) \<Rightarrow> pio_program_t \<Rightarrow> bool" where
  "ws_code mem p \<longleftrightarrow> mem 0 = 0x6221 \<and> mem 1 = 0x1123 \<and> mem 2 = 0x1400 \<and> mem 3 = 0xA442 \<and>
     pg_wrap_bottom p = 0 \<and> pg_wrap_top p = 3 \<and> pg_sideset_bits p = 1 \<and> \<not> pg_sideset_opt p \<and> \<not> pg_sideset_pindirs p"

definition ws_settings :: "pio_program_t \<Rightarrow> bool" where
  "ws_settings p \<longleftrightarrow> \<not> pg_has_clock_div p \<and> \<not> pg_has_fifo_join p \<and> \<not> pg_has_mov_status p \<and>
     \<not> sc_set (pg_in_cfg p) \<and> \<not> sc_set (pg_out_cfg p) \<and> \<not> sc_set (pg_set_cfg p)"

lemma ws_assembles:
  obtains p where "pio_asm_assemble strtod v WS_SRC None = (True, p)" "pg_count p = 4"
    "ws_code (pg_insns p) p" "ws_settings p"
proof -
  let ?asm = "\<lambda>v. case pio_asm_assemble strtod v WS_SRC None of (ok, p) \<Rightarrow> ok \<and> pg_count p = 4 \<and>
      ws_code (pg_insns p) p \<and> ws_settings p"
  have "?asm RP2040" by code_simp
  moreover have "?asm RP2350" by code_simp
  ultimately have "?asm v" by (cases v) simp_all
  then show thesis using that by (auto split: prod.splits)
qed

section \<open>Single ticks\<close>

definition ws_sm :: "pio_version \<Rightarrow> pio_program_t \<Rightarrow> pio_sm_t" where
  "ws_sm v p = (loaded_sm v ws_config p)\<lparr>sm_out_pin_oe := 1, sm_dir_driven := 1, sm_enabled := True\<rparr>"

definition ws_at ::
  "pio_version \<Rightarrow> pio_program_t \<Rightarrow> pio_fifo_t \<Rightarrow> u8 \<Rightarrow> bool \<Rightarrow> u32 \<Rightarrow> u8 \<Rightarrow> bool \<Rightarrow> u8 \<Rightarrow> u64 \<Rightarrow> bool \<Rightarrow> nat \<Rightarrow> solo_t" where
  "ws_at v p tx pc x osr n lvl d wr st c =
     \<lparr>so_sm = (ws_sm v p)\<lparr>sm_pc := pc, sm_x := of_bool x, sm_osr := osr, sm_osr_count := n, sm_out_pin_val := of_bool lvl,
        sm_delay := d, sm_wrote_this_cycle := wr, sm_tx := tx, sm_stalled := st,
        sm_fdebug := (if st then PIO_FDEBUG_TXSTALL else 0)\<rparr>,
      so_levels = of_bool lvl, so_count = c\<rparr>"

lemmas ws_eval = ws_at_def ws_sm_def loaded_sm_eq ws_config_def sm_config_set_out_shift_def
  sm_config_set_sideset_pins_def config_eval solo_eval

lemma ws_line: "solo_output 0 (ws_at v p tx pc x osr n lvl d wr st c)"
  "bit (so_levels (ws_at v p tx pc x osr n lvl d wr st c)) 0 = lvl"
  by (simp_all add: solo_output_def ws_at_def ws_sm_def)

text \<open>The OSR is refilled at the start of a cycle when 24 bits are out and TX has a word.\<close>

abbreviation no_refill :: "u8 \<Rightarrow> pio_fifo_t \<Rightarrow> bool" where
  "no_refill n tx \<equiv> 24 \<le> n \<longrightarrow> f_count tx = 0"

lemma ws_delay:
  assumes "0 < d" "no_refill n tx"
  shows "solo_tick v mem (ws_at v p tx pc x osr n lvl d wr st c) = Some (ws_at v p tx pc x osr n lvl (d - 1) 0 st c)"
  using assms by (simp add: ws_eval refill_id del: autopull_refill_def)

lemma ws_delay_refill:
  assumes "0 < d" "24 \<le> n" "fifo_pop tx = (tx', Some w)"
  shows "solo_tick v mem (ws_at v p tx pc x osr n lvl d wr st c) = Some (ws_at v p tx' pc x w 0 lvl (d - 1) 0 st c)"
  using assms by (simp add: ws_eval osr_refill_def)

lemmas ws_out_eval = ws_eval solo_out_def solo_out_store_def operand_count_def osr_shift_val_def osr_shift_out_def osr_refill_def

lemma ws_out:
  assumes "ws_code mem p" "n < 24"
  shows "solo_tick v mem (ws_at v p tx 0 x osr n lvl 0 wr False c) =
    Some (ws_at v p tx 1 (bit osr 31) (push_bit 1 osr) (n + 1) False 2 1 False (Suc c))"
proof -
  have "\<not> 24 \<le> n" "\<not> 32 < n + 1" using assms(2) unat_succ_less [OF assms(2)] by (simp_all add: word_less_nat_alt not_le)
  moreover have "\<not> (32 :: u8) \<le> 1" by (simp add: word_le_nat_alt)
  ultimately show ?thesis
    using assms(1) unfolding ws_code_def
    by (cases lvl) (simp_all add: ws_out_eval top_bit del: map_option_eq_Some)
qed

lemma ws_out_refill:
  assumes "ws_code mem p" "24 \<le> n" "fifo_pop tx = (tx', Some w)"
  shows "solo_tick v mem (ws_at v p tx 0 x osr n lvl 0 wr False c) =
    Some (ws_at v p tx' 1 (bit w 31) (push_bit 1 w) 1 False 2 1 False (Suc c))"
proof -
  have le: "\<not> (32 :: u8) \<le> 1" by (simp add: word_le_nat_alt)
  show ?thesis
    using assms unfolding ws_code_def
    by (cases lvl) (simp_all add: ws_out_eval top_bit le del: map_option_eq_Some)
qed

lemma ws_test:
  assumes "ws_code mem p" "no_refill n tx"
  shows "solo_tick v mem (ws_at v p tx 1 x osr n lvl 0 wr False c) =
    Some (ws_at v p tx (if x then 2 else 3) x osr n True 1 1 False (Suc c))"
  using assms unfolding ws_code_def
  by (cases lvl; cases x)
     (simp_all add: ws_eval refill_id solo_jmp_def solo_jump_def jmp_decrement_def del: autopull_refill_def map_option_eq_Some)

lemma ws_one:
  assumes "ws_code mem p" "no_refill n tx"
  shows "solo_tick v mem (ws_at v p tx 2 x osr n lvl 0 wr False c) = Some (ws_at v p tx 0 x osr n True 4 1 False (Suc c))"
  using assms unfolding ws_code_def
  by (cases lvl)
     (simp_all add: ws_eval refill_id solo_jmp_def solo_jump_def jmp_decrement_def del: autopull_refill_def map_option_eq_Some)

lemma ws_zero:
  assumes "ws_code mem p" "no_refill n tx"
  shows "solo_tick v mem (ws_at v p tx 3 x osr n lvl 0 wr False c) = Some (ws_at v p tx 0 x osr n False 4 1 False (Suc c))"
  using assms unfolding ws_code_def
  by (cases lvl) (simp_all add: ws_eval refill_id solo_mov_def solo_mov_store_def solo_source_def mov_operation_def
      del: autopull_refill_def map_option_eq_Some)

lemma ws_stall:
  assumes "ws_code mem p" "24 \<le> n" "f_count tx = 0"
  shows "solo_tick v mem (ws_at v p tx 0 x osr n lvl 0 wr st c) = Some (ws_at v p tx 0 x osr n False 0 1 True c)"
  using assms unfolding ws_code_def
  by (cases lvl; cases st) (simp_all add: ws_out_eval fifo_pop_def del: map_option_eq_Some)

section \<open>A pulse\<close>

lemma ws_rest:
  "d < 16 \<Longrightarrow> no_refill n tx \<Longrightarrow> steady v mem 0 lvl d (ws_at v p tx pc x osr n lvl (of_nat d) wr st c)
     (ws_at v p tx pc x osr n lvl 0 (if d = 0 then wr else 0) st c)"
proof (induction d arbitrary: wr)
  case (Suc d)
  have "unat (of_nat (Suc d) :: u8) = Suc d" using Suc.prems(1) by (simp only: unsigned_of_nat) (simp add: take_bit_nat_eq_self)
  then have "(0 :: u8) < of_nat (Suc d)" by (simp only: word_less_nat_alt) simp
  then have "steady v mem 0 lvl 1 (ws_at v p tx pc x osr n lvl (of_nat (Suc d)) wr st c) (ws_at v p tx pc x osr n lvl (of_nat d) 0 st c)"
    using steady_tick [OF ws_delay [of "of_nat (Suc d)" n tx v] ws_line] Suc.prems(2) by simp
  from steady_trans [OF this Suc.IH] show ?case using Suc.prems by simp
qed (simp add: steady_0)

text \<open>After the bit is in \<open>X\<close>: two ticks high, then five at the value of the bit.\<close>

lemma ws_high:
  assumes "ws_code mem p" "no_refill n tx"
  shows "steady v mem 0 True 2 (ws_at v p tx 1 x osr n lvl 0 wr False c)
      (ws_at v p tx (if x then 2 else 3) x osr n True 0 0 False (Suc c))"
    "steady v mem 0 x 5 (ws_at v p tx (if x then 2 else 3) x osr n True 0 0 False (Suc c))
      (ws_at v p tx 0 x osr n x 0 0 False (Suc (Suc c)))"
proof -
  show "steady v mem 0 True 2 (ws_at v p tx 1 x osr n lvl 0 wr False c)
      (ws_at v p tx (if x then 2 else 3) x osr n True 0 0 False (Suc c))"
    using steady_trans [OF steady_tick [OF ws_test [OF assms, where v = v] ws_line] ws_rest [of 1 n tx, simplified, OF assms(2)]]
    by (simp add: numeral_2_eq_2)
  have "solo_tick v mem (ws_at v p tx (if x then 2 else 3) x osr n True 0 0 False (Suc c)) =
      Some (ws_at v p tx 0 x osr n x 4 1 False (Suc (Suc c)))"
    using ws_one [OF assms] ws_zero [OF assms] by (cases x) simp_all
  from steady_trans [OF steady_tick [OF this ws_line] ws_rest [of 4 n tx, simplified, OF assms(2)]]
  show "steady v mem 0 x 5 (ws_at v p tx (if x then 2 else 3) x osr n True 0 0 False (Suc c))
      (ws_at v p tx 0 x osr n x 0 0 False (Suc (Suc c)))"
    by simp
qed

text \<open>Before, three ticks low, in which the OSR may run empty and be refilled.\<close>

lemma ws_low:
  assumes "ws_code mem p" "n < 24" "no_refill (n + 1) tx"
  shows "steady v mem 0 False 3 (ws_at v p tx 0 x osr n lvl 0 wr False c)
    (ws_at v p tx 1 (bit osr 31) (push_bit 1 osr) (n + 1) False 0 0 False (Suc c))"
  using steady_trans [OF steady_tick [OF ws_out [OF assms(1,2), where v = v] ws_line] ws_rest [of 2 "n + 1" tx, simplified, OF assms(3)]]
  by (simp add: numeral_3_eq_3)

lemma ws_low_first:
  assumes "ws_code mem p" "24 \<le> n" "fifo_pop tx = (tx', Some w)"
  shows "steady v mem 0 False 3 (ws_at v p tx 0 x osr n lvl 0 wr False c)
    (ws_at v p tx' 1 (bit w 31) (push_bit 1 w) 1 False 0 0 False (Suc c))"
  using steady_trans [OF steady_tick [OF ws_out_refill [OF assms, where v = v] ws_line] ws_rest [of 2 1 tx', simplified]]
  by (simp add: numeral_3_eq_3 word_le_nat_alt)

lemma ws_low_next:
  assumes "ws_code mem p" "fifo_pop tx = (tx', Some w)"
  shows "steady v mem 0 False 3 (ws_at v p tx 0 x osr 23 lvl 0 wr False c)
    (ws_at v p tx' 1 (bit osr 31) w 0 False 0 0 False (Suc c))"
proof -
  have o: "solo_tick v mem (ws_at v p tx 0 x osr 23 lvl 0 wr False c) =
      Some (ws_at v p tx 1 (bit osr 31) (push_bit 1 osr) 24 False 2 1 False (Suc c))"
    using ws_out [OF assms(1), of 23 v tx x osr lvl wr c] by simp
  have d: "solo_tick v mem (ws_at v p tx 1 (bit osr 31) (push_bit 1 osr) 24 False 2 1 False (Suc c)) =
      Some (ws_at v p tx' 1 (bit osr 31) w 0 False 1 0 False (Suc c))"
    using ws_delay_refill [of 2 24 tx tx' w] assms(2) by simp
  have r: "steady v mem 0 False 1 (ws_at v p tx' 1 (bit osr 31) w 0 False 1 0 False (Suc c))
      (ws_at v p tx' 1 (bit osr 31) w 0 False 0 0 False (Suc c))"
    using ws_rest [of 1 0 tx'] by simp
  show ?thesis
    using steady_trans [OF steady_trans [OF steady_tick [OF o ws_line] steady_tick [OF d ws_line]] r] by (simp add: numeral_3_eq_3)
qed

section \<open>The bits of the two pixels\<close>

text \<open>The bit sent as number \<open>j\<close>, and the machine when it begins; the TX FIFO before, and after one and two words.\<close>

definition ws_bit :: "u32 \<Rightarrow> u32 \<Rightarrow> nat \<Rightarrow> bool" where
  "ws_bit p0 p1 j = (if j < 24 then bit p0 (23 - j) else bit p1 (47 - j))"

definition ws_ready :: "pio_version \<Rightarrow> pio_program_t \<Rightarrow> pio_fifo_t \<Rightarrow> u32 \<Rightarrow> u32 \<Rightarrow> nat \<Rightarrow> solo_t" where
  "ws_ready v p tx p0 p1 j =
     (if j = 0 then ws_at v p tx 0 False 0 32 False 0 0 False 0
      else if j < 24
      then ws_at v p (fst (fifo_pop tx)) 0 (ws_bit p0 p1 (j - 1)) (push_bit j (push_bit 8 p0)) (of_nat j)
             (ws_bit p0 p1 (j - 1)) 0 0 False (3 * j)
      else ws_at v p (fst (fifo_pop (fst (fifo_pop tx)))) 0 (ws_bit p0 p1 (j - 1)) (push_bit (j - 24) (push_bit 8 p1))
             (of_nat (j - 24)) (ws_bit p0 p1 (j - 1)) 0 0 False (3 * j))"

definition ws_fifo :: "pio_fifo_t \<Rightarrow> u32 \<Rightarrow> u32 \<Rightarrow> bool" where
  "ws_fifo tx p0 p1 \<longleftrightarrow> snd (fifo_pop tx) = Some (push_bit 8 p0) \<and>
     snd (fifo_pop (fst (fifo_pop tx))) = Some (push_bit 8 p1) \<and> f_count (fst (fifo_pop (fst (fifo_pop tx)))) = 0"

lemma ws_top_bit: "j < 24 \<Longrightarrow> bit (push_bit j (push_bit 8 (w :: u32))) 31 = bit w (23 - j)"
  by (auto simp: push_bit_push_bit bit_push_bit_iff)

lemma ws_pulse_low:
  assumes "ws_code mem p" "ws_fifo tx p0 p1" "j < 48"
  shows "\<exists>tx' osr n. no_refill n tx' \<and>
    steady v mem 0 False 3 (ws_ready v p tx p0 p1 j) (ws_at v p tx' 1 (ws_bit p0 p1 j) osr n False 0 0 False (3 * j + 1)) \<and>
    ws_ready v p tx p0 p1 (Suc j) = ws_at v p tx' 0 (ws_bit p0 p1 j) osr n (ws_bit p0 p1 j) 0 0 False (3 * Suc j)"
proof -
  let ?tx1 = "fst (fifo_pop tx)" and ?tx2 = "fst (fifo_pop (fst (fifo_pop tx)))"
  have p1: "fifo_pop tx = (?tx1, Some (push_bit 8 p0))" and p2: "fifo_pop ?tx1 = (?tx2, Some (push_bit 8 p1))"
    and e: "f_count ?tx2 = 0"
    using assms(2) by (auto simp: ws_fifo_def prod_eq_iff)
  have lt: "(of_nat k :: u8) < 24 \<longleftrightarrow> k < 24" if "k < 48" for k
    using that by (simp add: word_less_nat_alt unsigned_of_nat take_bit_nat_eq_self)
  have one: "\<not> (24 :: u8) \<le> 1" by (simp add: word_le_nat_alt)
  consider "j = 0" | "0 < j" "j < 23" | "j = 23" | "24 \<le> j" by linarith
  then show ?thesis
  proof cases
    case 1
    then show ?thesis
      using ws_low_first [OF assms(1) _ p1, of 32] ws_top_bit [of 0 p0] one
      by (intro exI [of _ ?tx1] exI [of _ "push_bit 1 (push_bit 8 p0)"] exI [of _ 1]) (simp add: ws_ready_def ws_bit_def)
  next
    case 2
    have n: "of_nat j < (24 :: u8)" "\<not> 24 \<le> (of_nat (Suc j) :: u8)"
      using lt [of j] lt [of "Suc j"] 2 by (simp_all only: not_le)
    have "steady v mem 0 False 3 (ws_at v p ?tx1 0 x (push_bit j (push_bit 8 p0)) (of_nat j) l 0 0 False (3 * j))
        (ws_at v p ?tx1 1 (ws_bit p0 p1 j) (push_bit (Suc j) (push_bit 8 p0)) (of_nat (Suc j)) False 0 0 False (3 * j + 1))" for x l
      using ws_low [OF assms(1) n(1), where tx = ?tx1 and v = v and x = x and osr = "push_bit j (push_bit 8 p0)" and lvl = l and wr = 0 and c = "3 * j"] n(2) ws_top_bit [of j p0] 2
      by (simp add: ws_bit_def push_bit_push_bit ac_simps push_bit_double [symmetric])
    with 2 n(2) show ?thesis
      by (intro exI [of _ ?tx1] exI [of _ "push_bit (Suc j) (push_bit 8 p0)"] exI [of _ "of_nat (Suc j)"])
         (simp add: ws_ready_def del: of_nat_Suc push_bit_Suc)
  next
    case 3
    then show ?thesis
      using ws_low_next [OF assms(1) p2, where v = v and osr = "push_bit 23 (push_bit 8 p0)" and c = 69] ws_top_bit [of 23 p0]
      by (intro exI [of _ ?tx2] exI [of _ "push_bit 8 p1"] exI [of _ 0]) (simp add: ws_ready_def ws_bit_def)
  next
    case 4
    then obtain k where k: "j = 24 + k" "k < 24" using assms(3) le_Suc_ex [OF 4] by auto
    have n: "of_nat k < (24 :: u8)" using lt [of k] k by simp
    have "steady v mem 0 False 3 (ws_at v p ?tx2 0 x (push_bit k (push_bit 8 p1)) (of_nat k) l 0 0 False (3 * j))
        (ws_at v p ?tx2 1 (ws_bit p0 p1 j) (push_bit (Suc k) (push_bit 8 p1)) (of_nat (Suc k)) False 0 0 False (3 * j + 1))" for x l
      using ws_low [OF assms(1) n, where tx = ?tx2 and v = v and x = x and osr = "push_bit k (push_bit 8 p1)" and lvl = l and wr = 0 and c = "3 * j"] e
        ws_top_bit [of k p1] k
      by (simp add: ws_bit_def push_bit_push_bit ac_simps push_bit_double [symmetric])
    moreover have "ws_ready v p tx p0 p1 j = ws_at v p ?tx2 0 (ws_bit p0 p1 (j - 1)) (push_bit k (push_bit 8 p1)) (of_nat k)
        (ws_bit p0 p1 (j - 1)) 0 0 False (3 * j)" "ws_ready v p tx p0 p1 (Suc j) = ws_at v p ?tx2 0 (ws_bit p0 p1 j)
        (push_bit (Suc k) (push_bit 8 p1)) (of_nat (Suc k)) (ws_bit p0 p1 j) 0 0 False (3 * Suc j)"
      using k by (simp_all only: ws_ready_def) (simp_all del: of_nat_Suc push_bit_Suc add: Suc_diff_le)
    ultimately show ?thesis using e by (intro exI conjI) (simp_all only: simp_thms)
  qed
qed

definition ws_pulse :: "bool \<Rightarrow> bool list" where
  "ws_pulse l = replicate 3 False @ replicate 2 True @ replicate 5 l"

lemma ws_pulse_wave:
  assumes "ws_code mem p" "ws_fifo tx p0 p1" "j < 48"
  shows "wave v mem 0 (ws_pulse (ws_bit p0 p1 j)) (ws_ready v p tx p0 p1 j) (ws_ready v p tx p0 p1 (Suc j))"
proof -
  obtain tx' osr n where
    t: "no_refill n tx'" "ws_ready v p tx p0 p1 (Suc j) = ws_at v p tx' 0 (ws_bit p0 p1 j) osr n (ws_bit p0 p1 j) 0 0 False (3 * Suc j)"
      "steady v mem 0 False 3 (ws_ready v p tx p0 p1 j) (ws_at v p tx' 1 (ws_bit p0 p1 j) osr n False 0 0 False (3 * j + 1))"
    using ws_pulse_low [OF assms, of v] by blast
  note h = ws_high(1) [OF assms(1) t(1), where v = v and x = "ws_bit p0 p1 j" and osr = osr and lvl = False and wr = 0 and c = "3 * j + 1"]
    ws_high(2) [OF assms(1) t(1), where v = v and x = "ws_bit p0 p1 j" and osr = osr and c = "3 * j + 1"]
  have "Suc (Suc (3 * j + 1)) = 3 * Suc j" by simp
  with h t show ?thesis unfolding ws_pulse_def wave_append steady_def [symmetric] by metis
qed

lemma ws_wave:
  assumes "ws_code mem p" "ws_fifo tx p0 p1" "n \<le> 48"
  shows "wave v mem 0 (concat (map (\<lambda>j. ws_pulse (ws_bit p0 p1 j)) [0..<n])) (ws_ready v p tx p0 p1 0) (ws_ready v p tx p0 p1 n)"
  using assms(3)
proof (induction n)
  case (Suc n)
  then show ?case using ws_pulse_wave [OF assms(1,2), of n v] by (auto simp: wave_append)
qed simp

text \<open>Afterwards the line stays low: the state machine waits for a word.\<close>

lemma ws_stalled:
  assumes "ws_code mem p" "24 \<le> n" "f_count tx = 0"
  shows "\<exists>m. wave v mem 0 (replicate k False) (ws_at v p tx 0 x osr n lvl 0 wr st c) m"
proof (induction k arbitrary: lvl wr st)
  case (Suc k)
  from Suc [of False 1 True] show ?case using ws_stall [OF assms] ws_line by auto
next
  case 0
  have "wave v mem 0 (replicate 0 False) m m" for m by simp
  then show ?case by (rule exI)
qed

lemma ws_waveform:
  assumes "ws_code mem p" "ws_fifo tx p0 p1"
  shows "\<exists>m. wave v mem 0 (concat (map (\<lambda>j. ws_pulse (ws_bit p0 p1 j)) [0..<48]) @ replicate k False) (ws_ready v p tx p0 p1 0) m"
proof -
  have "f_count (fst (fifo_pop (fst (fifo_pop tx)))) = 0" using assms(2) by (simp add: ws_fifo_def)
  from ws_stalled [OF assms(1) _ this, of 24 v k] have "\<exists>m. wave v mem 0 (replicate k False) (ws_ready v p tx p0 p1 48) m"
    by (simp add: ws_ready_def)
  then show ?thesis using ws_wave [OF assms, of 48 v] unfolding wave_append by blast
qed

section \<open>Reading the pulses\<close>

lemma ws_decode_done: "\<not> bt < t \<Longrightarrow> ws_decode t w bt r = (bt, r)"
  by (simp add: ws_decode.simps)

lemma ws_decode_low: "ws_decode t (0 # w) bt r = ws_decode t w bt r"
  by (cases "bt < t") (simp add: ws_decode.simps [of t "0 # w"], simp add: ws_decode_done)

lemma ws_decode_lows: "ws_decode t (replicate n 0 @ w) bt r = ws_decode t w bt r"
  by (induction n) (simp_all add: ws_decode_low)

lemma ws_decode_high:
  assumes "bt < t" "0 < n" "w \<noteq> []" "hd w = 0"
  shows "ws_decode t (replicate n 1 @ w) bt r =
    ws_decode t w (bt + 1) (r[bt div 24 := push_bit 1 (r ! (bt div 24)) OR of_bool (4 \<le> n)])"
proof -
  obtain w' where "w = 0 # w'" using assms(3,4) by (cases w) auto
  moreover have "takeWhile (\<lambda>s. s = 1) (replicate n 1 @ 0 # w') = replicate n (1 :: u8)"
    "dropWhile (\<lambda>s. s = 1) (replicate n 1 @ 0 # w') = 0 # w'"
    by (induction n) simp_all
  ultimately show ?thesis using assms(1,2) by (cases n) (simp_all add: ws_decode.simps [of t "1 # _"] Let_def)
qed

text \<open>The pixels that a number of bits adds up to.\<close>

primrec ws_collect :: "bool list \<Rightarrow> nat \<Rightarrow> u32 list \<Rightarrow> u32 list" where
  "ws_collect [] bt r = r"
| "ws_collect (l # ls) bt r = ws_collect ls (bt + 1) (r[bt div 24 := push_bit 1 (r ! (bt div 24)) OR of_bool l])"

lemma ws_collect_snoc: "ws_collect (ls @ [l]) bt r =
    (let r' = ws_collect ls bt r; p = (bt + length ls) div 24 in r'[p := push_bit 1 (r' ! p) OR of_bool l])"
  by (induction ls arbitrary: bt r) (simp_all add: Let_def)

lemma ws_decode_pulse:
  assumes "bt < t" "w \<noteq> []" "hd w = 0"
  shows "ws_decode t (map of_bool (ws_pulse l) @ w) bt r =
    ws_decode t w (bt + 1) (r[bt div 24 := push_bit 1 (r ! (bt div 24)) OR of_bool l])"
proof (cases l)
  case True
  then have "map of_bool (ws_pulse l) = replicate 3 0 @ replicate 7 (1 :: u8)" by (simp add: ws_pulse_def numeral_eq_Suc)
  then show ?thesis using ws_decode_high [OF assms(1) _ assms(2,3), of 7] True by (simp only: append_assoc ws_decode_lows) simp
next
  case False
  then have "map of_bool (ws_pulse l) = replicate 3 0 @ replicate 2 (1 :: u8) @ replicate 5 0"
    by (simp add: ws_pulse_def numeral_eq_Suc)
  moreover have "replicate 5 (0 :: u8) @ w \<noteq> []" "hd (replicate 5 (0 :: u8) @ w) = 0" by simp_all
  note ws_decode_high [OF assms(1) _ this, of 2 r]
  ultimately show ?thesis using False by (simp only: append_assoc ws_decode_lows) simp
qed

lemma ws_decode_pulses:
  assumes "bt + length ls \<le> t" "w \<noteq> []" "hd w = 0"
  shows "ws_decode t (map of_bool (concat (map ws_pulse ls)) @ w) bt r = ws_decode t w (bt + length ls) (ws_collect ls bt r)"
  using assms(1)
proof (induction ls arbitrary: bt r)
  case (Cons l ls)
  let ?w = "map of_bool (concat (map ws_pulse ls)) @ w"
  have "?w \<noteq> [] \<and> hd ?w = 0" using assms(2,3) by (cases ls) (simp_all add: ws_pulse_def numeral_eq_Suc)
  then show ?case using ws_decode_pulse [of bt t ?w l r] Cons by simp
qed simp

lemma ws_next_bit: "push_bit 1 (drop_bit (Suc k) (w :: u32)) OR of_bool (bit w k) = drop_bit k w"
proof (rule bit_word_eqI)
  show "bit (push_bit 1 (drop_bit (Suc k) w) OR of_bool (bit w k)) n = bit (drop_bit k w) n" if "n < LENGTH(32)" for n
    using that by (cases n) (auto simp: bit_or_iff bit_push_bit_iff bit_drop_bit_eq bit_1_iff simp del: push_bit_of_1 push_bit_Suc)
qed

lemma ws_beyond: "w < 2 ^ 24 \<Longrightarrow> 24 \<le> k \<Longrightarrow> drop_bit k (w :: u32) = 0"
proof -
  assume w: "w < 2 ^ 24" and k: "24 \<le> k"
  have "unat w < 2 ^ 24" using w by (simp add: word_less_nat_alt)
  also have "(2 :: nat) ^ 24 \<le> 2 ^ k" using k by (rule power_increasing) simp
  finally have "unat (drop_bit k w) = 0" unfolding unat_drop_bit_eq by (simp add: drop_bit_eq_div [where 'a = nat])
  then show ?thesis by (simp only: unat_eq_0)
qed

lemma ws_collect_pixels:
  assumes "p0 < 2 ^ 24" "p1 < 2 ^ 24" "n \<le> 48"
  shows "ws_collect (map (ws_bit p0 p1) [0..<n]) 0 [0, 0] = [drop_bit (24 - n) p0, drop_bit (48 - n) p1]"
  using assms(3)
proof (induction n)
  case 0
  then show ?case using assms(1,2) by (simp add: ws_beyond)
next
  case (Suc n)
  consider "n < 24" | "24 \<le> n" by linarith
  then show ?case
  proof cases
    case 1
    then have "24 - n = Suc (23 - n)" "drop_bit (47 - n) p1 = 0" "drop_bit (48 - n) p1 = 0"
      using assms(2) by (simp_all add: ws_beyond)
    then show ?thesis using Suc 1 ws_next_bit [of "23 - n" p0]
      by (simp add: ws_collect_snoc ws_bit_def Let_def del: push_bit_of_1 push_bit_Suc)
  next
    case 2
    then have "n div 24 = 1" "48 - n = Suc (47 - n)" using Suc(2) by (simp_all add: div_nat_eqI)
    then show ?thesis using Suc 2 ws_next_bit [of "47 - n" p1]
      by (simp add: ws_collect_snoc ws_bit_def Let_def del: push_bit_of_1 push_bit_Suc)
  qed
qed

section \<open>The whole program\<close>

lemma ws_starts:
  assumes "solo_rel v b h \<lparr>so_sm = loaded_sm v ws_config p, so_levels = 0, so_count = 0\<rparr>"
    and "ws_code mem p" "ws_settings p"
  shows "solo_rel v b (ws_setup v b p h) (ws_at v p fresh_fifo 0 False 0 32 False 0 0 False 0)"
proof -
  note r = alone.rel_enable [OF alone.rel_pindirs [OF alone.rel_apply_config [OF assms(1), of p], of WS_PIN 1 True], of True]
  show ?thesis
    using r assms(2,3) unfolding ws_setup_def Let_def ws_code_def ws_settings_def
    by (simp add: ws_at_def ws_sm_def loaded_sm_eq ws_config_def sm_config_set_out_shift_def
        sm_config_set_sideset_pins_def config_eval solo_upd_def solo_latch_def
        set_pindir_bit_def solo_pin_def bit64_def overlay_config_def Let_def live_config_def
        sm_set_config_def apply_fifo_join_def fifo_join_switch_def fresh_fifo_def)
qed

lemma ws_setup_keeps: "pio_insn (st_blk (ws_setup v b p h) b) = pio_insn (st_blk h b)"
  by (simp add: ws_setup_def Let_def pio_sim_sm_set_enabled_def pio_sim_sm_set_consecutive_pindirs_def)
     (simp add: upd_blk_def pio_asm_apply_program_config_def pio_sim_sm_set_config_def blk_upd_sm_def)

definition ws_tx :: "u32 \<Rightarrow> u32 \<Rightarrow> pio_fifo_t" where
  "ws_tx p0 p1 = fst (fifo_push (fst (fifo_push fresh_fifo (push_bit 8 p0))) (push_bit 8 p1))"

lemma ws_tx_words: "ws_fifo (ws_tx p0 p1) p0 p1"
  by (simp add: ws_fifo_def ws_tx_def fifo_push_def fifo_pop_def fresh_fifo_def word_le_nat_alt)

lemma ws_queued:
  assumes "solo_rel v b h (ws_at v p fresh_fifo 0 False 0 32 False 0 0 False 0)"
  obtains h' where "ws_queue b [p0, p1] h = Some h'" "solo_rel v b h' (ws_ready v p (ws_tx p0 p1) p0 p1 0)"
    "pio_insn (st_blk h' b) = pio_insn (st_blk h b)"
proof -
  let ?put = "\<lambda>w h. upd_blk b (\<lambda>q. fst (pio_sim_sm_put 0 w q)) h"
  define h1 where "h1 = ?put (push_bit 8 p0) h"
  define h2 where "h2 = ?put (push_bit 8 p1) h1"
  note tx = ws_at_def ws_sm_def loaded_sm_eq ws_config_def sm_config_set_out_shift_def sm_config_set_sideset_pins_def
    config_eval sm_put_eq solo_upd_def
  have "snd (pio_sim_sm_put 0 (push_bit 8 p0) (st_blk h b))"
    using alone.rel_put(2) [OF assms, of "push_bit 8 p0"] by (simp add: tx) (simp add: fresh_fifo_def)
  moreover have r1: "solo_rel v b h1 (ws_at v p (fst (fifo_push fresh_fifo (push_bit 8 p0))) 0 False 0 32 False 0 0 False 0)"
    using alone.rel_put(1) [OF assms, of "push_bit 8 p0"] unfolding h1_def by (simp add: tx) (simp add: fresh_fifo_def)
  moreover have "snd (pio_sim_sm_put 0 (push_bit 8 p1) (st_blk h1 b))"
    using alone.rel_put(2) [OF r1, of "push_bit 8 p1"] by (simp add: tx) (simp add: fresh_fifo_def fifo_push_def word_le_nat_alt)
  moreover have "solo_rel v b h2 (ws_ready v p (ws_tx p0 p1) p0 p1 0)"
    using alone.rel_put(1) [OF r1, of "push_bit 8 p1"] unfolding h2_def ws_ready_def ws_tx_def
    by (simp add: tx) (simp add: fresh_fifo_def fifo_push_def word_le_nat_alt)
  moreover have "pio_insn (st_blk h2 b) = pio_insn (st_blk h b)"
    by (simp add: h2_def h1_def pio_sim_sm_put_def upd_blk_state)
  ultimately show thesis by (intro that [of h2]) (simp_all add: h1_def h2_def)
qed

text \<open>
  C16: The WS2812 example.  Its source assembles and loads; whatever the two pixels of 24 bits are, the wire carries 48 pulses of
  10 ticks, high for 7 ticks for a set bit and for 2 for a clear one, the second pixel following the first
  without a gap; \<open>main\<close> measures the pulses, recovers both pixels, and exits with 0 on both chips.
\<close>

theorem ws_main_succeeds:
  assumes "p0 < 2 ^ 24" "p1 < 2 ^ 24"
  shows "ws_main_on p0 p1 strtod v dev b h = Some 0"
proof -
  obtain p where p: "pio_asm_assemble strtod v WS_SRC None = (True, p)" "pg_count p = 4"
    "ws_code (pg_insns p) p" "ws_settings p"
    using ws_assembles [where strtod = strtod and v = v] by blast
  obtain h1 where h1: "ws_main_on p0 p1 strtod v dev b h = ws_run [p0, p1] v dev b p h1"
    "solo_rel v b h1 \<lparr>so_sm = loaded_sm v ws_config p, so_levels = 0, so_count = 0\<rparr>"
    "\<And>i. i < unat (pg_count p) \<Longrightarrow> pio_insn (st_blk h1 b) i = pg_insns p i"
    unfolding ws_main_on_def
    by (rule with_program_starts [OF p(1), where b = b and rest = "ws_run [p0, p1] v dev b" and h = h]) blast
  obtain h2 where h2: "ws_queue b [p0, p1] (ws_setup v b p h1) = Some h2"
    "solo_rel v b h2 (ws_ready v p (ws_tx p0 p1) p0 p1 0)" "pio_insn (st_blk h2 b) = pio_insn (st_blk (ws_setup v b p h1) b)"
    using ws_queued [OF ws_starts [OF h1(2) p(3,4)]] by blast
  have code: "ws_code (pio_insn (st_blk h2 b)) p" using h1(3) p(2,3) h2(3) by (simp add: ws_code_def ws_setup_keeps)
  let ?pulses = "concat (map (\<lambda>j. ws_pulse (ws_bit p0 p1 j)) [0..<48])"
  have len: "length (concat (map (\<lambda>j. ws_pulse (ws_bit p0 p1 j)) [0..<n])) = 10 * n" for n
    by (induction n) (simp_all add: ws_pulse_def)
  obtain m where m: "wave v (pio_insn (st_blk h2 b)) (unat WS_PIN) (?pulses @ replicate 40 False) (ws_ready v p (ws_tx p0 p1) p0 p1 0) m"
    using ws_waveform [OF code ws_tx_words, where v = v and k = 40] by auto
  have "unat WS_PIN < PIO_SIM_NUM_PINS v" by (cases v) (simp_all add: PIO_SIM_NUM_PINS_def)
  from wave_samples [OF h2(2) m this, where dev = dev]
  have "fst (sample_pin v dev b WS_PIN 520 h2) = map of_bool ?pulses @ replicate 40 0" by (simp add: len)
  moreover have "?pulses = concat (map ws_pulse (map (ws_bit p0 p1) [0..<48]))" by (simp add: o_def)
  moreover have "ws_decode 48 (map of_bool (concat (map ws_pulse (map (ws_bit p0 p1) [0..<48]))) @ replicate 40 0) 0 [0, 0] = (48, [p0, p1])"
    using ws_decode_pulses [of 0 "map (ws_bit p0 p1) [0..<48]" 48 "replicate 40 0"] ws_collect_pixels [OF assms, of 48]
    by (simp add: ws_decode_done del: map_map)
  ultimately show ?thesis by (simp add: h1(1) h2(1) ws_run_def Let_def del: map_map ws_queue.simps)
qed

theorem ws_main_succeeds_witness: "ws_main (\<lambda>s. (Not_a_number, s)) RP2040 (\<lambda>_ _ _ h. h) 0 store_zero = Some 0"
  unfolding ws_main_def by (rule ws_main_succeeds) simp_all

end
