(* ===== verification/Pio_Feed.thy ===== *)
theory Pio_Feed
  imports Pio_Solo Pio_Channel
begin

text \<open>
  A state machine whose TX FIFO is filled from memory by a DMA channel.  The pair of a \<open>solo_t\<close> and the words that are still
  in memory is a machine of its own: after each tick it moves a word if there is one and the FIFO has room.  A block and a
  controller whose channel 0 does this, paced by the data request of the FIFO, implement it.
\<close>

section \<open>The abstract machine\<close>

type_synonym fed_t = "solo_t \<times> u32 list"

definition fed_move :: "fed_t \<Rightarrow> fed_t" where
  "fed_move f = (case f of (m, []) \<Rightarrow> (m, [])
     | (m, w # ws) \<Rightarrow> if f_count (sm_tx (so_sm m)) < f_cap (sm_tx (so_sm m))
                     then (solo_upd (\<lambda>s. fst (sm_put w s)) m, ws) else (m, w # ws))"

definition fed_tick :: "pio_version \<Rightarrow> (nat \<Rightarrow> u16) \<Rightarrow> fed_t \<Rightarrow> fed_t option" where
  "fed_tick v mem f = map_option (\<lambda>m. fed_move (m, snd f)) (solo_tick v mem (fst f))"

section \<open>Transfers of a plain channel\<close>

text \<open>A word is its four bytes.\<close>

lemma bytes_equal:
  assumes "\<And>k. k < 4 \<Longrightarrow> byte_at x k = byte_at y k"
  shows "x = y"
proof (rule bit_word_eqI)
  fix n assume "n < LENGTH(32)"
  then have "bit (byte_at x (n div 8)) (n mod 8) = bit (byte_at y (n div 8)) (n mod 8)" using assms [of "n div 8"] by simp
  moreover have "8 * (n div 8) + n mod 8 = n" by simp
  ultimately show "bit x n = bit y n" by (simp add: byte_at_def bit_ucast_iff bit_drop_bit_eq)
qed

text \<open>
  A channel without callback, chain and pacing timer: a transfer moves the element, advances the addresses, and the channel
  is busy until its count is used up.
\<close>

lemma plain_transfer:
  fixes v cb c w
  defines "ch \<equiv> d_ch (w_dma w) c"
  assumes "w_dma (move_element c w) = w_dma w" "c < PIO_SIM_DMA_NUM_CHANNELS v" "ch_busy ch" "ch_on_complete ch = None"
    and "unat (dc_chain_to (ch_ctrl ch)) = c" "\<not> dc_irq_quiet (ch_ctrl ch)" "treq_timer (dc_treq_sel (ch_ctrl ch)) = None"
    and "dc_ring_size (ch_ctrl ch) = 0" "dc_data_size (ch_ctrl ch) = DMA_SIZE_32"
  obtains i where "dma_transfer_one v cb c w = (move_element c w)
    \<lparr>w_dma := (upd_ch c (\<lambda>ch. ch\<lparr>ch_read_addr := dma_advance (dc_incr_read (ch_ctrl ch)) 0 False 4 (ch_read_addr ch),
        ch_write_addr := dma_advance (dc_incr_write (ch_ctrl ch)) 0 False 4 (ch_write_addr ch),
        ch_trans_count := ch_trans_count ch - 1, ch_busy := ch_trans_count ch \<noteq> 1\<rparr>) (w_dma w))\<lparr>d_intr := i\<rparr>\<rparr>"
proof -
  define w1 where "w1 = move_element c w"
  have ring: "dma_advance x 0 True n a = dma_advance x 0 False n a" for x n a by (simp add: dma_advance_def)
  have four: "elem_bytes DMA_SIZE_32 = 4" by (simp add: elem_bytes_def)
  define w2 where "w2 = upd_dma (upd_ch c (\<lambda>ch. ch\<lparr>ch_read_addr := dma_advance (dc_incr_read (ch_ctrl ch)) 0 False 4 (ch_read_addr ch),
      ch_write_addr := dma_advance (dc_incr_write (ch_ctrl ch)) 0 False 4 (ch_write_addr ch),
      ch_trans_count := ch_trans_count ch - 1\<rparr>)) w1"
  have d1: "w_dma w1 = w_dma w" using assms(2) by (simp add: w1_def)
  have adv: "upd_dma (advance_channel c) w1 = w2"
    using assms(8,9,10) by (cases "dc_ring_sel (ch_ctrl ch)") (simp_all add: w2_def upd_dma_def d1 advance_channel_def upd_ch_def ch_def [symmetric] four ring Let_def)
  have ch2: "d_ch (w_dma w2) c = ch\<lparr>ch_read_addr := dma_advance (dc_incr_read (ch_ctrl ch)) 0 False 4 (ch_read_addr ch),
      ch_write_addr := dma_advance (dc_incr_write (ch_ctrl ch)) 0 False 4 (ch_write_addr ch), ch_trans_count := ch_trans_count ch - 1\<rparr>"
    by (simp add: w2_def upd_dma_def upd_ch_def d1 ch_def)
  have i: "CH_IDX v (of_nat c) = c" by (rule CH_IDX_of_nat [OF assms(3)])
  show thesis
  proof (cases "ch_trans_count ch = 1")
    case True
    have "complete_channel v cb c w2 =
        upd_dma (\<lambda>d. d\<lparr>d_intr := d_intr d OR push_bit c 1\<rparr>) (upd_dma (upd_ch c (\<lambda>ch. ch\<lparr>ch_busy := False\<rparr>)) w2)"
      using assms(5-7) raise_irq_no_callback [of "upd_dma (upd_ch c (\<lambda>ch. ch\<lparr>ch_busy := False\<rparr>)) w2" v "of_nat c" cb]
      by (simp add: complete_channel_def Let_def i) (simp add: upd_dma_def upd_ch_def ch2)
    then have "dma_transfer_one v cb c w =
        upd_dma (\<lambda>d. d\<lparr>d_intr := d_intr d OR push_bit c 1\<rparr>) (upd_dma (upd_ch c (\<lambda>ch. ch\<lparr>ch_busy := False\<rparr>)) w2)"
      using True by (simp add: dma_transfer_one_def Let_def w1_def [symmetric] adv ch2)
    then show thesis
      using that True by (simp add: w2_def upd_dma_def upd_ch_def d1 w1_def [symmetric] ch_def)
  next
    case False
    then have "dma_transfer_one v cb c w = w2"
      by (simp add: dma_transfer_one_def Let_def w1_def [symmetric] adv ch2)
    moreover have "ch\<lparr>ch_read_addr := r, ch_write_addr := a, ch_trans_count := n, ch_busy := True\<rparr> =
        ch\<lparr>ch_read_addr := r, ch_write_addr := a, ch_trans_count := n\<rparr>" for r a n
      using assms(4) by (cases ch) simp
    ultimately show thesis
      using that [of "d_intr (w_dma w)"] False by (simp add: w2_def upd_dma_def upd_ch_def d1 w1_def [symmetric] ch_def)
  qed
qed

section \<open>The channel\<close>

text \<open>
  Channel 0 moves the words \<open>ws\<close> that stand in memory from its read address on to the TX FIFO of state machine 0 of the
  block in slot 0, which is \<open>b\<close>; in a controller that is feeding only, no other channel is busy.
\<close>

definition feeder :: "pio_version \<Rightarrow> nat \<Rightarrow> u32 list \<Rightarrow> dma_world \<Rightarrow> bool" where
  "feeder v b ws w \<longleftrightarrow>
     (let d = w_dma w; ch = d_ch d 0
      in 0 < d_pio_count d \<and> d_pio d 0 = Some b \<and> \<not> sn_en (d_sniff d) \<and>
         ch_ctrl ch = channel_config_set_dreq 0 (pio_dma_channel_get_default_config v 0) \<and>
         ch_en ch \<and> (ch_busy ch \<longleftrightarrow> ws \<noteq> []) \<and> ch_on_complete ch = None \<and> unat (ch_trans_count ch) = length ws \<and>
         ch_write_addr ch = pio_dma_addr_txf 0 0 \<and> a_kind (ch_read_addr ch) = PIO_DMA_ADDR_MEM \<and>
         (\<forall>i < length ws. a_mem (ch_read_addr ch) + of_nat (4 * i) \<noteq> 0 \<and>
            mem_load (w_mem w) (a_mem (ch_read_addr ch) + of_nat (4 * i)) 4 = ws ! i))"

definition feeding :: "pio_version \<Rightarrow> nat \<Rightarrow> u32 list \<Rightarrow> dma_world \<Rightarrow> bool" where
  "feeding v b ws w \<longleftrightarrow> feeder v b ws w \<and> (\<forall>c < PIO_SIM_DMA_NUM_CHANNELS v. 0 < c \<longrightarrow> \<not> ch_busy (d_ch (w_dma w) c))"

lemma feeding_busy: "feeding v b ws w \<Longrightarrow> pio_dma_channel_is_busy v (w_dma w) 0 \<longleftrightarrow> ws \<noteq> []"
  by (simp add: feeding_def feeder_def Let_def pio_dma_channel_is_busy_def CH_IDX_def)

lemma feeder_store: "feeder v b ws (w\<lparr>w_store := h\<rparr>) = feeder v b ws w"
  by (simp add: feeder_def)

lemma feeder_timers: "feeder v b ws (upd_dma dma_timers_tick w) = feeder v b ws w"
  by (simp add: feeder_def Let_def upd_dma_def dma_timers_tick_def)

lemma feeder_seat: "feeder v b ws (upd_dma (\<lambda>d. d\<lparr>d_rr_next := r\<rparr>) w) = feeder v b ws w"
  by (simp add: feeder_def Let_def upd_dma_def)

lemma feeding_frames:
  "feeding v b ws (w\<lparr>w_store := h\<rparr>) = feeding v b ws w"
  "feeding v b ws (upd_dma dma_timers_tick w) = feeding v b ws w"
  "feeding v b ws (upd_dma (\<lambda>d. d\<lparr>d_rr_next := r\<rparr>) w) = feeding v b ws w"
  unfolding feeding_def feeder_store feeder_timers feeder_seat by (simp_all add: upd_dma_def dma_timers_tick_def)

abbreviation tx_room :: "pio_store \<Rightarrow> nat \<Rightarrow> bool" where
  "tx_room h b \<equiv> f_count (sm_tx (the_sm h b 0)) < f_cap (sm_tx (the_sm h b 0))"

lemma feeder_ready:
  assumes "feeder v b ws w"
  shows "dma_channel_ready w 0 \<longleftrightarrow> ws \<noteq> [] \<and> tx_room (w_store w) b"
proof -
  have "\<not> (4 :: u8) \<le> 0" "(0 :: u8) \<noteq> 63" by simp_all
  then show ?thesis
    using assms spec [of "\<lambda>i. i < length ws \<longrightarrow> a_mem (ch_read_addr (d_ch (w_dma w) 0)) + of_nat (4 * i) \<noteq> 0" 0]
    by (auto simp: feeder_def Let_def dma_channel_ready_def dma_treq_ready_def dma_endpoints_ready_def treq_timer_def
        dma_pio_def pio_dma_addr_txf_def channel_config_set_dreq_def pio_sim_sm_is_dreq_tx_def
        pio_sim_sm_is_tx_fifo_full_def the_sm_def [symmetric] not_le)
qed

lemma num_channels_pos: "1 < PIO_SIM_DMA_NUM_CHANNELS v"
  by (cases v) (simp_all add: PIO_SIM_DMA_NUM_CHANNELS_def)

text \<open>The arbiter serves the channel that alone is ready.\<close>

lemma pick_only:
  assumes "c < PIO_SIM_DMA_NUM_CHANNELS v" "\<And>c'. c' < PIO_SIM_DMA_NUM_CHANNELS v \<Longrightarrow> dma_channel_ready w c' \<Longrightarrow> c' = c"
  shows "dma_pick v w = (if dma_channel_ready w c then Some c else None)"
  using pick_None [of v w] pick_Some(1,2) [of v w] assms by (cases "dma_pick v w") auto

lemma feeding_pick:
  assumes "feeding v b ws w"
  shows "dma_pick v w = (if ws \<noteq> [] \<and> tx_room (w_store w) b then Some 0 else None)"
proof -
  have f: "feeder v b ws w" using assms by (simp add: feeding_def)
  have "c = 0" if "c < PIO_SIM_DMA_NUM_CHANNELS v" "dma_channel_ready w c" for c
    using assms that by (auto simp: feeding_def dma_channel_ready_def Let_def)
  then show ?thesis
    using pick_only [of 0 v w] num_channels_pos [of v] feeder_ready [OF f] by simp
qed

text \<open>One transfer.\<close>

lemma feeder_move:
  assumes "feeder v b (x # xs) w"
  shows "move_element 0 w = w\<lparr>w_store := upd_blk b (\<lambda>p. fst (pio_sim_sm_put 0 x p)) (w_store w)\<rparr>"
proof -
  have "mem_load (w_mem w) (a_mem (ch_read_addr (d_ch (w_dma w) 0))) 4 = x" using assms by (auto simp: feeder_def Let_def)
  then show ?thesis
    using assms by (simp add: feeder_def Let_def move_element_def read_element_def write_element_def elem_bytes_def
        channel_config_set_dreq_def pio_dma_channel_get_default_config_def pio_dma_addr_txf_def)
qed

text \<open>What a transfer of channel \<open>c\<close> leaves alone in the controller.\<close>

definition others_kept :: "nat \<Rightarrow> pio_dma_t \<Rightarrow> pio_dma_t \<Rightarrow> bool" where
  "others_kept c d d' \<longleftrightarrow> (\<forall>i. i \<noteq> c \<longrightarrow> d_ch d' i = d_ch d i) \<and> d_pio d' = d_pio d \<and> d_pio_count d' = d_pio_count d \<and>
     d_sniff d' = d_sniff d"

lemma feeder_transfer:
  fixes v cb b x xs w
  assumes "feeder v b (x # xs) w"
  defines "w' \<equiv> dma_transfer_one v cb 0 w"
  shows "w_store w' = upd_blk b (\<lambda>p. fst (pio_sim_sm_put 0 x p)) (w_store w)" "w_mem w' = w_mem w"
    "feeder v b xs w'" "others_kept 0 (w_dma w) (w_dma w')"
proof -
  let ?ch = "d_ch (w_dma w) 0"
  let ?r = "ch_read_addr ?ch"
  have ch: "ch_ctrl ?ch = channel_config_set_dreq 0 (pio_dma_channel_get_default_config v 0)" "ch_busy ?ch"
    "ch_on_complete ?ch = None" "unat (ch_trans_count ?ch) = Suc (length xs)" "a_kind ?r = PIO_DMA_ADDR_MEM"
    using assms(1) by (simp_all add: feeder_def Let_def)
  have i: "CH_IDX v 0 = 0" by (simp add: CH_IDX_def)
  obtain k where w': "w' = (move_element 0 w)
    \<lparr>w_dma := (upd_ch 0 (\<lambda>ch. ch\<lparr>ch_read_addr := dma_advance (dc_incr_read (ch_ctrl ch)) 0 False 4 (ch_read_addr ch),
        ch_write_addr := dma_advance (dc_incr_write (ch_ctrl ch)) 0 False 4 (ch_write_addr ch),
        ch_trans_count := ch_trans_count ch - 1, ch_busy := ch_trans_count ch \<noteq> 1\<rparr>) (w_dma w))\<lparr>d_intr := k\<rparr>\<rparr>"
    unfolding w'_def
  proof (rule plain_transfer [of 0 w v cb])
    show "w_dma (move_element 0 w) = w_dma w" by (simp add: feeder_move [OF assms(1)])
  qed (use ch num_channels_pos [of v] in \<open>simp_all add: channel_config_set_dreq_def pio_dma_channel_get_default_config_def
      treq_timer_def i\<close>)
  have cnt: "unat (ch_trans_count ?ch - 1) = length xs" "ch_trans_count ?ch \<noteq> 1 \<longleftrightarrow> xs \<noteq> []"
  proof -
    have "ch_trans_count ?ch \<noteq> 0" using ch(4) by auto
    then show "unat (ch_trans_count ?ch - 1) = length xs" using ch(4) by (simp add: unat_pred_pos)
    have "ch_trans_count ?ch = 1 \<longleftrightarrow> unat (ch_trans_count ?ch) = unat (1 :: u32)" by (simp only: word_unat_eq_iff)
    then show "ch_trans_count ?ch \<noteq> 1 \<longleftrightarrow> xs \<noteq> []" using ch(4) by simp
  qed
  have words: "\<forall>i < length xs. a_mem ?r + 4 + of_nat (4 * i) \<noteq> 0 \<and> mem_load (w_mem w) (a_mem ?r + 4 + of_nat (4 * i)) 4 = xs ! i"
  proof (intro allI impI)
    fix i assume "i < length xs"
    then have "a_mem ?r + of_nat (4 * Suc i) \<noteq> 0 \<and> mem_load (w_mem w) (a_mem ?r + of_nat (4 * Suc i)) 4 = (x # xs) ! Suc i"
      using assms(1) unfolding feeder_def Let_def by (metis Suc_less_eq length_Cons)
    then show "a_mem ?r + 4 + of_nat (4 * i) \<noteq> 0 \<and> mem_load (w_mem w) (a_mem ?r + 4 + of_nat (4 * i)) 4 = xs ! i"
      by (simp add: algebra_simps)
  qed
  show "w_store w' = upd_blk b (\<lambda>p. fst (pio_sim_sm_put 0 x p)) (w_store w)" "w_mem w' = w_mem w"
    "others_kept 0 (w_dma w) (w_dma w')"
    by (simp_all add: w' feeder_move [OF assms(1)] upd_ch_def others_kept_def)
  show "feeder v b xs w'"
    using assms(1) cnt words
    by (simp add: feeder_def Let_def w' feeder_move [OF assms(1)] upd_ch_def dma_advance_def pio_dma_addr_txf_def
        channel_config_set_dreq_def pio_dma_channel_get_default_config_def)
qed

lemma feeding_transfer:
  assumes "feeding v b (x # xs) w"
  shows "w_store (dma_transfer_one v cb 0 w) = upd_blk b (\<lambda>p. fst (pio_sim_sm_put 0 x p)) (w_store w)"
    "feeding v b xs (dma_transfer_one v cb 0 w)"
  using feeder_transfer [of v b x xs w cb] assms by (simp_all add: feeding_def others_kept_def)

section \<open>The refinement\<close>

text \<open>One system cycle of the host: a tick of the block, then one of the controller.\<close>

definition fed_cycle :: "pio_version \<Rightarrow> device \<Rightarrow> dma_callback \<Rightarrow> nat \<Rightarrow> dma_world \<Rightarrow> dma_world" where
  "fed_cycle v dev cb b w = fst (pio_dma_tick v cb (w\<lparr>w_store := pio_sim_tick v dev b (w_store w)\<rparr>))"

definition fed_rel :: "pio_version \<Rightarrow> nat \<Rightarrow> dma_world \<Rightarrow> fed_t \<Rightarrow> bool" where
  "fed_rel v b w f \<longleftrightarrow> solo_rel v b (w_store w) (fst f) \<and> feeding v b (snd f) w"

lemma fed_dma_tick:
  fixes v cb b ws w m
  assumes "feeding v b ws w" "solo_rel v b (w_store w) m"
  defines "w' \<equiv> fst (pio_dma_tick v cb w)"
  shows "fed_rel v b w' (fed_move (m, ws))" "pio_insn (st_blk (w_store w') b) = pio_insn (st_blk (w_store w) b)"
    "get_pads (w_store w') (Embedded b) = get_pads (w_store w) (Embedded b)"
proof -
  let ?t = "upd_dma dma_timers_tick w"
  have t: "feeding v b ws ?t" using assms(1) by (simp add: feeding_frames)
  have room: "tx_room (w_store ?t) b \<longleftrightarrow> f_count (sm_tx (so_sm m)) < f_cap (sm_tx (so_sm m))" using rel_sm [OF assms(2)] by simp
  have "fed_rel v b w' (fed_move (m, ws)) \<and> pio_insn (st_blk (w_store w') b) = pio_insn (st_blk (w_store w) b) \<and>
    get_pads (w_store w') (Embedded b) = get_pads (w_store w) (Embedded b)"
  proof (cases "ws \<noteq> [] \<and> tx_room (w_store ?t) b")
    case True
    then obtain x xs where x: "ws = x # xs" by (cases ws) auto
    let ?r = "of_nat ((0 + 1) mod PIO_SIM_DMA_NUM_CHANNELS v)"
    have w': "w' = upd_dma (\<lambda>d. d\<lparr>d_rr_next := ?r\<rparr>) (dma_transfer_one v cb 0 ?t)"
      using feeding_pick [OF t] True by (simp add: w'_def pio_dma_tick_def)
    have "w_store w' = upd_blk b (\<lambda>p. fst (pio_sim_sm_put 0 x p)) (w_store w)" "feeding v b xs w'"
      using feeding_transfer [OF t [unfolded x], of cb] by (simp_all add: w' feeding_frames)
    then show ?thesis
      using True room alone.rel_put(1) [OF assms(2)] by (simp add: x fed_rel_def fed_move_def pio_sim_sm_put_def upd_blk_state)
  next
    case False
    then have "w' = ?t" using feeding_pick [OF t] by (auto simp: w'_def pio_dma_tick_def)
    moreover have "fed_move (m, ws) = (m, ws)" using False room by (cases ws) (auto simp: fed_move_def)
    ultimately show ?thesis using t assms(2) by (simp add: fed_rel_def)
  qed
  then show "fed_rel v b w' (fed_move (m, ws))" "pio_insn (st_blk (w_store w') b) = pio_insn (st_blk (w_store w) b)"
    "get_pads (w_store w') (Embedded b) = get_pads (w_store w) (Embedded b)" by simp_all
qed

lemma fed_tick_rel:
  fixes v dev cb b w f f'
  assumes "fed_rel v b w f" "fed_tick v (pio_insn (st_blk (w_store w) b)) f = Some f'"
  defines "w' \<equiv> fed_cycle v dev cb b w"
  shows "fed_rel v b w' f'" "pio_insn (st_blk (w_store w') b) = pio_insn (st_blk (w_store w) b)"
    "solo_output (unat pin) (fst f') \<Longrightarrow> unat pin < PIO_SIM_NUM_PINS v \<Longrightarrow>
      pio_sim_get_pin v b (w_store w') pin = bit (so_levels (fst f')) (unat pin)"
proof -
  obtain m1 where m1: "solo_tick v (pio_insn (st_blk (w_store w) b)) (fst f) = Some m1" "f' = fed_move (m1, snd f)"
    using assms(2) by (auto simp: fed_tick_def)
  have r: "solo_rel v b (w_store w) (fst f)" "feeding v b (snd f) w" using assms(1) by (simp_all add: fed_rel_def)
  let ?w1 = "w\<lparr>w_store := pio_sim_tick v dev b (w_store w)\<rparr>"
  note t = rel_tick [OF r(1) m1(1), where dev = dev]
  have "feeding v b (snd f) ?w1" "solo_rel v b (w_store ?w1) m1" using r(2) t by (simp_all add: feeding_frames)
  note d = fed_dma_tick [OF this, of cb, folded fed_cycle_def w'_def]
  show rel: "fed_rel v b w' f'" using d(1) by (simp add: m1(2) w'_def fed_cycle_def)
  show "pio_insn (st_blk (w_store w') b) = pio_insn (st_blk (w_store w) b)"
    using d(2) t by (simp add: w'_def fed_cycle_def)
  have "sm_out_pin_oe (so_sm (fst f')) = sm_out_pin_oe (so_sm m1)" "sm_dir_driven (so_sm (fst f')) = sm_dir_driven (so_sm m1)"
    unfolding m1(2) fed_move_def by (auto simp: solo_upd_def sm_put_eq split: list.split)
  then have "p_pin_dirs (get_pads (w_store w') (Embedded b)) = sm_out_pin_oe (so_sm (fst f')) AND sm_dir_driven (so_sm (fst f'))"
    using d(3) t by (simp add: w'_def fed_cycle_def)
  then show "pio_sim_get_pin v b (w_store w') pin = bit (so_levels (fst f')) (unat pin)"
    if "solo_output (unat pin) (fst f')" "unat pin < PIO_SIM_NUM_PINS v"
    using rel_pin [OF _ _ that] rel by (simp add: fed_rel_def)
qed

section \<open>Starting the channel\<close>

text \<open>A channel that is configured and triggered, with 32-bit elements and no callback.\<close>

lemma configure_plain:
  assumes "c < PIO_SIM_DMA_NUM_CHANNELS v" "ch_on_complete (d_ch (w_dma w) c) = None" "n \<noteq> 0" "dc_data_size ctrl = DMA_SIZE_32"
  shows "pio_dma_channel_configure v cb (of_nat c) ctrl wr rd n True w =
    upd_dma (upd_ch c (\<lambda>ch. ch\<lparr>ch_ctrl := ctrl, ch_write_addr := wr, ch_read_addr := rd, ch_trans_count_reload := n, ch_en := True,
      ch_trans_count := n, ch_busy := True\<rparr>)) w"
proof -
  let ?w = "upd_dma (upd_ch c (\<lambda>ch. ch\<lparr>ch_ctrl := ctrl, ch_write_addr := wr, ch_read_addr := rd, ch_trans_count_reload := n, ch_en := True\<rparr>)) w"
  have [simp]: "ctrl\<lparr>dc_data_size := DMA_SIZE_32\<rparr> = ctrl" using assms(4) by (cases ctrl) simp
  have "pio_dma_channel_configure v cb (of_nat c) ctrl wr rd n True w = pio_dma_start_channel_mask v cb (push_bit c 1) ?w"
    by (simp add: pio_dma_channel_configure_def CH_IDX_of_nat [OF assms(1)] assms(4) Let_def)
  then show ?thesis
    using start_no_callback [OF assms(1), of ?w cb] assms(2,3) by (simp add: upd_dma_def upd_ch_def)
qed

lemma feeder_configured:
  fixes v b ws w0 a cb n
  assumes "unat n = length ws" "ws \<noteq> []"
    and "\<And>i. i < length ws \<Longrightarrow> a + of_nat (4 * i) \<noteq> 0 \<and> mem_load (w_mem w0) (a + of_nat (4 * i)) 4 = ws ! i"
    and "0 < d_pio_count (w_dma w0)" "d_pio (w_dma w0) 0 = Some b" "\<not> sn_en (d_sniff (w_dma w0))"
    and "ch_on_complete (d_ch (w_dma w0) 0) = None"
  defines "w \<equiv> pio_dma_channel_configure v cb 0 (channel_config_set_dreq 0 (pio_dma_channel_get_default_config v 0))
     (pio_dma_addr_txf 0 0) (pio_dma_addr_mem a) n True w0"
  shows "feeder v b ws w" "w_store w = w_store w0" "w_mem w = w_mem w0" "others_kept 0 (w_dma w0) (w_dma w)"
proof -
  let ?ctrl = "channel_config_set_dreq 0 (pio_dma_channel_get_default_config v 0)"
  have n: "0 < PIO_SIM_DMA_NUM_CHANNELS v" "n \<noteq> 0" using num_channels_pos [of v] assms(1,2) by auto
  have "dc_data_size ?ctrl = DMA_SIZE_32" by (simp add: channel_config_set_dreq_def pio_dma_channel_get_default_config_def)
  from configure_plain [where cb = cb, OF n(1) assms(7) n(2) this, of "pio_dma_addr_txf 0 0" "pio_dma_addr_mem a"]
  have w: "w = upd_dma (upd_ch 0 (\<lambda>ch. ch\<lparr>ch_ctrl := ?ctrl, ch_write_addr := pio_dma_addr_txf 0 0, ch_read_addr := pio_dma_addr_mem a,
      ch_trans_count_reload := n, ch_en := True, ch_trans_count := n, ch_busy := True\<rparr>)) w0"
    by (simp add: w_def)
  show "w_store w = w_store w0" "w_mem w = w_mem w0" "others_kept 0 (w_dma w0) (w_dma w)"
    by (simp_all add: w others_kept_def upd_dma_def upd_ch_def)
  show "feeder v b ws w"
    using assms(1-7) by (simp add: w feeder_def Let_def upd_dma_def upd_ch_def pio_dma_addr_mem_def)
qed

lemma feeding_configured:
  fixes v b ws w0 a cb n
  assumes "unat n = length ws" "ws \<noteq> []"
    and "\<And>i. i < length ws \<Longrightarrow> a + of_nat (4 * i) \<noteq> 0 \<and> mem_load (w_mem w0) (a + of_nat (4 * i)) 4 = ws ! i"
    and "w_dma w0 = pio_dma_init v (\<lambda>i. if i = 0 then Some b else None) 1"
  defines "w \<equiv> pio_dma_channel_configure v cb 0 (channel_config_set_dreq 0 (pio_dma_channel_get_default_config v 0))
     (pio_dma_addr_txf 0 0) (pio_dma_addr_mem a) n True w0"
  shows "feeding v b ws w" "w_store w = w_store w0"
proof -
  have "\<not> PIO_SIM_NUM_PIO v < 1" by (cases v) (simp_all add: PIO_SIM_NUM_PIO_def)
  then have d: "0 < d_pio_count (w_dma w0)" "d_pio (w_dma w0) 0 = Some b" "\<not> sn_en (d_sniff (w_dma w0))"
    "\<And>c. ch_on_complete (d_ch (w_dma w0) c) = None" "\<And>c. \<not> ch_busy (d_ch (w_dma w0) c)"
    by (simp_all add: assms(4) pio_dma_init_def dma_zero_def Let_def)
  note f = feeder_configured [OF assms(1-3) d(1-4), of v cb, folded w_def]
  show "w_store w = w_store w0" by (rule f(2))
  show "feeding v b ws w" using f(1,4) d(5) by (simp add: feeding_def others_kept_def)
qed

end
