(* ===== verification/Ex_Spi.thy ===== *)
theory Ex_Spi
  imports Ex_Setup Pio_Feed
begin

text \<open>
  The host program \<open>examples/05_spi_dma.c\<close>: a DMA channel moves a message from memory to the TX FIFO, the state
  machine clocks it out on two pins, and the host samples the data pin at every rising edge of the clock pin until it has
  the whole message.
\<close>

section \<open>The program\<close>

abbreviation (input) DATA_PIN :: u8 where "DATA_PIN \<equiv> 0"
abbreviation (input) CLK_PIN :: u8 where "CLK_PIN \<equiv> 1"
abbreviation (input) MAX_TICKS :: nat where "MAX_TICKS \<equiv> 400"
abbreviation (input) PIO_DMA_DREQ_PIO_TX :: "u8 \<Rightarrow> u8 \<Rightarrow> u8" where "PIO_DMA_DREQ_PIO_TX pio_index sm \<equiv> pio_index * 8 + sm"

definition SPI_SRC :: string where
  "SPI_SRC = lines [''.program spi_tx'', ''.side_set 1'', ''.wrap_target'', ''    out pins, 1 side 0 [1]'',
     ''    nop         side 1 [1]'', ''.wrap'']"

definition spi_config :: pio_sm_config where
  "spi_config = sm_config_set_out_shift False True 8 (sm_config_set_sideset_pins CLK_PIN
     (sm_config_set_out_pins DATA_PIN 1 pio_get_default_sm_config))"

definition spi_setup :: "pio_version \<Rightarrow> nat \<Rightarrow> pio_program_t \<Rightarrow> pio_store \<Rightarrow> pio_store" where
  "spi_setup v b prog h =
     (let h = upd_blk b (pio_asm_apply_program_config v 0 prog) h;
          h = pio_sim_sm_set_consecutive_pindirs v b 0 DATA_PIN 1 True h;
          h = pio_sim_sm_set_consecutive_pindirs v b 0 CLK_PIN 1 True h
      in pio_sim_sm_set_enabled b 0 True h)"

text \<open>The buffer \<open>txbuf\<close> at address \<open>a\<close>: each byte of the message at the top of a word.\<close>

definition spi_buffer :: "u64 \<Rightarrow> u8 list \<Rightarrow> (u64 \<Rightarrow> u8) \<Rightarrow> u64 \<Rightarrow> u8" where
  "spi_buffer a message mem =
     fold (\<lambda>i mem. mem_store (a + of_nat (4 * i)) 4 (push_bit 24 (ucast (message ! i))) mem) [0..<length message] mem"

text \<open>A new controller with the block attached, and its channel 0 set to feed the TX FIFO.\<close>

definition spi_start_dma :: "pio_version \<Rightarrow> dma_callback \<Rightarrow> nat \<Rightarrow> u64 \<Rightarrow> u8 list \<Rightarrow> (u64 \<Rightarrow> u8) \<Rightarrow> pio_store \<Rightarrow> dma_world" where
  "spi_start_dma v cb b a message mem h =
     (let dma = pio_dma_init v (\<lambda>i. if i = 0 then Some b else None) 1;
          mem = spi_buffer a message mem;
          dc = channel_config_set_dreq (PIO_DMA_DREQ_PIO_TX 0 0) (pio_dma_channel_get_default_config v 0)
      in pio_dma_channel_configure v cb 0 dc (pio_dma_addr_txf 0 0) (pio_dma_addr_mem a) (of_nat (length message)) True
           \<lparr>w_store = h, w_mem = mem, w_dma = dma\<rparr>)"

text \<open>
  The bits, the byte in progress (\<open>got\<close>) and the bytes recovered (\<open>recovered\<close> up to \<open>nbytes\<close>); what the loop does with the
  levels of the two pins, given the level of the clock pin one tick ago (none at the first tick).
\<close>

record spi_rx =
  rx_bits :: nat
  rx_got :: u8
  rx_bytes :: "u8 list"

definition spi_sample :: "nat \<Rightarrow> u8 option \<Rightarrow> u8 \<Rightarrow> u8 \<Rightarrow> spi_rx \<Rightarrow> spi_rx" where
  "spi_sample want_bits prev data clk rx =
     (if prev = Some 0 \<and> clk = 1 \<and> rx_bits rx < want_bits
      then let got = push_bit 1 (rx_got rx) OR data; n = rx_bits rx + 1
        in if n mod 8 = 0 then rx\<lparr>rx_bits := n, rx_got := 0, rx_bytes := rx_bytes rx @ [got]\<rparr>
           else rx\<lparr>rx_bits := n, rx_got := got\<rparr>
      else rx)"

text \<open>The loop, with the number of ticks it may still do.\<close>

primrec spi_loop ::
  "pio_version \<Rightarrow> device \<Rightarrow> dma_callback \<Rightarrow> nat \<Rightarrow> nat \<Rightarrow> nat \<Rightarrow> u8 option \<Rightarrow> spi_rx \<Rightarrow> dma_world \<Rightarrow> spi_rx" where
  "spi_loop v dev cb b want_bits 0 prev rx w = rx"
| "spi_loop v dev cb b want_bits (Suc n) prev rx w =
     (let w = w\<lparr>w_store := pio_sim_tick v dev b (w_store w)\<rparr>;
          w = fst (pio_dma_tick v cb w);
          data = (if pio_sim_get_pin v b (w_store w) DATA_PIN then 1 else 0);
          clk = (if pio_sim_get_pin v b (w_store w) CLK_PIN then 1 else 0);
          rx = spi_sample want_bits prev data clk rx
      in if rx_bits rx = want_bits \<and> \<not> pio_dma_channel_is_busy v (w_dma w) 0 then rx
         else spi_loop v dev cb b want_bits n (Some clk) rx w)"

definition spi_run ::
  "u8 list \<Rightarrow> u64 \<Rightarrow> (u64 \<Rightarrow> u8) \<Rightarrow> dma_callback \<Rightarrow> pio_version \<Rightarrow> device \<Rightarrow> nat \<Rightarrow> pio_program_t \<Rightarrow> pio_store \<Rightarrow> int option" where
  "spi_run message a mem cb v dev b prog h =
     (let w = spi_start_dma v cb b a message mem (spi_setup v b prog h);
          rx = spi_loop v dev cb b (length message * 8) MAX_TICKS None \<lparr>rx_bits = 0, rx_got = 0, rx_bytes = []\<rparr> w
      in if length (rx_bytes rx) \<noteq> length message then Some 1
         else if \<exists>i \<in> set [0..<length message]. rx_bytes rx ! i \<noteq> message ! i then Some 1 else Some 0)"

text \<open>\<open>main\<close> with the message, the address of \<open>txbuf\<close> and the memory as arguments.\<close>

definition spi_main_on ::
  "u8 list \<Rightarrow> u64 \<Rightarrow> (u64 \<Rightarrow> u8) \<Rightarrow> dma_callback \<Rightarrow> c_strtod \<Rightarrow> pio_version \<Rightarrow> device \<Rightarrow> nat \<Rightarrow> pio_store \<Rightarrow> int option" where
  "spi_main_on message a mem cb strtod v dev b = with_program strtod v b SPI_SRC spi_config (spi_run message a mem cb v dev b)"

definition spi_main ::
  "u64 \<Rightarrow> (u64 \<Rightarrow> u8) \<Rightarrow> dma_callback \<Rightarrow> c_strtod \<Rightarrow> pio_version \<Rightarrow> device \<Rightarrow> nat \<Rightarrow> pio_store \<Rightarrow> int option" where
  "spi_main = spi_main_on [0xB3, 0x5A, 0xC7, 0x01]"

section \<open>The assembled program\<close>

definition spi_code :: "(nat \<Rightarrow> u16) \<Rightarrow> pio_program_t \<Rightarrow> bool" where
  "spi_code mem p \<longleftrightarrow> mem 0 = 0x6101 \<and> mem 1 = 0xB142 \<and>
     pg_wrap_bottom p = 0 \<and> pg_wrap_top p = 1 \<and> pg_sideset_bits p = 1 \<and> \<not> pg_sideset_opt p \<and> \<not> pg_sideset_pindirs p"

definition spi_settings :: "pio_program_t \<Rightarrow> bool" where
  "spi_settings p \<longleftrightarrow> \<not> pg_has_clock_div p \<and> \<not> pg_has_fifo_join p \<and> \<not> pg_has_mov_status p \<and>
     \<not> sc_set (pg_in_cfg p) \<and> \<not> sc_set (pg_out_cfg p) \<and> \<not> sc_set (pg_set_cfg p)"

lemma spi_assembles:
  obtains p where "pio_asm_assemble strtod v SPI_SRC None = (True, p)" "pg_count p = 2"
    "spi_code (pg_insns p) p" "spi_settings p"
proof -
  let ?asm = "\<lambda>v. case pio_asm_assemble strtod v SPI_SRC None of (ok, p) \<Rightarrow> ok \<and> pg_count p = 2 \<and>
      spi_code (pg_insns p) p \<and> spi_settings p"
  have "?asm RP2040" by code_simp
  moreover have "?asm RP2350" by code_simp
  ultimately have "?asm v" by (cases v) simp_all
  then show thesis using that by (auto split: prod.splits)
qed

section \<open>Single ticks\<close>

definition spi_sm :: "pio_version \<Rightarrow> pio_program_t \<Rightarrow> pio_sm_t" where
  "spi_sm v p = (loaded_sm v spi_config p)\<lparr>sm_out_pin_oe := 3, sm_dir_driven := 3, sm_enabled := True\<rparr>"

definition spi_pins :: "bool \<Rightarrow> bool \<Rightarrow> u64" where
  "spi_pins data clk = (if clk then if data then 3 else 2 else if data then 1 else 0)"

definition spi_at ::
  "pio_version \<Rightarrow> pio_program_t \<Rightarrow> pio_fifo_t \<Rightarrow> u8 \<Rightarrow> u32 \<Rightarrow> u8 \<Rightarrow> bool \<Rightarrow> bool \<Rightarrow> u8 \<Rightarrow> u64 \<Rightarrow> bool \<Rightarrow> u8 \<Rightarrow> nat \<Rightarrow> solo_t" where
  "spi_at v p tx pc osr n data clk d wr st fd c =
     \<lparr>so_sm = (spi_sm v p)\<lparr>sm_pc := pc, sm_osr := osr, sm_osr_count := n, sm_out_pin_val := spi_pins data clk,
        sm_delay := d, sm_wrote_this_cycle := wr, sm_tx := tx, sm_stalled := st, sm_fdebug := fd\<rparr>,
      so_levels = spi_pins data clk, so_count = c\<rparr>"

lemmas spi_eval = merge_def spi_at_def spi_sm_def spi_pins_def loaded_sm_eq spi_config_def sm_config_set_out_shift_def
  sm_config_set_sideset_pins_def sm_config_set_out_pins_def config_eval solo_eval

lemmas spi_out_eval = spi_eval solo_out_def solo_out_store_def operand_count_def osr_shift_val_def osr_shift_out_def osr_refill_def

lemma spi_delay:
  assumes "0 < d" "8 \<le> n \<longrightarrow> f_count tx = 0"
  shows "solo_tick v mem (spi_at v p tx pc osr n data clk d wr st fd c) = Some (spi_at v p tx pc osr n data clk (d - 1) 0 st fd c)"
  using assms by (cases data; cases clk) (simp_all add: spi_eval refill_id del: autopull_refill_def)

lemma spi_delay_refill:
  assumes "0 < d" "8 \<le> n" "fifo_pop tx = (tx', Some w)"
  shows "solo_tick v mem (spi_at v p tx pc osr n data clk d wr st fd c) = Some (spi_at v p tx' pc w 0 data clk (d - 1) 0 st fd c)"
  using assms by (cases data; cases clk) (simp_all add: spi_eval osr_refill_def)

lemma spi_out:
  assumes "spi_code mem p" "n < 8"
  shows "solo_tick v mem (spi_at v p tx 0 osr n data clk 0 wr st fd c) =
    Some (spi_at v p tx 1 (push_bit 1 osr) (n + 1) (bit osr 31) False 1 3 False fd (Suc c))"
proof -
  have "\<not> 8 \<le> n" "\<not> 32 < n + 1" "\<not> (32 :: u8) \<le> 1"
    using assms(2) unat_succ_less [OF assms(2)] by (simp_all add: word_less_nat_alt word_le_nat_alt)
  then show ?thesis
    using assms(1) unfolding spi_code_def
    by (cases data; cases clk; cases "bit osr 31") (simp_all add: spi_out_eval top_bit del: map_option_eq_Some)
qed

lemma spi_out_refill:
  assumes "spi_code mem p" "8 \<le> n" "fifo_pop tx = (tx', Some w)"
  shows "solo_tick v mem (spi_at v p tx 0 osr n data clk 0 wr st fd c) =
    Some (spi_at v p tx' 1 (push_bit 1 w) 1 (bit w 31) False 1 3 False fd (Suc c))"
proof -
  have le: "\<not> (32 :: u8) \<le> 1" by (simp add: word_le_nat_alt)
  show ?thesis
    using assms unfolding spi_code_def
    by (cases data; cases clk; cases "bit w 31") (simp_all add: spi_out_eval top_bit le del: map_option_eq_Some)
qed

lemma spi_stall:
  assumes "spi_code mem p" "8 \<le> n" "f_count tx = 0"
  shows "solo_tick v mem (spi_at v p tx 0 osr n data clk 0 wr st fd c) =
    Some (spi_at v p tx 0 osr n data False 0 2 True (fd OR PIO_FDEBUG_TXSTALL) c)"
  using assms unfolding spi_code_def
  by (cases data; cases clk) (simp_all add: spi_out_eval fifo_pop_def del: map_option_eq_Some)

lemma spi_nop:
  assumes "spi_code mem p" "8 \<le> n \<longrightarrow> f_count tx = 0"
  shows "solo_tick v mem (spi_at v p tx 1 osr n data clk 0 wr st fd c) =
    Some (spi_at v p tx 0 osr n data True 1 2 False fd (Suc c))"
  using assms unfolding spi_code_def
  by (cases data; cases clk)
     (simp_all add: spi_eval refill_id solo_mov_def solo_mov_store_def solo_source_def mov_operation_def
      del: autopull_refill_def map_option_eq_Some)

section \<open>Ticks with the controller\<close>

text \<open>The words still to come, in the FIFO and in memory; after a tick the FIFO is not empty while there are any in memory.\<close>

definition queued :: "u32 list \<Rightarrow> pio_fifo_t \<Rightarrow> u32 list \<Rightarrow> bool" where
  "queued ps tx ws \<longleftrightarrow> fifo_wf tx \<and> f_cap tx = 4 \<and> fifo_words tx @ ws = ps \<and> (ws \<noteq> [] \<longrightarrow> f_count tx \<noteq> 0)"

definition spi_in ::
  "pio_version \<Rightarrow> pio_program_t \<Rightarrow> u8 \<Rightarrow> u32 \<Rightarrow> u8 \<Rightarrow> bool \<Rightarrow> bool \<Rightarrow> u8 \<Rightarrow> u32 list \<Rightarrow> fed_t \<Rightarrow> bool" where
  "spi_in v p pc osr n data clk d ps f \<longleftrightarrow>
     (\<exists>tx ws wr st fd c. f = (spi_at v p tx pc osr n data clk d wr st fd c, ws) \<and> queued ps tx ws)"

lemma spi_move:
  assumes "fifo_wf tx" "f_cap tx = 4" "fifo_words tx @ ws = ps"
  shows "spi_in v p pc osr n data clk d ps (fed_move (spi_at v p tx pc osr n data clk d wr st fd c, ws))"
proof (cases "ws = [] \<or> \<not> f_count tx < f_cap tx")
  case True
  then have "fed_move (spi_at v p tx pc osr n data clk d wr st fd c, ws) = (spi_at v p tx pc osr n data clk d wr st fd c, ws)"
    by (cases ws) (auto simp: fed_move_def spi_at_def)
  moreover have "queued ps tx ws" using assms True by (auto simp: queued_def)
  ultimately show ?thesis unfolding spi_in_def by blast
next
  case False
  then obtain x xs where x: "ws = x # xs" "f_count tx < f_cap tx" by (cases ws) auto
  let ?tx = "fst (fifo_push tx x)"
  have "fed_move (spi_at v p tx pc osr n data clk d wr st fd c, ws) = (spi_at v p ?tx pc osr n data clk d wr st fd c, xs)"
    using x by (simp add: fed_move_def spi_at_def solo_upd_def sm_put_eq)
  moreover have "queued ps ?tx xs"
  proof -
    have w: "fifo_words ?tx = fifo_words tx @ [x]" "fifo_wf ?tx" using fifo_push_room [OF assms(1) x(2)] by simp_all
    then have "f_count ?tx \<noteq> 0" using fifo_words_Nil [of ?tx] by simp
    moreover have "f_cap ?tx = 4" using assms(2) by (simp add: fifo_push_def)
    ultimately show ?thesis using w assms(3) x(1) by (simp add: queued_def)
  qed
  ultimately show ?thesis unfolding spi_in_def by blast
qed

lemma queued_empty: "queued [] tx ws \<Longrightarrow> f_count tx = 0 \<and> ws = []"
  by (auto simp: queued_def)

lemma queued_pop:
  assumes "queued (w # ps) tx ws"
  shows "fifo_pop tx = (fst (fifo_pop tx), Some w)" "fifo_wf (fst (fifo_pop tx))" "f_cap (fst (fifo_pop tx)) = 4"
    "fifo_words (fst (fifo_pop tx)) @ ws = ps"
proof -
  have wf: "fifo_wf tx" and "f_count tx \<noteq> 0"
    using assms fifo_words_Cons_count [of tx w ps] by (auto simp: queued_def)
  then obtain x xs where x: "fifo_words tx = x # xs" by (metis fifo_words_Nil neq_Nil_conv)
  then have e: "x = w" "xs @ ws = ps" using assms by (auto simp: queued_def)
  show "fifo_pop tx = (fst (fifo_pop tx), Some w)" using ring.pop_result [OF wf x] e by (metis prod.collapse)
  show "fifo_words (fst (fifo_pop tx)) @ ws = ps" using ring.pop_contents [OF wf x] e by simp
  show "fifo_wf (fst (fifo_pop tx))" by (rule ring.pop_inv [OF wf])
  show "f_cap (fst (fifo_pop tx)) = 4" using assms by (simp add: queued_def fifo_pop_def)
qed

lemma spi_fed_delay:
  assumes "spi_in v p pc osr n data clk 1 ps f" "n < 8 \<or> ps = []"
  shows "\<exists>f'. fed_tick v mem f = Some f' \<and> spi_in v p pc osr n data clk 0 ps f'"
proof -
  obtain tx ws wr st fd c where f: "f = (spi_at v p tx pc osr n data clk 1 wr st fd c, ws)" "queued ps tx ws"
    using assms(1) by (auto simp: spi_in_def)
  have "8 \<le> n \<longrightarrow> f_count tx = 0" using assms(2) f(2) queued_empty by auto
  from spi_delay [of 1, OF _ this] show ?thesis
    using spi_move [of tx ws ps] f(2) by (simp add: f(1) fed_tick_def queued_def)
qed

lemma spi_fed_refill:
  assumes "spi_in v p pc osr n data clk 1 (w # ps) f" "8 \<le> n"
  shows "\<exists>f'. fed_tick v mem f = Some f' \<and> spi_in v p pc w 0 data clk 0 ps f'"
proof -
  obtain tx ws wr st fd c where f: "f = (spi_at v p tx pc osr n data clk 1 wr st fd c, ws)" "queued (w # ps) tx ws"
    using assms(1) by (auto simp: spi_in_def)
  note q = queued_pop [OF f(2)]
  from spi_delay_refill [of 1, OF _ assms(2) q(1)] show ?thesis
    using spi_move [OF q(2-4)] by (simp add: f(1) fed_tick_def)
qed

lemma spi_fed_out:
  assumes "spi_code mem p" "spi_in v p 0 osr n data clk 0 ps f" "n < 8"
  shows "\<exists>f'. fed_tick v mem f = Some f' \<and> spi_in v p 1 (push_bit 1 osr) (n + 1) (bit osr 31) False 1 ps f'"
proof -
  obtain tx ws wr st fd c where f: "f = (spi_at v p tx 0 osr n data clk 0 wr st fd c, ws)" "queued ps tx ws"
    using assms(2) by (auto simp: spi_in_def)
  show ?thesis
    using spi_out [OF assms(1,3), of v tx osr data clk wr st fd c] spi_move [of tx ws ps] f(2)
    by (simp add: f(1) fed_tick_def queued_def)
qed

lemma spi_fed_first:
  assumes "spi_code mem p" "spi_in v p 0 osr n data clk 0 (w # ps) f" "8 \<le> n"
  shows "\<exists>f'. fed_tick v mem f = Some f' \<and> spi_in v p 1 (push_bit 1 w) 1 (bit w 31) False 1 ps f'"
proof -
  obtain tx ws wr st fd c where f: "f = (spi_at v p tx 0 osr n data clk 0 wr st fd c, ws)" "queued (w # ps) tx ws"
    using assms(2) by (auto simp: spi_in_def)
  note q = queued_pop [OF f(2)]
  show ?thesis
    using spi_out_refill [OF assms(1,3) q(1), of v osr data clk wr st fd c] spi_move [OF q(2-4)]
    by (simp add: f(1) fed_tick_def)
qed

lemma spi_fed_nop:
  assumes "spi_code mem p" "spi_in v p 1 osr n data clk 0 ps f" "n < 8 \<or> ps = []"
  shows "\<exists>f'. fed_tick v mem f = Some f' \<and> spi_in v p 0 osr n data True 1 ps f'"
proof -
  obtain tx ws wr st fd c where f: "f = (spi_at v p tx 1 osr n data clk 0 wr st fd c, ws)" "queued ps tx ws"
    using assms(2) by (auto simp: spi_in_def)
  have "8 \<le> n \<longrightarrow> f_count tx = 0" using assms(3) f(2) queued_empty by auto
  from spi_nop [OF assms(1) this, of v] show ?thesis
    using spi_move [of tx ws ps] f(2) by (simp add: f(1) fed_tick_def queued_def)
qed

lemma spi_lines:
  assumes "spi_in v p pc osr n data clk d ps f"
  shows "solo_output 0 (fst f)" "solo_output 1 (fst f)" "bit (so_levels (fst f)) 0 = data" "bit (so_levels (fst f)) 1 = clk"
  using assms by (auto simp: spi_in_def solo_output_def spi_at_def spi_sm_def spi_pins_def split: if_splits)

section \<open>What the host sees\<close>

text \<open>A run with the levels of the two pins after each tick; the loop of the host on these levels.\<close>

primrec seen :: "pio_version \<Rightarrow> (nat \<Rightarrow> u16) \<Rightarrow> (bool \<times> bool) list \<Rightarrow> fed_t \<Rightarrow> fed_t \<Rightarrow> bool" where
  "seen v mem [] f f' \<longleftrightarrow> f' = f"
| "seen v mem (l # ls) f f' \<longleftrightarrow> (\<exists>f1. fed_tick v mem f = Some f1 \<and> solo_output 0 (fst f1) \<and> solo_output 1 (fst f1) \<and>
     bit (so_levels (fst f1)) 0 = fst l \<and> bit (so_levels (fst f1)) 1 = snd l \<and> seen v mem ls f1 f')"

lemma seen_append: "seen v mem (ls @ ks) f f' \<longleftrightarrow> (\<exists>f1. seen v mem ls f f1 \<and> seen v mem ks f1 f')"
  by (induction ls arbitrary: f) auto

definition hear :: "nat \<Rightarrow> bool \<times> bool \<Rightarrow> u8 option \<times> spi_rx \<Rightarrow> u8 option \<times> spi_rx" where
  "hear want l s = (Some (of_bool (snd l)), spi_sample want (fst s) (of_bool (fst l)) (of_bool (snd l)) (snd s))"

lemma hear_bits: "rx_bits (snd s) \<le> rx_bits (snd (hear want l s))"
  by (simp add: hear_def spi_sample_def Let_def)

lemma hear_all_bits: "rx_bits (snd s) \<le> rx_bits (snd (fold (hear want) ls s))"
proof (induction ls arbitrary: s)
  case (Cons l ls)
  show ?case using order_trans [OF hear_bits [of s want l] Cons] by simp
qed simp

lemma spi_loop_step:
  fixes v dev cb b want w f f' n prev rx d c
  assumes "fed_rel v b w f" "fed_tick v (pio_insn (st_blk (w_store w) b)) f = Some f'"
    and "solo_output 0 (fst f')" "solo_output 1 (fst f')" "bit (so_levels (fst f')) 0 = d" "bit (so_levels (fst f')) 1 = c"
  defines "w' \<equiv> fed_cycle v dev cb b w" and "s \<equiv> hear want (d, c) (prev, rx)"
  shows "spi_loop v dev cb b want (Suc n) prev rx w =
      (if rx_bits (snd s) = want \<and> snd f' = [] then snd s else spi_loop v dev cb b want n (fst s) (snd s) w')"
    "fed_rel v b w' f'" "pio_insn (st_blk (w_store w') b) = pio_insn (st_blk (w_store w) b)"
proof -
  note r = fed_tick_rel [OF assms(1,2), where dev = dev and cb = cb, folded w'_def]
  show "fed_rel v b w' f'" "pio_insn (st_blk (w_store w') b) = pio_insn (st_blk (w_store w) b)" by (rule r(1,2))+
  have "unat DATA_PIN < PIO_SIM_NUM_PINS v" "unat CLK_PIN < PIO_SIM_NUM_PINS v" by (cases v; simp add: PIO_SIM_NUM_PINS_def)+
  with r(3) [of DATA_PIN] r(3) [of CLK_PIN] assms(3-6)
  have "pio_sim_get_pin v b (w_store w') DATA_PIN = d" "pio_sim_get_pin v b (w_store w') CLK_PIN = c" by simp_all
  moreover have "pio_dma_channel_is_busy v (w_dma w') 0 \<longleftrightarrow> snd f' \<noteq> []"
    using r(1) by (auto simp: fed_rel_def feeding_busy)
  ultimately show "spi_loop v dev cb b want (Suc n) prev rx w =
      (if rx_bits (snd s) = want \<and> snd f' = [] then snd s else spi_loop v dev cb b want n (fst s) (snd s) w')"
    by (simp add: w'_def [unfolded fed_cycle_def, symmetric] Let_def s_def hear_def of_bool_def)
qed

lemma spi_loop_seen:
  assumes "fed_rel v b w f" "seen v (pio_insn (st_blk (w_store w) b)) ls f f'"
    and "rx_bits (snd (fold (hear want) ls s)) < want"
  shows "\<exists>w'. spi_loop v dev cb b want (length ls + n) (fst s) (snd s) w =
      spi_loop v dev cb b want n (fst (fold (hear want) ls s)) (snd (fold (hear want) ls s)) w' \<and>
    fed_rel v b w' f' \<and> pio_insn (st_blk (w_store w') b) = pio_insn (st_blk (w_store w) b)"
  using assms
proof (induction ls arbitrary: w f s)
  case (Cons l ls)
  obtain f1 where f1: "fed_tick v (pio_insn (st_blk (w_store w) b)) f = Some f1" "solo_output 0 (fst f1)" "solo_output 1 (fst f1)"
    "bit (so_levels (fst f1)) 0 = fst l" "bit (so_levels (fst f1)) 1 = snd l" "seen v (pio_insn (st_blk (w_store w) b)) ls f1 f'"
    using Cons.prems(2) by auto
  let ?s = "hear want l s" and ?w = "fed_cycle v dev cb b w"
  note st = spi_loop_step(1) [OF Cons.prems(1) f1(1-5), where dev = dev and cb = cb and want = want and prev = "fst s" and rx = "snd s"]
    spi_loop_step(2,3) [OF Cons.prems(1) f1(1-5), where dev = dev and cb = cb]
  have "rx_bits (snd ?s) < want" using hear_all_bits [of ?s want ls] Cons.prems(3) by simp
  then show ?case
    using Cons.IH [OF st(2), of ?s] st f1(6) Cons.prems(3) by simp
qed auto

section \<open>A bit\<close>

definition bit_seen :: "bool \<Rightarrow> (bool \<times> bool) list" where
  "bit_seen l = [(l, False), (l, False), (l, True)]"

lemma seen_tick:
  assumes "fed_tick v mem f = Some f1" "spi_in v p pc osr n data clk d ps f1" "seen v mem ls f1 f'"
  shows "seen v mem ((data, clk) # ls) f f'"
  unfolding seen.simps using assms(1,3) spi_lines [OF assms(2)] by (intro exI [of _ f1]) simp

lemma spi_bit_tail:
  assumes "spi_code mem p" "spi_in v p 1 osr n l False 0 ps f" "n < 8 \<or> ps = []" "fed_tick v mem f0 = Some f1"
    and "fed_tick v mem f1 = Some f" "spi_in v p 1 osr' n' l False 1 ps' f1"
  shows "\<exists>f'. seen v mem (bit_seen l) f0 f' \<and> spi_in v p 0 osr n l True 1 ps f'"
proof -
  obtain f' where f': "fed_tick v mem f = Some f'" "spi_in v p 0 osr n l True 1 ps f'"
    using spi_fed_nop [OF assms(1-3)] by blast
  have "seen v mem (bit_seen l) f0 f'"
    unfolding bit_seen_def
    by (rule seen_tick [OF assms(4,6) seen_tick [OF assms(5,2) seen_tick [OF f'(1,2)]]]) simp
  then show ?thesis using f'(2) by blast
qed

lemma spi_bit:
  assumes "spi_code mem p" "spi_in v p 0 osr n data clk 0 ps f" "n < 8" "n + 1 < 8 \<or> ps = []"
  shows "\<exists>f'. seen v mem (bit_seen (bit osr 31)) f f' \<and> spi_in v p 0 (push_bit 1 osr) (n + 1) (bit osr 31) True 1 ps f'"
proof -
  obtain f1 where f1: "fed_tick v mem f = Some f1" "spi_in v p 1 (push_bit 1 osr) (n + 1) (bit osr 31) False 1 ps f1"
    using spi_fed_out [OF assms(1-3)] by blast
  obtain f2 where f2: "fed_tick v mem f1 = Some f2" "spi_in v p 1 (push_bit 1 osr) (n + 1) (bit osr 31) False 0 ps f2"
    using spi_fed_delay [OF f1(2) assms(4)] by blast
  show ?thesis by (rule spi_bit_tail [OF assms(1) f2(2) assms(4) f1(1) f2(1) f1(2)])
qed

lemma spi_bit_first:
  assumes "spi_code mem p" "spi_in v p 0 osr n data clk 0 (w # ps) f" "8 \<le> n"
  shows "\<exists>f'. seen v mem (bit_seen (bit w 31)) f f' \<and> spi_in v p 0 (push_bit 1 w) 1 (bit w 31) True 1 ps f'"
proof -
  obtain f1 where f1: "fed_tick v mem f = Some f1" "spi_in v p 1 (push_bit 1 w) 1 (bit w 31) False 1 ps f1"
    using spi_fed_first [OF assms] by blast
  have n: "(1 :: u8) < 8 \<or> ps = []" by (simp add: word_less_nat_alt)
  obtain f2 where f2: "fed_tick v mem f1 = Some f2" "spi_in v p 1 (push_bit 1 w) 1 (bit w 31) False 0 ps f2"
    using spi_fed_delay [OF f1(2) n] by blast
  show ?thesis by (rule spi_bit_tail [OF assms(1) f2(2) n f1(1) f2(1) f1(2)])
qed

lemma spi_bit_next:
  assumes "spi_code mem p" "spi_in v p 0 osr 7 data clk 0 (w # ps) f"
  shows "\<exists>f'. seen v mem (bit_seen (bit osr 31)) f f' \<and> spi_in v p 0 w 0 (bit osr 31) True 1 ps f'"
proof -
  have n: "(7 :: u8) < 8" "8 \<le> (7 + 1 :: u8)" "(0 :: u8) < 8 \<or> ps = []" by simp_all
  obtain f1 where f1: "fed_tick v mem f = Some f1" "spi_in v p 1 (push_bit 1 osr) (7 + 1) (bit osr 31) False 1 (w # ps) f1"
    using spi_fed_out [OF assms n(1)] by blast
  obtain f2 where f2: "fed_tick v mem f1 = Some f2" "spi_in v p 1 w 0 (bit osr 31) False 0 ps f2"
    using spi_fed_refill [OF f1(2) n(2)] by blast
  show ?thesis by (rule spi_bit_tail [OF assms(1) f2(2) n(3) f1(1) f2(1) f1(2)])
qed

section \<open>The message\<close>

text \<open>The words in memory, bit \<open>j\<close> of the message, and the machine when \<open>j\<close> bits are out.\<close>

definition spi_words :: "u8 list \<Rightarrow> u32 list" where
  "spi_words msg = map (\<lambda>x. push_bit 24 (ucast x)) msg"

definition spi_bit_of :: "u8 list \<Rightarrow> nat \<Rightarrow> bool" where
  "spi_bit_of msg j = bit (msg ! (j div 8)) (7 - j mod 8)"

definition spi_after :: "pio_version \<Rightarrow> pio_program_t \<Rightarrow> u8 list \<Rightarrow> u8 \<Rightarrow> nat \<Rightarrow> fed_t \<Rightarrow> bool" where
  "spi_after v p msg d j f \<longleftrightarrow>
     (if j = 0 then spi_in v p 0 0 32 False False 0 (spi_words msg) f
      else spi_in v p 0 (push_bit (j mod 8) (spi_words msg ! (j div 8))) (of_nat (j mod 8)) (spi_bit_of msg (j - 1)) True d
             (drop (j div 8 + 1) (spi_words msg)) f)"

lemma spi_top:
  assumes "k < length msg" "i < 8"
  shows "bit (push_bit i (spi_words msg ! k)) 31 = bit (msg ! k) (7 - i)"
  using assms by (auto simp: spi_words_def push_bit_push_bit bit_push_bit_iff bit_ucast_iff)

lemma spi_step:
  assumes "spi_code mem p" "spi_after v p msg 0 j f" "j < 8 * length msg"
  shows "\<exists>f'. seen v mem (bit_seen (spi_bit_of msg j)) f f' \<and>
    (if Suc j < 8 * length msg then spi_after v p msg 1 (Suc j) f' else snd f' = [])"
proof -
  have len: "length (spi_words msg) = length msg" by (simp add: spi_words_def)
  define q r where "q = j div 8" and "r = j mod 8"
  have j: "j = 8 * q + r" "r < 8" "q < length msg" using assms(3) by (simp_all add: q_def r_def div_less_iff_less_mult)
  have lt: "(of_nat i :: u8) < 8 \<longleftrightarrow> i < 8" if "i < 100" for i
    using that by (simp add: word_less_nat_alt unsigned_of_nat take_bit_nat_eq_self)
  have b: "spi_bit_of msg j = bit (push_bit r (spi_words msg ! q)) 31"
    using spi_top [OF j(3,2)] by (simp add: spi_bit_of_def q_def r_def)
  show ?thesis
  proof (cases "j = 0")
    case True
    then obtain w ps where w: "spi_words msg = w # ps" using assms(3) by (cases msg) (auto simp: spi_words_def)
    have "spi_in v p 0 0 32 False False 0 (w # ps) f" using assms(2) True w by (simp add: spi_after_def)
    then obtain f' where f': "seen v mem (bit_seen (bit w 31)) f f'" "spi_in v p 0 (push_bit 1 w) 1 (bit w 31) True 1 ps f'"
      using spi_bit_first [OF assms(1)] by fastforce
    have "spi_bit_of msg 0 = bit w 31" using b w True by (simp add: q_def r_def)
    moreover have "Suc 0 < 8 * length msg" using assms(3) by (cases msg) simp_all
    ultimately show ?thesis using f' w True by (intro exI [of _ f']) (simp add: spi_after_def)
  next
    case False
    let ?w = "push_bit r (spi_words msg ! q)" and ?ps = "drop (q + 1) (spi_words msg)"
    have f: "spi_in v p 0 ?w (of_nat r) (spi_bit_of msg (j - 1)) True 0 ?ps f"
      using assms(2) False by (simp add: spi_after_def q_def r_def)
    consider "r < 7" | "r = 7" "q + 1 < length msg" | "r = 7" "q + 1 = length msg" using j by linarith
    then show ?thesis
    proof cases
      case 1
      have n: "(of_nat r :: u8) < 8" "of_nat r + 1 < (8 :: u8) \<or> ?ps = []" using lt [of r] lt [of "Suc r"] 1 by (simp_all add: ac_simps)
      have "Suc j < 8 * length msg" "Suc j mod 8 = Suc r" "Suc j div 8 = q" using j 1 by simp_all
      moreover have "push_bit 1 ?w = push_bit (Suc r) (spi_words msg ! q)" "of_nat r + 1 = (of_nat (Suc r) :: u8)"
        by (simp_all add: push_bit_push_bit del: push_bit_of_1 push_bit_Suc)
      ultimately show ?thesis
        using spi_bit [OF assms(1) f n] b by (simp only: spi_after_def if_True) simp
    next
      case 2
      then have "?ps = spi_words msg ! (q + 1) # drop (q + 2) (spi_words msg)" using len by (simp add: Cons_nth_drop_Suc)
      moreover have "Suc j < 8 * length msg" "Suc j mod 8 = 0" "Suc j div 8 = q + 1" using j 2 by simp_all
      ultimately show ?thesis
        using spi_bit_next [OF assms(1), of v ?w] f b 2 by (simp add: spi_after_def)
    next
      case 3
      then have e: "?ps = []" "\<not> Suc j < 8 * length msg" using len j by simp_all
      have n: "(of_nat r :: u8) < 8" using lt [of r] 3 by simp
      obtain f' where "seen v mem (bit_seen (bit ?w 31)) f f'" "spi_in v p 0 (push_bit 1 ?w) (of_nat r + 1) (bit ?w 31) True 1 ?ps f'"
        using spi_bit [OF assms(1) f n] e(1) by blast
      then show ?thesis using e b by (auto simp: spi_in_def dest: queued_empty)
    qed
  qed
qed

text \<open>All bits but the last.\<close>

lemma spi_rest:
  assumes "spi_after v p msg 1 j f" "0 < j"
  shows "\<exists>f'. seen v mem [(spi_bit_of msg (j - 1), True)] f f' \<and> spi_after v p msg 0 j f'"
proof -
  let ?in = "\<lambda>d. spi_in v p 0 (push_bit (j mod 8) (spi_words msg ! (j div 8))) (of_nat (j mod 8)) (spi_bit_of msg (j - 1)) True d
      (drop (j div 8 + 1) (spi_words msg))"
  have after: "spi_after v p msg d j = ?in d" for d using assms(2) by (simp add: spi_after_def fun_eq_iff)
  have "(of_nat (j mod 8) :: u8) < 8"
    using mod_less_divisor [of 8 j] by (simp add: word_less_nat_alt unsigned_of_nat take_bit_nat_eq_self)
  then obtain f' where f': "fed_tick v mem f = Some f'" "?in 0 f'"
    using spi_fed_delay [OF assms(1) [unfolded after] disjI1] by blast
  have "seen v mem [(spi_bit_of msg (j - 1), True)] f f'" by (rule seen_tick [OF f']) simp
  then show ?thesis using f'(2) unfolding after by blast
qed

lemma spi_seen:
  assumes "spi_code mem p" "spi_after v p msg 0 0 f" "n < 8 * length msg"
  shows "\<exists>f'. seen v mem (concat (map (\<lambda>j. bit_seen (spi_bit_of msg j) @ [(spi_bit_of msg j, True)]) [0..<n])) f f' \<and>
    spi_after v p msg 0 n f'"
  using assms(3)
proof (induction n)
  case 0
  show ?case using assms(2) by auto
next
  case (Suc n)
  obtain f1 where f1: "seen v mem (concat (map (\<lambda>j. bit_seen (spi_bit_of msg j) @ [(spi_bit_of msg j, True)]) [0..<n])) f f1"
    "spi_after v p msg 0 n f1"
    using Suc by auto
  obtain f2 where f2: "seen v mem (bit_seen (spi_bit_of msg n)) f1 f2" "spi_after v p msg 1 (Suc n) f2"
    using spi_step [OF assms(1) f1(2)] Suc.prems by auto
  obtain f3 where f3: "seen v mem [(spi_bit_of msg n, True)] f2 f3" "spi_after v p msg 0 (Suc n) f3"
    using spi_rest [OF f2(2), of mem] by (metis diff_Suc_1 zero_less_Suc)
  have "seen v mem (concat (map (\<lambda>j. bit_seen (spi_bit_of msg j) @ [(spi_bit_of msg j, True)]) [0..<n]) @
      bit_seen (spi_bit_of msg n) @ [(spi_bit_of msg n, True)]) f f3"
    unfolding seen_append using f1(1) f2(1) f3(1) by blast
  then show ?case using f3(2) by (intro exI [of _ f3]) simp
qed

section \<open>Listening\<close>

text \<open>What the host has after \<open>j\<close> bits.\<close>

definition spi_heard :: "u8 list \<Rightarrow> nat \<Rightarrow> spi_rx" where
  "spi_heard msg j = \<lparr>rx_bits = j, rx_got = (if j mod 8 = 0 then 0 else drop_bit (8 - j mod 8) (msg ! (j div 8))),
     rx_bytes = take (j div 8) msg\<rparr>"

lemma shift_in_bit: "push_bit 1 (drop_bit (Suc k) (w :: u8)) OR of_bool (bit w k) = drop_bit k w"
proof (rule bit_word_eqI)
  show "bit (push_bit 1 (drop_bit (Suc k) w) OR of_bool (bit w k)) n = bit (drop_bit k w) n" if "n < LENGTH(8)" for n
    using that by (cases n) (auto simp: bit_or_iff bit_push_bit_iff bit_drop_bit_eq bit_1_iff simp del: push_bit_of_1 push_bit_Suc)
qed

lemma spi_hear_bit:
  assumes "j < 8 * length msg"
  shows "spi_sample (8 * length msg) (Some 0) (of_bool (spi_bit_of msg j)) 1 (spi_heard msg j) = spi_heard msg (Suc j)"
proof -
  define q r where "q = j div 8" and "r = j mod 8"
  have j: "j = 8 * q + r" "r < 8" "q < length msg" using assms by (simp_all add: q_def r_def div_less_iff_less_mult)
  have "(0 :: u8) = drop_bit 8 (msg ! q)" by (rule bit_word_eqI) (simp add: bit_drop_bit_eq)
  then have got: "rx_got (spi_heard msg j) = drop_bit (Suc (7 - r)) (msg ! q)"
    using j(2) Suc_diff_le [of r 7] by (cases "r = 0") (simp_all add: spi_heard_def q_def [symmetric] r_def [symmetric])
  have n: "push_bit 1 (rx_got (spi_heard msg j)) OR of_bool (spi_bit_of msg j) = drop_bit (7 - r) (msg ! q)"
    unfolding got spi_bit_of_def q_def [symmetric] r_def [symmetric] by (rule shift_in_bit)
  show ?thesis
  proof (cases "r = 7")
    case True
    then have "Suc j mod 8 = 0" "Suc j div 8 = Suc q" using j(1) by simp_all
    then show ?thesis
      using n True assms j(3) by (simp add: spi_sample_def Let_def spi_heard_def q_def [symmetric] take_Suc_conv_app_nth)
  next
    case False
    then have "Suc j mod 8 = Suc r" "Suc j div 8 = q" using j(1,2) by simp_all
    then show ?thesis
      using n assms by (simp add: spi_sample_def Let_def spi_heard_def q_def [symmetric])
  qed
qed

lemma spi_hear_low: "hear want (d, False) s = (Some 0, snd s)"
  by (simp_all add: hear_def spi_sample_def)

lemma spi_hear_bits:
  assumes "n \<le> 8 * length msg"
  shows "\<exists>prev'. fold (hear (8 * length msg))
      (concat (map (\<lambda>j. bit_seen (spi_bit_of msg j) @ [(spi_bit_of msg j, True)]) [0..<n])) (prev, spi_heard msg 0) = (prev', spi_heard msg n)"
  using assms
proof (induction n)
  case (Suc n)
  then obtain prev' where p: "fold (hear (8 * length msg))
      (concat (map (\<lambda>j. bit_seen (spi_bit_of msg j) @ [(spi_bit_of msg j, True)]) [0..<n])) (prev, spi_heard msg 0) = (prev', spi_heard msg n)"
    by auto
  have "fold (hear (8 * length msg)) (bit_seen (spi_bit_of msg n) @ [(spi_bit_of msg n, True)]) (prev', spi_heard msg n) =
      (Some 1, spi_heard msg (Suc n))"
    using spi_hear_bit [of n msg] Suc.prems by (simp add: bit_seen_def hear_def spi_sample_def [of _ _ _ 0] spi_sample_def [of _ "Some 1"])
  then show ?case using p by simp
qed simp

section \<open>The buffer\<close>

lemma unat_sub_cases: "unat (p - q) = (if unat q \<le> unat p then unat p - unat q else 2 ^ 64 + unat p - unat q)" for p q :: u64
  using unat_sub [of q p] unat_sub_less [of p q] by (simp add: word_le_nat_alt word_less_nat_alt)

lemma spi_buffer_at:
  assumes "4 * n \<le> 2 ^ 32"
  shows "fold (\<lambda>i mem. mem_store (a + of_nat (4 * i)) 4 (f i) mem) [0..<n] mem y =
    (if unat (y - a) < 4 * n then byte_at (f (unat (y - a) div 4)) (unat (y - a) mod 4) else mem y)"
  using assms
proof (induction n)
  case (Suc n)
  let ?o = "unat (y - a)" and ?k = "of_nat (4 * n) :: u64"
  have k: "unat ?k = 4 * n" using Suc.prems by (simp only: unsigned_of_nat) (simp add: take_bit_nat_eq_self)
  have "y - (a + ?k) = (y - a) - ?k" by (simp add: algebra_simps)
  then have d: "unat (y - (a + ?k)) = (if 4 * n \<le> ?o then ?o - 4 * n else 2 ^ 64 + ?o - 4 * n)"
    by (simp only: unat_sub_cases [of "y - a"] k)
  consider "?o < 4 * n" | "4 * n \<le> ?o" "?o < 4 * n + 4" | "4 * n + 4 \<le> ?o" by linarith
  then show ?case
  proof cases
    case 1
    then have "\<not> unat (y - (a + ?k)) < 4" using d Suc.prems by simp
    then show ?thesis using Suc 1 by (simp add: mem_store_at)
  next
    case 2
    then have "unat (y - (a + ?k)) = ?o - 4 * n" "?o div 4 = n" "?o - 4 * n < 4" using d by (simp_all add: div_nat_eqI)
    moreover from this have "?o mod 4 = ?o - 4 * n" by (simp add: modulo_nat_def mult.commute)
    ultimately show ?thesis using Suc 2 by (simp add: mem_store_at)
  next
    case 3
    then have "\<not> unat (y - (a + ?k)) < 4" using d by simp
    then show ?thesis using Suc 3 by (simp add: mem_store_at)
  qed
qed simp

lemma spi_buffer_words:
  assumes "length msg \<le> 8" "i < length msg"
  shows "mem_load (spi_buffer a msg mem) (a + of_nat (4 * i)) 4 = spi_words msg ! i"
proof (rule bytes_equal)
  fix k :: nat assume k: "k < 4"
  have "a + of_nat (4 * i) + of_nat k - a = (of_nat (4 * i + k) :: u64)" by simp
  moreover have "unat (of_nat (4 * i + k) :: u64) = 4 * i + k"
    using assms k by (simp only: unsigned_of_nat) (simp add: take_bit_nat_eq_self)
  moreover have "(4 * i + k) div 4 = i" "(4 * i + k) mod 4 = k" "4 * i + k < 4 * length msg" "4 * length msg \<le> 2 ^ 32"
    using k assms by simp_all
  ultimately show "byte_at (mem_load (spi_buffer a msg mem) (a + of_nat (4 * i)) 4) k = byte_at (spi_words msg ! i) k"
    using k assms(2) by (simp only: byte_at_load spi_buffer_def spi_buffer_at order_refl) (simp add: spi_words_def)
qed

section \<open>The whole program\<close>

lemma spi_starts:
  assumes "solo_rel v b h \<lparr>so_sm = loaded_sm v spi_config p, so_levels = 0, so_count = 0\<rparr>"
    and "spi_code mem p" "spi_settings p"
  shows "solo_rel v b (spi_setup v b p h) (spi_at v p fresh_fifo 0 0 32 False False 0 0 False 0 0)"
proof -
  note r = alone.rel_enable [OF alone.rel_pindirs [OF alone.rel_pindirs [OF alone.rel_apply_config [OF assms(1), of p], of DATA_PIN 1 True], of CLK_PIN 1 True], of True]
  show ?thesis
    using r assms(2,3) unfolding spi_setup_def Let_def spi_code_def spi_settings_def
    by (simp add: spi_at_def spi_sm_def spi_pins_def loaded_sm_eq spi_config_def sm_config_set_out_shift_def
        sm_config_set_sideset_pins_def sm_config_set_out_pins_def config_eval solo_upd_def solo_latch_def
        set_pindir_bit_def solo_pin_def bit64_def overlay_config_def Let_def live_config_def
        sm_set_config_def apply_fifo_join_def fifo_join_switch_def fresh_fifo_def merge_def)
qed

lemma spi_setup_keeps: "pio_insn (st_blk (spi_setup v b p h) b) = pio_insn (st_blk h b)"
  by (simp add: spi_setup_def Let_def pio_sim_sm_set_enabled_def pio_sim_sm_set_consecutive_pindirs_def)
     (simp add: upd_blk_def pio_asm_apply_program_config_def pio_sim_sm_set_config_def blk_upd_sm_def)

lemma spi_fed:
  fixes v b h p msg a mem cb
  assumes "solo_rel v b h (spi_at v p fresh_fifo 0 0 32 False False 0 0 False 0 0)" "msg \<noteq> []" "length msg \<le> 8"
    and "a \<noteq> 0" "unat a + 32 < 2 ^ 64"
  defines "w \<equiv> spi_start_dma v cb b a msg mem h"
  shows "fed_rel v b w (spi_at v p fresh_fifo 0 0 32 False False 0 0 False 0 0, spi_words msg)" "w_store w = h"
proof -
  have ne: "a + of_nat (4 * i) \<noteq> 0" if "i < length msg" for i
  proof
    assume "a + of_nat (4 * i) = 0"
    moreover have "unat (of_nat (4 * i) :: u64) = 4 * i"
      using that assms(3) by (simp only: unsigned_of_nat) (simp add: take_bit_nat_eq_self)
    moreover have "unat a + 4 * i < 2 ^ 64" using that assms(3,5) by simp
    ultimately have "unat a + 4 * i = 0" using unat_add_lem [of a "of_nat (4 * i)"] by simp
    then show False using assms(4) by (simp add: unat_eq_0)
  qed
  have n: "unat (of_nat (length msg) :: u32) = length (spi_words msg)" "spi_words msg \<noteq> []" "length (spi_words msg) = length msg"
    using assms(2,3) by (simp_all add: spi_words_def unsigned_of_nat take_bit_nat_eq_self)
  have words: "a + of_nat (4 * i) \<noteq> 0 \<and> mem_load (spi_buffer a msg mem) (a + of_nat (4 * i)) 4 = spi_words msg ! i"
    if "i < length (spi_words msg)" for i
    using that ne spi_buffer_words [OF assms(3)] n(3) by simp
  let ?w0 = "\<lparr>w_store = h, w_mem = spi_buffer a msg mem, w_dma = pio_dma_init v (\<lambda>i. if i = 0 then Some b else None) 1\<rparr>"
  note f = feeding_configured [OF n(1,2), of a ?w0 v b cb]
  show "fed_rel v b w (spi_at v p fresh_fifo 0 0 32 False False 0 0 False 0 0, spi_words msg)" "w_store w = h"
    using f words assms(1) by (simp_all add: w_def spi_start_dma_def Let_def fed_rel_def)
qed

text \<open>The first tick stalls, and the controller moves the first word.\<close>

lemma spi_first_tick:
  assumes "spi_code mem p"
  shows "\<exists>f'. seen v mem [(False, False)] (spi_at v p fresh_fifo 0 0 32 False False 0 0 False 0 0, spi_words msg) f' \<and>
    spi_after v p msg 0 0 f'"
proof -
  let ?m = "spi_at v p fresh_fifo 0 0 32 False False 0 2 True PIO_FDEBUG_TXSTALL 0"
  have e: "f_count fresh_fifo = 0" "fifo_wf fresh_fifo" "f_cap fresh_fifo = 4" by (simp_all add: fresh_fifo_def fifo_wf_def)
  have t: "fed_tick v mem (spi_at v p fresh_fifo 0 0 32 False False 0 0 False 0 0, spi_words msg) = Some (fed_move (?m, spi_words msg))"
    using spi_stall [OF assms _ e(1), of 32 v] by (simp add: fed_tick_def)
  have "fifo_words fresh_fifo @ spi_words msg = spi_words msg" using e(1) by simp
  note i = spi_move [OF e(2,3) this, of v p 0 0 32 False False 0 2 True PIO_FDEBUG_TXSTALL 0]
  have "seen v mem [(False, False)] (spi_at v p fresh_fifo 0 0 32 False False 0 0 False 0 0, spi_words msg) (fed_move (?m, spi_words msg))"
    by (rule seen_tick [OF t i]) simp
  then show ?thesis using i by (intro exI [of _ "fed_move (?m, spi_words msg)"]) (simp add: spi_after_def)
qed

lemma spi_hears_message:
  assumes "fed_rel v b w (spi_at v p fresh_fifo 0 0 32 False False 0 0 False 0 0, spi_words msg)"
    and "spi_code (pio_insn (st_blk (w_store w) b)) p" "msg \<noteq> []" "length msg \<le> 8"
  shows "spi_loop v dev cb b (8 * length msg) MAX_TICKS None (spi_heard msg 0) w = spi_heard msg (8 * length msg)"
proof -
  let ?mem = "pio_insn (st_blk (w_store w) b)" and ?want = "8 * length msg"
  let ?bits = "\<lambda>n. concat (map (\<lambda>j. bit_seen (spi_bit_of msg j) @ [(spi_bit_of msg j, True)]) [0..<n])"
  define n where "n = ?want - 1"
  have n: "n < ?want" "Suc n = ?want" using assms(3) by (cases msg; simp add: n_def)+
  obtain f1 where f1: "seen v ?mem [(False, False)] (spi_at v p fresh_fifo 0 0 32 False False 0 0 False 0 0, spi_words msg) f1"
    "spi_after v p msg 0 0 f1"
    using spi_first_tick [OF assms(2)] by blast
  obtain f2 where f2: "seen v ?mem (?bits n) f1 f2" "spi_after v p msg 0 n f2" using spi_seen [OF assms(2) f1(2) n(1)] by blast
  let ?l = "spi_bit_of msg n"
  obtain f4 where f4: "seen v ?mem (bit_seen ?l) f2 f4" "snd f4 = []" using spi_step [OF assms(2) f2(2) n(1)] n(2) by auto
  have split: "bit_seen ?l = [(?l, False), (?l, False)] @ [(?l, True)]" by (simp add: bit_seen_def)
  obtain f3 where f3: "seen v ?mem [(?l, False), (?l, False)] f2 f3" "seen v ?mem [(?l, True)] f3 f4"
    using f4(1) unfolding split seen_append by blast
  let ?ls = "[(False, False)] @ ?bits n @ [(?l, False), (?l, False)]"
  have s: "seen v ?mem ?ls (spi_at v p fresh_fifo 0 0 32 False False 0 0 False 0 0, spi_words msg) f3"
    unfolding seen_append using f1(1) f2(1) f3(1) by blast
  have h: "fold (hear ?want) ?ls (None, spi_heard msg 0) = (Some 0, spi_heard msg n)"
  proof -
    obtain prev where "fold (hear ?want) (?bits n) (Some 0, spi_heard msg 0) = (prev, spi_heard msg n)"
      using spi_hear_bits [of n msg "Some 0"] n(1) by auto
    then show ?thesis by (simp add: spi_hear_low)
  qed
  have bits: "rx_bits (snd (fold (hear ?want) ?ls (None, spi_heard msg 0))) < ?want" unfolding h using n(1) by (simp add: spi_heard_def)
  have len: "length (?bits k) = 4 * k" for k by (induction k) (simp_all add: bit_seen_def)
  obtain k where k: "MAX_TICKS = length ?ls + Suc k"
  proof (rule that)
    show "MAX_TICKS = length ?ls + Suc (MAX_TICKS - Suc (length ?ls))" using n(1) assms(4) by (simp add: len)
  qed
  obtain w' where w': "spi_loop v dev cb b ?want (length ?ls + Suc k) None (spi_heard msg 0) w =
      spi_loop v dev cb b ?want (Suc k) (Some 0) (spi_heard msg n) w'" "fed_rel v b w' f3" "pio_insn (st_blk (w_store w') b) = ?mem"
    using spi_loop_seen [OF assms(1) s bits, where dev = dev and cb = cb and n = "Suc k"] unfolding h by auto
  have "fed_tick v ?mem f3 = Some f4" "solo_output 0 (fst f4)" "solo_output 1 (fst f4)" "bit (so_levels (fst f4)) 0 = ?l"
    "bit (so_levels (fst f4)) 1 = True"
    using f3(2) unfolding seen.simps by (auto simp del: split_paired_Ex)
  note st = spi_loop_step(1) [OF w'(2), unfolded w'(3), OF this, where dev = dev and cb = cb and want = ?want and prev = "Some 0"
      and rx = "spi_heard msg n" and n = k]
  have "snd (hear ?want (?l, True) (Some 0, spi_heard msg n)) = spi_heard msg ?want"
    using spi_hear_bit [OF n(1)] n(2) by (simp add: hear_def)
  then have "spi_loop v dev cb b ?want (Suc k) (Some 0) (spi_heard msg n) w' = spi_heard msg ?want"
    unfolding st using f4(2) by (simp add: spi_heard_def)
  then show ?thesis unfolding k w'(1) .
qed

text \<open>
  C15: The SPI and DMA example.  Its source assembles and loads; the DMA channel fills the FIFO, the state machine clocks the message out,
  and the host recovers it bit by bit at the rising edges of the clock, well within its 400 ticks: \<open>main\<close> exits with 0 on both chips, for
  every message of up to 8 bytes, and whatever the memory holds in which its buffer stands.
\<close>

theorem spi_main_succeeds:
  assumes "message \<noteq> []" "length message \<le> 8" "a \<noteq> 0" "unat a + 32 < 2 ^ 64"
  shows "spi_main_on message a mem cb strtod v dev b h = Some 0"
proof -
  obtain p where p: "pio_asm_assemble strtod v SPI_SRC None = (True, p)" "pg_count p = 2"
    "spi_code (pg_insns p) p" "spi_settings p"
    using spi_assembles [where strtod = strtod and v = v] by blast
  obtain h1 where h1: "spi_main_on message a mem cb strtod v dev b h = spi_run message a mem cb v dev b p h1"
    "solo_rel v b h1 \<lparr>so_sm = loaded_sm v spi_config p, so_levels = 0, so_count = 0\<rparr>"
    "\<And>i. i < unat (pg_count p) \<Longrightarrow> pio_insn (st_blk h1 b) i = pg_insns p i"
    unfolding spi_main_on_def
    by (rule with_program_starts [OF p(1), where b = b and rest = "spi_run message a mem cb v dev b" and h = h]) blast
  let ?h = "spi_setup v b p h1"
  have code: "spi_code (pio_insn (st_blk ?h b)) p" using h1(3) p(2,3) by (simp add: spi_code_def spi_setup_keeps)
  note f = spi_fed [OF spi_starts [OF h1(2) p(3,4)] assms, of cb mem]
  have "spi_loop v dev cb b (8 * length message) 400 None (spi_heard message 0) (spi_start_dma v cb b a message mem ?h) =
      spi_heard message (8 * length message)"
    using spi_hears_message [OF f(1)] code assms(1,2) by (simp add: f(2))
  moreover have "spi_heard message 0 = \<lparr>rx_bits = 0, rx_got = 0, rx_bytes = []\<rparr>" by (simp add: spi_heard_def)
  moreover have "rx_bytes (spi_heard message (8 * length message)) = message" by (simp add: spi_heard_def)
  ultimately show ?thesis by (simp add: h1(1) spi_run_def Let_def mult.commute [of _ 8])
qed

theorem spi_main_succeeds_witness:
  "spi_main 4096 (\<lambda>_. 0) (\<lambda>_ _ _ w. w) (\<lambda>s. (Not_a_number, s)) RP2350 (\<lambda>_ _ _ h. h) 0 store_zero = Some 0"
  unfolding spi_main_def by (rule spi_main_succeeds) simp_all

end
