(* ===== verification/Spec2Isabelle.thy ===== *)
theory Spec2Isabelle
  imports Pio_Encode Pio_Gpio Pio_Sniff Pio_Api Asm_Grammar Asm_Bounds Asm_Load Ex_Blink Ex_Echo Ex_Uart Ex_Ws2812 Ex_Spi
begin

text \<open>
  A verified model of a cycle-accurate simulator of the Programmable I/O blocks of the RP2040 and
  RP2350, and of the assembler that comes with it (\<open>lib/\<close> of the repository; all paths below are
  relative to \<open>src/\<close>), with the example programs that use both (\<open>examples/\<close>).

  \<^bold>\<open>The program.\<close>  A PIO block (\<open>pio_sim_t\<close>) has 32 instruction words, eight IRQ flags and four state
  machines (\<open>pio_sm_t\<close>), each with two shift registers, two scratch registers, two FIFOs and a clock
  divider.  A tick advances every divider, gives each state machine that is due one cycle, and then
  resolves who drives each pin of a pad set (\<open>pio_pads_t\<close>), which a block has for itself or shares with
  others.  Blocks are wired into groups, and a chip has all blocks of a device, a DMA controller and
  a clock tree.  Programs are written in the PIO assembly language and assembled, loaded and
  configured by \<open>lib/src/pio_asm.c\<close>.

  \<^bold>\<open>The model.\<close>  Functions of the source are functions with the same names; structures are records with
  the source's fields, enumerations datatypes, and integers words of their width, so that every sum
  and shift wraps as in C.  Fields and functions that exist on one device only are selected by an
  argument \<open>v\<close>, the version the source is compiled for.  Objects that the source reaches through
  pointers (the blocks of a group, a shared pad set) live in a store, and a block names its pads and
  its neighbours; so aliasing is explicit.  Calls of the trace hook are entries of a log.  A failing
  call is a value: \<open>None\<close>, a boolean, or the error recorded in the assembler's result.

  \<^item> \<^verbatim>\<open>Pio_Prelude\<close>: words, masks and folds that several parts use.  \<^verbatim>\<open>Pio_Config\<close>: the compile-time
    configuration (\<open>lib/config/pio_sim_config.h\<close>).
  \<^item> \<^verbatim>\<open>Pio_Fifo\<close>: the ring buffers, shown to be bounded lists (locale \<open>bounded_queue\<close>).
  \<^item> \<^verbatim>\<open>Pio_Pads\<close>: what the chip and the outside drive on a pad, the wire, the input path with its
    two-stage synchroniser and the bus keeper.
  \<^item> \<^verbatim>\<open>Pio_Sm\<close>: state machines and their configuration, the \<open>sm_config_set_*\<close> family, FIFO joins.
    \<^verbatim>\<open>Pio_Float\<close>: the one function of floating-point arithmetic, \<open>sm_config_set_clkdiv\<close>; a \<open>float\<close> is a
    rational, and every operation rounds to the nearest binary32 number, ties to even, without
    excess precision (\<open>FLT_EVAL_METHOD\<close> 0).
  \<^item> \<^verbatim>\<open>Pio_Store\<close>: blocks, the store, the lifecycle calls and \<open>pio_pads_resolve\<close>, which decides the
    direction and level of every pin.  \<^verbatim>\<open>Pio_Host\<close>: the register, FIFO, pin and interrupt calls of the
    host.
  \<^item> \<^verbatim>\<open>Pio_Exec\<close>: every instruction handler and \<open>exec_one\<close>.  \<^verbatim>\<open>Pio_Invariant\<close>: what an instruction may
    change, and how a property of one state machine becomes an invariant (locales
    \<open>sm_exec_invariant\<close> to \<open>sm_invariant\<close>).  \<^verbatim>\<open>Pio_Encode\<close>: the instruction encoders.
  \<^item> \<^verbatim>\<open>Pio_Tick\<close>: \<open>sm_cycle\<close>, \<open>pio_sim_tick\<close> and the run loops; the rate of an accumulating divider
    (locale \<open>rate_divider\<close>, also met by the DMA pacing timers).
  \<^item> \<^verbatim>\<open>Pio_Insn\<close> and \<^verbatim>\<open>Pio_Run\<close>: what instructions and running blocks promise.
  \<^item> \<^verbatim>\<open>Pio_Group\<close>, \<^verbatim>\<open>Pio_Gpio\<close>, \<^verbatim>\<open>Pio_Clk\<close>: groups of blocks, the GPIO and pad registers
    (\<open>lib/src/pio_gpio.c\<close>), the clock tree (\<open>lib/src/pio_clk.c\<close>).
  \<^item> \<^verbatim>\<open>Pio_Dma\<close>: the DMA controller (\<open>lib/src/pio_dma.c\<close>), with memory as a map from addresses to bytes.
    \<^verbatim>\<open>Pio_Arbiter\<close>: which channel is served (locale \<open>round_robin\<close>); \<^verbatim>\<open>Pio_Transfer\<close>: whole blocks;
    \<^verbatim>\<open>Pio_Channel\<close>: one transfer, completion and chaining; \<^verbatim>\<open>Pio_Sniff\<close>: the checksums and timers.
  \<^item> \<^verbatim>\<open>Pio_Chip\<close>: the chip (\<open>lib/src/pio_chip.c\<close>), where every invariant of the state machines is carried
    through blocks, DMA and callbacks (locale \<open>sm_host_invariant\<close>).
  \<^item> \<^verbatim>\<open>Pio_Api\<close>: the whole programming interface as step relations: which configurations can be built,
    which calls change a block or the store, and that no sequence of them leaves \<open>block_wf\<close>.
  \<^item> \<^verbatim>\<open>Asm_Lex\<close>: literals, tokens, comments.  \<^verbatim>\<open>Asm_Expr\<close>: the assembler's state and its expression
    evaluator; \<^verbatim>\<open>Asm_Eval\<close>: it returns; \<^verbatim>\<open>Asm_Grammar\<close>: it returns the value that the documented
    precedence gives (locales \<open>binary_tier\<close>, one instance per tier, and \<open>symbol_table\<close>).
  \<^item> \<^verbatim>\<open>Asm_Insn\<close>: one instruction; \<^verbatim>\<open>Asm_Program\<close>: directives, labels, the three passes, loading a
    program and applying its configuration.  \<^verbatim>\<open>Asm_Frame\<close>: what assembling an operand leaves alone;
    \<^verbatim>\<open>Asm_Scan\<close>: the passes walk the source alike; \<^verbatim>\<open>Asm_Check\<close>: an invariant of the passes (locale
    \<open>line_invariant\<close>); \<^verbatim>\<open>Asm_Bounds\<close>: the tables and strings fit their arrays at every point, on every
    error path too (locale \<open>kept_by_lines\<close>); \<^verbatim>\<open>Asm_Load\<close>: what an assembled program is and what
    loading it does.
  \<^item> \<^verbatim>\<open>Pio_Solo\<close>: an abstract machine with one state machine and the levels of the pins it drives, which a
    block with a single driver refines (locale \<open>block_machine\<close>).  \<^verbatim>\<open>Pio_Feed\<close>: the same with a DMA channel that keeps its TX FIFO
    filled from memory.
  \<^item> \<^verbatim>\<open>Ex_Setup\<close>: what the example programs share; \<^verbatim>\<open>Ex_Blink\<close>, \<^verbatim>\<open>Ex_Echo\<close>, \<^verbatim>\<open>Ex_Uart\<close>, \<^verbatim>\<open>Ex_Ws2812\<close>,
    \<^verbatim>\<open>Ex_Spi\<close>: \<open>examples/01_blink.c\<close> to \<open>examples/05_spi_dma.c\<close>.  A \<open>main\<close> is a function to its exit code, and
    what it sends is an argument; its source is assembled by evaluation, and its run is a symbolic execution of
    the abstract machine.

  \<^bold>\<open>What is shown.\<close>  State: every state machine stays well formed (counters, thresholds, FIFOs,
  addresses and delays in range) under every instruction, over any number of ticks, on a block and on
  a whole chip with DMA and callbacks, and under every sequence of API calls by the host and by device
  hooks; a cycle of one state machine touches no other.  Instructions: a
  stalled one changes nothing that a retry could change twice, and only its side-set takes effect; shifting loses no bits; autopush, PUSH and PULL
  move whole words in order; IRQ flags work as handshakes.  Time: the number of cycles of a divided
  clock is exact and an enabled machine runs in just those ticks; delays, the synchroniser and the run loops take the ticks they should.  Pins: who
  wins a pin; function selection, overrides and isolation act at once.  DMA: blocks are copied, no tick overruns or
  underruns a FIFO or changes one that is no endpoint of its transfer, a waiting channel is served within a bound, rings wrap, chains start,
  the two CRC formulations agree.  Clocks: frequencies are rounded to nearest and durations covered.
  Assembler: literals of up to 33 characters and expressions have their value and evaluation terminates; encoders and
  decoders agree; the passes agree on every address; no table or string outgrows its array; accepted
  programs are well formed and load exactly when they fit; rejected ones carry a message.
  Whole programs: a block with a single driver does tick by tick what the abstract machine does, and each
  example exits with 0 whatever it sends: the blink waveform, every echoed word, every UART byte,
  every pair of WS2812 pixels and every SPI message that DMA streams arrives unchanged on the pins.

  \<^bold>\<open>Fuel.\<close>  Loops are structural recursions or have a termination proof, but for three: the evaluator, which
  calls itself through parentheses and through the expressions of defines, runs on \<open>expr_fuel\<close>, one
  unit for every character of each of the 32 defines and of the line, and \<open>expressions_return\<close> shows
  that this is enough for every line and every table of defines that the assembler can hold
  (\<open>assembler_in_bounds\<close>) and that more changes nothing; \<open>::\<close> recurses at most to the depth
  limit of 64, and the loops of a tier at most once per character left, and their counters are set to
  that.

  \<^bold>\<open>Parameters.\<close>  The device hook of a block (\<open>on_tick\<close>), the completion callbacks of DMA channels and
  \<open>strtod\<close> of the C library are arguments of the model.  Nothing is assumed of \<open>strtod\<close>, but for the UART example that it
  reads \<open>2\<close> as 2; of the device hook
  and of callbacks, that they do not break the invariant in question or that they only make API calls,
  where a theorem says so.

  \<^bold>\<open>Where the code departs from its intent.\<close>  Executing an instruction out of band while a state
  machine waits in \<open>irq wait\<close> raises a flag again that was already cleared (\<open>sm_exec_rearms_irq_wait\<close>);
  the float divider is one step too large for odd fractions from 32768 on (\<open>clkdiv_float_tie\<close>); a binary
  literal of 32 digits loses its last digit (\<open>long_binary_literal_truncated\<close>); \<open>pio_asm_load_program\<close>
  writes past its buffer for a program of more than 32 instructions, which the assembler never makes
  (\<open>load_overruns\<close>, \<open>assembled_program_wf\<close>); and the input of an isolated pad reads 1, not 0 as
  \<open>lib/include/pio_gpio.h\<close> says, when INOVER is INVERT or HIGH (\<open>isolation_freezes_drive\<close>).

  \<^bold>\<open>Not modelled.\<close>  The tests, \<open>examples/06_chip_bus.c\<close> and the build files, which only call the library, the
  header \<open>pio.h\<close>, which only includes the others, and what the examples print.  Undefined behaviour that callers must avoid (null
  pointers, pointers to memory they do not own) has no counterpart in the model.
\<close>

end
